(* ===== verification/Prelude.thy ===== *)
theory Prelude
  imports Main "HOL-Library.Word" "HOL-Library.Monad_Syntax"
begin

text \<open>
  Shared vocabulary of the development. Machine integers are words of the C width. An object in
  memory is a list of bytes and a C pointer into it is an offset. Every load and store goes
  through the accessors below: the outer \<^typ>\<open>'a option\<close> of a modelled function is
  \<^term>\<open>None\<close> exactly when the C code would touch a byte outside the object it was given.
\<close>

unbundle bit_operations_syntax

section \<open>Types\<close>

type_synonym u8 = "8 word"
type_synonym u16 = "16 word"
type_synonym u32 = "32 word"
type_synonym u64 = "64 word"
type_synonym buf = "u8 list"

text \<open>Used with \<open>del: One_nat_def\<close> to keep small numbers of witnesses as numerals.\<close>

lemmas nat_lits = One_nat_def [symmetric]

named_theorems mem_simps \<open>evaluation of loads and stores at symbolic offsets\<close>

section \<open>Loads and stores\<close>

text \<open>\<open>rd b i\<close> is the C expression \<open>b[i]\<close>; \<open>rd_n\<close> and \<open>wr_n\<close> are the two sides of
  \<open>memcpy\<close>; \<open>mem_mv\<close> is \<open>memmove\<close> inside one object.\<close>

definition rd :: "buf \<Rightarrow> nat \<Rightarrow> u8 option" where
  "rd b i = (if i < length b then Some (b ! i) else None)"

definition rd_n :: "buf \<Rightarrow> nat \<Rightarrow> nat \<Rightarrow> buf option" where
  "rd_n b i n = (if i + n \<le> length b then Some (take n (drop i b)) else None)"

definition wr_n :: "buf \<Rightarrow> nat \<Rightarrow> buf \<Rightarrow> buf option" where
  "wr_n b i xs = (if i + length xs \<le> length b
     then Some (take i b @ xs @ drop (i + length xs) b) else None)"

definition wr :: "buf \<Rightarrow> nat \<Rightarrow> u8 \<Rightarrow> buf option" where
  "wr b i x = wr_n b i [x]"

definition mem_mv :: "buf \<Rightarrow> nat \<Rightarrow> nat \<Rightarrow> nat \<Rightarrow> buf option" where
  "mem_mv b dst src n = do { xs \<leftarrow> rd_n b src n; wr_n b dst xs }"

definition mem_eq :: "buf \<Rightarrow> nat \<Rightarrow> buf \<Rightarrow> bool option" where
  "mem_eq b i xs = map_option (\<lambda>ys. ys = xs) (rd_n b i (length xs))"

text \<open>\<open>RTW_GET_LE16\<close>, \<open>RTW_GET_BE16\<close>, \<open>RTW_GET_BE24\<close> and the stores of
  \<open>include/osdep_service.h\<close>.\<close>

definition RTW_GET_LE16 :: "buf \<Rightarrow> nat \<Rightarrow> u16 option" where
  "RTW_GET_LE16 b i = do { h \<leftarrow> rd b (i + 1); l \<leftarrow> rd b i;
     Some (push_bit 8 (ucast h) OR ucast l) }"

definition RTW_GET_BE16 :: "buf \<Rightarrow> nat \<Rightarrow> u16 option" where
  "RTW_GET_BE16 b i = do { h \<leftarrow> rd b i; l \<leftarrow> rd b (i + 1);
     Some (push_bit 8 (ucast h) OR ucast l) }"

definition RTW_GET_BE24 :: "buf \<Rightarrow> nat \<Rightarrow> u32 option" where
  "RTW_GET_BE24 b i = do { x \<leftarrow> rd b i; y \<leftarrow> rd b (i + 1); z \<leftarrow> rd b (i + 2);
     Some (push_bit 16 (ucast x) OR push_bit 8 (ucast y) OR ucast z) }"

definition le16_bytes :: "u16 \<Rightarrow> buf" where
  "le16_bytes v = [ucast (v AND 0xff), ucast (drop_bit 8 v)]"

definition be16_bytes :: "u16 \<Rightarrow> buf" where
  "be16_bytes v = [ucast (drop_bit 8 v), ucast (v AND 0xff)]"

definition le32_bytes :: "u32 \<Rightarrow> buf" where
  "le32_bytes v = map (\<lambda>j. ucast (drop_bit (8 * j) v)) [0, 1, 2, 3]"

text \<open>Unsigned 32-bit subtraction and addition on values kept as \<^typ>\<open>nat\<close>.\<close>

definition usub32 :: "nat \<Rightarrow> nat \<Rightarrow> nat" where
  "usub32 a b = nat ((int a - int b) mod 2 ^ 32)"

lemma usub32_le: "b \<le> a \<Longrightarrow> a < 2 ^ 32 \<Longrightarrow> usub32 a b = a - b"
  by (simp add: usub32_def flip: of_nat_diff)

definition uadd32 :: "nat \<Rightarrow> nat \<Rightarrow> nat" where
  "uadd32 a b = (a + b) mod 2 ^ 32"

lemma uadd32_small: "a + b < 2 ^ 32 \<Longrightarrow> uadd32 a b = a + b"
  by (simp add: uadd32_def)

text \<open>Conversion of a \<open>uint\<close> argument to a \<open>sint\<close> parameter.\<close>

definition to_s32 :: "nat \<Rightarrow> int" where
  "to_s32 n = sint (word_of_nat n :: u32)"

lemma to_s32_small: "n < 2 ^ 31 \<Longrightarrow> to_s32 n = int n"
  by (simp add: to_s32_def signed_of_nat signed_take_bit_int_eq_self)

section \<open>Evaluation lemmas\<close>

lemma rd_shift [mem_simps]: "rd (pre @ ys) (length pre + i) = rd ys i"
  by (simp add: rd_def nth_append)

lemma rd_at [mem_simps]: "rd (pre @ ys) (length pre) = rd ys 0"
  using rd_shift [of pre ys 0] by simp

lemma rd_at_Suc [mem_simps]:
  "rd (pre @ ys) (Suc (length pre)) = rd ys 1"
  "rd (pre @ ys) (Suc (Suc (length pre))) = rd ys 2"
  "rd (pre @ ys) (Suc (length pre + i)) = rd ys (Suc i)"
  using rd_shift [of pre ys 1] rd_shift [of pre ys 2] rd_shift [of pre ys "Suc i"] by simp_all

lemma rd_0 [mem_simps]: "rd (x # xs) 0 = Some x"
  by (simp add: rd_def)

lemma rd_Suc [mem_simps]: "rd (x # xs) (Suc i) = rd xs i"
  by (simp add: rd_def)

lemma rd_numeral [mem_simps]: "rd (x # xs) (numeral k) = rd xs (pred_numeral k)"
  by (simp add: rd_def numeral_eq_Suc)

lemma rd_Some: "i < length b \<Longrightarrow> rd b i = Some (b ! i)"
  by (simp add: rd_def)

lemma rd_None: "length b \<le> i \<Longrightarrow> rd b i = None"
  by (simp add: rd_def)

lemma rd_n_shift [mem_simps]: "rd_n (pre @ ys) (length pre + i) n = rd_n ys i n"
  by (simp add: rd_n_def)

lemma rd_n_at [mem_simps]: "rd_n (pre @ ys) (length pre) n = rd_n ys 0 n"
  using rd_n_shift [of pre ys 0] by simp

lemma rd_n_at_Suc [mem_simps]:
  "rd_n (pre @ ys) (Suc (length pre)) n = rd_n ys 1 n"
  "rd_n (pre @ ys) (Suc (Suc (length pre))) n = rd_n ys 2 n"
  using rd_n_shift [of pre ys 1 n] rd_n_shift [of pre ys 2 n] by simp_all

lemma rd_n_all [mem_simps]: "n = length xs \<Longrightarrow> rd_n (xs @ ys) 0 n = Some xs"
  by (simp add: rd_n_def)

lemma rd_n_0 [mem_simps]: "i \<le> length b \<Longrightarrow> rd_n b i 0 = Some []"
  by (simp add: rd_n_def)

lemma rd_n_Cons_Suc [mem_simps]: "rd_n (x # xs) (Suc i) n = rd_n xs i n"
  by (simp add: rd_n_def)

lemma rd_n_Cons_numeral [mem_simps]: "rd_n (x # xs) (numeral k) n = rd_n xs (pred_numeral k) n"
  by (simp add: rd_n_def numeral_eq_Suc)

lemma rd_n_mid: "rd_n (xs @ ys @ zs) (length xs) (length ys) = Some ys"
  by (simp add: rd_n_def)

lemma rd_n_append:
  assumes "rd_n b i (length xs + m) = Some (xs @ ys)"
  shows "rd_n b i (length xs) = Some xs" and "rd_n b (i + length xs) m = Some ys"
proof -
  from assms have le: "i + (length xs + m) \<le> length b" and eq: "take (length xs + m) (drop i b) = xs @ ys"
    by (auto simp: rd_n_def split: if_splits)
  have "take (length xs) (drop i b) = take (length xs) (take (length xs + m) (drop i b))" by simp
  with eq le show "rd_n b i (length xs) = Some xs" by (simp add: rd_n_def)
  have "take m (drop (i + length xs) b) = drop (length xs) (take (length xs + m) (drop i b))"
    by (simp add: drop_take add.commute)
  with eq le show "rd_n b (i + length xs) m = Some ys" by (simp add: rd_n_def)
qed

lemma rd_n_Some: "i + n \<le> length b \<Longrightarrow> rd_n b i n = Some (take n (drop i b))"
  by (simp add: rd_n_def)

lemma rd_n_length: "rd_n b i n = Some xs \<Longrightarrow> length xs = n"
  by (auto simp: rd_n_def split: if_splits)

lemma wr_n_shift [mem_simps]:
  "wr_n (pre @ ys) (length pre + i) xs = map_option ((@) pre) (wr_n ys i xs)"
  by (simp add: wr_n_def)

lemma wr_n_at [mem_simps]: "wr_n (pre @ ys) (length pre) xs = map_option ((@) pre) (wr_n ys 0 xs)"
  using wr_n_shift [of pre ys 0 xs] by simp

lemma wr_n_over [mem_simps]:
  "length xs = length old \<Longrightarrow> wr_n (old @ post) 0 xs = Some (xs @ post)"
  by (simp add: wr_n_def)

lemma wr_n_length: "wr_n b i xs = Some b' \<Longrightarrow> length b' = length b"
  by (auto simp: wr_n_def split: if_splits)

lemma wr_n_Some: "i + length xs \<le> length b \<Longrightarrow>
    wr_n b i xs = Some (take i b @ xs @ drop (i + length xs) b)"
  by (simp add: wr_n_def)

lemma mem_eq_shift [mem_simps]: "mem_eq (pre @ ys) (length pre + i) xs = mem_eq ys i xs"
  by (simp add: mem_eq_def rd_n_shift)

lemma mem_eq_Some: "i + length xs \<le> length b \<Longrightarrow>
    mem_eq b i xs = Some (take (length xs) (drop i b) = xs)"
  by (simp add: mem_eq_def rd_n_def)

text \<open>Stores at the end of a known prefix, the form in which the writers are used.\<close>

lemma wr_n_prefix: "length xs \<le> length ys \<Longrightarrow>
    wr_n (pre @ ys) (length pre) xs = Some (pre @ xs @ drop (length xs) ys)"
  by (simp add: wr_n_def)

lemma wr_prefix: "ys \<noteq> [] \<Longrightarrow> wr (pre @ ys) (length pre) x = Some (pre @ x # tl ys)"
  by (cases ys) (simp_all add: wr_def wr_n_def)

lemma mem_mv_down:
  "mem_mv (pre @ gap @ keep @ post) (length pre) (length pre + length gap) (length keep)
     = Some (pre @ keep @ drop (length keep) (gap @ keep @ post))"
  by (simp add: mem_mv_def rd_n_def wr_n_def)

section \<open>Two-byte integers\<close>

lemma unat_u8: "unat (x :: u8) < 256"
  using unsigned_less [of x, where 'a = nat] by simp

lemma unat_u16: "unat (x :: u16) < 65536"
  using unsigned_less [of x, where 'a = nat] by simp

lemma unat_of_nat_u8 [simp]: "n < 256 \<Longrightarrow> unat (word_of_nat n :: u8) = n"
  by (simp add: unat_of_nat)

lemma unat_of_nat_u16 [simp]: "n < 65536 \<Longrightarrow> unat (word_of_nat n :: u16) = n"
  by (simp add: unat_of_nat)

lemma u16_bytes_value:
  "unat (push_bit 8 (ucast (h :: u8)) OR ucast (l :: u8) :: u16) = 256 * unat h + unat l"
proof -
  have disj: "push_bit 8 (ucast h :: u16) AND ucast l = 0"
    by (rule bit_word_eqI) (auto simp: bit_simps dest: bit_imp_le_length)
  have "push_bit 8 (ucast h :: u16) OR ucast l = push_bit 8 (ucast h) + ucast l"
    using disj by (simp add: disjunctive_add_eq_or)
  also have "\<dots> = of_nat (256 * unat h + unat l)"
    by (simp add: push_bit_eq_mult)
  finally have "unat (push_bit 8 (ucast h :: u16) OR ucast l) = unat (of_nat (256 * unat h + unat l) :: u16)"
    by simp
  also have "\<dots> = 256 * unat h + unat l"
    using unat_u8 [of h] unat_u8 [of l] by (simp only: unat_of_nat) simp
  finally show ?thesis .
qed

lemma mask_ff: "(0xff :: u16) = mask 8"
  by (simp add: mask_eq_exp_minus_1)

lemma u16_split: "push_bit 8 (ucast (ucast (drop_bit 8 v) :: u8)) OR ucast (ucast (v AND 0xff) :: u8) = (v :: u16)"
  unfolding mask_ff by (rule bit_word_eqI) (auto simp: bit_simps)

lemma LE16_le16_bytes [mem_simps]: "RTW_GET_LE16 (le16_bytes v @ ys) 0 = Some v"
  by (simp add: RTW_GET_LE16_def le16_bytes_def mem_simps u16_split)

lemma BE16_be16_bytes [mem_simps]: "RTW_GET_BE16 (be16_bytes v @ ys) 0 = Some v"
  by (simp add: RTW_GET_BE16_def be16_bytes_def mem_simps u16_split)

lemma LE16_shift [mem_simps]: "RTW_GET_LE16 (pre @ ys) (length pre + i) = RTW_GET_LE16 ys i"
  using rd_shift [of pre ys "Suc i"] by (simp add: RTW_GET_LE16_def rd_shift)

lemma BE16_shift [mem_simps]: "RTW_GET_BE16 (pre @ ys) (length pre + i) = RTW_GET_BE16 ys i"
  using rd_shift [of pre ys "Suc i"] by (simp add: RTW_GET_BE16_def rd_shift)

lemma length_le16_bytes [simp]: "length (le16_bytes v) = 2"
  by (simp add: le16_bytes_def)

lemma length_be16_bytes [simp]: "length (be16_bytes v) = 2"
  by (simp add: be16_bytes_def)

lemma length_le32_bytes [simp]: "length (le32_bytes v) = 4"
  by (simp add: le32_bytes_def)

lemma LE16_Some: "i + 1 < length b \<Longrightarrow> \<exists>v. RTW_GET_LE16 b i = Some v"
  by (simp add: RTW_GET_LE16_def rd_def)

lemma BE16_Some: "i + 1 < length b \<Longrightarrow> \<exists>v. RTW_GET_BE16 b i = Some v"
  by (simp add: RTW_GET_BE16_def rd_def)

section \<open>Results that may be missing\<close>

text \<open>A property of the result, if there is one.\<close>

definition opt_post :: "('a \<Rightarrow> bool) \<Rightarrow> 'a option \<Rightarrow> bool" where
  "opt_post P m \<longleftrightarrow> (case m of None \<Rightarrow> True | Some x \<Rightarrow> P x)"

named_theorems opt_posts

lemma opt_post_rules [opt_posts]:
  "opt_post P None"
  "P x \<Longrightarrow> opt_post P (Some x)"
  "(c \<Longrightarrow> opt_post P m) \<Longrightarrow> (\<not> c \<Longrightarrow> opt_post P n) \<Longrightarrow> opt_post P (if c then m else n)"
  by (simp_all add: opt_post_def)

lemma opt_post_bind [opt_posts]: "(\<And>x. m = Some x \<Longrightarrow> opt_post P (f x)) \<Longrightarrow> opt_post P (m \<bind> f)"
  by (cases m) (simp_all add: opt_post_def)

lemma opt_post_case_option [opt_posts]:
  "(z = None \<Longrightarrow> opt_post P m) \<Longrightarrow> (\<And>x. z = Some x \<Longrightarrow> opt_post P (g x)) \<Longrightarrow> opt_post P (case z of None \<Rightarrow> m | Some x \<Rightarrow> g x)"
  by (cases z) simp_all

lemma opt_post_case_prod [opt_posts]: "(\<And>x y. p = (x, y) \<Longrightarrow> opt_post P (h x y)) \<Longrightarrow> opt_post P (case p of (x, y) \<Rightarrow> h x y)"
  by (cases p) simp

lemma opt_postD: "opt_post P m \<Longrightarrow> m = Some x \<Longrightarrow> P x"
  by (simp add: opt_post_def)

lemma opt_post_mono: "opt_post P m \<Longrightarrow> (\<And>x. P x \<Longrightarrow> Q x) \<Longrightarrow> opt_post Q m"
  by (simp add: opt_post_def split: option.splits)

end
