(* ===== verification/Tlv.thy ===== *)
theory Tlv
  imports Prelude
begin

text \<open>
  The interface between the element and attribute parsers of \<open>core/rtw_ieee80211.c\<close> and their
  clients. The driver walks at least six different tag-length-value formats with hand-written
  loops; each loop keeps a cursor, stops at a limit, returns at the first item that matches and
  otherwise skips the item. The locale states that contract for one loop and proves once what the
  clients use: on a buffer that holds a sequence of encoded items the loop finds the first match,
  at the offset where it was encoded.
\<close>

section \<open>Reference search over a sequence of items\<close>

fun tlv_find :: "('t \<Rightarrow> buf) \<Rightarrow> ('t \<Rightarrow> bool) \<Rightarrow> nat \<Rightarrow> 't list \<Rightarrow> (nat \<times> 't) option" where
  "tlv_find enc P off [] = None"
| "tlv_find enc P off (t # ts) =
     (if P t then Some (off, t) else tlv_find enc P (off + length (enc t)) ts)"

definition tlv_bytes :: "('t \<Rightarrow> buf) \<Rightarrow> 't list \<Rightarrow> buf" where
  "tlv_bytes enc ts = concat (map enc ts)"

lemma tlv_bytes_simps [simp]:
  "tlv_bytes enc [] = []"
  "tlv_bytes enc (t # ts) = enc t @ tlv_bytes enc ts"
  "tlv_bytes enc (ts @ us) = tlv_bytes enc ts @ tlv_bytes enc us"
  by (simp_all add: tlv_bytes_def)

lemma tlv_find_None: "tlv_find enc P off ts = None \<longleftrightarrow> (\<forall>t \<in> set ts. \<not> P t)"
  by (induction ts arbitrary: off) auto

lemma tlv_find_Some:
  "tlv_find enc P off ts = Some (k, t) \<Longrightarrow>
     \<exists>us vs. ts = us @ t # vs \<and> P t \<and> (\<forall>u \<in> set us. \<not> P u) \<and> k = off + length (tlv_bytes enc us)"
proof (induction ts arbitrary: off)
  case Nil
  then show ?case by simp
next
  case (Cons s ts)
  show ?case
  proof (cases "P s")
    case True
    with Cons.prems have "s # ts = [] @ t # ts \<and> P t \<and> k = off" by simp
    then show ?thesis by force
  next
    case False
    with Cons.prems Cons.IH [of "off + length (enc s)"] obtain us vs where
      "ts = us @ t # vs" "P t" "\<forall>u \<in> set us. \<not> P u" "k = off + length (enc s) + length (tlv_bytes enc us)"
      by auto
    with False have "s # ts = (s # us) @ t # vs \<and> P t \<and> (\<forall>u \<in> set (s # us). \<not> P u)
        \<and> k = off + length (tlv_bytes enc (s # us))" by simp
    then show ?thesis by blast
  qed
qed

lemma tlv_find_append:
  "(\<forall>u \<in> set us. \<not> P u) \<Longrightarrow> P t \<Longrightarrow>
     tlv_find enc P off (us @ t # vs) = Some (off + length (tlv_bytes enc us), t)"
  by (induction us arbitrary: off) (auto simp: add.assoc)

section \<open>The contract of a scanning loop\<close>

text \<open>\<open>scan b lim pos\<close> is the loop started with its cursor at \<open>pos\<close> and the limit
  \<open>lim\<close>; \<open>ok\<close> are the items the format can encode; \<open>bound\<close> the positions and limits it accepts.\<close>

locale tlv_scan =
  fixes enc :: "'t \<Rightarrow> buf"
    and ok :: "'t \<Rightarrow> bool"
    and matches :: "'t \<Rightarrow> bool"
    and bound :: "nat \<Rightarrow> nat \<Rightarrow> bool"
    and scan :: "buf \<Rightarrow> nat \<Rightarrow> nat \<Rightarrow> 'r"
    and found :: "nat \<Rightarrow> 't \<Rightarrow> 'r"
    and missing :: "'r"
  assumes bound_mono: "bound p lim \<Longrightarrow> p \<le> q \<Longrightarrow> bound q lim"
    and scan_end: "bound lim lim \<Longrightarrow> scan b lim lim = missing"
    and scan_hit: "bound (length pre) lim \<Longrightarrow> ok t \<Longrightarrow> matches t \<Longrightarrow> length pre + length (enc t) \<le> lim \<Longrightarrow>
      lim \<le> length pre + length (enc t) + length post \<Longrightarrow>
      scan (pre @ enc t @ post) lim (length pre) = found (length pre) t"
    and scan_skip: "bound (length pre) lim \<Longrightarrow> ok t \<Longrightarrow> \<not> matches t \<Longrightarrow> length pre + length (enc t) \<le> lim \<Longrightarrow>
      lim \<le> length pre + length (enc t) + length post \<Longrightarrow>
      scan (pre @ enc t @ post) lim (length pre)
        = scan (pre @ enc t @ post) lim (length pre + length (enc t))"
begin

definition result :: "(nat \<times> 't) option \<Rightarrow> 'r" where
  "result r = (case r of None \<Rightarrow> missing | Some (k, t) \<Rightarrow> found k t)"

lemma scan_items:
  assumes "bound (length pre) (length pre + length (tlv_bytes enc ts))" and "list_all ok ts"
  shows "scan (pre @ tlv_bytes enc ts @ post) (length pre + length (tlv_bytes enc ts)) (length pre)
     = result (tlv_find enc matches (length pre) ts)"
  using assms
proof (induction ts arbitrary: pre)
  case Nil
  then show ?case by (simp add: scan_end result_def)
next
  case (Cons t ts)
  let ?lim = "length pre + length (tlv_bytes enc (t # ts))"
  let ?rest = "tlv_bytes enc ts @ post"
  from Cons.prems have okt: "ok t" and oks: "list_all ok ts" and bd: "bound (length pre) ?lim" by simp_all
  show ?case
  proof (cases "matches t")
    case True
    have "scan (pre @ enc t @ ?rest) ?lim (length pre) = found (length pre) t"
      by (rule scan_hit [OF bd okt True]) simp_all
    with True show ?thesis by (simp add: result_def)
  next
    case False
    have "scan (pre @ enc t @ ?rest) ?lim (length pre)
        = scan (pre @ enc t @ ?rest) ?lim (length pre + length (enc t))"
      by (rule scan_skip [OF bd okt False]) simp_all
    also have "\<dots> = result (tlv_find enc matches (length (pre @ enc t)) ts)"
      using Cons.IH [of "pre @ enc t"] bound_mono [OF bd, of "length (pre @ enc t)"] oks by (simp add: add.assoc)
    finally show ?thesis using False by simp
  qed
qed

lemma scan_first:
  assumes "bound (length pre) (length pre + length (tlv_bytes enc (us @ t # vs)))" and "list_all ok (us @ t # vs)"
    and "\<forall>u \<in> set us. \<not> matches u" and "matches t"
  shows "scan (pre @ tlv_bytes enc (us @ t # vs) @ post)
      (length pre + length (tlv_bytes enc (us @ t # vs))) (length pre)
     = found (length pre + length (tlv_bytes enc us)) t"
  using scan_items [OF assms(1,2)] assms(3,4) by (simp add: tlv_find_append result_def)

lemma scan_none:
  assumes "bound (length pre) (length pre + length (tlv_bytes enc ts))" and "list_all ok ts"
    and "\<forall>u \<in> set ts. \<not> matches u"
  shows "scan (pre @ tlv_bytes enc ts @ post) (length pre + length (tlv_bytes enc ts)) (length pre) = missing"
proof -
  have "tlv_find enc matches (length pre) ts = None"
    using assms(3) by (simp add: tlv_find_None)
  with scan_items [OF assms(1,2)] show ?thesis by (simp add: result_def)
qed

end

end
