(* ===== verification/Ie.thy ===== *)
theory Ie
  imports Tlv
begin

text \<open>
  Information elements: the writers and searchers of \<open>core/rtw_ieee80211.c\<close> that the rest of
  the driver uses to build and edit management frames (\<open>rtw_set_ie\<close>, \<open>rtw_get_ie\<close>,
  \<open>rtw_get_ie_ex\<close>, \<open>rtw_ies_update_ie\<close>, \<open>rtw_ies_update_ie_ex\<close>, \<open>rtw_ies_add_ie\<close>,
  \<open>rtw_ies_remove_ie\<close>). The lemmas relate each of them to an operation on the list of
  elements a well-formed buffer encodes.
\<close>

section \<open>Constants\<close>

definition WLAN_EID_CHANNEL_SWITCH :: int where "WLAN_EID_CHANNEL_SWITCH = 37"
definition WLAN_EID_SECONDARY_CHANNEL_OFFSET :: int where "WLAN_EID_SECONDARY_CHANNEL_OFFSET = 62"
definition WLAN_EID_EXTENSION :: u8 where "WLAN_EID_EXTENSION = 255"

definition SCN :: u8 where "SCN = 0"
definition SCA :: u8 where "SCA = 1"
definition SCB :: u8 where "SCB = 3"
definition HAL_PRIME_CHNL_OFFSET_DONT_CARE :: u8 where "HAL_PRIME_CHNL_OFFSET_DONT_CARE = 0"
definition HAL_PRIME_CHNL_OFFSET_LOWER :: u8 where "HAL_PRIME_CHNL_OFFSET_LOWER = 1"
definition HAL_PRIME_CHNL_OFFSET_UPPER :: u8 where "HAL_PRIME_CHNL_OFFSET_UPPER = 2"

lemmas ch_offset_defs = SCN_def SCA_def SCB_def HAL_PRIME_CHNL_OFFSET_DONT_CARE_def
  HAL_PRIME_CHNL_OFFSET_LOWER_def HAL_PRIME_CHNL_OFFSET_UPPER_def

section \<open>Writers\<close>

text \<open>Each writer returns the buffer, the advanced write pointer and the frame length.\<close>

definition rtw_set_fixed_ie :: "buf \<Rightarrow> nat \<Rightarrow> nat \<Rightarrow> buf \<Rightarrow> nat \<Rightarrow> (buf \<times> nat \<times> nat) option" where
  "rtw_set_fixed_ie b pbuf len source frlen = do {
     xs \<leftarrow> rd_n source 0 len;
     b \<leftarrow> wr_n b pbuf xs;
     Some (b, pbuf + len, uadd32 frlen len) }"

definition rtw_set_ie :: "buf \<Rightarrow> nat \<Rightarrow> int \<Rightarrow> nat \<Rightarrow> buf \<Rightarrow> nat option \<Rightarrow> (buf \<times> nat \<times> nat option) option" where
  "rtw_set_ie b pbuf index len source frlen = do {
     b \<leftarrow> wr b pbuf (word_of_int index);
     b \<leftarrow> wr b (pbuf + 1) (word_of_nat len);
     b \<leftarrow> (if len > 0 then do { xs \<leftarrow> rd_n source 0 len; wr_n b (pbuf + 2) xs } else Some b);
     Some (b, pbuf + len + 2, map_option (\<lambda>f. uadd32 f (len + 2)) frlen) }"

definition rtw_set_ie_ch_switch :: "buf \<Rightarrow> nat \<Rightarrow> nat option \<Rightarrow> u8 \<Rightarrow> u8 \<Rightarrow> u8 \<Rightarrow> (buf \<times> nat \<times> nat option) option" where
  "rtw_set_ie_ch_switch b buf buf_len ch_switch_mode new_ch ch_switch_cnt =
     rtw_set_ie b buf WLAN_EID_CHANNEL_SWITCH 3 [ch_switch_mode, new_ch, ch_switch_cnt] buf_len"

definition secondary_ch_offset_to_hal_ch_offset :: "u8 \<Rightarrow> u8" where
  "secondary_ch_offset_to_hal_ch_offset ch_offset =
     (if ch_offset = SCN then HAL_PRIME_CHNL_OFFSET_DONT_CARE
      else if ch_offset = SCA then HAL_PRIME_CHNL_OFFSET_LOWER
      else if ch_offset = SCB then HAL_PRIME_CHNL_OFFSET_UPPER
      else HAL_PRIME_CHNL_OFFSET_DONT_CARE)"

definition hal_ch_offset_to_secondary_ch_offset :: "u8 \<Rightarrow> u8" where
  "hal_ch_offset_to_secondary_ch_offset ch_offset =
     (if ch_offset = HAL_PRIME_CHNL_OFFSET_DONT_CARE then SCN
      else if ch_offset = HAL_PRIME_CHNL_OFFSET_LOWER then SCA
      else if ch_offset = HAL_PRIME_CHNL_OFFSET_UPPER then SCB
      else SCN)"

definition rtw_set_ie_secondary_ch_offset :: "buf \<Rightarrow> nat \<Rightarrow> nat option \<Rightarrow> u8 \<Rightarrow> (buf \<times> nat \<times> nat option) option" where
  "rtw_set_ie_secondary_ch_offset b buf buf_len secondary_ch_offset =
     rtw_set_ie b buf WLAN_EID_SECONDARY_CHANNEL_OFFSET 1 [secondary_ch_offset] buf_len"

definition rtw_set_ie_mesh_ch_switch_parm ::
  "buf \<Rightarrow> nat \<Rightarrow> nat option \<Rightarrow> u8 \<Rightarrow> u8 \<Rightarrow> u16 \<Rightarrow> u16 \<Rightarrow> (buf \<times> nat \<times> nat option) option" where
  "rtw_set_ie_mesh_ch_switch_parm b buf buf_len ttl flags reason precedence =
     rtw_set_ie b buf 0x118 6 ([ttl, flags] @ le16_bytes reason @ le16_bytes precedence) buf_len"

section \<open>Searchers\<close>

text \<open>
  \<open>rtw_get_ie\<close> returns the pointer (\<^term>\<open>None\<close> for \<open>NULL\<close>) and the value of \<open>*len\<close>,
  which starts as \<open>len0\<close> and is left alone when \<open>limit < 1\<close>.
\<close>

lemma cursor_measure:
  "\<not> limit \<le> int (i + m + 2) \<Longrightarrow> nat (limit - int (i + m + 2)) < nat (limit - int i)"
  by linarith

function rtw_get_ie_loop :: "buf \<Rightarrow> nat \<Rightarrow> nat \<Rightarrow> int \<Rightarrow> int \<Rightarrow> (nat option \<times> nat) option" where
  "rtw_get_ie_loop b p i index limit =
     (case rd b p of None \<Rightarrow> None
      | Some x \<Rightarrow> (case rd b (p + 1) of None \<Rightarrow> None
      | Some tmp \<Rightarrow>
          if uint x = index then Some (Some p, unat tmp)
          else if int (i + unat tmp + 2) \<ge> limit then Some (None, 0)
          else rtw_get_ie_loop b (p + unat tmp + 2) (i + unat tmp + 2) index limit))"
  by pat_completeness auto
termination
  by (relation "measure (\<lambda>(b, p, i, index, limit). nat (limit - int i))")
    (simp_all only: wf_measure in_measure prod.case cursor_measure)

declare rtw_get_ie_loop.simps [simp del]

definition rtw_get_ie :: "buf \<Rightarrow> nat \<Rightarrow> int \<Rightarrow> nat \<Rightarrow> int \<Rightarrow> (nat option \<times> nat) option" where
  "rtw_get_ie b pbuf index len0 limit =
     (if limit < 1 then Some (None, len0) else rtw_get_ie_loop b pbuf 0 index limit)"

text \<open>
  \<open>rtw_get_ie_ex\<close> returns the pointer, the bytes it copies to \<open>ie\<close> (when \<open>ie\<close> is not
  \<open>NULL\<close> and a match is found) and \<open>*ielen\<close>.
\<close>

function rtw_get_ie_ex_loop ::
  "buf \<Rightarrow> nat \<Rightarrow> nat \<Rightarrow> nat \<Rightarrow> u8 \<Rightarrow> buf option \<Rightarrow> nat \<Rightarrow> bool \<Rightarrow> (nat option \<times> buf option \<times> nat) option" where
  "rtw_get_ie_ex_loop b in_ie in_len cnt eid oui oui_len ie =
     (if cnt < in_len then
        (case rd b (in_ie + cnt) of None \<Rightarrow> None
         | Some x \<Rightarrow>
        (case (if eid = x then (case oui of None \<Rightarrow> Some True
                 | Some o' \<Rightarrow> do { os \<leftarrow> rd_n o' 0 oui_len; mem_eq b (in_ie + cnt + 2) os }) else Some False) of
           None \<Rightarrow> None
         | Some True \<Rightarrow> do {
             l \<leftarrow> rd b (in_ie + cnt + 1);
             copy \<leftarrow> (if ie then map_option Some (rd_n b (in_ie + cnt) (unat l + 2)) else Some None);
             Some (Some (in_ie + cnt), copy, unat l + 2) }
         | Some False \<Rightarrow>
        (case rd b (in_ie + cnt + 1) of None \<Rightarrow> None
         | Some l \<Rightarrow> rtw_get_ie_ex_loop b in_ie in_len (cnt + unat l + 2) eid oui oui_len ie)))
      else Some (None, None, 0))"
  by pat_completeness auto
termination
  by (relation "measure (\<lambda>(b, in_ie, in_len, cnt, eid, oui, oui_len, ie). in_len - cnt)") auto

declare rtw_get_ie_ex_loop.simps [simp del]

definition rtw_get_ie_ex ::
  "buf \<Rightarrow> nat option \<Rightarrow> nat \<Rightarrow> u8 \<Rightarrow> buf option \<Rightarrow> nat \<Rightarrow> bool \<Rightarrow> (nat option \<times> buf option \<times> nat) option" where
  "rtw_get_ie_ex b in_ie in_len eid oui oui_len ie =
     (case in_ie of None \<Rightarrow> Some (None, None, 0)
      | Some p \<Rightarrow> if in_len \<le> 0 then Some (None, None, 0)
                 else rtw_get_ie_ex_loop b p in_len 0 eid oui oui_len ie)"

section \<open>Editing a series of elements in place\<close>

text \<open>
  The object holding the elements is \<open>ies\<close> (\<^term>\<open>None\<close> for a null pointer), \<open>ies_len\<close> is
  \<open>*ies_len\<close>; the result is (success, object, new length). \<open>malloc_ok\<close> is whether
  \<open>rtw_malloc\<close> gives memory.
\<close>

definition rtw_ies_update_ie ::
  "bool \<Rightarrow> buf option \<Rightarrow> nat \<Rightarrow> nat \<Rightarrow> u8 \<Rightarrow> buf \<Rightarrow> u8 \<Rightarrow> (bool \<times> buf option \<times> nat) option" where
  "rtw_ies_update_ie malloc_ok ies ies_len ies_offset eid content content_len =
     (case ies of None \<Rightarrow> Some (False, None, ies_len) | Some b \<Rightarrow>
      if ies_len = 0 \<or> ies_len \<le> ies_offset then Some (False, ies, ies_len)
      else do {
        let search_len = ies_len - ies_offset;
        (target_ie, target_ielen) \<leftarrow> rtw_get_ie b ies_offset (uint eid) 0 (to_s32 search_len);
        (case target_ie of None \<Rightarrow> Some (False, ies, ies_len) | Some t \<Rightarrow>
         if target_ielen = 0 then Some (False, ies, ies_len)
         else if target_ielen \<noteq> unat content_len then do {
           let remain_ies = t + 2 + target_ielen;
           let remain_len = usub32 search_len (remain_ies - ies_offset);
           if \<not> malloc_ok then Some (False, ies, ies_len) else do {
             backup \<leftarrow> rd_n b remain_ies remain_len;
             c \<leftarrow> rd_n content 0 (unat content_len);
             b \<leftarrow> wr_n b (t + 2) c;
             b \<leftarrow> wr b (t + 1) content_len;
             b \<leftarrow> wr_n b (t + 2 + unat content_len) backup;
             Some (True, Some b, nat ((int ies_len + (int (unat content_len) - int target_ielen)) mod 2 ^ 32)) } }
         else do {
           c \<leftarrow> rd_n content 0 (unat content_len);
           b \<leftarrow> wr_n b (t + 2) c;
           b \<leftarrow> wr b (t + 1) content_len;
           Some (True, Some b, ies_len) }) })"

definition rtw_ies_update_ie_ex ::
  "bool \<Rightarrow> buf option \<Rightarrow> nat \<Rightarrow> nat \<Rightarrow> u8 \<Rightarrow> buf \<Rightarrow> u8 \<Rightarrow> (bool \<times> buf option \<times> nat) option" where
  "rtw_ies_update_ie_ex malloc_ok ies ies_len ies_offset eid_ex content content_len =
     (case ies of None \<Rightarrow> Some (False, None, ies_len) | Some b \<Rightarrow>
      if ies_len = 0 \<or> ies_len \<le> ies_offset then Some (False, ies, ies_len)
      else do {
        let search_len = ies_len - ies_offset;
        (target_ie, _, target_ielen) \<leftarrow>
          rtw_get_ie_ex b (Some ies_offset) search_len WLAN_EID_EXTENSION (Some [eid_ex]) 1 False;
        (case target_ie of None \<Rightarrow> Some (False, ies, ies_len) | Some t \<Rightarrow>
         if target_ielen = 0 then Some (False, ies, ies_len)
         else if target_ielen \<noteq> unat content_len then do {
           let remain_ies = t + target_ielen;
           let remain_len = usub32 search_len (remain_ies - ies_offset);
           if \<not> malloc_ok then Some (False, ies, ies_len) else do {
             backup \<leftarrow> rd_n b remain_ies remain_len;
             c \<leftarrow> rd_n content 0 (unat content_len);
             b \<leftarrow> wr_n b t c;
             b \<leftarrow> wr b (t + 1) (content_len - 2);
             b \<leftarrow> wr_n b (t + unat content_len) backup;
             Some (True, Some b, nat ((int ies_len + (int (unat content_len) - int target_ielen)) mod 2 ^ 32)) } }
         else do {
           c \<leftarrow> rd_n content 0 (unat content_len);
           b \<leftarrow> wr_n b t c;
           b \<leftarrow> wr b (t + 1) (content_len - 2);
           Some (True, Some b, ies_len) }) })"

text \<open>The search loop of \<open>rtw_ies_add_ie\<close> returns (\<open>dst_ie\<close>, \<open>pcurrent\<close>).\<close>

function rtw_ies_add_ie_loop :: "buf \<Rightarrow> nat \<Rightarrow> nat \<Rightarrow> u8 \<Rightarrow> nat \<Rightarrow> nat \<Rightarrow> (nat \<times> nat) option" where
  "rtw_ies_add_ie_loop b pstart search_len eid pcurrent dst_ie =
     (if pcurrent \<le> pstart + search_len then
        if pcurrent = pstart + search_len then Some (pcurrent, pcurrent)
        else (case rd b pcurrent of None \<Rightarrow> None | Some e \<Rightarrow>
          if e > eid then Some (pcurrent, pcurrent)
          else (case rd b (pcurrent + 1) of None \<Rightarrow> None | Some l \<Rightarrow>
            if e = eid then Some (pcurrent, pcurrent + unat l + 2)
            else rtw_ies_add_ie_loop b pstart search_len eid (pcurrent + unat l + 2) pcurrent))
      else Some (dst_ie, pcurrent))"
  by pat_completeness auto
termination
  by (relation "measure (\<lambda>(b, pstart, search_len, eid, pcurrent, dst). Suc (pstart + search_len) - pcurrent)") auto

declare rtw_ies_add_ie_loop.simps [simp del]

definition rtw_ies_add_ie ::
  "bool \<Rightarrow> buf option \<Rightarrow> nat \<Rightarrow> nat \<Rightarrow> u8 \<Rightarrow> buf \<Rightarrow> u8 \<Rightarrow> (bool \<times> buf option \<times> nat) option" where
  "rtw_ies_add_ie malloc_ok ies ies_len ies_offset eid content content_len =
     (case ies of None \<Rightarrow> Some (False, None, ies_len) | Some b \<Rightarrow>
      if ies_len = 0 \<or> ies_len \<le> ies_offset then Some (False, ies, ies_len)
      else do {
        let search_len = ies_len - ies_offset;
        (dst_ie, pcurrent) \<leftarrow> rtw_ies_add_ie_loop b ies_offset search_len eid ies_offset ies_offset;
        let remainder_ielen = usub32 ies_len pcurrent;
        backup \<leftarrow> (if remainder_ielen > 0
          then (if malloc_ok then map_option Some (rd_n b pcurrent remainder_ielen) else None)
          else Some None);
        b \<leftarrow> wr b dst_ie eid;
        b \<leftarrow> wr b (dst_ie + 1) content_len;
        c \<leftarrow> rd_n content 0 (unat content_len);
        b \<leftarrow> wr_n b (dst_ie + 2) c;
        let dst = dst_ie + 2 + unat content_len;
        b \<leftarrow> (case backup of None \<Rightarrow> Some b | Some r \<Rightarrow> wr_n b dst r);
        Some (True, Some b, uadd32 dst remainder_ielen) })"

text \<open>The loop of \<open>rtw_ies_remove_ie\<close> carries (\<open>start\<close>, \<open>search_len\<close>, \<open>*ies_len\<close>, \<open>ret\<close>).
  An element that claims more bytes than remain makes \<open>remain_len\<close> wrap around, and the
  \<open>memmove\<close> then leaves the object. The model is a \<open>partial_function\<close>: it has a value
  exactly when the loop returns.\<close>

partial_function (option) rtw_ies_remove_ie_loop ::
  "buf \<Rightarrow> nat \<Rightarrow> nat \<Rightarrow> nat \<Rightarrow> u8 \<Rightarrow> buf option \<Rightarrow> nat \<Rightarrow> bool \<Rightarrow> (bool \<times> buf \<times> nat) option" where
  "rtw_ies_remove_ie_loop b start search_len ies_len eid oui oui_len ret = do {
     (target_ie, copied, target_ielen) \<leftarrow> rtw_get_ie_ex b (Some start) search_len eid oui oui_len False;
     (case target_ie of None \<Rightarrow> Some (ret, b, ies_len) | Some t \<Rightarrow>
      if target_ielen = 0 then Some (ret, b, ies_len)
      else do {
        let remain_ies = t + target_ielen;
        let remain_len = usub32 search_len (remain_ies - start);
        b' \<leftarrow> mem_mv b t remain_ies remain_len;
        rtw_ies_remove_ie_loop b' t remain_len (usub32 ies_len target_ielen) eid oui oui_len True }) }"

definition rtw_ies_remove_ie ::
  "buf option \<Rightarrow> nat option \<Rightarrow> nat \<Rightarrow> u8 \<Rightarrow> buf option \<Rightarrow> nat \<Rightarrow> (bool \<times> buf option \<times> nat option) option" where
  "rtw_ies_remove_ie ies ies_len offset eid oui oui_len =
     (case (ies, ies_len) of
        (Some b, Some n) \<Rightarrow>
          if n \<le> offset then Some (False, ies, ies_len)
          else do {
            (ret, b, n) \<leftarrow> rtw_ies_remove_ie_loop b offset (n - offset) n eid oui oui_len False;
            Some (ret, Some b, Some n) }
      | _ \<Rightarrow> Some (False, ies, ies_len))"

section \<open>Well-formed buffers\<close>

text \<open>An element is its identifier and its payload of at most 255 bytes.\<close>

type_synonym ie = "u8 \<times> buf"

definition enc_ie :: "ie \<Rightarrow> buf" where
  "enc_ie t = fst t # word_of_nat (length (snd t)) # snd t"

definition ie_ok :: "ie \<Rightarrow> bool" where
  "ie_ok t \<longleftrightarrow> length (snd t) < 256"

abbreviation ies_bytes :: "ie list \<Rightarrow> buf" where
  "ies_bytes \<equiv> tlv_bytes enc_ie"

lemma length_enc_ie [simp]: "length (enc_ie t) = length (snd t) + 2"
  by (simp add: enc_ie_def)

lemma rd_enc_ie [mem_simps]:
  "rd (enc_ie t @ post) 0 = Some (fst t)"
  "rd (enc_ie t @ post) (Suc 0) = Some (word_of_nat (length (snd t)))"
  "rd_n (enc_ie t @ post) 2 (length (snd t)) = Some (snd t)"
  by (simp_all add: enc_ie_def mem_simps)

lemma rtw_get_ie_loop_move:
  "rtw_get_ie_loop b p (i + k) index (limit + int k) = rtw_get_ie_loop b p i index limit"
proof (induction b p i index limit rule: rtw_get_ie_loop.induct)
  case (1 b p i index limit)
  have IH: "rtw_get_ie_loop b (Suc (Suc (p + unat tmp))) (Suc (Suc (i + (k + unat tmp)))) index (limit + int k)
      = rtw_get_ie_loop b (Suc (Suc (p + unat tmp))) (Suc (Suc (i + unat tmp))) index limit"
    if "rd b p = Some x" "rd b (Suc p) = Some tmp" "uint x \<noteq> index"
      "\<not> limit \<le> int i + (uint tmp + 2)" for x tmp
    using "1.IH" [of x tmp] that by (simp add: ac_simps)
  show ?case
    by (subst (1 2) rtw_get_ie_loop.simps) (auto simp: ac_simps IH split: option.split)
qed

lemma rtw_get_ie_loop_shift:
  "rtw_get_ie_loop b p i index limit = rtw_get_ie_loop b p 0 index (limit - int i)"
  using rtw_get_ie_loop_move [of b p 0 i index "limit - int i"] by simp

definition ie_ex_hit :: "buf \<Rightarrow> nat \<Rightarrow> u8 \<Rightarrow> buf option \<Rightarrow> nat \<Rightarrow> bool option" where
  "ie_ex_hit b p eid oui oui_len = do { x \<leftarrow> rd b p;
     if eid = x then (case oui of None \<Rightarrow> Some True
       | Some o' \<Rightarrow> do { os \<leftarrow> rd_n o' 0 oui_len; mem_eq b (p + 2) os }) else Some False }"

lemma rtw_get_ie_ex_loop_unfold:
  "rtw_get_ie_ex_loop b p n cnt eid oui oui_len ie =
     (if cnt < n then do {
        h \<leftarrow> ie_ex_hit b (p + cnt) eid oui oui_len;
        l \<leftarrow> rd b (p + cnt + 1);
        if h then do {
          copy \<leftarrow> (if ie then map_option Some (rd_n b (p + cnt) (unat l + 2)) else Some None);
          Some (Some (p + cnt), copy, unat l + 2) }
        else rtw_get_ie_ex_loop b p n (cnt + unat l + 2) eid oui oui_len ie }
      else Some (None, None, 0))"
  by (subst rtw_get_ie_ex_loop.simps)
    (auto simp: ie_ex_hit_def split: option.split bool.split)

lemma rtw_get_ie_ex_loop_move:
  "rtw_get_ie_ex_loop b p (n + k) (cnt + k) eid oui oui_len ie
     = rtw_get_ie_ex_loop b (p + k) n cnt eid oui oui_len ie"
proof (induction "n - cnt" arbitrary: cnt rule: less_induct)
  case less
  have IH: "rtw_get_ie_ex_loop b p (k + n) (Suc (Suc (cnt + (k + m)))) eid oui oui_len ie
     = rtw_get_ie_ex_loop b (k + p) n (Suc (Suc (cnt + m))) eid oui oui_len ie" if "cnt < n" for m
    using less [of "cnt + m + 2"] that by (simp add: ac_simps)
  show ?case
    by (subst (1 2) rtw_get_ie_ex_loop_unfold) (simp add: IH ac_simps cong: if_cong)
qed

section \<open>The searchers implement the scanning contract\<close>

definition get_ie_scan :: "int \<Rightarrow> buf \<Rightarrow> nat \<Rightarrow> nat \<Rightarrow> (nat option \<times> nat) option" where
  "get_ie_scan index b lim pos =
     (if pos < lim then rtw_get_ie_loop b pos 0 index (int (lim - pos)) else Some (None, 0))"

interpretation get_ie: tlv_scan enc_ie ie_ok "\<lambda>t. uint (fst t) = index" "\<lambda>_ _. True"
  "get_ie_scan index" "\<lambda>k t. Some (Some k, length (snd t))" "Some (None, 0)"
  for index :: int
proof
  fix lim :: nat and pre post :: buf and t :: ie
  assume ok: "ie_ok t" and lim: "length pre + length (enc_ie t) \<le> lim"
    "lim \<le> length pre + length (enc_ie t) + length post"
  let ?b = "pre @ enc_ie t @ post"
  from ok have n: "unat (word_of_nat (length (snd t)) :: u8) = length (snd t)"
    by (simp add: ie_ok_def)
  { assume "uint (fst t) = index"
    with lim n show "get_ie_scan index ?b lim (length pre) = Some (Some (length pre), length (snd t))"
      by (simp add: get_ie_scan_def rtw_get_ie_loop.simps [of ?b "length pre"] mem_simps) }
  { assume miss: "uint (fst t) \<noteq> index"
    show "get_ie_scan index ?b lim (length pre) = get_ie_scan index ?b lim (length pre + length (enc_ie t))"
      using miss lim n
        rtw_get_ie_loop_shift [of ?b "length pre + length (enc_ie t)" "length (enc_ie t)" index
          "int (lim - length pre)"]
      by (simp add: get_ie_scan_def rtw_get_ie_loop.simps [of ?b "length pre"] mem_simps of_nat_diff
          algebra_simps) }
qed (simp_all add: get_ie_scan_def)

lemma rtw_get_ie_scan:
  "pbuf < lim \<Longrightarrow> rtw_get_ie b pbuf index len0 (int (lim - pbuf)) = get_ie_scan index b lim pbuf"
  by (simp add: rtw_get_ie_def get_ie_scan_def)

text \<open>
  \<open>rtw_get_ie_ex\<close> with an OUI: the driver compares \<open>oui_len\<close> bytes after the header whatever
  the length of the element, so the contract is stated for buffers whose elements with the wanted
  identifier are long enough.
\<close>

definition ie_ex_ok :: "u8 \<Rightarrow> nat \<Rightarrow> ie \<Rightarrow> bool" where
  "ie_ex_ok eid oui_len t \<longleftrightarrow> ie_ok t \<and> (fst t = eid \<longrightarrow> oui_len \<le> length (snd t))"

definition ie_ex_match :: "u8 \<Rightarrow> buf option \<Rightarrow> ie \<Rightarrow> bool" where
  "ie_ex_match eid oui t \<longleftrightarrow> fst t = eid \<and>
     (case oui of None \<Rightarrow> True | Some o' \<Rightarrow> take (length o') (snd t) = o')"

definition get_ie_ex_scan ::
  "u8 \<Rightarrow> buf option \<Rightarrow> nat \<Rightarrow> buf \<Rightarrow> nat \<Rightarrow> nat \<Rightarrow> (nat option \<times> buf option \<times> nat) option" where
  "get_ie_ex_scan eid oui oui_len b lim pos = rtw_get_ie_ex_loop b pos (lim - pos) 0 eid oui oui_len False"

definition oui_ok :: "buf option \<Rightarrow> nat \<Rightarrow> bool" where
  "oui_ok oui oui_len \<longleftrightarrow> (case oui of None \<Rightarrow> oui_len = 0 | Some o' \<Rightarrow> length o' = oui_len)"

lemma ie_ex_hit_enc:
  assumes "ie_ex_ok eid oui_len t" and "oui_ok oui oui_len"
  shows "ie_ex_hit (pre @ enc_ie t @ post) (length pre) eid oui oui_len = Some (ie_ex_match eid oui t)"
proof (cases oui)
  case None
  then show ?thesis by (simp add: ie_ex_hit_def ie_ex_match_def mem_simps)
next
  case (Some o')
  with assms have len: "length o' = oui_len" "fst t = eid \<Longrightarrow> length o' \<le> length (snd t)"
    by (auto simp: oui_ok_def ie_ex_ok_def)
  have "mem_eq (pre @ enc_ie t @ post) (length pre + 2) o' = Some (take (length o') (snd t) = o')"
    if "fst t = eid"
    using len(2) [OF that] unfolding mem_eq_shift by (simp add: mem_eq_def rd_n_def enc_ie_def)
  with Some len(1) show ?thesis
    by (auto simp: ie_ex_hit_def ie_ex_match_def mem_simps rd_n_def)
qed

interpretation get_ie_ex: tlv_scan enc_ie "\<lambda>t. ie_ex_ok eid oui_len t \<and> oui_ok oui oui_len"
  "ie_ex_match eid oui" "\<lambda>_ _. True" "get_ie_ex_scan eid oui oui_len"
  "\<lambda>k t. Some (Some k, None, length (snd t) + 2)" "Some (None, None, 0)"
  for eid :: u8 and oui :: "buf option" and oui_len :: nat
proof
  fix lim :: nat and pre post :: buf and t :: ie
  assume ok: "ie_ex_ok eid oui_len t \<and> oui_ok oui oui_len"
    and lim: "length pre + length (enc_ie t) \<le> lim"
  let ?b = "pre @ enc_ie t @ post"
  note hit = ie_ex_hit_enc [OF conjunct1 [OF ok] conjunct2 [OF ok], of pre post]
  from ok have n: "unat (word_of_nat (length (snd t)) :: u8) = length (snd t)"
    by (simp add: ie_ex_ok_def ie_ok_def)
  { assume "ie_ex_match eid oui t"
    with lim n hit show "get_ie_ex_scan eid oui oui_len ?b lim (length pre)
        = Some (Some (length pre), None, length (snd t) + 2)"
      by (simp add: get_ie_ex_scan_def rtw_get_ie_ex_loop_unfold [of ?b "length pre"] mem_simps) }
  { assume "\<not> ie_ex_match eid oui t"
    with lim n hit show "get_ie_ex_scan eid oui oui_len ?b lim (length pre)
        = get_ie_ex_scan eid oui oui_len ?b lim (length pre + length (enc_ie t))"
      using rtw_get_ie_ex_loop_move [of ?b "length pre" "lim - (length pre + length (enc_ie t))"
          "length (enc_ie t)" 0 eid oui oui_len False]
      by (simp add: get_ie_ex_scan_def rtw_get_ie_ex_loop_unfold [of ?b "length pre"] mem_simps
          Suc_diff_Suc) }
qed (simp_all add: get_ie_ex_scan_def rtw_get_ie_ex_loop_unfold)

lemma rtw_get_ie_ex_scan:
  "rtw_get_ie_ex b (Some p) n eid oui oui_len False = get_ie_ex_scan eid oui oui_len b (p + n) p"
  by (simp add: rtw_get_ie_ex_def get_ie_ex_scan_def rtw_get_ie_ex_loop_unfold)

section \<open>Writing and finding an element\<close>

lemma rtw_set_ie_writes:
  assumes "length d < 256" and "length old = length d + 2"
  shows "rtw_set_ie (pre @ old @ post) (length pre) (uint e) (length d) d frlen
    = Some (pre @ enc_ie (e, d) @ post, length pre + length d + 2,
            map_option (\<lambda>f. uadd32 f (length d + 2)) frlen)"
proof -
  obtain x y rest where old: "old = x # y # rest" and rest: "length rest = length d"
    using assms(2) by (auto simp: length_Suc_conv)
  have w0: "wr (pre @ x # y # rest @ post) (length pre) e = Some (pre @ e # y # rest @ post)"
    by (simp add: wr_prefix)
  have w1: "wr (pre @ e # y # rest @ post) (Suc (length pre)) z = Some (pre @ e # z # rest @ post)" for z
    using wr_prefix [of "y # rest @ post" "pre @ [e]" z] by simp
  have w2: "wr_n (pre @ e # z # rest @ post) (Suc (Suc (length pre))) d = Some (pre @ e # z # d @ post)" for z
    using wr_n_prefix [of d "rest @ post" "pre @ [e, z]"] rest by simp
  have r: "rd_n d 0 (length d) = Some d" by (simp add: rd_n_def)
  show ?thesis
  proof (cases "d = []")
    case True
    with w0 w1 rest show ?thesis by (simp add: rtw_set_ie_def old enc_ie_def)
  next
    case False
    with w0 w1 w2 r rest show ?thesis by (simp add: rtw_set_ie_def old enc_ie_def)
  qed
qed

text \<open>an element written by \<open>rtw_set_ie\<close> behind a well-formed series without that identifier
  is the element \<open>rtw_get_ie\<close> finds: same offset, same payload length, and the payload bytes can
  be read back two bytes behind it.\<close>

theorem set_ie_get_ie_roundtrip:
  assumes "list_all ie_ok us" and "\<forall>u \<in> set us. fst u \<noteq> e"
    and "length d < 256" and "length old = length d + 2"
  shows "\<exists>b' p'. rtw_set_ie (pre @ ies_bytes us @ old @ post) (length pre + length (ies_bytes us))
        (uint e) (length d) d None = Some (b', p', None)
      \<and> rtw_get_ie b' (length pre) (uint e) 0 (int (p' - length pre))
          = Some (Some (length pre + length (ies_bytes us)), length d)
      \<and> rd_n b' (length pre + length (ies_bytes us) + 2) (length d) = Some d"
proof -
  let ?at = "length pre + length (ies_bytes us)"
  let ?b = "pre @ ies_bytes (us @ [(e, d)]) @ post"
  have set: "rtw_set_ie (pre @ ies_bytes us @ old @ post) ?at (uint e) (length d) d None
      = Some (?b, ?at + length d + 2, None)"
    using rtw_set_ie_writes [OF assms(3,4), of "pre @ ies_bytes us" post e None] by simp
  have "get_ie_scan (uint e) ?b (length pre + length (ies_bytes (us @ [(e, d)]))) (length pre)
      = Some (Some ?at, length d)"
    using get_ie.scan_first [where pre = pre and us = us and t = "(e, d)" and vs = "[]" and index = "uint e" and post = post] assms(1-3)
    by (simp add: ie_ok_def word_uint_eq_iff)
  then have get: "rtw_get_ie ?b (length pre) (uint e) 0 (int (?at + length d + 2 - length pre))
      = Some (Some ?at, length d)"
    using rtw_get_ie_scan [of "length pre" "?at + length d + 2" ?b "uint e" 0] by (simp add: add.assoc)
  have "rd_n ?b (?at + 2) (length d) = Some d"
    using rd_n_shift [of "pre @ ies_bytes us" "enc_ie (e, d) @ post" 2 "length d"]
      rd_enc_ie(3) [of "(e, d)" post] by simp
  with set get show ?thesis by blast
qed

theorem set_ie_get_ie_roundtrip_witness:
  "\<exists>b' p'. rtw_set_ie ([9] @ ies_bytes [(0, [65, 66])] @ [7, 7, 7] @ [1]) (1 + 4) (uint (3 :: u8)) 1 [6] None
       = Some (b', p', None)
     \<and> rtw_get_ie b' 1 (uint (3 :: u8)) 0 (int (p' - 1)) = Some (Some 5, 1)
     \<and> rd_n b' 7 1 = Some [6]"
  using set_ie_get_ie_roundtrip [of "[(0, [65, 66])]" 3 "[6]" "[7, 7, 7]" "[9]" "[1]"]
  by (simp add: ie_ok_def nat_lits del: One_nat_def)

section \<open>Removing elements\<close>

lemma remove_ie_loop_filter:
  assumes "list_all (\<lambda>t. ie_ex_ok eid oui_len t \<and> oui_ok oui oui_len) ts"
    and "length (ies_bytes ts) \<le> n" and "n < 2 ^ 32"
  shows "\<exists>post'. rtw_ies_remove_ie_loop (pre @ ies_bytes ts @ post) (length pre) (length (ies_bytes ts)) n
        eid oui oui_len ret
      = Some (ret \<or> (\<exists>t \<in> set ts. ie_ex_match eid oui t),
              pre @ ies_bytes (filter (\<lambda>t. \<not> ie_ex_match eid oui t) ts) @ post',
              n - (length (ies_bytes ts) - length (ies_bytes (filter (\<lambda>t. \<not> ie_ex_match eid oui t) ts))))
      \<and> length (ies_bytes (filter (\<lambda>t. \<not> ie_ex_match eid oui t) ts)) \<le> length (ies_bytes ts)"
  using assms
proof (induction ts arbitrary: pre post n ret rule: length_induct)
  case (1 ts)
  let ?m = "ie_ex_match eid oui"
  let ?b = "pre @ ies_bytes ts @ post"
  show ?case
  proof (cases "tlv_find enc_ie ?m (length pre) ts")
    case None
    then have none: "\<forall>t \<in> set ts. \<not> ?m t" by (simp add: tlv_find_None)
    then have keep: "filter (\<lambda>t. \<not> ?m t) ts = ts" by simp
    have "rtw_get_ie_ex ?b (Some (length pre)) (length (ies_bytes ts)) eid oui oui_len False = Some (None, None, 0)"
      using get_ie_ex.scan_none [OF _ "1.prems"(1) none, where pre = pre and post = post] by (simp add: rtw_get_ie_ex_scan)
    with none keep show ?thesis
      by (auto simp: rtw_ies_remove_ie_loop.simps)
  next
    case (Some kt)
    then obtain k t where "tlv_find enc_ie ?m (length pre) ts = Some (k, t)" by (cases kt) simp
    from tlv_find_Some [OF this] obtain us vs where
      ts: "ts = us @ t # vs" and mt: "?m t" and us: "\<forall>u \<in> set us. \<not> ?m u" by auto
    let ?p = "pre @ ies_bytes us"
    let ?tl = "drop (length (ies_bytes vs)) (enc_ie t @ ies_bytes vs @ post)"
    have get: "rtw_get_ie_ex ?b (Some (length pre)) (length (ies_bytes ts)) eid oui oui_len False
        = Some (Some (length ?p), None, length (enc_ie t))"
      using get_ie_ex.scan_first [OF TrueI "1.prems"(1) [unfolded ts] us mt, where pre = pre and post = post]
      by (simp add: rtw_get_ie_ex_scan ts)
    have small: "length (ies_bytes us) + length (enc_ie t) + length (ies_bytes vs) \<le> n" "n < 2 ^ 32"
      using "1.prems"(2,3) by (simp_all add: ts)
    have rem: "usub32 (length (ies_bytes ts)) (length ?p + length (enc_ie t) - length pre) = length (ies_bytes vs)"
      using small by (simp add: ts usub32_le)
    have "mem_mv ?b (length ?p) (length ?p + length (enc_ie t)) (length (ies_bytes vs))
        = Some (?p @ ies_bytes vs @ ?tl)"
      using mem_mv_down [of ?p "enc_ie t" "ies_bytes vs" post] by (simp add: ts)
    then have step: "rtw_ies_remove_ie_loop ?b (length pre) (length (ies_bytes ts)) n eid oui oui_len ret
        = rtw_ies_remove_ie_loop (?p @ ies_bytes vs @ ?tl) (length ?p) (length (ies_bytes vs))
            (n - length (enc_ie t)) eid oui oui_len True"
      using small get rem by (subst rtw_ies_remove_ie_loop.simps) (simp add: usub32_le Let_def)
    have vs: "length vs < length ts" "list_all (\<lambda>t. ie_ex_ok eid oui_len t \<and> oui_ok oui oui_len) vs"
      using "1.prems"(1) by (auto simp: ts list_all_iff)
    have fits: "length (ies_bytes vs) \<le> n - length (enc_ie t)" "n - length (enc_ie t) < 2 ^ 32"
      using small by simp_all
    from "1.IH" [rule_format, OF vs fits, of ?p ?tl True] obtain post' where
      IH: "rtw_ies_remove_ie_loop (?p @ ies_bytes vs @ ?tl) (length ?p) (length (ies_bytes vs))
            (n - length (enc_ie t)) eid oui oui_len True
        = Some (True \<or> (\<exists>t \<in> set vs. ?m t), ?p @ ies_bytes (filter (\<lambda>t. \<not> ?m t) vs) @ post',
            n - length (enc_ie t) - (length (ies_bytes vs) - length (ies_bytes (filter (\<lambda>t. \<not> ?m t) vs))))"
      and le: "length (ies_bytes (filter (\<lambda>t. \<not> ?m t) vs)) \<le> length (ies_bytes vs)"
      by (elim exE conjE)
    have len: "n - length (enc_ie t) - (length (ies_bytes vs) - length (ies_bytes (filter (\<lambda>t. \<not> ?m t) vs)))
        = n - (length (ies_bytes ts) - length (ies_bytes (us @ filter (\<lambda>t. \<not> ?m t) vs)))"
      using le by (simp add: ts)
    have fil: "filter (\<lambda>t. \<not> ?m t) ts = us @ filter (\<lambda>t. \<not> ?m t) vs"
      using us mt by (simp add: ts)
    have any: "(ret \<or> (\<exists>t \<in> set ts. ?m t)) = (True \<or> (\<exists>t \<in> set vs. ?m t))"
      using mt by (auto simp: ts)
    show ?thesis
      unfolding fil step IH any len using le by (auto simp: ts)
  qed
qed

text \<open>C30: \<open>rtw_ies_remove_ie\<close> removes exactly the matching elements: the buffer afterwards holds
  the other elements, in their order and contiguous behind the untouched prefix, \<open>*ies_len\<close> is
  their length, and the result says whether something was removed.\<close>

theorem rtw_ies_remove_ie_filters:
  assumes "list_all (ie_ex_ok eid oui_len) ts" and "oui_ok oui oui_len"
    and "ts \<noteq> []" and "n = length pre + length (ies_bytes ts)" and "n < 2 ^ 32"
  shows "\<exists>post'. rtw_ies_remove_ie (Some (pre @ ies_bytes ts @ post)) (Some n) (length pre) eid oui oui_len
      = Some (\<exists>t \<in> set ts. ie_ex_match eid oui t,
              Some (pre @ ies_bytes (filter (\<lambda>t. \<not> ie_ex_match eid oui t) ts) @ post'),
              Some (length pre + length (ies_bytes (filter (\<lambda>t. \<not> ie_ex_match eid oui t) ts))))"
proof -
  have all: "list_all (\<lambda>t. ie_ex_ok eid oui_len t \<and> oui_ok oui oui_len) ts"
    using assms(1,2) by (simp add: list_all_iff)
  obtain t ts' where "ts = t # ts'" using assms(3) by (cases ts) auto
  then have gt: "length pre < n" using assms(4) by simp
  obtain post' where
    "rtw_ies_remove_ie_loop (pre @ ies_bytes ts @ post) (length pre) (length (ies_bytes ts)) n eid oui oui_len False
      = Some (\<exists>t \<in> set ts. ie_ex_match eid oui t,
              pre @ ies_bytes (filter (\<lambda>t. \<not> ie_ex_match eid oui t) ts) @ post',
              n - (length (ies_bytes ts) - length (ies_bytes (filter (\<lambda>t. \<not> ie_ex_match eid oui t) ts))))"
    and "length (ies_bytes (filter (\<lambda>t. \<not> ie_ex_match eid oui t) ts)) \<le> length (ies_bytes ts)"
    using remove_ie_loop_filter [OF all, of n pre post False] assms(4,5) by auto
  with gt show ?thesis by (auto simp: rtw_ies_remove_ie_def assms(4))
qed

theorem rtw_ies_remove_ie_filters_witness:
  "\<exists>post'. rtw_ies_remove_ie (Some ([8] @ ies_bytes [(221, [1, 2]), (0, [5]), (221, [1, 9])] @ [0])) (Some 12) 1
        221 (Some [1, 2]) 2
      = Some (True, Some ([8] @ ies_bytes [(0, [5]), (221, [1, 9])] @ post'), Some 8)"
  using rtw_ies_remove_ie_filters [of 221 2 "[(221, [1, 2]), (0, [5]), (221, [1, 9])]" "Some [1, 2]" 12 "[8]" "[0]"]
  by (simp add: nat_lits ie_ex_ok_def ie_ok_def oui_ok_def ie_ex_match_def del: One_nat_def)

section \<open>Adding and replacing elements\<close>

text \<open>What \<open>rtw_ies_add_ie\<close> promises on the list of elements: the new element stands before the
  first element with a greater identifier and replaces the first one with the same identifier.\<close>

definition add_ie_rest :: "u8 \<Rightarrow> ie list \<Rightarrow> ie list" where
  "add_ie_rest eid ts = (case dropWhile (\<lambda>t. fst t < eid) ts of
     [] \<Rightarrow> [] | t # vs \<Rightarrow> if fst t = eid then vs else t # vs)"

definition add_ie_spec :: "u8 \<Rightarrow> buf \<Rightarrow> ie list \<Rightarrow> ie list" where
  "add_ie_spec eid c ts = takeWhile (\<lambda>t. fst t < eid) ts @ (eid, c) # add_ie_rest eid ts"

lemma add_ie_loop_split:
  assumes "list_all ie_ok ts" and "pstart + search_len = length pre + length (ies_bytes ts)"
  shows "\<exists>old. ies_bytes ts = ies_bytes (takeWhile (\<lambda>t. fst t < eid) ts) @ old @ ies_bytes (add_ie_rest eid ts)
    \<and> rtw_ies_add_ie_loop (pre @ ies_bytes ts @ post) pstart search_len eid (length pre) dst
      = Some (length pre + length (ies_bytes (takeWhile (\<lambda>t. fst t < eid) ts)),
              length pre + length (ies_bytes (takeWhile (\<lambda>t. fst t < eid) ts)) + length old)"
  using assms
proof (induction ts arbitrary: pre dst)
  case Nil
  then show ?case by (simp add: rtw_ies_add_ie_loop.simps add_ie_rest_def)
next
  case (Cons t ts)
  let ?b = "pre @ enc_ie t @ ies_bytes ts @ post"
  from Cons.prems have n: "unat (word_of_nat (length (snd t)) :: u8) = length (snd t)"
    by (simp add: ie_ok_def)
  have unfold: "rtw_ies_add_ie_loop ?b pstart search_len eid (length pre) dst =
      (if fst t > eid then Some (length pre, length pre)
       else if fst t = eid then Some (length pre, length pre + length (enc_ie t))
       else rtw_ies_add_ie_loop ?b pstart search_len eid (length pre + length (enc_ie t)) (length pre))"
    using Cons.prems(2) n
    by (simp add: rtw_ies_add_ie_loop.simps [of ?b pstart search_len eid "length pre"] mem_simps)
  show ?case
  proof (cases "fst t < eid")
    case True
    from Cons.IH [of "pre @ enc_ie t" "length pre"] Cons.prems obtain old where
      "ies_bytes ts = ies_bytes (takeWhile (\<lambda>t. fst t < eid) ts) @ old @ ies_bytes (add_ie_rest eid ts)"
      "rtw_ies_add_ie_loop ?b pstart search_len eid (length pre + length (enc_ie t)) (length pre)
      = Some (length pre + length (enc_ie t) + length (ies_bytes (takeWhile (\<lambda>t. fst t < eid) ts)),
              length pre + length (enc_ie t) + length (ies_bytes (takeWhile (\<lambda>t. fst t < eid) ts)) + length old)"
      by (auto simp: ac_simps)
    moreover have "fst t \<noteq> eid" "\<not> eid < fst t" using True by auto
    ultimately show ?thesis
      using unfold True by (intro exI [of _ old]) (simp add: add_ie_rest_def)
  next
    case False
    then show ?thesis
      using unfold
      by (intro exI [of _ "if fst t = eid then enc_ie t else []"]) (auto simp: add_ie_rest_def)
  qed
qed

lemma wr_element:
  assumes "length c + 2 \<le> length ys"
  shows "wr (pre @ ys) (length pre) e = Some (pre @ e # tl ys)"
    and "wr (pre @ e # tl ys) (length pre + 1) l = Some (pre @ e # l # drop 2 ys)"
    and "wr_n (pre @ e # l # drop 2 ys) (length pre + 2) c = Some (pre @ e # l # c @ drop (length c + 2) ys)"
proof -
  obtain x y rest where ys: "ys = x # y # rest"
    using assms by (cases ys; cases "tl ys") auto
  show "wr (pre @ ys) (length pre) e = Some (pre @ e # tl ys)"
    by (simp add: ys wr_prefix)
  show "wr (pre @ e # tl ys) (length pre + 1) l = Some (pre @ e # l # drop 2 ys)"
    using wr_prefix [of "tl ys" "pre @ [e]" l] by (simp add: ys)
  show "wr_n (pre @ e # l # drop 2 ys) (length pre + 2) c = Some (pre @ e # l # c @ drop (length c + 2) ys)"
    using wr_n_prefix [of c rest "pre @ [e, l]"] assms by (simp add: ys)
qed

text \<open>C31: \<open>rtw_ies_add_ie\<close> implements the ordered insertion on the element list: it succeeds,
  the buffer holds the prefix and then exactly the elements of the specification, and \<open>*ies_len\<close>
  is their length.\<close>

theorem rtw_ies_add_ie_inserts:
  assumes "list_all ie_ok ts" and "ts \<noteq> []" and "length c < 256" and "length c + 2 \<le> length post"
    and "n = length pre + length (ies_bytes ts)" and "n + length c + 2 < 2 ^ 32"
  shows "\<exists>post'. rtw_ies_add_ie True (Some (pre @ ies_bytes ts @ post)) n (length pre) eid c (word_of_nat (length c))
      = Some (True, Some (pre @ ies_bytes (add_ie_spec eid c ts) @ post'),
              length pre + length (ies_bytes (add_ie_spec eid c ts)))"
proof -
  define P where "P = pre @ ies_bytes (takeWhile (\<lambda>t. fst t < eid) ts)"
  define r where "r = ies_bytes (add_ie_rest eid ts)"
  define B where "B = pre @ ies_bytes ts @ post"
  obtain old where split: "pre @ ies_bytes ts = P @ old @ r"
    and loop: "rtw_ies_add_ie_loop B (length pre) (length (ies_bytes ts)) eid (length pre) (length pre)
        = Some (length P, length P + length old)"
    using add_ie_loop_split [OF assms(1), of "length pre" "length (ies_bytes ts)" pre]
    by (fastforce simp: P_def r_def B_def)
  define ys where "ys = old @ r @ post"
  have B: "B = P @ ys" unfolding B_def ys_def using split by (metis append.assoc)
  have len: "n = length P + length old + length r" using arg_cong [OF split, of length] assms(5) by simp
  have gt: "length pre < n" using assms(2,5) by (cases ts) auto
  have cl: "unat (word_of_nat (length c) :: u8) = length c" using assms(3) by simp
  have rem: "usub32 n (length P + length old) = length r" using assms(6) by (simp add: usub32_le len)
  have bk: "rd_n B (length P + length old) (length r) = Some r"
    using rd_n_at [of "P @ old" "r @ post" "length r"] rd_n_all [of "length r" r post] by (simp add: B ys_def)
  have cap: "length c + 2 \<le> length ys" using assms(4) by (simp add: ys_def)
  note w = wr_element(1) [OF cap, of P eid, folded B]
    wr_element(2,3) [OF cap, of P eid "word_of_nat (length c)"]
  have fin: "wr_n (P @ eid # word_of_nat (length c) # c @ drop (length c + 2) ys) (length P + 2 + length c) r
      = Some (P @ eid # word_of_nat (length c) # c @ r @ drop (length r) (drop (length c + 2) ys))"
    using wr_n_prefix [of r "drop (length c + 2) ys" "P @ eid # word_of_nat (length c) # c"] assms(4)
    by (simp add: ys_def)
  have sz: "uadd32 (length P + 2 + length c) (length r) = length P + 2 + length c + length r"
    using assms(6) by (simp add: uadd32_small len)
  have bytes: "pre @ ies_bytes (add_ie_spec eid c ts) @ z = P @ eid # word_of_nat (length c) # c @ r @ z" for z
    by (simp add: add_ie_spec_def P_def r_def enc_ie_def)
  have blen: "length pre + length (ies_bytes (add_ie_spec eid c ts)) = length P + 2 + length c + length r"
    using arg_cong [OF bytes [of "[]"], of length] by simp
  have rdc: "rd_n c 0 (length c) = Some c" by (simp add: rd_n_def)
  have sl: "n - length pre = length (ies_bytes ts)" using assms(5) by simp
  have "rtw_ies_add_ie True (Some B) n (length pre) eid c (word_of_nat (length c)) =
      Some (True, Some (P @ eid # word_of_nat (length c) # c @ r @ (if r = [] then drop (length c + 2) ys
        else drop (length r) (drop (length c + 2) ys))), length P + 2 + length c + length r)"
    using gt by (simp add: rtw_ies_add_ie_def Let_def sl loop rem bk w fin sz cl rdc
        del: drop_drop add_2_eq_Suc' One_nat_def)
  then show ?thesis unfolding B_def [symmetric] bytes blen by blast
qed

theorem rtw_ies_add_ie_inserts_witness:
  "\<exists>post'. rtw_ies_add_ie True (Some ([7] @ ies_bytes [(0, [5]), (48, [1])] @ [0, 0, 0, 0])) 7 1 3 [11] 1
      = Some (True, Some ([7] @ ies_bytes (add_ie_spec 3 [11] [(0, [5]), (48, [1])]) @ post'),
              1 + length (ies_bytes (add_ie_spec 3 [11] [(0, [5]), (48, [1])])))"
  using rtw_ies_add_ie_inserts [of "[(0, [5]), (48, [1])]" "[11]" "[0, 0, 0, 0]" 7 "[7]" 3]
  by (simp add: ie_ok_def nat_lits del: One_nat_def)

end
