(* ===== verification/Bits.thy ===== *)
theory Bits
  imports Prelude
begin

text \<open>
  The bit-field macros of \<open>include/basic_types.h\<close>, with which the driver reads and writes the
  packed fields of elements, descriptors and firmware commands. A field is \<open>__BitLen\<close> bits at
  \<open>__BitOffset\<close> of a little-endian 1, 2 or 4-byte integer in memory. The locale states what the
  three widths share (a load and a store of one machine word) and proves once that a field reads
  back what was written and that writing one field leaves every disjoint field as it was.
\<close>

section \<open>Masks\<close>

definition BIT_LEN_MASK_32 :: "nat \<Rightarrow> u32" where
  "BIT_LEN_MASK_32 BitLen = drop_bit (32 - BitLen) 0xFFFFFFFF"

definition BIT_LEN_MASK_16 :: "nat \<Rightarrow> u16" where
  "BIT_LEN_MASK_16 BitLen = drop_bit (16 - BitLen) 0xFFFF"

definition BIT_LEN_MASK_8 :: "nat \<Rightarrow> u8" where
  "BIT_LEN_MASK_8 BitLen = drop_bit (8 - BitLen) 0xFF"

definition BIT_OFFSET_LEN_MASK_32 :: "nat \<Rightarrow> nat \<Rightarrow> u32" where
  "BIT_OFFSET_LEN_MASK_32 BitOffset BitLen = push_bit BitOffset (BIT_LEN_MASK_32 BitLen)"

definition BIT_OFFSET_LEN_MASK_16 :: "nat \<Rightarrow> nat \<Rightarrow> u16" where
  "BIT_OFFSET_LEN_MASK_16 BitOffset BitLen = push_bit BitOffset (BIT_LEN_MASK_16 BitLen)"

definition BIT_OFFSET_LEN_MASK_8 :: "nat \<Rightarrow> nat \<Rightarrow> u8" where
  "BIT_OFFSET_LEN_MASK_8 BitOffset BitLen = push_bit BitOffset (BIT_LEN_MASK_8 BitLen)"

section \<open>Loads and stores of one integer\<close>

definition ReadLE4Byte :: "buf \<Rightarrow> nat \<Rightarrow> u32 option" where
  "ReadLE4Byte b p = do { lo \<leftarrow> RTW_GET_LE16 b p; hi \<leftarrow> RTW_GET_LE16 b (p + 2);
     Some (push_bit 16 (ucast hi) OR ucast lo) }"

definition ReadLE2Byte :: "buf \<Rightarrow> nat \<Rightarrow> u16 option" where
  "ReadLE2Byte b p = RTW_GET_LE16 b p"

definition ReadLE1Byte :: "buf \<Rightarrow> nat \<Rightarrow> u8 option" where
  "ReadLE1Byte b p = rd b p"

definition WriteLE4Byte :: "buf \<Rightarrow> nat \<Rightarrow> u32 \<Rightarrow> buf option" where
  "WriteLE4Byte b p v = wr_n b p (le16_bytes (ucast v) @ le16_bytes (ucast (drop_bit 16 v)))"

definition WriteLE2Byte :: "buf \<Rightarrow> nat \<Rightarrow> u16 \<Rightarrow> buf option" where
  "WriteLE2Byte b p v = wr_n b p (le16_bytes v)"

definition WriteLE1Byte :: "buf \<Rightarrow> nat \<Rightarrow> u8 \<Rightarrow> buf option" where
  "WriteLE1Byte b p v = wr_n b p [v]"

section \<open>Fields\<close>

definition LE_BITS_TO_4BYTE :: "buf \<Rightarrow> nat \<Rightarrow> nat \<Rightarrow> nat \<Rightarrow> u32 option" where
  "LE_BITS_TO_4BYTE b p BitOffset BitLen =
     map_option (\<lambda>v. drop_bit BitOffset v AND BIT_LEN_MASK_32 BitLen) (ReadLE4Byte b p)"

definition LE_BITS_TO_2BYTE :: "buf \<Rightarrow> nat \<Rightarrow> nat \<Rightarrow> nat \<Rightarrow> u16 option" where
  "LE_BITS_TO_2BYTE b p BitOffset BitLen =
     map_option (\<lambda>v. drop_bit BitOffset v AND BIT_LEN_MASK_16 BitLen) (ReadLE2Byte b p)"

definition LE_BITS_TO_1BYTE :: "buf \<Rightarrow> nat \<Rightarrow> nat \<Rightarrow> nat \<Rightarrow> u8 option" where
  "LE_BITS_TO_1BYTE b p BitOffset BitLen =
     map_option (\<lambda>v. drop_bit BitOffset v AND BIT_LEN_MASK_8 BitLen) (ReadLE1Byte b p)"

definition SET_BITS_TO_LE_4BYTE :: "buf \<Rightarrow> nat \<Rightarrow> nat \<Rightarrow> nat \<Rightarrow> u32 \<Rightarrow> buf option" where
  "SET_BITS_TO_LE_4BYTE b p BitOffset BitLen Value =
     (if BitOffset = 0 \<and> BitLen = 32 then WriteLE4Byte b p Value
      else do { v \<leftarrow> ReadLE4Byte b p;
        WriteLE4Byte b p (v AND NOT (BIT_OFFSET_LEN_MASK_32 BitOffset BitLen)
          OR push_bit BitOffset (Value AND BIT_LEN_MASK_32 BitLen)) })"

definition SET_BITS_TO_LE_2BYTE :: "buf \<Rightarrow> nat \<Rightarrow> nat \<Rightarrow> nat \<Rightarrow> u16 \<Rightarrow> buf option" where
  "SET_BITS_TO_LE_2BYTE b p BitOffset BitLen Value =
     (if BitOffset = 0 \<and> BitLen = 16 then WriteLE2Byte b p Value
      else do { v \<leftarrow> ReadLE2Byte b p;
        WriteLE2Byte b p (v AND NOT (BIT_OFFSET_LEN_MASK_16 BitOffset BitLen)
          OR push_bit BitOffset (Value AND BIT_LEN_MASK_16 BitLen)) })"

definition SET_BITS_TO_LE_1BYTE :: "buf \<Rightarrow> nat \<Rightarrow> nat \<Rightarrow> nat \<Rightarrow> u8 \<Rightarrow> buf option" where
  "SET_BITS_TO_LE_1BYTE b p BitOffset BitLen Value =
     (if BitOffset = 0 \<and> BitLen = 8 then WriteLE1Byte b p Value
      else do { v \<leftarrow> ReadLE1Byte b p;
        WriteLE1Byte b p (v AND NOT (BIT_OFFSET_LEN_MASK_8 BitOffset BitLen)
          OR push_bit BitOffset (Value AND BIT_LEN_MASK_8 BitLen)) })"

section \<open>The masks are masks\<close>

lemma ones_drop: "n \<le> LENGTH('a) \<Longrightarrow> drop_bit (LENGTH('a) - n) (- 1 :: 'a::len word) = mask n"
  by (intro bit_word_eqI) (auto simp: bit_simps)

lemma BIT_LEN_MASK_mask:
  "n \<le> 32 \<Longrightarrow> BIT_LEN_MASK_32 n = mask n"
  "m \<le> 16 \<Longrightarrow> BIT_LEN_MASK_16 m = mask m"
  "k \<le> 8 \<Longrightarrow> BIT_LEN_MASK_8 k = mask k"
proof -
  have m1: "(0xFFFFFFFF :: u32) = - 1" "(0xFFFF :: u16) = - 1" "(0xFF :: u8) = - 1" by simp_all
  show "n \<le> 32 \<Longrightarrow> BIT_LEN_MASK_32 n = mask n" "m \<le> 16 \<Longrightarrow> BIT_LEN_MASK_16 m = mask m"
    "k \<le> 8 \<Longrightarrow> BIT_LEN_MASK_8 k = mask k"
    unfolding BIT_LEN_MASK_32_def BIT_LEN_MASK_16_def BIT_LEN_MASK_8_def m1
    using ones_drop [of n, where 'a = 32] ones_drop [of m, where 'a = 16] ones_drop [of k, where 'a = 8]
    by simp_all
qed

section \<open>The contract of a field access\<close>

locale le_word =
  fixes load :: "buf \<Rightarrow> nat \<Rightarrow> 'a::len word option"
    and store :: "buf \<Rightarrow> nat \<Rightarrow> 'a word \<Rightarrow> buf option"
  assumes load_store: "load b p = Some v \<Longrightarrow>
      \<exists>b'. store b p w = Some b' \<and> load b' p = Some w \<and> length b' = length b
        \<and> take p b' = take p b \<and> drop (p + size w div 8) b' = drop (p + size w div 8) b"
begin

definition get_field :: "buf \<Rightarrow> nat \<Rightarrow> nat \<Rightarrow> nat \<Rightarrow> 'a word option" where
  "get_field b p off len = map_option (\<lambda>v. drop_bit off v AND mask len) (load b p)"

definition set_field :: "buf \<Rightarrow> nat \<Rightarrow> nat \<Rightarrow> nat \<Rightarrow> 'a word \<Rightarrow> buf option" where
  "set_field b p off len w = do { v \<leftarrow> load b p;
     store b p (v AND NOT (push_bit off (mask len)) OR push_bit off (w AND mask len)) }"

lemma set_then_get:
  assumes "load b p = Some v" and "off + len \<le> LENGTH('a)"
  shows "\<exists>b'. set_field b p off len w = Some b'
      \<and> get_field b' p off len = Some (w AND mask len)
      \<and> (\<forall>off2 len2. off2 + len2 \<le> off \<or> off + len \<le> off2 \<longrightarrow>
            get_field b' p off2 len2 = get_field b p off2 len2)
      \<and> take p b' = take p b \<and> drop (p + LENGTH('a) div 8) b' = drop (p + LENGTH('a) div 8) b"
proof -
  let ?w = "v AND NOT (push_bit off (mask len)) OR push_bit off (w AND mask len)"
  from load_store [OF assms(1), of ?w] obtain b' where
    b': "store b p ?w = Some b'" "load b' p = Some ?w" "take p b' = take p b"
      "drop (p + LENGTH('a) div 8) b' = drop (p + LENGTH('a) div 8) b"
    by (auto simp: word_size)
  have same: "drop_bit off ?w AND mask len = w AND mask len"
    using assms(2) by (intro bit_word_eqI) (auto simp: bit_simps)
  have other: "drop_bit off2 ?w AND mask len2 = drop_bit off2 v AND mask len2"
    if "off2 + len2 \<le> off \<or> off + len \<le> off2" for off2 len2
    using that by (intro bit_word_eqI) (auto simp: bit_simps dest: bit_imp_le_length)
  show ?thesis
    using b' same other by (simp add: set_field_def get_field_def assms(1))
qed

end

lemma LE16_overwrite: "RTW_GET_LE16 (xs @ le16_bytes v @ ys) (length xs) = Some v"
  using LE16_shift [of xs "le16_bytes v @ ys" 0] by (simp add: LE16_le16_bytes)

lemma RTW_GET_LE16_Some_iff: "(\<exists>v. RTW_GET_LE16 b i = Some v) \<longleftrightarrow> i + 1 < length b"
  by (auto simp: RTW_GET_LE16_def rd_def split: if_splits bind_splits)

lemma u32_split: "push_bit 16 (ucast (ucast (drop_bit 16 v) :: u16)) OR ucast (ucast v :: u16) = (v :: u32)"
  by (rule bit_word_eqI) (auto simp: bit_simps)

interpretation le1: le_word ReadLE1Byte WriteLE1Byte
proof
  fix b p v and w :: u8
  assume "ReadLE1Byte b p = Some v"
  then have "p < length b" by (simp add: ReadLE1Byte_def rd_def split: if_splits)
  then have "Suc (length b - Suc 0) = length b" "p < length b" by auto
  then show "\<exists>b'. WriteLE1Byte b p w = Some b' \<and> ReadLE1Byte b' p = Some w \<and> length b' = length b
      \<and> take p b' = take p b \<and> drop (p + size w div 8) b' = drop (p + size w div 8) b"
    by (simp add: WriteLE1Byte_def ReadLE1Byte_def wr_n_def rd_def nth_append word_size min_absorb2)
qed

interpretation le2: le_word ReadLE2Byte WriteLE2Byte
proof
  fix b p v and w :: u16
  assume "ReadLE2Byte b p = Some v"
  then have "p + 1 < length b" using RTW_GET_LE16_Some_iff by (auto simp: ReadLE2Byte_def)
  then show "\<exists>b'. WriteLE2Byte b p w = Some b' \<and> ReadLE2Byte b' p = Some w \<and> length b' = length b
      \<and> take p b' = take p b \<and> drop (p + size w div 8) b' = drop (p + size w div 8) b"
    using LE16_overwrite [of "take p b" w]
    by (simp add: WriteLE2Byte_def ReadLE2Byte_def wr_n_def word_size min_absorb2)
qed

interpretation le4: le_word ReadLE4Byte WriteLE4Byte
proof
  fix b p v and w :: u32
  assume "ReadLE4Byte b p = Some v"
  then have "\<exists>x. RTW_GET_LE16 b (p + 2) = Some x" by (auto simp: ReadLE4Byte_def split: bind_splits)
  then have p: "p + 3 < length b" by (simp add: RTW_GET_LE16_Some_iff)
  let ?lo = "le16_bytes (ucast w)" and ?hi = "le16_bytes (ucast (drop_bit 16 w))"
  let ?b' = "take p b @ ?lo @ ?hi @ drop (p + 4) b"
  have "RTW_GET_LE16 ?b' p = Some (ucast w)" "RTW_GET_LE16 ?b' (p + 2) = Some (ucast (drop_bit 16 w))"
    using p LE16_overwrite [of "take p b" "ucast w" "?hi @ drop (p + 4) b"]
      LE16_overwrite [of "take p b @ ?lo" "ucast (drop_bit 16 w)" "drop (p + 4) b"]
    by (simp_all add: min_absorb2)
  then have "ReadLE4Byte ?b' p = Some w"
    by (simp add: ReadLE4Byte_def u32_split del: append_assoc)
  then show "\<exists>b'. WriteLE4Byte b p w = Some b' \<and> ReadLE4Byte b' p = Some w \<and> length b' = length b
      \<and> take p b' = take p b \<and> drop (p + size w div 8) b' = drop (p + size w div 8) b"
    using p by (simp add: WriteLE4Byte_def wr_n_def word_size min_absorb2)
qed

section \<open>The macros are field accesses\<close>

lemma LE_BITS_get_field:
  "len \<le> 8 \<Longrightarrow> LE_BITS_TO_1BYTE b p off len = le1.get_field b p off len"
  "len \<le> 16 \<Longrightarrow> LE_BITS_TO_2BYTE b p off len = le2.get_field b p off len"
  "len \<le> 32 \<Longrightarrow> LE_BITS_TO_4BYTE b p off len = le4.get_field b p off len"
  by (simp_all add: LE_BITS_TO_1BYTE_def LE_BITS_TO_2BYTE_def LE_BITS_TO_4BYTE_def le1.get_field_def
      le2.get_field_def le4.get_field_def BIT_LEN_MASK_mask)

lemma whole_word: "v AND NOT (mask LENGTH('a)) OR w AND mask LENGTH('a) = (w :: 'a::len word)"
  by (rule bit_word_eqI) (auto simp: bit_simps)

lemma SET_BITS_set_field:
  "len \<le> 8 \<Longrightarrow> ReadLE1Byte b p = Some v1 \<Longrightarrow> SET_BITS_TO_LE_1BYTE b p off len w1 = le1.set_field b p off len w1"
  "len \<le> 16 \<Longrightarrow> ReadLE2Byte b p = Some v2 \<Longrightarrow> SET_BITS_TO_LE_2BYTE b p off len w2 = le2.set_field b p off len w2"
  "len \<le> 32 \<Longrightarrow> ReadLE4Byte b p = Some v4 \<Longrightarrow> SET_BITS_TO_LE_4BYTE b p off len w4 = le4.set_field b p off len w4"
  using whole_word [of v1 w1] whole_word [of v2 w2] whole_word [of v4 w4]
  by (auto simp: SET_BITS_TO_LE_1BYTE_def SET_BITS_TO_LE_2BYTE_def SET_BITS_TO_LE_4BYTE_def le1.set_field_def
      le2.set_field_def le4.set_field_def BIT_OFFSET_LEN_MASK_8_def BIT_OFFSET_LEN_MASK_16_def
      BIT_OFFSET_LEN_MASK_32_def BIT_LEN_MASK_mask)

text \<open>on a 4-byte integer inside the object \<open>SET_BITS_TO_LE_4BYTE\<close> succeeds;
  \<open>LE_BITS_TO_4BYTE\<close> of the same field then gives the value cut to the field's width, every
  field that does not overlap it reads as before, and no byte outside the integer changes.\<close>

theorem SET_BITS_TO_LE_4BYTE_field:
  assumes "p + 4 \<le> length b" and "off + len \<le> 32"
  shows "\<exists>b'. SET_BITS_TO_LE_4BYTE b p off len w = Some b'
      \<and> LE_BITS_TO_4BYTE b' p off len = Some (w AND BIT_LEN_MASK_32 len)
      \<and> (\<forall>off2 len2. len2 \<le> 32 \<and> (off2 + len2 \<le> off \<or> off + len \<le> off2) \<longrightarrow>
            LE_BITS_TO_4BYTE b' p off2 len2 = LE_BITS_TO_4BYTE b p off2 len2)
      \<and> take p b' = take p b \<and> drop (p + 4) b' = drop (p + 4) b"
proof -
  have "\<exists>x. RTW_GET_LE16 b p = Some x" "\<exists>y. RTW_GET_LE16 b (p + 2) = Some y"
    using assms(1) by (simp_all add: RTW_GET_LE16_Some_iff)
  then obtain v where v: "ReadLE4Byte b p = Some v" by (auto simp: ReadLE4Byte_def)
  from le4.set_then_get [OF v, of off len w] assms(2) v show ?thesis
    by (auto simp: LE_BITS_get_field SET_BITS_set_field BIT_LEN_MASK_mask)
qed

theorem SET_BITS_TO_LE_4BYTE_field_witness:
  "\<exists>b'. SET_BITS_TO_LE_4BYTE [1, 2, 3, 4, 5] 1 4 6 0x7f = Some b'
      \<and> LE_BITS_TO_4BYTE b' 1 4 6 = Some (0x7f AND BIT_LEN_MASK_32 6)
      \<and> (\<forall>off2 len2. len2 \<le> 32 \<and> (off2 + len2 \<le> 4 \<or> 4 + 6 \<le> off2) \<longrightarrow>
            LE_BITS_TO_4BYTE b' 1 off2 len2 = LE_BITS_TO_4BYTE [1, 2, 3, 4, 5] 1 off2 len2)
      \<and> take 1 b' = [1] \<and> drop (1 + 4) b' = []"
  using SET_BITS_TO_LE_4BYTE_field [of 1 "[1, 2, 3, 4, 5]" 4 6 "0x7f"] by simp

end
