(* ===== verification/Sec_Ie.thy ===== *)
theory Sec_Ie
  imports Ie Bits
begin

text \<open>
  The security elements of \<open>core/rtw_ieee80211.c\<close>: finding the WPA, RSN and WAPI elements of a
  beacon (\<open>rtw_get_wpa_ie\<close>, \<open>rtw_get_wpa2_ie\<close>, \<open>rtw_get_sec_ie\<close>, \<open>rtw_get_wapi_ie\<close>),
  parsing them (\<open>rtw_parse_wpa_ie\<close>, \<open>rtw_rsne_info_parse\<close>, \<open>rtw_parse_wpa2_ie\<close>) and the
  A-MSDU protection mode derived from the RSN capabilities. The parsers read what an attacker
  sends, so the lemmas show that they stay inside the element for every input, and that on an
  encoded element they return exactly what was encoded.
\<close>

section \<open>Suite selectors\<close>

abbreviation BIT32 :: "nat \<Rightarrow> u32" where "BIT32 n \<equiv> push_bit n 1"

definition WPA_CIPHER_NONE :: u32 where "WPA_CIPHER_NONE = BIT32 0"
definition WPA_CIPHER_WEP40 :: u32 where "WPA_CIPHER_WEP40 = BIT32 1"
definition WPA_CIPHER_WEP104 :: u32 where "WPA_CIPHER_WEP104 = BIT32 2"
definition WPA_CIPHER_TKIP :: u32 where "WPA_CIPHER_TKIP = BIT32 3"
definition WPA_CIPHER_CCMP :: u32 where "WPA_CIPHER_CCMP = BIT32 4"
definition WPA_CIPHER_GCMP :: u32 where "WPA_CIPHER_GCMP = BIT32 5"
definition WPA_CIPHER_GCMP_256 :: u32 where "WPA_CIPHER_GCMP_256 = BIT32 6"
definition WPA_CIPHER_CCMP_256 :: u32 where "WPA_CIPHER_CCMP_256 = BIT32 7"
definition WPA_CIPHER_BIP_CMAC_128 :: u32 where "WPA_CIPHER_BIP_CMAC_128 = BIT32 8"
definition WPA_CIPHER_BIP_GMAC_128 :: u32 where "WPA_CIPHER_BIP_GMAC_128 = BIT32 9"
definition WPA_CIPHER_BIP_GMAC_256 :: u32 where "WPA_CIPHER_BIP_GMAC_256 = BIT32 10"
definition WPA_CIPHER_BIP_CMAC_256 :: u32 where "WPA_CIPHER_BIP_CMAC_256 = BIT32 11"

definition WLAN_AKM_TYPE_8021X :: u32 where "WLAN_AKM_TYPE_8021X = BIT32 0"

definition WPA_IE_ID :: u8 where "WPA_IE_ID = 0xdd"
definition WPA2_IE_ID :: u8 where "WPA2_IE_ID = 0x30"
definition WAPI_IE :: u8 where "WAPI_IE = 68"
definition WLAN_EID_RSN :: u8 where "WLAN_EID_RSN = 48"

definition RTW_WPA_OUI_TYPE :: buf where "RTW_WPA_OUI_TYPE = [0x00, 0x50, 0xf2, 1]"

text \<open>The selector of a suite is four bytes; \<open>suite_at\<close> is the read every comparison shares.\<close>

definition wpa_cipher_of :: "buf \<Rightarrow> u32" where
  "wpa_cipher_of s =
     (if s = [0x00, 0x50, 0xf2, 0] then WPA_CIPHER_NONE
      else if s = [0x00, 0x50, 0xf2, 1] then WPA_CIPHER_WEP40
      else if s = [0x00, 0x50, 0xf2, 2] then WPA_CIPHER_TKIP
      else if s = [0x00, 0x50, 0xf2, 4] then WPA_CIPHER_CCMP
      else if s = [0x00, 0x50, 0xf2, 5] then WPA_CIPHER_WEP104
      else 0)"

definition rtw_get_wpa_cipher_suite :: "buf \<Rightarrow> nat \<Rightarrow> u32 option" where
  "rtw_get_wpa_cipher_suite b s = map_option wpa_cipher_of (rd_n b s 4)"

definition rsn_cipher_of :: "buf \<Rightarrow> u32" where
  "rsn_cipher_of s =
     (if s = [0x00, 0x0f, 0xac, 0] then WPA_CIPHER_NONE
      else if s = [0x00, 0x0f, 0xac, 1] then WPA_CIPHER_WEP40
      else if s = [0x00, 0x0f, 0xac, 2] then WPA_CIPHER_TKIP
      else if s = [0x00, 0x0f, 0xac, 4] then WPA_CIPHER_CCMP
      else if s = [0x00, 0x0f, 0xac, 8] then WPA_CIPHER_GCMP
      else if s = [0x00, 0x0f, 0xac, 9] then WPA_CIPHER_GCMP_256
      else if s = [0x00, 0x0f, 0xac, 10] then WPA_CIPHER_CCMP_256
      else if s = [0x00, 0x0f, 0xac, 5] then WPA_CIPHER_WEP104
      else if s = [0x00, 0x0f, 0xac, 6] then WPA_CIPHER_BIP_CMAC_128
      else if s = [0x00, 0x0f, 0xac, 11] then WPA_CIPHER_BIP_GMAC_128
      else if s = [0x00, 0x0f, 0xac, 12] then WPA_CIPHER_BIP_GMAC_256
      else if s = [0x00, 0x0f, 0xac, 13] then WPA_CIPHER_BIP_CMAC_256
      else 0)"

definition rtw_get_rsn_cipher_suite :: "buf \<Rightarrow> nat \<Rightarrow> u32 option" where
  "rtw_get_rsn_cipher_suite b s = map_option rsn_cipher_of (rd_n b s 4)"

text \<open>The fifteen authentication suites in the order of the comparisons, with the bit each sets.\<close>

definition akm_table :: "(u8 \<times> nat) list" where
  "akm_table = [(1, 0), (2, 1), (3, 2), (4, 3), (5, 4), (6, 5), (7, 6), (8, 7), (9, 8), (11, 9),
     (12, 10), (14, 11), (15, 12), (16, 13), (17, 14)]"

definition akm_bitmap_of :: "buf \<Rightarrow> u32" where
  "akm_bitmap_of s = (case find (\<lambda>(n, k). s = [0x00, 0x0f, 0xac, n]) akm_table of
     None \<Rightarrow> 0 | Some (n, k) \<Rightarrow> BIT32 k)"

definition rtw_get_akm_suite_bitmap :: "buf \<Rightarrow> nat \<Rightarrow> u32 option" where
  "rtw_get_akm_suite_bitmap b s = map_option akm_bitmap_of (rd_n b s 4)"

text \<open>The loops that collect a suite list: \<open>for (i = 0; i < cnt; i++) acc |= suite(pos + 4 * i)\<close>.\<close>

primrec suite_loop :: "(buf \<Rightarrow> nat \<Rightarrow> u32 option) \<Rightarrow> buf \<Rightarrow> nat \<Rightarrow> nat \<Rightarrow> u32 \<Rightarrow> u32 option" where
  "suite_loop suite b 0 pos acc = Some acc"
| "suite_loop suite b (Suc n) pos acc = do { c \<leftarrow> suite b pos; suite_loop suite b n (pos + 4) (acc OR c) }"

section \<open>Finding the elements\<close>

lemma rtw_get_ie_loop_ge:
  "rtw_get_ie_loop b p i index limit = Some (Some q, l) \<Longrightarrow> p \<le> q"
proof (induction b p i index limit rule: rtw_get_ie_loop.induct)
  case (1 b p i index limit)
  from "1.prems" show ?case
    by (subst (asm) rtw_get_ie_loop.simps)
      (auto split: option.splits if_splits dest: "1.IH")
qed

lemma rtw_get_ie_ge: "rtw_get_ie b p index l0 limit = Some (Some q, l) \<Longrightarrow> p \<le> q"
  by (auto simp: rtw_get_ie_def dest: rtw_get_ie_loop_ge split: if_splits)

text \<open>\<open>rtw_get_wpa_ie\<close>: vendor elements are tried one after the other until one carries the WPA
  selector and version 1. The result is the pointer and \<open>*wpa_ie_len\<close>.\<close>

function rtw_get_wpa_ie_loop :: "buf \<Rightarrow> nat \<Rightarrow> int \<Rightarrow> nat \<Rightarrow> int \<Rightarrow> (nat option \<times> nat) option" where
  "rtw_get_wpa_ie_loop b pie limit pbuf limit_new =
     (case rtw_get_ie b pbuf (uint WPA_IE_ID) 0 limit_new of
        None \<Rightarrow> None
      | Some (None, len) \<Rightarrow> Some (None, 0)
      | Some (Some p, len) \<Rightarrow>
        (case mem_eq b (p + 2) RTW_WPA_OUI_TYPE of None \<Rightarrow> None
         | Some oui_match \<Rightarrow>
        (case (if oui_match then map_option (\<lambda>v. v = 1) (RTW_GET_LE16 b (p + 6)) else Some False) of
           None \<Rightarrow> None
         | Some True \<Rightarrow> do { l \<leftarrow> rd b (p + 1); Some (Some p, unat l) }
         | Some False \<Rightarrow>
             (let limit_new' = limit - (int p - int pie) - 2 - int len in
              if limit_new' \<le> 0 then Some (None, 0)
              else rtw_get_wpa_ie_loop b pie limit (p + (2 + len)) limit_new'))))"
  by pat_completeness auto
termination
  by (relation "measure (\<lambda>(b, pie, limit, pbuf, limit_new). nat (limit + int pie - int pbuf))")
    (auto dest!: rtw_get_ie_ge)

declare rtw_get_wpa_ie_loop.simps [simp del]

definition rtw_get_wpa_ie :: "buf \<Rightarrow> nat \<Rightarrow> int \<Rightarrow> (nat option \<times> nat) option" where
  "rtw_get_wpa_ie b pie limit = rtw_get_wpa_ie_loop b pie limit pie limit"

definition rtw_get_wpa2_ie :: "buf \<Rightarrow> nat \<Rightarrow> nat \<Rightarrow> int \<Rightarrow> (nat option \<times> nat) option" where
  "rtw_get_wpa2_ie b pie rsn_ie_len limit = rtw_get_ie b pie (uint WPA2_IE_ID) rsn_ie_len limit"

text \<open>\<open>rtw_get_wapi_ie\<close> starts behind the fixed part of a beacon; it remembers the last matching
  element: the copied bytes (when \<open>wapi_ie\<close> is given) and \<open>*wapi_len\<close>.\<close>

function rtw_get_wapi_ie_loop ::
  "buf \<Rightarrow> nat \<Rightarrow> nat \<Rightarrow> nat \<Rightarrow> bool \<Rightarrow> buf option \<Rightarrow> u16 \<Rightarrow> (buf option \<times> u16) option" where
  "rtw_get_wapi_ie_loop b in_ie in_len cnt wapi_ie copied wapi_len =
     (if cnt < in_len then
        (case rd b (in_ie + cnt) of None \<Rightarrow> None | Some authmode \<Rightarrow>
        (case (if authmode = WAPI_IE then do {
                 x \<leftarrow> mem_eq b (in_ie + cnt + 6) [0x0, 0x14, 0x72, 0x01];
                 y \<leftarrow> mem_eq b (in_ie + cnt + 6) [0x0, 0x14, 0x72, 0x02];
                 Some (x \<or> y) } else Some False) of None \<Rightarrow> None | Some hit \<Rightarrow>
        (case rd b (in_ie + cnt + 1) of None \<Rightarrow> None | Some l \<Rightarrow>
        (case (if hit \<and> wapi_ie then map_option Some (rd_n b (in_ie + cnt) (unat l + 2)) else Some copied) of
           None \<Rightarrow> None | Some copied' \<Rightarrow>
         rtw_get_wapi_ie_loop b in_ie in_len (cnt + unat l + 2) wapi_ie copied'
           (if hit then word_of_nat (unat l + 2) else wapi_len)))))
      else Some (copied, wapi_len))"
  by pat_completeness auto
termination
  by (relation "measure (\<lambda>(b, in_ie, in_len, cnt, w, c, l). in_len - cnt)") auto

declare rtw_get_wapi_ie_loop.simps [simp del]

definition rtw_get_wapi_ie ::
  "buf \<Rightarrow> nat option \<Rightarrow> nat \<Rightarrow> bool \<Rightarrow> bool \<Rightarrow> (int \<times> buf option \<times> u16 option) option" where
  "rtw_get_wapi_ie b in_ie in_len wapi_ie has_len =
     (case in_ie of None \<Rightarrow> Some (0, None, if has_len then Some 0 else None)
      | Some p \<Rightarrow>
        if in_len \<le> 0 then Some (0, None, if has_len then Some 0 else None)
        else do {
          (copied, wapi_len) \<leftarrow> rtw_get_wapi_ie_loop b p in_len (8 + 2 + 2) wapi_ie None 0;
          Some (if has_len then uint wapi_len else 0, copied, if has_len then Some wapi_len else None) })"

text \<open>\<open>rtw_get_sec_ie\<close>: state (\<open>rsn\<close> copy, \<open>*rsn_len\<close>, \<open>wpa\<close> copy, \<open>*wpa_len\<close>). The two
  lengths are the caller's until an element is found.\<close>

function rtw_get_sec_ie_loop ::
  "buf \<Rightarrow> nat \<Rightarrow> nat \<Rightarrow> nat \<Rightarrow> bool \<Rightarrow> bool \<Rightarrow> buf option \<times> u16 \<times> buf option \<times> u16
    \<Rightarrow> (buf option \<times> u16 \<times> buf option \<times> u16) option" where
  "rtw_get_sec_ie_loop b in_ie in_len cnt rsn_ie wpa_ie st =
     (if cnt < in_len then
        (case rd b (in_ie + cnt) of None \<Rightarrow> None | Some authmode \<Rightarrow>
        (case (if authmode = WPA_IE_ID then mem_eq b (in_ie + cnt + 2) [0x0, 0x50, 0xf2, 0x01] else Some False) of
           None \<Rightarrow> None | Some is_wpa \<Rightarrow>
        (case rd b (in_ie + cnt + 1) of None \<Rightarrow> None | Some l \<Rightarrow>
        (case (if is_wpa \<and> wpa_ie \<or> \<not> is_wpa \<and> authmode = WPA2_IE_ID \<and> rsn_ie
               then map_option Some (rd_n b (in_ie + cnt) (unat l + 2)) else Some None) of
           None \<Rightarrow> None | Some c \<Rightarrow>
         rtw_get_sec_ie_loop b in_ie in_len (cnt + unat l + 2) rsn_ie wpa_ie
           (let (rsn, rsn_len, wpa, wpa_len) = st; n = word_of_nat (unat l + 2) in
            if is_wpa then (rsn, rsn_len, if wpa_ie then c else wpa, n)
            else if authmode = WPA2_IE_ID then (if rsn_ie then c else rsn, n, wpa, wpa_len)
            else st)))))
      else Some st)"
  by pat_completeness auto
termination
  by (relation "measure (\<lambda>(b, in_ie, in_len, cnt, r, w, s). in_len - cnt)") auto

declare rtw_get_sec_ie_loop.simps [simp del]

definition rtw_get_sec_ie ::
  "buf \<Rightarrow> nat \<Rightarrow> nat \<Rightarrow> bool \<Rightarrow> u16 \<Rightarrow> bool \<Rightarrow> u16 \<Rightarrow> (int \<times> buf option \<times> u16 \<times> buf option \<times> u16) option" where
  "rtw_get_sec_ie b in_ie in_len rsn_ie rsn_len wpa_ie wpa_len = do {
     (rsn, rsn_len, wpa, wpa_len) \<leftarrow>
       rtw_get_sec_ie_loop b in_ie in_len (8 + 2 + 2) rsn_ie wpa_ie (None, rsn_len, None, wpa_len);
     Some (uint rsn_len + uint wpa_len, rsn, rsn_len, wpa, wpa_len) }"

section \<open>Parsing the WPA element\<close>

text \<open>The pointers \<open>group_cipher\<close>, \<open>pairwise_cipher\<close> and \<open>akm\<close> (\<^term>\<open>None\<close> for
  \<open>NULL\<close>) are values that go in and come out; the first component is \<open>_SUCCESS\<close>.\<close>

definition rtw_parse_wpa_ie ::
  "buf \<Rightarrow> nat \<Rightarrow> int \<Rightarrow> u32 \<Rightarrow> u32 \<Rightarrow> u32 option \<Rightarrow> (bool \<times> u32 \<times> u32 \<times> u32 option) option" where
  "rtw_parse_wpa_ie b wpa_ie wpa_ie_len group_cipher pairwise_cipher akm =
     (if wpa_ie_len \<le> 0 then Some (False, group_cipher, pairwise_cipher, akm)
      else do {
        e \<leftarrow> rd b wpa_ie;
        bad \<leftarrow> (if e \<noteq> WPA_IE_ID then Some True else do {
          l \<leftarrow> rd b (wpa_ie + 1);
          if l \<noteq> word_of_int (wpa_ie_len - 2) then Some True
          else map_option Not (mem_eq b (wpa_ie + 2) RTW_WPA_OUI_TYPE) });
        if bad then Some (False, group_cipher, pairwise_cipher, akm)
        else do {
          let pos = wpa_ie + 8;
          let left = wpa_ie_len - 8;
          if left < 4 \<and> left > 0 then Some (False, group_cipher, pairwise_cipher, akm)
          else do {
            (group_cipher, pos, left) \<leftarrow>
              (if left \<ge> 4 then do { g \<leftarrow> rtw_get_wpa_cipher_suite b pos; Some (g, pos + 4, left - 4) }
               else Some (group_cipher, pos, left));
            if left = 1 then Some (False, group_cipher, pairwise_cipher, akm)
            else do {
              count \<leftarrow> (if left \<ge> 2 then RTW_GET_LE16 b pos else Some 0);
              if left \<ge> 2 \<and> (count = 0 \<or> left - 2 < uint count * 4)
              then Some (False, group_cipher, pairwise_cipher, akm)
              else do {
                pairwise_cipher \<leftarrow>
                  (if left \<ge> 2 then suite_loop rtw_get_wpa_cipher_suite b (unat count) (pos + 2) pairwise_cipher
                   else Some pairwise_cipher);
                let pos' = (if left \<ge> 2 then pos + 2 + 4 * unat count else pos);
                let left' = (if left \<ge> 2 then left - 2 - 4 * uint count else left);
                (case akm of None \<Rightarrow> Some (True, group_cipher, pairwise_cipher, None)
                 | Some a \<Rightarrow>
                   if left' \<ge> 6 then do {
                     x \<leftarrow> mem_eq b (pos' + 2) [0x00, 0x50, 0xf2, 1];
                     Some (True, group_cipher, pairwise_cipher, Some (if x then WLAN_AKM_TYPE_8021X else a)) }
                   else Some (True, group_cipher, pairwise_cipher, akm)) } } } } })"

section \<open>Parsing the RSN element\<close>

record rsne_info =
  gcs :: "nat option"
  pcs_cnt :: nat
  pcs_list :: "nat option"
  akm_cnt :: nat
  akm_list :: "nat option"
  rsn_cap :: "nat option"
  pmkid_cnt :: nat
  pmkid_list :: "nat option"
  gmcs :: "nat option"
  rsne_err :: bool

definition rsne_info_zero :: rsne_info where
  "rsne_info_zero = \<lparr>gcs = None, pcs_cnt = 0, pcs_list = None, akm_cnt = 0, akm_list = None,
     rsn_cap = None, pmkid_cnt = 0, pmkid_list = None, gmcs = None, rsne_err = False\<rparr>"

text \<open>The label \<open>err\<close>, and the check \<open>if (ie + ie_len != pos) goto err; goto exit;\<close> of a field
  that does not fit. The sections of the parser follow in the order of the code, the last first.\<close>

definition rsne_fail :: "rsne_info \<Rightarrow> bool \<times> rsne_info" where
  "rsne_fail info = (False, info\<lparr>rsne_err := True\<rparr>)"

definition rsne_short :: "nat \<Rightarrow> nat \<Rightarrow> rsne_info \<Rightarrow> bool \<times> rsne_info" where
  "rsne_short fin pos info = (if fin \<noteq> pos then rsne_fail info else (True, info))"

definition rsne_group_mgmt :: "nat \<Rightarrow> nat \<Rightarrow> rsne_info \<Rightarrow> (bool \<times> rsne_info) option" where
  "rsne_group_mgmt fin pos info =
     (if fin < pos + 4 then Some (rsne_short fin pos info)
      else Some (True, info\<lparr>gmcs := Some pos\<rparr>))"

definition rsne_pmkid :: "buf \<Rightarrow> nat \<Rightarrow> nat \<Rightarrow> rsne_info \<Rightarrow> (bool \<times> rsne_info) option" where
  "rsne_pmkid b fin pos info =
     (if fin < pos + 2 then Some (rsne_short fin pos info)
      else do {
        cnt \<leftarrow> RTW_GET_LE16 b pos;
        let pos = pos + 2;
        if fin < pos + 16 * unat cnt then Some (rsne_fail info)
        else rsne_group_mgmt fin (pos + 16 * unat cnt)
               (info\<lparr>pmkid_cnt := unat cnt, pmkid_list := Some pos\<rparr>) })"

definition rsne_cap :: "buf \<Rightarrow> nat \<Rightarrow> nat \<Rightarrow> rsne_info \<Rightarrow> (bool \<times> rsne_info) option" where
  "rsne_cap b fin pos info =
     (if fin < pos + 2 then Some (rsne_short fin pos info)
      else rsne_pmkid b fin (pos + 2) (info\<lparr>rsn_cap := Some pos\<rparr>))"

definition rsne_akm :: "buf \<Rightarrow> nat \<Rightarrow> nat \<Rightarrow> rsne_info \<Rightarrow> (bool \<times> rsne_info) option" where
  "rsne_akm b fin pos info =
     (if fin < pos + 2 then Some (rsne_short fin pos info)
      else do {
        cnt \<leftarrow> RTW_GET_LE16 b pos;
        let pos = pos + 2;
        if fin < pos + 4 * unat cnt then Some (rsne_short fin pos info)
        else rsne_cap b fin (pos + 4 * unat cnt) (info\<lparr>akm_cnt := unat cnt, akm_list := Some pos\<rparr>) })"

definition rsne_pairwise :: "buf \<Rightarrow> nat \<Rightarrow> nat \<Rightarrow> rsne_info \<Rightarrow> (bool \<times> rsne_info) option" where
  "rsne_pairwise b fin pos info =
     (if fin < pos + 2 then Some (rsne_short fin pos info)
      else do {
        cnt \<leftarrow> RTW_GET_LE16 b pos;
        let pos = pos + 2;
        if fin < pos + 4 * unat cnt then Some (rsne_short fin pos info)
        else rsne_akm b fin (pos + 4 * unat cnt) (info\<lparr>pcs_cnt := unat cnt, pcs_list := Some pos\<rparr>) })"

definition rsne_group :: "buf \<Rightarrow> nat \<Rightarrow> nat \<Rightarrow> rsne_info \<Rightarrow> (bool \<times> rsne_info) option" where
  "rsne_group b fin pos info =
     (if fin < pos + 4 then Some (rsne_short fin pos info)
      else rsne_pairwise b fin (pos + 4) (info\<lparr>gcs := Some pos\<rparr>))"

definition rtw_rsne_info_parse :: "buf \<Rightarrow> nat \<Rightarrow> nat \<Rightarrow> (bool \<times> rsne_info) option" where
  "rtw_rsne_info_parse b ie ie_len =
     (if ie + ie_len < ie + 4 then Some (rsne_fail rsne_info_zero)
      else do {
        e \<leftarrow> rd b ie;
        bad \<leftarrow> (if e \<noteq> WLAN_EID_RSN then Some True
          else map_option (\<lambda>l. unat l \<noteq> ie_len - 2) (rd b (ie + 1)));
        if bad then Some (rsne_fail rsne_info_zero)
        else do {
          ver \<leftarrow> RTW_GET_LE16 b (ie + 2);
          if 1 \<noteq> ver then Some (rsne_fail rsne_info_zero)
          else rsne_group b (ie + ie_len) (ie + 4) rsne_info_zero } })"

definition MFP_NO :: u8 where "MFP_NO = 0"

definition GET_RSN_CAP_MFP_OPTION :: "buf \<Rightarrow> nat \<Rightarrow> u16 option" where
  "GET_RSN_CAP_MFP_OPTION b cap = LE_BITS_TO_2BYTE b cap 6 2"

definition GET_RSN_CAP_SPP_OPT :: "buf \<Rightarrow> nat \<Rightarrow> u16 option" where
  "GET_RSN_CAP_SPP_OPT b cap = LE_BITS_TO_2BYTE b cap 10 2"

definition SET_RSN_CAP_SPP :: "buf \<Rightarrow> nat \<Rightarrow> u8 \<Rightarrow> buf option" where
  "SET_RSN_CAP_SPP b cap spp = SET_BITS_TO_LE_2BYTE b cap 10 2 (ucast spp)"

text \<open>The six out parameters of \<open>rtw_parse_wpa2_ie\<close>, each \<^term>\<open>None\<close> when \<open>NULL\<close> was passed.\<close>

record wpa2_out =
  o_group_cipher :: "u32 option"
  o_pairwise_cipher :: "u32 option"
  o_gmcs :: "u32 option"
  o_akm :: "u32 option"
  o_mfp_opt :: "u8 option"
  o_spp_opt :: "u8 option"

text \<open>\<open>put p v\<close> is \<open>if (p) *p = v;\<close>, where \<open>v\<close> is only computed for a given pointer.\<close>

definition put :: "'a option \<Rightarrow> 'a option \<Rightarrow> 'a option option" where
  "put p v = (case p of None \<Rightarrow> Some None | Some _ \<Rightarrow> map_option Some v)"

definition rtw_parse_wpa2_ie :: "buf \<Rightarrow> nat \<Rightarrow> nat \<Rightarrow> wpa2_out \<Rightarrow> (bool \<times> wpa2_out) option" where
  "rtw_parse_wpa2_ie b rsn_ie rsn_ie_len out = do {
     (ret, info) \<leftarrow> rtw_rsne_info_parse b rsn_ie rsn_ie_len;
     if \<not> ret then Some (False, out)
     else do {
       g \<leftarrow> put (o_group_cipher out)
         (case gcs info of None \<Rightarrow> Some 0 | Some p \<Rightarrow> rtw_get_rsn_cipher_suite b p);
       pw \<leftarrow> put (o_pairwise_cipher out)
         (case pcs_list info of None \<Rightarrow> Some 0
          | Some p \<Rightarrow> suite_loop rtw_get_rsn_cipher_suite b (pcs_cnt info) p 0);
       gm \<leftarrow> put (o_gmcs out)
         (case gmcs info of None \<Rightarrow> Some WPA_CIPHER_BIP_CMAC_128 | Some p \<Rightarrow> rtw_get_rsn_cipher_suite b p);
       a \<leftarrow> put (o_akm out)
         (case akm_list info of None \<Rightarrow> Some 0
          | Some p \<Rightarrow> suite_loop rtw_get_akm_suite_bitmap b (akm_cnt info) p 0);
       m \<leftarrow> put (o_mfp_opt out)
         (case rsn_cap info of None \<Rightarrow> Some MFP_NO | Some p \<Rightarrow> map_option ucast (GET_RSN_CAP_MFP_OPTION b p));
       s \<leftarrow> put (o_spp_opt out)
         (case rsn_cap info of None \<Rightarrow> Some 0 | Some p \<Rightarrow> map_option ucast (GET_RSN_CAP_SPP_OPT b p));
       Some (True, \<lparr>o_group_cipher = g, o_pairwise_cipher = pw, o_gmcs = gm, o_akm = a,
         o_mfp_opt = m, o_spp_opt = s\<rparr>) } }"

section \<open>A-MSDU protection mode\<close>

definition SPP_CAP :: u8 where "SPP_CAP = 1"
definition SPP_REQ :: u8 where "SPP_REQ = 2"
definition RTW_AMSDU_MODE_NON_SPP :: u8 where "RTW_AMSDU_MODE_NON_SPP = 0"
definition RTW_AMSDU_MODE_SPP :: u8 where "RTW_AMSDU_MODE_SPP = 1"
definition RTW_AMSDU_MODE_ALL_DROP :: u8 where "RTW_AMSDU_MODE_ALL_DROP = 2"

lemmas amsdu_mode_defs = SPP_CAP_def SPP_REQ_def RTW_AMSDU_MODE_NON_SPP_def RTW_AMSDU_MODE_SPP_def
  RTW_AMSDU_MODE_ALL_DROP_def

text \<open>\<open>info.cap\<close> is dereferenced without a test; the model has no value when it is \<open>NULL\<close>.\<close>

definition rtw_set_spp_amsdu_mode :: "u8 \<Rightarrow> buf \<Rightarrow> nat \<Rightarrow> nat \<Rightarrow> buf option" where
  "rtw_set_spp_amsdu_mode mode b rsn_ie rsn_ie_len =
     (case (if mode = RTW_AMSDU_MODE_NON_SPP then Some (NOT SPP_CAP OR NOT SPP_REQ)
            else if mode = RTW_AMSDU_MODE_SPP then Some (SPP_CAP OR SPP_REQ)
            else if mode = RTW_AMSDU_MODE_ALL_DROP then Some (NOT SPP_CAP OR SPP_REQ)
            else None) of
        None \<Rightarrow> Some b
      | Some spp_req_cap \<Rightarrow> do {
          (ret, info) \<leftarrow> rtw_rsne_info_parse b rsn_ie rsn_ie_len;
          if \<not> ret then Some b
          else do { cap \<leftarrow> rsn_cap info; SET_RSN_CAP_SPP b cap spp_req_cap } })"

text \<open>The operand of \<open>~\<close> is promoted to \<open>int\<close> first.\<close>

definition rtw_check_amsdu_disable :: "u8 \<Rightarrow> u8 \<Rightarrow> bool" where
  "rtw_check_amsdu_disable mode spp_opt =
     (if mode = RTW_AMSDU_MODE_NON_SPP \<and> spp_opt AND SPP_REQ \<noteq> 0 then True
      else if mode = RTW_AMSDU_MODE_SPP \<and> NOT (ucast (spp_opt AND SPP_CAP) :: u32) \<noteq> 0 then True
      else if mode = RTW_AMSDU_MODE_ALL_DROP then True
      else False)"

section \<open>The parser stays inside the element\<close>

text \<open>Every pointer the parser hands out lies, with the bytes its count announces, before \<open>fin\<close>.\<close>

definition rsne_inside :: "nat \<Rightarrow> rsne_info \<Rightarrow> bool" where
  "rsne_inside fin info \<longleftrightarrow>
     (\<forall>p. gcs info = Some p \<longrightarrow> p + 4 \<le> fin) \<and>
     (\<forall>p. pcs_list info = Some p \<longrightarrow> p + 4 * pcs_cnt info \<le> fin) \<and>
     (\<forall>p. akm_list info = Some p \<longrightarrow> p + 4 * akm_cnt info \<le> fin) \<and>
     (\<forall>p. rsn_cap info = Some p \<longrightarrow> p + 2 \<le> fin) \<and>
     (\<forall>p. pmkid_list info = Some p \<longrightarrow> p + 16 * pmkid_cnt info \<le> fin) \<and>
     (\<forall>p. gmcs info = Some p \<longrightarrow> p + 4 \<le> fin)"

text \<open>\<open>parsed fin r\<close>: the parser (or one of its sections) returned, and \<open>rsne_err\<close> is set exactly on failure.\<close>

definition parsed :: "nat \<Rightarrow> (bool \<times> rsne_info) option \<Rightarrow> bool" where
  "parsed fin r = (case r of None \<Rightarrow> False
     | Some (ok, info) \<Rightarrow> rsne_inside fin info \<and> (rsne_err info \<longleftrightarrow> \<not> ok))"

lemma LE16_inside: "pos + 2 \<le> fin \<Longrightarrow> fin \<le> length b \<Longrightarrow> \<exists>v. RTW_GET_LE16 b pos = Some v"
  by (simp add: RTW_GET_LE16_Some_iff)

lemma parsed_short:
  "rsne_inside fin info \<Longrightarrow> \<not> rsne_err info \<Longrightarrow> parsed fin (Some (rsne_short fin pos info))"
  "rsne_inside fin info \<Longrightarrow> parsed fin (Some (rsne_fail info))"
  by (auto simp: parsed_def rsne_short_def rsne_fail_def rsne_inside_def)

lemma rsne_group_mgmt_parsed:
  "rsne_inside fin info \<Longrightarrow> \<not> rsne_err info \<Longrightarrow> parsed fin (rsne_group_mgmt fin pos info)"
  by (simp add: rsne_group_mgmt_def parsed_short) (simp add: parsed_def rsne_inside_def)

lemma rsne_pmkid_parsed:
  "rsne_inside fin info \<Longrightarrow> \<not> rsne_err info \<Longrightarrow> fin \<le> length b \<Longrightarrow> parsed fin (rsne_pmkid b fin pos info)"
  using LE16_inside [of pos fin b]
  by (auto simp: rsne_pmkid_def Let_def parsed_short not_less intro!: rsne_group_mgmt_parsed)
    (simp_all add: rsne_inside_def)

lemma rsne_cap_parsed:
  "rsne_inside fin info \<Longrightarrow> \<not> rsne_err info \<Longrightarrow> fin \<le> length b \<Longrightarrow> parsed fin (rsne_cap b fin pos info)"
  by (auto simp: rsne_cap_def parsed_short not_less intro!: rsne_pmkid_parsed)
    (simp_all add: rsne_inside_def)

lemma rsne_akm_parsed:
  "rsne_inside fin info \<Longrightarrow> \<not> rsne_err info \<Longrightarrow> fin \<le> length b \<Longrightarrow> parsed fin (rsne_akm b fin pos info)"
  using LE16_inside [of pos fin b]
  by (auto simp: rsne_akm_def Let_def parsed_short not_less intro!: rsne_cap_parsed)
    (simp_all add: rsne_inside_def)

lemma rsne_pairwise_parsed:
  "rsne_inside fin info \<Longrightarrow> \<not> rsne_err info \<Longrightarrow> fin \<le> length b \<Longrightarrow> parsed fin (rsne_pairwise b fin pos info)"
  using LE16_inside [of pos fin b]
  by (auto simp: rsne_pairwise_def Let_def parsed_short not_less intro!: rsne_akm_parsed)
    (simp_all add: rsne_inside_def)

lemma rsne_group_parsed:
  "rsne_inside fin info \<Longrightarrow> \<not> rsne_err info \<Longrightarrow> fin \<le> length b \<Longrightarrow> parsed fin (rsne_group b fin pos info)"
  by (auto simp: rsne_group_def parsed_short not_less intro!: rsne_pairwise_parsed)
    (simp_all add: rsne_inside_def)

lemma rsne_zero_inside [simp]: "rsne_inside fin rsne_info_zero" "\<not> rsne_err rsne_info_zero"
  by (simp_all add: rsne_inside_def rsne_info_zero_def)

lemma rtw_rsne_info_parse_parsed:
  assumes "ie + ie_len \<le> length b"
  shows "parsed (ie + ie_len) (rtw_rsne_info_parse b ie ie_len)"
proof (cases "ie_len < 4")
  case True
  then show ?thesis by (simp add: rtw_rsne_info_parse_def parsed_short)
next
  case False
  with assms have "rd b ie = Some (b ! ie)" "rd b (ie + 1) = Some (b ! (ie + 1))"
      "\<exists>v. RTW_GET_LE16 b (ie + 2) = Some v"
    by (auto simp: rd_def RTW_GET_LE16_Some_iff)
  with False assms show ?thesis
    by (auto simp: rtw_rsne_info_parse_def parsed_short intro!: rsne_group_parsed)
qed

text \<open>C4: for every content of the element and every announced length inside the object,
  \<open>rtw_rsne_info_parse\<close> returns without touching a byte outside the object, flags an error
  exactly when it fails, and every pointer and count it stores stays inside the element.\<close>

theorem rtw_rsne_info_parse_safe:
  assumes "ie + ie_len \<le> length b"
  shows "\<exists>ok info. rtw_rsne_info_parse b ie ie_len = Some (ok, info)
      \<and> rsne_inside (ie + ie_len) info \<and> (rsne_err info \<longleftrightarrow> \<not> ok)"
  using rtw_rsne_info_parse_parsed [OF assms] by (auto simp: parsed_def split: option.splits)

theorem rtw_rsne_info_parse_safe_witness:
  "\<exists>ok info. rtw_rsne_info_parse [48, 9, 1, 0, 0, 15, 172, 4, 200, 0, 7] 0 11 = Some (ok, info)
      \<and> rsne_inside 11 info \<and> (rsne_err info \<longleftrightarrow> \<not> ok)"
  using rtw_rsne_info_parse_safe [of 0 11 "[48, 9, 1, 0, 0, 15, 172, 4, 200, 0, 7]"] by simp

section \<open>Encoded RSN elements\<close>

text \<open>An RSN element is a sequence of fields that may stop after any of them: each level holds a
  field and, when it is present, what follows.\<close>

type_synonym rsne_gm = "buf option"
type_synonym rsne_pm = "(buf list \<times> rsne_gm) option"
type_synonym rsne_cp = "(u16 \<times> rsne_pm) option"
type_synonym rsne_ak = "(buf list \<times> rsne_cp) option"
type_synonym rsne_pw = "(buf list \<times> rsne_ak) option"
type_synonym rsne = "(buf \<times> rsne_pw) option"

definition enc_list :: "buf list \<Rightarrow> buf" where
  "enc_list xs = le16_bytes (word_of_nat (length xs)) @ concat xs"

definition enc_gm :: "rsne_gm \<Rightarrow> buf" where "enc_gm r = (case r of None \<Rightarrow> [] | Some g \<Rightarrow> g)"
definition enc_pm :: "rsne_pm \<Rightarrow> buf" where "enc_pm r = (case r of None \<Rightarrow> [] | Some (ps, r) \<Rightarrow> enc_list ps @ enc_gm r)"
definition enc_cp :: "rsne_cp \<Rightarrow> buf" where "enc_cp r = (case r of None \<Rightarrow> [] | Some (c, r) \<Rightarrow> le16_bytes c @ enc_pm r)"
definition enc_ak :: "rsne_ak \<Rightarrow> buf" where "enc_ak r = (case r of None \<Rightarrow> [] | Some (as, r) \<Rightarrow> enc_list as @ enc_cp r)"
definition enc_pw :: "rsne_pw \<Rightarrow> buf" where "enc_pw r = (case r of None \<Rightarrow> [] | Some (ps, r) \<Rightarrow> enc_list ps @ enc_ak r)"
definition enc_gc :: "rsne \<Rightarrow> buf" where "enc_gc r = (case r of None \<Rightarrow> [] | Some (g, r) \<Rightarrow> g @ enc_pw r)"

definition enc_rsne :: "rsne \<Rightarrow> buf" where
  "enc_rsne r = enc_ie (WLAN_EID_RSN, le16_bytes 1 @ enc_gc r)"

abbreviation sized :: "nat \<Rightarrow> buf list \<Rightarrow> bool" where
  "sized k xs \<equiv> length xs < 65536 \<and> list_all (\<lambda>x. length x = k) xs"

definition gm_ok :: "rsne_gm \<Rightarrow> bool" where "gm_ok r = (case r of None \<Rightarrow> True | Some g \<Rightarrow> length g = 4)"
definition pm_ok :: "rsne_pm \<Rightarrow> bool" where "pm_ok r = (case r of None \<Rightarrow> True | Some (ps, r) \<Rightarrow> sized 16 ps \<and> gm_ok r)"
definition cp_ok :: "rsne_cp \<Rightarrow> bool" where "cp_ok r = (case r of None \<Rightarrow> True | Some (c, r) \<Rightarrow> pm_ok r)"
definition ak_ok :: "rsne_ak \<Rightarrow> bool" where "ak_ok r = (case r of None \<Rightarrow> True | Some (as, r) \<Rightarrow> sized 4 as \<and> cp_ok r)"
definition pw_ok :: "rsne_pw \<Rightarrow> bool" where "pw_ok r = (case r of None \<Rightarrow> True | Some (ps, r) \<Rightarrow> sized 4 ps \<and> ak_ok r)"

definition rsne_ok :: "rsne \<Rightarrow> bool" where
  "rsne_ok r \<longleftrightarrow> (case r of None \<Rightarrow> True | Some (g, r) \<Rightarrow> length g = 4 \<and> pw_ok r) \<and> length (enc_gc r) \<le> 253"

lemma length_concat_sized: "list_all (\<lambda>x. length x = k) xs \<Longrightarrow> length (concat xs) = k * length xs"
  by (induction xs) auto

lemma length_enc_list: "list_all (\<lambda>x. length x = k) xs \<Longrightarrow> length (enc_list xs) = 2 + k * length xs"
  by (simp add: enc_list_def length_concat_sized)

lemma LE16_enc_list: "length xs < 65536 \<Longrightarrow>
    RTW_GET_LE16 (pre @ enc_list xs @ post) (length pre) = Some (word_of_nat (length xs))"
  using LE16_overwrite [of pre "word_of_nat (length xs)" "concat xs @ post"] by (simp add: enc_list_def)

text \<open>What the parser stores for each level of an element whose next byte is at \<open>pos\<close>.\<close>

definition info_gm :: "nat \<Rightarrow> rsne_gm \<Rightarrow> rsne_info \<Rightarrow> rsne_info" where
  "info_gm pos r i = (case r of None \<Rightarrow> i | Some g \<Rightarrow> i\<lparr>gmcs := Some pos\<rparr>)"
definition info_pm :: "nat \<Rightarrow> rsne_pm \<Rightarrow> rsne_info \<Rightarrow> rsne_info" where
  "info_pm pos r i = (case r of None \<Rightarrow> i | Some (ps, r) \<Rightarrow>
     info_gm (pos + 2 + 16 * length ps) r (i\<lparr>pmkid_cnt := length ps, pmkid_list := Some (pos + 2)\<rparr>))"
definition info_cp :: "nat \<Rightarrow> rsne_cp \<Rightarrow> rsne_info \<Rightarrow> rsne_info" where
  "info_cp pos r i = (case r of None \<Rightarrow> i | Some (c, r) \<Rightarrow> info_pm (pos + 2) r (i\<lparr>rsn_cap := Some pos\<rparr>))"
definition info_ak :: "nat \<Rightarrow> rsne_ak \<Rightarrow> rsne_info \<Rightarrow> rsne_info" where
  "info_ak pos r i = (case r of None \<Rightarrow> i | Some (as, r) \<Rightarrow>
     info_cp (pos + 2 + 4 * length as) r (i\<lparr>akm_cnt := length as, akm_list := Some (pos + 2)\<rparr>))"
definition info_pw :: "nat \<Rightarrow> rsne_pw \<Rightarrow> rsne_info \<Rightarrow> rsne_info" where
  "info_pw pos r i = (case r of None \<Rightarrow> i | Some (ps, r) \<Rightarrow>
     info_ak (pos + 2 + 4 * length ps) r (i\<lparr>pcs_cnt := length ps, pcs_list := Some (pos + 2)\<rparr>))"
definition info_gc :: "nat \<Rightarrow> rsne \<Rightarrow> rsne_info \<Rightarrow> rsne_info" where
  "info_gc pos r i = (case r of None \<Rightarrow> i | Some (g, r) \<Rightarrow> info_pw (pos + 4) r (i\<lparr>gcs := Some pos\<rparr>))"

lemma rsne_group_mgmt_enc:
  "gm_ok r \<Longrightarrow> rsne_group_mgmt (pos + length (enc_gm r)) pos i = Some (True, info_gm pos r i)"
  by (cases r) (simp_all add: rsne_group_mgmt_def rsne_short_def gm_ok_def enc_gm_def info_gm_def)

lemma rsne_pmkid_enc:
  assumes "pm_ok r" and "b = pre @ enc_pm r @ post"
  shows "rsne_pmkid b (length pre + length (enc_pm r)) (length pre) i = Some (True, info_pm (length pre) r i)"
proof (cases r)
  case None
  then show ?thesis by (simp add: rsne_pmkid_def rsne_short_def enc_pm_def info_pm_def)
next
  case (Some x)
  obtain ps gm where x: "x = (ps, gm)" by (cases x)
  with Some assms have ok: "sized 16 ps" "gm_ok gm" and b: "b = pre @ enc_list ps @ enc_gm gm @ post"
    by (simp_all add: pm_ok_def enc_pm_def)
  have "rsne_group_mgmt (length pre + 2 + 16 * length ps + length (enc_gm gm)) (length pre + 2 + 16 * length ps) j
      = Some (True, info_gm (length pre + 2 + 16 * length ps) gm j)" for j
    by (rule rsne_group_mgmt_enc [OF ok(2)])
  moreover have "length (enc_list ps) = 2 + 16 * length ps" using ok(1) length_enc_list by blast
  ultimately show ?thesis
    using ok by (simp add: rsne_pmkid_def Some x b LE16_enc_list enc_pm_def info_pm_def Let_def add.assoc)
qed

lemma rsne_cap_enc:
  assumes "cp_ok r" and "b = pre @ enc_cp r @ post"
  shows "rsne_cap b (length pre + length (enc_cp r)) (length pre) i = Some (True, info_cp (length pre) r i)"
proof (cases r)
  case None
  then show ?thesis by (simp add: rsne_cap_def rsne_short_def enc_cp_def info_cp_def)
next
  case (Some x)
  obtain c pm where x: "x = (c, pm)" by (cases x)
  with Some assms have "pm_ok pm" "b = (pre @ le16_bytes c) @ enc_pm pm @ post"
    by (simp_all add: cp_ok_def enc_cp_def)
  from rsne_pmkid_enc [OF this] show ?thesis
    by (simp add: rsne_cap_def Some x enc_cp_def info_cp_def add.assoc)
qed

lemma rsne_akm_enc:
  assumes "ak_ok r" and "b = pre @ enc_ak r @ post"
  shows "rsne_akm b (length pre + length (enc_ak r)) (length pre) i = Some (True, info_ak (length pre) r i)"
proof (cases r)
  case None
  then show ?thesis by (simp add: rsne_akm_def rsne_short_def enc_ak_def info_ak_def)
next
  case (Some x)
  obtain as cp where x: "x = (as, cp)" by (cases x)
  with Some assms have ok: "sized 4 as" "cp_ok cp" and b: "b = (pre @ enc_list as) @ enc_cp cp @ post"
    by (simp_all add: ak_ok_def enc_ak_def)
  have "length (enc_list as) = 2 + 4 * length as" using ok(1) length_enc_list by blast
  with rsne_cap_enc [OF ok(2) b] ok(1) show ?thesis
    by (simp add: rsne_akm_def Some x b LE16_enc_list enc_ak_def info_ak_def Let_def add.assoc)
qed

lemma rsne_pairwise_enc:
  assumes "pw_ok r" and "b = pre @ enc_pw r @ post"
  shows "rsne_pairwise b (length pre + length (enc_pw r)) (length pre) i = Some (True, info_pw (length pre) r i)"
proof (cases r)
  case None
  then show ?thesis by (simp add: rsne_pairwise_def rsne_short_def enc_pw_def info_pw_def)
next
  case (Some x)
  obtain ps ak where x: "x = (ps, ak)" by (cases x)
  with Some assms have ok: "sized 4 ps" "ak_ok ak" and b: "b = (pre @ enc_list ps) @ enc_ak ak @ post"
    by (simp_all add: pw_ok_def enc_pw_def)
  have "length (enc_list ps) = 2 + 4 * length ps" using ok(1) length_enc_list by blast
  with rsne_akm_enc [OF ok(2) b] ok(1) show ?thesis
    by (simp add: rsne_pairwise_def Some x b LE16_enc_list enc_pw_def info_pw_def Let_def add.assoc)
qed

lemma rsne_group_enc:
  assumes "rsne_ok r" and "b = pre @ enc_gc r @ post"
  shows "rsne_group b (length pre + length (enc_gc r)) (length pre) i = Some (True, info_gc (length pre) r i)"
proof (cases r)
  case None
  then show ?thesis by (simp add: rsne_group_def rsne_short_def enc_gc_def info_gc_def)
next
  case (Some x)
  obtain g pw where x: "x = (g, pw)" by (cases x)
  with Some assms have ok: "length g = 4" "pw_ok pw" and b: "b = (pre @ g) @ enc_pw pw @ post"
    by (simp_all add: rsne_ok_def enc_gc_def)
  from rsne_pairwise_enc [OF ok(2) b] ok(1) show ?thesis
    by (simp add: rsne_group_def Some x enc_gc_def info_gc_def add.assoc)
qed

lemma rtw_rsne_info_parse_enc:
  assumes "rsne_ok r"
  shows "rtw_rsne_info_parse (pre @ enc_rsne r @ post) (length pre) (length (enc_rsne r))
      = Some (True, info_gc (length pre + 4) r rsne_info_zero)"
proof -
  let ?hd = "[WLAN_EID_RSN, word_of_nat (2 + length (enc_gc r))]"
  let ?b = "(pre @ ?hd @ le16_bytes 1) @ enc_gc r @ post"
  have b: "pre @ enc_rsne r @ post = ?b" by (simp add: enc_rsne_def enc_ie_def)
  have n: "unat (word_of_nat (2 + length (enc_gc r)) :: u8) = 2 + length (enc_gc r)"
    using assms by (intro unat_of_nat_u8) (simp add: rsne_ok_def)
  have "rd ?b (length pre) = Some WLAN_EID_RSN" "rd ?b (Suc (length pre)) = Some (word_of_nat (2 + length (enc_gc r)))"
    by (simp_all add: mem_simps)
  moreover have "RTW_GET_LE16 ?b (length pre + 2) = Some 1"
    using LE16_overwrite [of "pre @ ?hd" 1 "enc_gc r @ post"] by simp
  moreover note rsne_group_enc [OF assms refl, of "pre @ ?hd @ le16_bytes 1" post rsne_info_zero]
  ultimately show ?thesis
    unfolding b using n by (simp add: rtw_rsne_info_parse_def enc_rsne_def add.assoc eval_nat_numeral del: append_assoc append.simps)
qed

section \<open>What the client gets from an encoded RSN element\<close>

definition suites_or :: "(buf \<Rightarrow> u32) \<Rightarrow> buf list \<Rightarrow> u32" where
  "suites_or f ss = foldl (\<lambda>acc s. acc OR f s) 0 ss"

lemma suite_loop_list:
  assumes "\<And>b p. suite b p = map_option f (rd_n b p 4)" and "list_all (\<lambda>s. length s = 4) ss"
    and "rd_n b p (4 * length ss) = Some (concat ss)"
  shows "suite_loop suite b (length ss) p acc = Some (foldl (\<lambda>acc s. acc OR f s) acc ss)"
  using assms(2,3)
proof (induction ss arbitrary: p acc)
  case Nil
  then show ?case by simp
next
  case (Cons s ss)
  then have s: "length s = 4" by simp
  with Cons.prems(2) have "rd_n b p (length s + 4 * length ss) = Some (s @ concat ss)" by simp
  from rd_n_append [OF this] s have "rd_n b p 4 = Some s" "rd_n b (p + 4) (4 * length ss) = Some (concat ss)"
    by simp_all
  with Cons show ?case by (simp add: assms(1))
qed

definition rsne_out :: "rsne \<Rightarrow> wpa2_out" where
  "rsne_out r = (let pw = Option.bind r snd; ak = Option.bind pw snd; cp = Option.bind ak snd;
      pm = Option.bind cp snd; gm = Option.bind pm snd in
     \<lparr>o_group_cipher = Some (case r of None \<Rightarrow> 0 | Some (g, _) \<Rightarrow> rsn_cipher_of g),
      o_pairwise_cipher = Some (case pw of None \<Rightarrow> 0 | Some (ps, _) \<Rightarrow> suites_or rsn_cipher_of ps),
      o_gmcs = Some (case gm of None \<Rightarrow> WPA_CIPHER_BIP_CMAC_128 | Some g \<Rightarrow> rsn_cipher_of g),
      o_akm = Some (case ak of None \<Rightarrow> 0 | Some (as, _) \<Rightarrow> suites_or akm_bitmap_of as),
      o_mfp_opt = Some (case cp of None \<Rightarrow> MFP_NO | Some (c, _) \<Rightarrow> ucast (drop_bit 6 c AND 3)),
      o_spp_opt = Some (case cp of None \<Rightarrow> 0 | Some (c, _) \<Rightarrow> ucast (drop_bit 10 c AND 3))\<rparr>)"

text \<open>Reads at the stored pointers; \<open>q\<close> is the start of a level inside the object.\<close>

definition lies :: "buf \<Rightarrow> nat \<Rightarrow> buf \<Rightarrow> bool" where
  "lies b q xs \<longleftrightarrow> rd_n b q (length xs) = Some xs"

lemma lies_append: "lies b q (xs @ ys) \<longleftrightarrow> lies b q xs \<and> lies b (q + length xs) ys"
proof
  assume "lies b q (xs @ ys)"
  then show "lies b q xs \<and> lies b (q + length xs) ys"
    using rd_n_append [of b q xs "length ys" ys] by (simp add: lies_def)
next
  assume "lies b q xs \<and> lies b (q + length xs) ys"
  then show "lies b q (xs @ ys)"
    by (auto simp: lies_def rd_n_def take_add add.commute split: if_splits)
qed

lemma lies_at: "lies (pre @ xs @ post) (length pre) xs"
  by (simp add: lies_def rd_n_mid)

lemma lies_suite:
  "lies b p s \<Longrightarrow> length s = 4 \<Longrightarrow> rtw_get_rsn_cipher_suite b p = Some (rsn_cipher_of s)"
  by (simp add: lies_def rtw_get_rsn_cipher_suite_def)

lemma lies_list:
  assumes "lies b p (enc_list ss)" and "list_all (\<lambda>s. length s = 4) ss"
  shows "suite_loop rtw_get_rsn_cipher_suite b (length ss) (p + 2) 0 = Some (suites_or rsn_cipher_of ss)"
    and "suite_loop rtw_get_akm_suite_bitmap b (length ss) (p + 2) 0 = Some (suites_or akm_bitmap_of ss)"
proof -
  have "rd_n b (p + 2) (4 * length ss) = Some (concat ss)"
    using assms by (simp add: enc_list_def lies_append) (simp add: lies_def length_concat_sized)
  then show "suite_loop rtw_get_rsn_cipher_suite b (length ss) (p + 2) 0 = Some (suites_or rsn_cipher_of ss)"
    "suite_loop rtw_get_akm_suite_bitmap b (length ss) (p + 2) 0 = Some (suites_or akm_bitmap_of ss)"
    unfolding suites_or_def using assms(2)
    by (auto intro!: suite_loop_list simp: rtw_get_rsn_cipher_suite_def rtw_get_akm_suite_bitmap_def)
qed

lemma lies_LE16: "lies b p (le16_bytes v) \<Longrightarrow> RTW_GET_LE16 b p = Some v"
proof -
  assume "lies b p (le16_bytes v)"
  then have "p + 2 \<le> length b" "take 2 (drop p b) = le16_bytes v"
    by (auto simp: lies_def rd_n_def split: if_splits)
  then have "b = take p b @ le16_bytes v @ drop (p + 2) b" "length (take p b) = p"
    by (metis append_take_drop_id drop_drop add.commute) (use \<open>p + 2 \<le> length b\<close> in simp)
  then show ?thesis using LE16_overwrite [of "take p b" v "drop (p + 2) b"] by simp
qed

lemma lies_cap:
  assumes "lies b p (le16_bytes c)"
  shows "GET_RSN_CAP_MFP_OPTION b p = Some (drop_bit 6 c AND 3)"
    and "GET_RSN_CAP_SPP_OPT b p = Some (drop_bit 10 c AND 3)"
  using lies_LE16 [OF assms]
  by (simp_all add: GET_RSN_CAP_MFP_OPTION_def GET_RSN_CAP_SPP_OPT_def LE_BITS_TO_2BYTE_def ReadLE2Byte_def
      BIT_LEN_MASK_mask mask_eq_exp_minus_1)

lemmas rsne_level_defs = info_gc_def info_pw_def info_ak_def info_cp_def info_pm_def info_gm_def
  pw_ok_def ak_ok_def cp_ok_def pm_ok_def gm_ok_def

lemma lies_levels:
  "lies b q (enc_pm (Some (ps, gm))) \<longleftrightarrow> lies b q (enc_list ps) \<and> lies b (q + length (enc_list ps)) (enc_gm gm)"
  "lies b q (enc_cp (Some (c, pm))) \<longleftrightarrow> lies b q (le16_bytes c) \<and> lies b (q + 2) (enc_pm pm)"
  "lies b q (enc_ak (Some (as, cp))) \<longleftrightarrow> lies b q (enc_list as) \<and> lies b (q + length (enc_list as)) (enc_cp cp)"
  "lies b q (enc_pw (Some (ws, ak))) \<longleftrightarrow> lies b q (enc_list ws) \<and> lies b (q + length (enc_list ws)) (enc_ak ak)"
  "lies b q (enc_gc (Some (g, pw))) \<longleftrightarrow> lies b q g \<and> lies b (q + length g) (enc_pw pw)"
  by (simp_all add: enc_pm_def enc_cp_def enc_ak_def enc_pw_def enc_gc_def lies_append)

text \<open>The four fields of the stored record that \<open>rtw_parse_wpa2_ie\<close> reads, level by level.\<close>

lemma gm_read:
  assumes "lies b q (enc_gm gm)" and "gm_ok gm" and "gmcs i = None"
  shows "(case gmcs (info_gm q gm i) of None \<Rightarrow> Some WPA_CIPHER_BIP_CMAC_128 | Some p \<Rightarrow> rtw_get_rsn_cipher_suite b p)
      = Some (case gm of None \<Rightarrow> WPA_CIPHER_BIP_CMAC_128 | Some g \<Rightarrow> rsn_cipher_of g)"
  using assms by (cases gm) (simp_all add: rsne_level_defs enc_gm_def lies_suite)

lemma pm_read:
  assumes "lies b q (enc_pm pm)" and "pm_ok pm" and "gmcs i = None"
  shows "(case gmcs (info_pm q pm i) of None \<Rightarrow> Some WPA_CIPHER_BIP_CMAC_128 | Some p \<Rightarrow> rtw_get_rsn_cipher_suite b p)
      = Some (case Option.bind pm snd of None \<Rightarrow> WPA_CIPHER_BIP_CMAC_128 | Some g \<Rightarrow> rsn_cipher_of g)"
proof (cases pm)
  case (Some x)
  obtain ps gm where x: "x = (ps, gm)" by (cases x)
  with assms(2) Some have "length (enc_list ps) = 2 + 16 * length ps" "gm_ok gm"
    using length_enc_list by (auto simp: pm_ok_def)
  with assms show ?thesis
    using gm_read [of b "q + 2 + 16 * length ps" gm] by (simp add: Some x info_pm_def lies_levels add.assoc)
qed (use assms in \<open>simp add: info_pm_def\<close>)

lemma info_levels_keep [simp]:
  "gcs (info_gm q r1 i) = gcs i" "gcs (info_pm q r2 i) = gcs i" "gcs (info_cp q r3 i) = gcs i"
  "gcs (info_ak q r4 i) = gcs i" "gcs (info_pw q r5 i) = gcs i"
  "pcs_list (info_gm q r1 i) = pcs_list i" "pcs_list (info_pm q r2 i) = pcs_list i"
  "pcs_list (info_cp q r3 i) = pcs_list i" "pcs_list (info_ak q r4 i) = pcs_list i"
  "pcs_cnt (info_gm q r1 i) = pcs_cnt i" "pcs_cnt (info_pm q r2 i) = pcs_cnt i"
  "pcs_cnt (info_cp q r3 i) = pcs_cnt i" "pcs_cnt (info_ak q r4 i) = pcs_cnt i"
  "akm_list (info_gm q r1 i) = akm_list i" "akm_list (info_pm q r2 i) = akm_list i" "akm_list (info_cp q r3 i) = akm_list i"
  "akm_cnt (info_gm q r1 i) = akm_cnt i" "akm_cnt (info_pm q r2 i) = akm_cnt i" "akm_cnt (info_cp q r3 i) = akm_cnt i"
  "rsn_cap (info_gm q r1 i) = rsn_cap i" "rsn_cap (info_pm q r2 i) = rsn_cap i"
  by (simp_all add: rsne_level_defs split: option.split prod.split)

lemma length_enc_list4: "list_all (\<lambda>x. length x = 4) xs \<Longrightarrow> length (enc_list xs) = 2 + 4 * length xs"
  by (rule length_enc_list)

lemma rsne_cases:
  obtains (none) "r = (None :: rsne)" | (gc) g where "r = Some (g, None)"
  | (pw) g ws where "r = Some (g, Some (ws, None))"
  | (ak) g ws as where "r = Some (g, Some (ws, Some (as, None)))"
  | (cp) g ws as c pm where "r = Some (g, Some (ws, Some (as, Some (c, pm))))"
  by (metis not_Some_eq surj_pair)

lemma parse_fields:
  assumes "rsne_ok r" and "lies b q (enc_gc r)"
  defines "i \<equiv> info_gc q r rsne_info_zero"
  shows "(case gcs i of None \<Rightarrow> Some 0 | Some p \<Rightarrow> rtw_get_rsn_cipher_suite b p) = o_group_cipher (rsne_out r)"
    and "(case pcs_list i of None \<Rightarrow> Some 0 | Some p \<Rightarrow> suite_loop rtw_get_rsn_cipher_suite b (pcs_cnt i) p 0)
      = o_pairwise_cipher (rsne_out r)"
    and "(case gmcs i of None \<Rightarrow> Some WPA_CIPHER_BIP_CMAC_128 | Some p \<Rightarrow> rtw_get_rsn_cipher_suite b p)
      = o_gmcs (rsne_out r)"
    and "(case akm_list i of None \<Rightarrow> Some 0 | Some p \<Rightarrow> suite_loop rtw_get_akm_suite_bitmap b (akm_cnt i) p 0)
      = o_akm (rsne_out r)"
    and "(case rsn_cap i of None \<Rightarrow> Some MFP_NO | Some p \<Rightarrow> map_option ucast (GET_RSN_CAP_MFP_OPTION b p))
      = o_mfp_opt (rsne_out r)"
    and "(case rsn_cap i of None \<Rightarrow> Some 0 | Some p \<Rightarrow> map_option ucast (GET_RSN_CAP_SPP_OPT b p))
      = o_spp_opt (rsne_out r)"
proof -
  note D = i_def rsne_out_def info_gc_def info_pw_def info_ak_def info_cp_def rsne_info_zero_def add.assoc
  note L = assms(1) [unfolded rsne_ok_def pw_ok_def ak_ok_def cp_ok_def] assms(2)
  have suite: "rtw_get_rsn_cipher_suite b q = Some (rsn_cipher_of g)" if "r = Some (g, x)" for g x
    using L that by (simp add: lies_levels lies_suite)
  have pw: "suite_loop rtw_get_rsn_cipher_suite b (length ws) (q + 4 + 2) 0 = Some (suites_or rsn_cipher_of ws)"
    if "r = Some (g, Some (ws, x))" for g ws x
    using L that by (intro lies_list) (simp_all add: lies_levels)
  have ak: "suite_loop rtw_get_akm_suite_bitmap b (length as) (q + 4 + (2 + 4 * length ws) + 2) 0
      = Some (suites_or akm_bitmap_of as)"
    if "r = Some (g, Some (ws, Some (as, x)))" for g ws as x
    using L that by (intro lies_list) (simp_all add: lies_levels length_enc_list4)
  have cpl: "lies b (q + 4 + (2 + 4 * length ws) + (2 + 4 * length as)) (le16_bytes c)"
      "lies b (q + 4 + (2 + 4 * length ws) + (2 + 4 * length as) + 2) (enc_pm pm)" "pm_ok pm"
    if "r = Some (g, Some (ws, Some (as, Some (c, pm))))" for g ws as c pm
    using L that by (simp_all add: lies_levels length_enc_list4)
  show "(case gcs i of None \<Rightarrow> Some 0 | Some p \<Rightarrow> rtw_get_rsn_cipher_suite b p) = o_group_cipher (rsne_out r)"
    by (cases r rule: rsne_cases) (simp_all add: D suite)
  show "(case pcs_list i of None \<Rightarrow> Some 0 | Some p \<Rightarrow> suite_loop rtw_get_rsn_cipher_suite b (pcs_cnt i) p 0)
      = o_pairwise_cipher (rsne_out r)"
    by (cases r rule: rsne_cases; (frule pw)?) (simp_all add: D)
  show "(case gmcs i of None \<Rightarrow> Some WPA_CIPHER_BIP_CMAC_128 | Some p \<Rightarrow> rtw_get_rsn_cipher_suite b p)
      = o_gmcs (rsne_out r)"
  proof (cases r rule: rsne_cases)
    case (cp g ws as c pm)
    with pm_read [OF cpl(2) [OF cp] cpl(3) [OF cp]] show ?thesis by (simp add: D)
  qed (simp_all add: D)
  show "(case akm_list i of None \<Rightarrow> Some 0 | Some p \<Rightarrow> suite_loop rtw_get_akm_suite_bitmap b (akm_cnt i) p 0)
      = o_akm (rsne_out r)"
    by (cases r rule: rsne_cases; (frule ak)?) (simp_all add: D)
  show "(case rsn_cap i of None \<Rightarrow> Some MFP_NO | Some p \<Rightarrow> map_option ucast (GET_RSN_CAP_MFP_OPTION b p))
      = o_mfp_opt (rsne_out r)"
  proof (cases r rule: rsne_cases)
    case (cp g ws as c pm)
    with lies_cap(1) [OF cpl(1) [OF cp]] show ?thesis by (simp add: D)
  qed (simp_all add: D)
  show "(case rsn_cap i of None \<Rightarrow> Some 0 | Some p \<Rightarrow> map_option ucast (GET_RSN_CAP_SPP_OPT b p))
      = o_spp_opt (rsne_out r)"
  proof (cases r rule: rsne_cases)
    case (cp g ws as c pm)
    with lies_cap(2) [OF cpl(1) [OF cp]] show ?thesis by (simp add: D)
  qed (simp_all add: D)
qed

text \<open>C25: \<open>rtw_parse_wpa2_ie\<close> inverts the encoding of an RSN element: for every well-formed element,
  cut off after any field, all six out parameters are the ciphers, the key managements and the
  capability bits that were encoded, with the documented defaults for absent fields.\<close>

theorem rtw_parse_wpa2_ie_roundtrip:
  assumes "rsne_ok r"
    and "o_group_cipher out \<noteq> None" "o_pairwise_cipher out \<noteq> None" "o_gmcs out \<noteq> None"
      "o_akm out \<noteq> None" "o_mfp_opt out \<noteq> None" "o_spp_opt out \<noteq> None"
  shows "rtw_parse_wpa2_ie (pre @ enc_rsne r @ post) (length pre) (length (enc_rsne r)) out
      = Some (True, rsne_out r)"
proof -
  let ?b = "pre @ enc_rsne r @ post"
  have "lies ?b (length (pre @ [WLAN_EID_RSN, word_of_nat (2 + length (enc_gc r))] @ le16_bytes 1)) (enc_gc r)"
    using lies_at [of "pre @ [WLAN_EID_RSN, word_of_nat (2 + length (enc_gc r))] @ le16_bytes 1" "enc_gc r" post]
    by (simp add: enc_rsne_def enc_ie_def)
  then have "lies ?b (length pre + 4) (enc_gc r)" by (simp add: eval_nat_numeral)
  note f = parse_fields [OF assms(1) this]
  have "rsne_out r = \<lparr>o_group_cipher = o_group_cipher (rsne_out r), o_pairwise_cipher = o_pairwise_cipher (rsne_out r),
      o_gmcs = o_gmcs (rsne_out r), o_akm = o_akm (rsne_out r), o_mfp_opt = o_mfp_opt (rsne_out r),
      o_spp_opt = o_spp_opt (rsne_out r)\<rparr>" by simp
  moreover have "put (Some x) (Some y) = Some (Some y)" for x y :: 'a by (simp add: put_def)
  ultimately show ?thesis
    using assms(2-) by (auto simp: rtw_parse_wpa2_ie_def rtw_rsne_info_parse_enc [OF assms(1)] f put_def
        rsne_out_def Let_def)
qed

theorem rtw_parse_wpa2_ie_roundtrip_witness:
  "rtw_parse_wpa2_ie ([9] @ enc_rsne (Some ([0, 15, 172, 4], Some ([[0, 15, 172, 4], [0, 15, 172, 2]],
        Some ([[0, 15, 172, 8]], Some (0xC0, None))))) @ [1]) 1 26
      \<lparr>o_group_cipher = Some 0, o_pairwise_cipher = Some 0, o_gmcs = Some 0, o_akm = Some 0,
       o_mfp_opt = Some 0, o_spp_opt = Some 0\<rparr>
     = Some (True, rsne_out (Some ([0, 15, 172, 4], Some ([[0, 15, 172, 4], [0, 15, 172, 2]],
        Some ([[0, 15, 172, 8]], Some (0xC0, None))))))"
  using rtw_parse_wpa2_ie_roundtrip [of "Some ([0, 15, 172, 4], Some ([[0, 15, 172, 4], [0, 15, 172, 2]],
        Some ([[0, 15, 172, 8]], Some (0xC0, None))))"
      "\<lparr>o_group_cipher = Some 0, o_pairwise_cipher = Some 0, o_gmcs = Some 0, o_akm = Some 0,
       o_mfp_opt = Some 0, o_spp_opt = Some 0\<rparr>" "[9]" "[1]"]
  by (simp add: rsne_ok_def pw_ok_def ak_ok_def cp_ok_def pm_ok_def enc_rsne_def enc_gc_def enc_pw_def
      enc_ak_def enc_cp_def enc_pm_def enc_list_def nat_lits del: One_nat_def)

section \<open>The WPA element is found behind other vendor elements\<close>

definition wpa_ie_ok :: "ie \<Rightarrow> bool" where
  "wpa_ie_ok t \<longleftrightarrow> ie_ok t \<and> (fst t = WPA_IE_ID \<longrightarrow> 6 \<le> length (snd t))"

definition wpa_ie_match :: "ie \<Rightarrow> bool" where
  "wpa_ie_match t \<longleftrightarrow> fst t = WPA_IE_ID \<and> take 4 (snd t) = RTW_WPA_OUI_TYPE \<and> RTW_GET_LE16 (snd t) 4 = Some 1"

definition wpa_scan :: "nat \<Rightarrow> buf \<Rightarrow> nat \<Rightarrow> nat \<Rightarrow> (nat option \<times> nat) option" where
  "wpa_scan pie b lim pos = rtw_get_wpa_ie_loop b pie (int lim - int pie) pos (int lim - int pos)"

lemma rtw_get_ie_scan0:
  "pos \<le> lim \<Longrightarrow> rtw_get_ie b pos index 0 (int lim - int pos) = get_ie_scan index b lim pos"
  using rtw_get_ie_scan [of pos lim b index 0]
  by (cases "pos = lim") (simp_all add: rtw_get_ie_def get_ie_scan_def of_nat_diff)

lemma wpa_scan_unfold:
  "pos \<le> lim \<Longrightarrow> wpa_scan pie b lim pos = (case get_ie_scan (uint WPA_IE_ID) b lim pos of
        None \<Rightarrow> None
      | Some (None, len) \<Rightarrow> Some (None, 0)
      | Some (Some p, len) \<Rightarrow> do {
          m \<leftarrow> mem_eq b (p + 2) RTW_WPA_OUI_TYPE;
          hit \<leftarrow> (if m then map_option (\<lambda>v. v = 1) (RTW_GET_LE16 b (p + 6)) else Some False);
          if hit then do { l \<leftarrow> rd b (p + 1); Some (Some p, unat l) }
          else if lim \<le> p + 2 + len then Some (None, 0)
          else wpa_scan pie b lim (p + (2 + len)) })"
  unfolding wpa_scan_def
  by (subst rtw_get_wpa_ie_loop.simps)
    (auto simp: rtw_get_ie_scan0 Let_def algebra_simps split: option.split bool.split)

lemma LE16_payload: "6 \<le> length (snd t) \<Longrightarrow>
    RTW_GET_LE16 (pre @ enc_ie t @ post) (length pre + 6) = RTW_GET_LE16 (snd t) 4"
  unfolding LE16_shift by (simp add: RTW_GET_LE16_def enc_ie_def rd_def nth_append)

lemma oui_payload: "4 \<le> length (snd t) \<Longrightarrow>
    mem_eq (pre @ enc_ie t @ post) (length pre + 2) RTW_WPA_OUI_TYPE = Some (take 4 (snd t) = RTW_WPA_OUI_TYPE)"
  unfolding mem_eq_shift by (simp add: mem_eq_def rd_n_def enc_ie_def RTW_WPA_OUI_TYPE_def eval_nat_numeral)

interpretation get_wpa: tlv_scan enc_ie wpa_ie_ok wpa_ie_match "\<lambda>_ lim. pie \<le> lim" "wpa_scan pie"
  "\<lambda>k t. Some (Some k, length (snd t))" "Some (None, 0)"
  for pie :: nat
proof
  fix lim b
  show "wpa_scan pie b lim lim = Some (None, 0)"
    by (simp add: wpa_scan_unfold get_ie_scan_def)
next
  fix lim :: nat and pre post :: buf and t :: ie
  assume ok: "wpa_ie_ok t" and lim: "length pre + length (enc_ie t) \<le> lim"
    "lim \<le> length pre + length (enc_ie t) + length post"
  let ?b = "pre @ enc_ie t @ post"
  have iok: "ie_ok t" and n: "unat (word_of_nat (length (snd t)) :: u8) = length (snd t)"
    using ok by (simp_all add: wpa_ie_ok_def ie_ok_def)
  have here: "get_ie_scan (uint WPA_IE_ID) ?b lim (length pre) = Some (Some (length pre), length (snd t))"
    if "fst t = WPA_IE_ID" using that by (intro get_ie.scan_hit [OF TrueI iok]) (use lim in simp_all)
  have chk: "mem_eq ?b (length pre + 2) RTW_WPA_OUI_TYPE = Some (take 4 (snd t) = RTW_WPA_OUI_TYPE)"
      "RTW_GET_LE16 ?b (length pre + 6) = RTW_GET_LE16 (snd t) 4" "\<exists>v. RTW_GET_LE16 (snd t) 4 = Some v"
    if "fst t = WPA_IE_ID"
    using that ok oui_payload [of t pre post] LE16_payload [of t pre post]
    by (simp_all add: wpa_ie_ok_def RTW_GET_LE16_Some_iff)
  { assume m: "wpa_ie_match t"
    then show "wpa_scan pie ?b lim (length pre) = Some (Some (length pre), length (snd t))"
      using here chk(1,2) n lim by (simp add: wpa_scan_unfold wpa_ie_match_def mem_simps) }
  { assume miss: "\<not> wpa_ie_match t"
    have "wpa_scan pie ?b lim (length pre + length (enc_ie t)) = Some (None, 0)"
      if "lim \<le> length pre + length (enc_ie t)"
      using that lim by (simp add: wpa_scan_unfold get_ie_scan_def)
    moreover have "get_ie_scan (uint WPA_IE_ID) ?b lim (length pre)
        = get_ie_scan (uint WPA_IE_ID) ?b lim (length pre + length (enc_ie t))" if "fst t \<noteq> WPA_IE_ID"
      using that by (intro get_ie.scan_skip [OF TrueI iok]) (use lim in \<open>simp_all add: word_uint_eq_iff\<close>)
    ultimately show "wpa_scan pie ?b lim (length pre) = wpa_scan pie ?b lim (length pre + length (enc_ie t))"
      using here chk miss lim
      by (cases "fst t = WPA_IE_ID")
        (auto simp: wpa_scan_unfold [of "length pre"]
          wpa_scan_unfold [of "Suc (Suc (length pre + length (snd t)))"] wpa_ie_match_def) }
qed

text \<open>In a series of elements \<open>rtw_get_wpa_ie\<close> returns the first vendor element that carries
  the WPA selector and version 1, passing over other vendor elements and other identifiers, with
  the payload length; and \<open>NULL\<close> with length 0 when there is none.\<close>

theorem rtw_get_wpa_ie_first:
  assumes "list_all wpa_ie_ok ts"
  shows "rtw_get_wpa_ie (pre @ ies_bytes ts @ post) (length pre) (int (length (ies_bytes ts)))
      = Some (case tlv_find enc_ie wpa_ie_match (length pre) ts of
          None \<Rightarrow> (None, 0) | Some (k, t) \<Rightarrow> (Some k, length (snd t)))"
proof -
  have "rtw_get_wpa_ie (pre @ ies_bytes ts @ post) (length pre) (int (length (ies_bytes ts)))
      = wpa_scan (length pre) (pre @ ies_bytes ts @ post) (length pre + length (ies_bytes ts)) (length pre)"
    by (simp add: rtw_get_wpa_ie_def wpa_scan_def)
  then show ?thesis
    using get_wpa.scan_items [OF le_add1 assms, where pre = pre and post = post]
    by (simp add: get_wpa.result_def split: option.split)
qed

theorem rtw_get_wpa_ie_first_witness:
  "rtw_get_wpa_ie ([5] @ ies_bytes [(0, [65]), (0xdd, [0, 0x50, 0xf2, 4, 1, 2]), (0xdd, [0, 0x50, 0xf2, 1, 1, 0])] @ [])
     1 19 = Some (Some 12, 6)"
proof -
  let ?ts = "[(0, [65]), (0xdd, [0, 0x50, 0xf2, 4, 1, 2]), (0xdd, [0, 0x50, 0xf2, 1, 1, 0])] :: ie list"
  have "tlv_find enc_ie wpa_ie_match 1 ?ts = Some (12, (0xdd, [0, 0x50, 0xf2, 1, 1, 0]))"
    by (simp add: wpa_ie_match_def WPA_IE_ID_def RTW_WPA_OUI_TYPE_def RTW_GET_LE16_def mem_simps)
  moreover have "list_all wpa_ie_ok ?ts" by (simp add: wpa_ie_ok_def ie_ok_def WPA_IE_ID_def)
  ultimately show ?thesis using rtw_get_wpa_ie_first [of ?ts "[5]" "[]"] by simp
qed

section \<open>A-MSDU protection\<close>

lemma SET_RSN_CAP_SPP_get:
  assumes "cap + 2 \<le> length b"
  shows "\<exists>b'. SET_RSN_CAP_SPP b cap spp = Some b' \<and> GET_RSN_CAP_SPP_OPT b' cap = Some (ucast spp AND 3)
      \<and> GET_RSN_CAP_MFP_OPTION b' cap = GET_RSN_CAP_MFP_OPTION b cap"
proof -
  obtain v where v: "ReadLE2Byte b cap = Some v"
    using assms RTW_GET_LE16_Some_iff [of b cap] by (auto simp: ReadLE2Byte_def)
  have m3: "(3 :: u16) = mask 2" by (simp add: mask_eq_exp_minus_1)
  from le2.set_then_get [OF v, of 10 2 "ucast spp"] obtain b' where
    "le2.set_field b cap 10 2 (ucast spp) = Some b'" "le2.get_field b' cap 10 2 = Some (ucast spp AND mask 2)"
    "le2.get_field b' cap 6 2 = le2.get_field b cap 6 2" by auto
  then show ?thesis
    unfolding m3 using SET_BITS_set_field(2) [OF _ v, of 2 10 "ucast spp"]
    by (simp add: SET_RSN_CAP_SPP_def GET_RSN_CAP_SPP_OPT_def GET_RSN_CAP_MFP_OPTION_def LE_BITS_get_field)
qed

text \<open>C40: on an element whose capability field was found, \<open>rtw_set_spp_amsdu_mode\<close> writes the
  two SPP bits and leaves the management-frame-protection bits alone. The bits are 2 (required, not
  capable) in the all-drop mode and 3 in the SPP mode; in the non-SPP mode they are 3 as well,
  because \<open>~SPP_CAP | ~SPP_REQ\<close> has every bit set.\<close>

theorem rtw_set_spp_amsdu_mode_bits:
  assumes "rtw_rsne_info_parse b rsn_ie rsn_ie_len = Some (True, info)" and "rsn_cap info = Some cap"
    and "rsn_ie + rsn_ie_len \<le> length b"
    and "mode = RTW_AMSDU_MODE_NON_SPP \<or> mode = RTW_AMSDU_MODE_SPP \<or> mode = RTW_AMSDU_MODE_ALL_DROP"
  shows "\<exists>b'. rtw_set_spp_amsdu_mode mode b rsn_ie rsn_ie_len = Some b'
      \<and> GET_RSN_CAP_SPP_OPT b' cap = Some (if mode = RTW_AMSDU_MODE_ALL_DROP then 2 else 3)
      \<and> GET_RSN_CAP_MFP_OPTION b' cap = GET_RSN_CAP_MFP_OPTION b cap"
proof -
  have "rsne_inside (rsn_ie + rsn_ie_len) info"
    using rtw_rsne_info_parse_parsed [OF assms(3)] assms(1) by (simp add: parsed_def)
  with assms(2,3) have "cap + 2 \<le> length b" by (auto simp: rsne_inside_def)
  note bits = SET_RSN_CAP_SPP_get [OF this, of "- 1"] SET_RSN_CAP_SPP_get [OF this, of 3] SET_RSN_CAP_SPP_get [OF this, of "- 2"]
  have "ucast (- 1 :: u8) AND (3 :: u16) = 3" "ucast (- 2 :: u8) AND (3 :: u16) = 2" by code_simp+
  with bits assms(4) show ?thesis
    by (elim disjE) (auto simp: rtw_set_spp_amsdu_mode_def assms(1,2) amsdu_mode_defs)
qed

theorem rtw_set_spp_amsdu_mode_bits_witness:
  "\<exists>b'. rtw_set_spp_amsdu_mode 0 [48, 20, 1, 0, 0, 15, 172, 4, 1, 0, 0, 15, 172, 4, 1, 0, 0, 15, 172, 2, 0x80, 0] 0 22 = Some b'
      \<and> GET_RSN_CAP_SPP_OPT b' 20 = Some 3
      \<and> GET_RSN_CAP_MFP_OPTION b' 20 = Some 2"
proof -
  let ?b = "[48, 20, 1, 0, 0, 15, 172, 4, 1, 0, 0, 15, 172, 4, 1, 0, 0, 15, 172, 2, 0x80, 0] :: buf"
  have "\<exists>info. rtw_rsne_info_parse ?b 0 22 = Some (True, info) \<and> rsn_cap info = Some 20"
    by (simp add: rtw_rsne_info_parse_def rsne_group_def rsne_pairwise_def rsne_akm_def rsne_cap_def rsne_pmkid_def
        rsne_short_def RTW_GET_LE16_def mem_simps WLAN_EID_RSN_def)
  then obtain info where "rtw_rsne_info_parse ?b 0 22 = Some (True, info)" "rsn_cap info = Some 20" by blast
  from rtw_set_spp_amsdu_mode_bits [OF this, of 0] show ?thesis
    by (simp add: amsdu_mode_defs GET_RSN_CAP_MFP_OPTION_def LE_BITS_TO_2BYTE_def ReadLE2Byte_def
        RTW_GET_LE16_def mem_simps BIT_LEN_MASK_16_def)
qed

text \<open>What \<open>rtw_check_amsdu_disable\<close> decides: without SPP the peer's requirement bit disables
  A-MSDU; in the SPP mode and in the all-drop mode A-MSDU is disabled for every peer, whatever its
  capability bit says, because \<open>~(spp_opt & SPP_CAP)\<close> is never zero.\<close>

theorem rtw_check_amsdu_disable_iff:
  "rtw_check_amsdu_disable mode spp_opt \<longleftrightarrow>
     mode = RTW_AMSDU_MODE_SPP \<or> mode = RTW_AMSDU_MODE_ALL_DROP \<or>
     mode = RTW_AMSDU_MODE_NON_SPP \<and> bit spp_opt 1"
proof -
  have "bit (NOT (ucast (spp_opt AND SPP_CAP) :: u32)) 31"
    by (auto simp: bit_simps dest: bit_imp_le_length)
  then have "NOT (ucast (spp_opt AND SPP_CAP) :: u32) \<noteq> 0" by auto
  moreover have "spp_opt AND SPP_REQ \<noteq> 0 \<longleftrightarrow> bit spp_opt 1"
    using and_exp_eq_0_iff_not_bit [of spp_opt 1] by (simp add: SPP_REQ_def)
  ultimately show ?thesis by (auto simp: rtw_check_amsdu_disable_def)
qed

end
