(* ===== verification/Elems.thy ===== *)
theory Elems
  imports Ie
begin

text \<open>
  \<open>rtw_ieee802_11_parse_elems\<close> and \<open>rtw_ieee802_11_parse_vendor_specific\<close> of
  \<open>core/rtw_ieee80211.c\<close>: one pass over the elements of a received management frame that notes
  where each known element lies. The frame comes from the air, so the first question is whether
  the pass can leave the frame; the second is which element a client sees in each field.
\<close>

section \<open>The parsed elements\<close>

text \<open>\<open>struct rtw_ieee802_11_elems\<close> is a sequence of members \<open>u8 *x; u8 x_len;\<close>. A member pair
  is named by its constructor and holds nothing (\<open>NULL\<close>, 0) or a position and a length.\<close>

datatype elem_field = Ssid | Supp_rates | Fh_params | Ds_params | Cf_params | Tim | Ibss_params
  | Challenge | Erp_info | Ext_supp_rates | Wpa_ie | Rsn_ie | Wme | Wme_tspec | Wps_ie | Power_cap
  | Supp_channels | Mdie | Ftie | Timeout_int | Ht_capabilities | Ht_operation | Vendor_ht_cap
  | Vht_capabilities | Vht_operation | Vht_op_mode_notify | Rm_en_cap

type_synonym elems = "elem_field \<rightharpoonup> nat \<times> u8"

datatype ParseRes = ParseOK | ParseUnknown | ParseFailed

definition OUI_MICROSOFT :: u32 where "OUI_MICROSOFT = 0x0050f2"
definition OUI_BROADCOM :: u32 where "OUI_BROADCOM = 0x00904c"
definition WME_OUI_TYPE :: u8 where "WME_OUI_TYPE = 2"
definition VENDOR_HT_CAPAB_OUI_TYPE :: u8 where "VENDOR_HT_CAPAB_OUI_TYPE = 0x33"
definition WLAN_EID_VENDOR_SPECIFIC :: u8 where "WLAN_EID_VENDOR_SPECIFIC = 221"

section \<open>Vendor elements\<close>

text \<open>The nested \<open>switch\<close> over OUI, type and WME subtype: the member that is set, or
  \<^term>\<open>None\<close> for a return of -1. The byte \<open>pos[4]\<close> is only read for a WME element of at least
  five bytes.\<close>

definition vendor_field :: "buf \<Rightarrow> nat \<Rightarrow> nat \<Rightarrow> elem_field option option" where
  "vendor_field b pos elen =
     (if elen < 4 then Some None
      else do {
        oui \<leftarrow> RTW_GET_BE24 b pos;
        ty \<leftarrow> rd b (pos + 3);
        if oui = OUI_MICROSOFT then
          (if ty = 1 then Some (Some Wpa_ie)
           else if ty = WME_OUI_TYPE then
             (if elen < 5 then Some None
              else do {
                sub \<leftarrow> rd b (pos + 4);
                Some (if sub = 0 \<or> sub = 1 then Some Wme else if sub = 2 then Some Wme_tspec else None) })
           else if ty = 4 then Some (Some Wps_ie)
           else Some None)
        else if oui = OUI_BROADCOM then
          Some (if ty = VENDOR_HT_CAPAB_OUI_TYPE then Some Vendor_ht_cap else None)
        else Some None })"

text \<open>The result is 0 or -1 as a flag and the updated structure.\<close>

definition rtw_ieee802_11_parse_vendor_specific ::
  "buf \<Rightarrow> nat \<Rightarrow> nat \<Rightarrow> elems \<Rightarrow> (bool \<times> elems) option" where
  "rtw_ieee802_11_parse_vendor_specific b pos elen elems = do {
     f \<leftarrow> vendor_field b pos elen;
     Some (case f of None \<Rightarrow> (False, elems) | Some x \<Rightarrow> (True, elems(x \<mapsto> (pos, word_of_nat elen)))) }"

section \<open>The pass over the frame\<close>

text \<open>The member that the \<open>switch\<close> of the main loop sets for an identifier.\<close>

definition elem_table :: "(u8 \<times> elem_field) list" where
  "elem_table = [(0, Ssid), (1, Supp_rates), (2, Fh_params), (3, Ds_params), (4, Cf_params), (5, Tim),
     (6, Ibss_params), (16, Challenge), (42, Erp_info), (50, Ext_supp_rates), (48, Rsn_ie),
     (33, Power_cap), (36, Supp_channels), (54, Mdie), (55, Ftie), (56, Timeout_int),
     (45, Ht_capabilities), (61, Ht_operation), (191, Vht_capabilities), (192, Vht_operation),
     (199, Vht_op_mode_notify), (70, Rm_en_cap)]"

definition parse_one :: "buf \<Rightarrow> nat \<Rightarrow> u8 \<Rightarrow> u8 \<Rightarrow> bool \<times> elems \<Rightarrow> (bool \<times> elems) option" where
  "parse_one b pos ident elen st = (case st of (unknown, elems) \<Rightarrow>
     if ident = WLAN_EID_VENDOR_SPECIFIC then do {
       (ok, elems) \<leftarrow> rtw_ieee802_11_parse_vendor_specific b pos (unat elen) elems;
       Some (unknown \<or> \<not> ok, elems) }
     else Some (case map_of elem_table ident of
        None \<Rightarrow> (True, elems) | Some f \<Rightarrow> (unknown, elems(f \<mapsto> (pos, elen)))))"

text \<open>The counter \<open>unknown\<close> is only compared with zero; it is kept as that flag.\<close>

function parse_elems_loop :: "buf \<Rightarrow> nat \<Rightarrow> nat \<Rightarrow> bool \<times> elems \<Rightarrow> (ParseRes \<times> elems) option" where
  "parse_elems_loop b pos left st =
     (if left \<ge> 2 then
        (case rd b pos of None \<Rightarrow> None | Some ident \<Rightarrow>
        (case rd b (pos + 1) of None \<Rightarrow> None | Some elen \<Rightarrow>
         if unat elen > left - 2 then Some (ParseFailed, snd st)
         else (case parse_one b (pos + 2) ident elen st of None \<Rightarrow> None
           | Some st' \<Rightarrow> parse_elems_loop b (pos + 2 + unat elen) (left - 2 - unat elen) st')))
      else if left \<noteq> 0 then Some (ParseFailed, snd st)
      else Some (if fst st then ParseUnknown else ParseOK, snd st))"
  by pat_completeness auto
termination
  by (relation "measure (\<lambda>(b, pos, left, st). left)") auto

declare parse_elems_loop.simps [simp del]

definition rtw_ieee802_11_parse_elems :: "buf \<Rightarrow> nat \<Rightarrow> nat \<Rightarrow> (ParseRes \<times> elems) option" where
  "rtw_ieee802_11_parse_elems b start len = parse_elems_loop b start len (False, Map.empty)"

section \<open>The pass stays inside the frame\<close>

definition elems_inside :: "nat \<Rightarrow> nat \<Rightarrow> elems \<Rightarrow> bool" where
  "elems_inside lo hi es \<longleftrightarrow> (\<forall>f p l. es f = Some (p, l) \<longrightarrow> lo \<le> p \<and> p + unat l \<le> hi)"

lemma elems_inside_upd:
  "elems_inside lo hi es \<Longrightarrow> lo \<le> p \<Longrightarrow> p + unat l \<le> hi \<Longrightarrow> elems_inside lo hi (es(f \<mapsto> (p, l)))"
  by (auto simp: elems_inside_def)

lemma vendor_field_Some: "pos + elen \<le> length b \<Longrightarrow> \<exists>f. vendor_field b pos elen = Some f"
  by (auto simp: vendor_field_def RTW_GET_BE24_def rd_def)

lemma parse_one_inside:
  assumes "elems_inside lo hi (snd st)" and "lo \<le> pos" and "pos + unat elen \<le> hi" and "hi \<le> length b"
  shows "\<exists>st'. parse_one b pos ident elen st = Some st' \<and> elems_inside lo hi (snd st')"
proof -
  obtain f where "vendor_field b pos (unat elen) = Some f"
    using vendor_field_Some [of pos "unat elen" b] assms(3,4) by auto
  with assms(1-3) show ?thesis
    by (cases st) (auto simp: parse_one_def rtw_ieee802_11_parse_vendor_specific_def elems_inside_upd
        split: option.splits)
qed

lemma parse_elems_loop_inside:
  assumes "pos + left = hi" and "hi \<le> length b" and "lo \<le> pos" and "elems_inside lo hi (snd st)"
  shows "\<exists>res es. parse_elems_loop b pos left st = Some (res, es) \<and> elems_inside lo hi es"
  using assms
proof (induction b pos left st rule: parse_elems_loop.induct)
  case (1 b pos left st)
  show ?case
  proof (cases "left \<ge> 2")
    case True
    with "1.prems" have rds: "rd b pos = Some (b ! pos)" "rd b (pos + 1) = Some (b ! (pos + 1))"
      by (auto simp: rd_def)
    show ?thesis
    proof (cases "unat (b ! (pos + 1)) > left - 2")
      case True
      with rds \<open>2 \<le> left\<close> "1.prems"(4) show ?thesis by (simp add: parse_elems_loop.simps [of b pos])
    next
      case False
      with "1.prems" True have "lo \<le> pos + 2" "pos + 2 + unat (b ! (pos + 1)) \<le> hi" by auto
      from parse_one_inside [OF "1.prems"(4) this "1.prems"(2), of "b ! pos"] obtain st' where
        st': "parse_one b (pos + 2) (b ! pos) (b ! (pos + 1)) st = Some st'" "elems_inside lo hi (snd st')"
        by blast
      have "\<exists>res es. parse_elems_loop b (pos + 2 + unat (b ! (pos + 1))) (left - 2 - unat (b ! (pos + 1))) st'
          = Some (res, es) \<and> elems_inside lo hi es"
        using "1.IH" [OF True rds False st'(1)] "1.prems" True False st'(2) by auto
      with True False rds st'(1) show ?thesis
        by (simp add: parse_elems_loop.simps [of b pos])
    qed
  qed (use "1.prems"(4) in \<open>simp add: parse_elems_loop.simps [of b pos]\<close>)
qed

text \<open>C7: whatever the frame holds, \<open>rtw_ieee802_11_parse_elems\<close> returns, reads no byte outside
  the frame, and every element it records lies, with its length, inside the frame.\<close>

theorem parse_elems_safe:
  assumes "start + len \<le> length b"
  shows "\<exists>res es. rtw_ieee802_11_parse_elems b start len = Some (res, es)
      \<and> (\<forall>f p l. es f = Some (p, l) \<longrightarrow> start \<le> p \<and> p + unat l \<le> start + len)"
  using parse_elems_loop_inside [OF refl assms, of start "(False, Map.empty)"]
  by (auto simp: rtw_ieee802_11_parse_elems_def elems_inside_def)

theorem parse_elems_safe_witness:
  "\<exists>res es. rtw_ieee802_11_parse_elems [7, 221, 4, 0, 80, 242, 2, 48, 9] 1 8 = Some (res, es)
      \<and> (\<forall>f p l. es f = Some (p, l) \<longrightarrow> 1 \<le> p \<and> p + unat l \<le> 1 + 8)"
  using parse_elems_safe [of 1 8 "[7, 221, 4, 0, 80, 242, 2, 48, 9]"] by simp

section \<open>What the pass records\<close>

text \<open>The member an element belongs to, from its own bytes alone, and the reference result: the last
  element of each kind.\<close>

definition elem_of :: "ie \<Rightarrow> elem_field option" where
  "elem_of t = (if fst t = WLAN_EID_VENDOR_SPECIFIC then the (vendor_field (snd t) 0 (length (snd t)))
     else map_of elem_table (fst t))"

primrec last_elem :: "nat \<Rightarrow> ie list \<Rightarrow> elems" where
  "last_elem off [] = Map.empty"
| "last_elem off (t # ts) = (case elem_of t of None \<Rightarrow> Map.empty
     | Some f \<Rightarrow> [f \<mapsto> (off + 2, word_of_nat (length (snd t)))]) ++ last_elem (off + length (snd t) + 2) ts"

lemma rd_payload: "i < length d \<Longrightarrow> rd (pre @ d @ post) (length pre + i) = rd d i"
  by (simp add: rd_def nth_append)

lemma vendor_field_payload:
  "vendor_field (pre @ d @ post) (length pre) (length d) = vendor_field d 0 (length d)"
proof (cases "length d < 4")
  case True
  then show ?thesis by (simp add: vendor_field_def)
next
  case False
  then have "rd (pre @ d @ post) (length pre + i) = rd d i" if "i < 4" for i
    using that by (intro rd_payload) simp
  note r = this [of 0] this [of 1] this [of 2] this [of 3]
  have "rd (pre @ d @ post) (length pre + 4) = rd d 4" if "\<not> length d < 5"
    using that by (intro rd_payload) simp
  with r False show ?thesis
    by (cases "length d < 5") (simp_all add: vendor_field_def RTW_GET_BE24_def numeral_2_eq_2 cong: if_cong)
qed

lemma parse_one_enc:
  assumes "ie_ok t"
  shows "parse_one (pre @ enc_ie t @ post) (length pre + 2) (fst t) (word_of_nat (length (snd t))) st
    = Some (fst st \<or> elem_of t = None, snd st ++ (case elem_of t of None \<Rightarrow> Map.empty
        | Some f \<Rightarrow> [f \<mapsto> (length pre + 2, word_of_nat (length (snd t)))]))"
proof -
  obtain f where "vendor_field (snd t) 0 (length (snd t)) = Some f"
    using vendor_field_Some [of 0 "length (snd t)" "snd t"] by auto
  moreover have "vendor_field (pre @ enc_ie t @ post) (length pre + 2) (length (snd t))
      = vendor_field (snd t) 0 (length (snd t))"
    using vendor_field_payload [of "pre @ [fst t, word_of_nat (length (snd t))]" "snd t" post]
    by (simp add: enc_ie_def)
  ultimately show ?thesis
    using assms by (cases st) (auto simp: parse_one_def rtw_ieee802_11_parse_vendor_specific_def elem_of_def ie_ok_def
        split: option.splits)
qed

lemma parse_elems_loop_enc:
  assumes "list_all ie_ok ts"
  shows "parse_elems_loop (pre @ ies_bytes ts @ post) (length pre) (length (ies_bytes ts)) st
    = Some (if fst st \<or> (\<exists>t \<in> set ts. elem_of t = None) then ParseUnknown else ParseOK,
            snd st ++ last_elem (length pre) ts)"
  using assms
proof (induction ts arbitrary: pre st)
  case Nil
  then show ?case by (simp add: parse_elems_loop.simps)
next
  case (Cons t ts)
  let ?b = "pre @ enc_ie t @ ies_bytes ts @ post"
  from Cons.prems have ok: "ie_ok t" and n: "unat (word_of_nat (length (snd t)) :: u8) = length (snd t)"
    by (simp_all add: ie_ok_def)
  have "parse_elems_loop ?b (length pre) (length (enc_ie t) + length (ies_bytes ts)) st
      = parse_elems_loop ?b (length pre + length (enc_ie t)) (length (ies_bytes ts))
          (fst st \<or> elem_of t = None, snd st ++ (case elem_of t of None \<Rightarrow> Map.empty
        | Some f \<Rightarrow> [f \<mapsto> (length pre + 2, word_of_nat (length (snd t)))]))"
    using parse_one_enc [OF ok, of pre "ies_bytes ts @ post" st] n
    by (simp add: parse_elems_loop.simps [of ?b "length pre"] mem_simps)
  with Cons.IH [of "pre @ enc_ie t"] Cons.prems show ?case
    by (simp add: map_add_assoc add.assoc)
qed

text \<open>on a sequence of encoded elements \<open>rtw_ieee802_11_parse_elems\<close> records for every member
  the position and length of the last element that belongs to it, and reports \<open>ParseOK\<close> or
  \<open>ParseUnknown\<close> according to whether every element is known.\<close>

theorem parse_elems_records_last:
  assumes "list_all ie_ok ts"
  shows "rtw_ieee802_11_parse_elems (pre @ ies_bytes ts @ post) (length pre) (length (ies_bytes ts))
    = Some (if \<exists>t \<in> set ts. elem_of t = None then ParseUnknown else ParseOK, last_elem (length pre) ts)"
  using parse_elems_loop_enc [OF assms, of pre post "(False, Map.empty)"]
  by (simp add: rtw_ieee802_11_parse_elems_def)

theorem parse_elems_records_last_witness:
  "rtw_ieee802_11_parse_elems ([9] @ ies_bytes [(0, [65]), (222, []), (0, [66, 67])] @ [1]) 1 9
    = Some (ParseUnknown, [Ssid \<mapsto> (8, 2)])"
  using parse_elems_records_last [of "[(0, [65]), (222, []), (0, [66, 67])]" "[9]" "[1]"]
  by (simp add: ie_ok_def elem_of_def WLAN_EID_VENDOR_SPECIFIC_def elem_table_def nat_lits map_add_def fun_eq_iff
      split: option.splits del: One_nat_def)

lemma not_failed_well_formed:
  assumes "parse_elems_loop b pos left st = Some (res, es)" and "res \<noteq> ParseFailed" and "pos + left \<le> length b"
  shows "\<exists>ts. list_all ie_ok ts \<and> take left (drop pos b) = ies_bytes ts"
  using assms
proof (induction b pos left st rule: parse_elems_loop.induct)
  case (1 b pos left st)
  show ?case
  proof (cases "left \<ge> 2")
    case False
    with "1.prems"(1,2) have "left = 0"
      by (subst (asm) parse_elems_loop.simps) (auto split: if_splits)
    then show ?thesis by (intro exI [of _ "[]"]) simp
  next
    case True
    let ?l = "b ! (pos + 1)"
    from True "1.prems"(3) have rds: "rd b pos = Some (b ! pos)" "rd b (pos + 1) = Some ?l" by (auto simp: rd_def)
    from True rds "1.prems"(1,2) obtain st' where fit: "unat ?l \<le> left - 2"
      and one: "parse_one b (pos + 2) (b ! pos) ?l st = Some st'"
      and rest: "parse_elems_loop b (pos + 2 + unat ?l) (left - 2 - unat ?l) st' = Some (res, es)"
      by (subst (asm) parse_elems_loop.simps) (auto split: if_splits option.splits)
    have "\<not> left - 2 < unat ?l" "pos + 2 + unat ?l + (left - 2 - unat ?l) \<le> length b"
      using fit True "1.prems"(3) by linarith+
    from "1.IH" [OF True rds this(1) one rest "1.prems"(2) this(2)] obtain ts where
      ts: "list_all ie_ok ts" "take (left - 2 - unat ?l) (drop (pos + 2 + unat ?l) b) = ies_bytes ts"
      by blast
    let ?d = "take (unat ?l) (drop (pos + 2) b)"
    have len: "length ?d = unat ?l" using fit True "1.prems"(3) by simp
    have hd: "drop pos b = b ! pos # ?l # drop (pos + 2) b"
      using True "1.prems"(3) by (simp add: Cons_nth_drop_Suc)
    have "take left (drop pos b) = b ! pos # ?l # take (left - 2) (drop (pos + 2) b)"
      using True by (simp add: hd numeral_2_eq_2 take_Cons' split: nat.split)
    also have "take (left - 2) (drop (pos + 2) b) = ?d @ ies_bytes ts"
      using ts(2) take_add [of "unat ?l" "left - 2 - unat ?l" "drop (pos + 2) b"]
        le_add_diff_inverse [OF fit] by (simp only: drop_drop add.commute)
    finally have "take left (drop pos b) = ies_bytes ((b ! pos, ?d) # ts)"
      using len by (simp add: enc_ie_def)
    moreover have "list_all ie_ok ((b ! pos, ?d) # ts)"
      using ts(1) len unat_u8 [of ?l] by (simp add: ie_ok_def)
    ultimately show ?thesis by blast
  qed
qed

text \<open>C29: the verdict \<open>ParseFailed\<close> is exact: \<open>rtw_ieee802_11_parse_elems\<close> fails on a frame body
  if and only if the body is not a concatenation of complete elements.\<close>

theorem parse_elems_failed_iff:
  assumes "start + len \<le> length b"
  shows "(\<exists>es. rtw_ieee802_11_parse_elems b start len = Some (ParseFailed, es)) \<longleftrightarrow>
     (\<nexists>ts. list_all ie_ok ts \<and> take len (drop start b) = ies_bytes ts)"
proof -
  obtain res es where r: "rtw_ieee802_11_parse_elems b start len = Some (res, es)"
    using parse_elems_loop_inside [OF refl assms, of start "(False, Map.empty)"]
    by (auto simp: rtw_ieee802_11_parse_elems_def elems_inside_def)
  have "res \<noteq> ParseFailed" if "list_all ie_ok ts" "take len (drop start b) = ies_bytes ts" for ts
  proof -
    have "b = take start b @ ies_bytes ts @ drop (start + len) b" "length (take start b) = start"
        "length (ies_bytes ts) = len"
      using assms that(2) by (auto simp: min_def simp flip: that(2))
        (metis append_take_drop_id drop_drop add.commute)
    with parse_elems_loop_enc [OF that(1), of "take start b" "drop (start + len) b" "(False, Map.empty)"] r
    show ?thesis by (auto simp: rtw_ieee802_11_parse_elems_def split: if_splits)
  qed
  moreover have "\<exists>ts. list_all ie_ok ts \<and> take len (drop start b) = ies_bytes ts" if "res \<noteq> ParseFailed"
    using not_failed_well_formed [OF r [unfolded rtw_ieee802_11_parse_elems_def] that assms] .
  ultimately show ?thesis using r by auto
qed

theorem parse_elems_failed_iff_witness:
  "(\<exists>es. rtw_ieee802_11_parse_elems [0, 2, 65, 48] 0 4 = Some (ParseFailed, es)) \<longleftrightarrow>
     (\<nexists>ts. list_all ie_ok ts \<and> take 4 (drop 0 [0, 2, 65, 48]) = ies_bytes ts)"
  by (rule parse_elems_failed_iff) simp

end
