(* ===== verification/Serial.thy ===== *)
theory Serial
  imports Prelude
begin

text \<open>
  Serial numbers: counters that wrap around and are compared by the sign of their difference. The
  sequence numbers of the reordering window (\<open>SN_LESS\<close>, 12 bits) and the packet numbers of replay
  detection (\<open>PN_LESS_CHK\<close>, 48 bits) are both instances of the contract stated here.
\<close>

section \<open>Serial numbers\<close>

text \<open>The contract of a window comparison over a finite space of serial numbers: \<open>code\<close> maps an
  unbounded number to its serial number, and the comparison is right for numbers at most \<open>reach\<close>
  apart. Everything the queue needs of sequence numbers follows from it.\<close>

locale serial_numbers =
  fixes code :: "nat \<Rightarrow> 's"
    and less :: "'s \<Rightarrow> 's \<Rightarrow> bool"
    and succ :: "'s \<Rightarrow> 's"
    and reach :: nat
  assumes less_code: "m \<le> n + reach \<Longrightarrow> n \<le> m + reach \<Longrightarrow> less (code m) (code n) \<longleftrightarrow> m < n"
    and succ_code: "succ (code n) = code (n + 1)"
begin

lemma code_eq_iff: "m \<le> n + reach \<Longrightarrow> n \<le> m + reach \<Longrightarrow> code m = code n \<longleftrightarrow> m = n"
  using less_code [of m n] less_code [of n m] less_code [of n n] by (metis le_add1 nat_neq_iff)

end

lemma half_window:
  assumes "m < n + h" and "n < m + h"
  shows "int h \<le> (int (m mod (2 * h)) - int (n mod (2 * h))) mod int (2 * h) \<longleftrightarrow> m < n"
proof -
  have "(int (m mod (2 * h)) - int (n mod (2 * h))) mod int (2 * h) = (int m - int n) mod int (2 * h)"
    by (simp add: zmod_int mod_diff_eq)
  also have "\<dots> = (if m < n then int m - int n + int (2 * h) else int m - int n)"
  proof (cases "m < n")
    case True
    then have "(int m - int n + int (2 * h)) mod int (2 * h) = int m - int n + int (2 * h)"
      using assms by (intro mod_pos_pos_trivial) simp_all
    with True show ?thesis by simp
  qed (use assms in \<open>auto intro!: mod_pos_pos_trivial\<close>)
  finally show ?thesis using assms by auto
qed

lemma bit_top_iff:
  fixes w :: "'a::len word"
  assumes "k < LENGTH('a)"
  shows "bit w k \<longleftrightarrow> 2 ^ k \<le> uint w mod 2 ^ Suc k"
proof -
  let ?x = "uint w mod 2 ^ Suc k"
  have "bit w k \<longleftrightarrow> bit (uint w) k" using assms by (simp add: bit_uint_iff)
  also have "\<dots> \<longleftrightarrow> bit (take_bit (Suc k) (uint w)) k" by (simp add: bit_take_bit_iff)
  also have "\<dots> \<longleftrightarrow> odd (?x div 2 ^ k)" by (simp add: bit_iff_odd take_bit_eq_mod)
  also have "\<dots> \<longleftrightarrow> 2 ^ k \<le> ?x"
  proof (cases "2 ^ k \<le> ?x")
    case True
    have "?x < 2 ^ Suc k" by simp
    with True have "?x div 2 ^ k = 1" by (intro int_div_pos_eq [of _ _ _ "?x - 2 ^ k"]) auto
    with True show ?thesis by simp
  qed (simp add: div_pos_pos_trivial)
  finally show ?thesis .
qed

text \<open>The sign bit of a difference, for counters narrower than the word they are kept in.\<close>

lemma bit_diff_window:
  fixes a b :: "'a::len word"
  assumes "k < LENGTH('a)"
  shows "bit (a - b) k \<longleftrightarrow> 2 ^ k \<le> (uint a - uint b) mod 2 ^ Suc k"
proof -
  have "(2 :: int) ^ Suc k dvd 2 ^ LENGTH('a)" using assms by (intro le_imp_power_dvd) simp
  then have "uint (a - b) mod 2 ^ Suc k = (uint a - uint b) mod 2 ^ Suc k"
    by (simp add: uint_word_arith_bintrs take_bit_eq_mod mod_mod_cancel)
  with bit_top_iff [OF assms, of "a - b"] show ?thesis by simp
qed

end
