(* ===== verification/Recv_Reorder.thy ===== *)
theory Recv_Reorder
  imports Prelude Serial
begin

text \<open>
  The receive reordering window of \<open>core/rtw_recv.c\<close> (\<open>CONFIG_RECV_REORDERING_CTRL\<close>): frames
  of a block-ack session arrive in any order with 12-bit sequence numbers; the driver holds them
  in a sorted queue and hands them on in order, sliding the window when a number lies beyond it
  and giving up on a gap when the timer fires. The lemmas relate this code, whose comparisons are
  modulo 4096, to a reordering buffer over unbounded sequence numbers.
\<close>

section \<open>State\<close>

text \<open>Of \<open>union recv_frame\<close> the reordering code reads \<open>attrib.seq_num\<close> and \<open>attrib.qos\<close>;
  \<open>rx_data\<close> stands for the rest.\<close>

record recv_frame =
  seq_num :: u16
  qos :: bool
  rx_data :: buf

text \<open>\<open>reordering_ctrl_timer\<close> is whether the timer is armed, \<open>rec_abba_rsp_ack\<close> its one bit
  \<open>RTW_RECV_ACK_OR_TIMEOUT\<close>.\<close>

record recv_reorder_ctrl =
  enable :: bool
  indicate_seq :: u16
  wsize_b :: u8
  pending_recvframe_queue :: "recv_frame list"
  reordering_ctrl_timer :: bool
  bReorderWaiting :: bool
  rec_abba_rsp_ack :: bool

text \<open>The counters of \<open>struct recv_priv\<close> and, in order, the frames given to \<open>recv_process_mpdu\<close>.\<close>

record recv_priv =
  rx_drop :: u64
  dbg_rx_drop_count :: u64
  dbg_rx_ampdu_drop_count :: u64
  dbg_rx_ampdu_forced_indicate_count :: u64
  dbg_rx_ampdu_loss_count :: u64
  dbg_rx_ampdu_window_shift_cnt :: u64
  indicated :: "recv_frame list"

datatype rx_result = RX_SUCCESS | RX_FAIL | RTW_RX_HANDLED

section \<open>Operations\<close>

definition SN_LESS :: "u16 \<Rightarrow> u16 \<Rightarrow> bool" where
  "SN_LESS a b \<longleftrightarrow> (a - b) AND 0x800 \<noteq> 0"

definition SN_EQUAL :: "u16 \<Rightarrow> u16 \<Rightarrow> bool" where
  "SN_EQUAL a b \<longleftrightarrow> a = b"

definition check_indicate_seq ::
  "recv_reorder_ctrl \<Rightarrow> recv_priv \<Rightarrow> u16 \<Rightarrow> bool \<times> recv_reorder_ctrl \<times> recv_priv" where
  "check_indicate_seq ctrl priv seq =
     (let ctrl = (if indicate_seq ctrl = 0xFFFF then ctrl\<lparr>indicate_seq := seq\<rparr> else ctrl);
          iseq = indicate_seq ctrl;
          wsize = wsize_b ctrl;
          wend = (iseq + ucast wsize - 1) AND 0xFFF in
      if SN_LESS seq iseq then (False, ctrl, priv)
      else if SN_EQUAL seq iseq then (True, ctrl\<lparr>indicate_seq := (iseq + 1) AND 0xFFF\<rparr>, priv)
      else if SN_LESS wend seq then
        (True,
         ctrl\<lparr>indicate_seq := if uint seq \<ge> uint wsize - 1 then seq + 1 - ucast wsize
                              else 0xFFF - (ucast wsize - (seq + 1)) + 1\<rparr>,
         priv\<lparr>dbg_rx_ampdu_window_shift_cnt := dbg_rx_ampdu_window_shift_cnt priv + 1\<rparr>)
      else (True, ctrl, priv))"

text \<open>The list walk of \<open>enqueue_reorder_recvframe\<close>; \<^term>\<open>None\<close> is the duplicate.\<close>

fun enqueue_loop :: "recv_frame \<Rightarrow> recv_frame list \<Rightarrow> recv_frame list option" where
  "enqueue_loop f [] = Some [f]"
| "enqueue_loop f (p # ps) =
     (if SN_LESS (seq_num p) (seq_num f) then map_option ((#) p) (enqueue_loop f ps)
      else if SN_EQUAL (seq_num p) (seq_num f) then None
      else Some (f # p # ps))"

definition enqueue_reorder_recvframe ::
  "recv_reorder_ctrl \<Rightarrow> recv_frame \<Rightarrow> bool \<times> recv_reorder_ctrl" where
  "enqueue_reorder_recvframe ctrl f =
     (case enqueue_loop f (pending_recvframe_queue ctrl) of
        None \<Rightarrow> (False, ctrl)
      | Some q \<Rightarrow> (True, ctrl\<lparr>pending_recvframe_queue := q\<rparr>))"

definition recv_indicatepkts_pkt_loss_cnt :: "recv_priv \<Rightarrow> u64 \<Rightarrow> u64 \<Rightarrow> recv_priv" where
  "recv_indicatepkts_pkt_loss_cnt priv prev_seq current_seq =
     (let n = (if current_seq < prev_seq then 4096 + current_seq - prev_seq else current_seq - prev_seq) in
      priv\<lparr>dbg_rx_ampdu_loss_count := dbg_rx_ampdu_loss_count priv + n, rx_drop := rx_drop priv + n\<rparr>)"

text \<open>\<open>mpdu_ok f\<close> is whether \<open>recv_process_mpdu\<close> returns \<open>_SUCCESS\<close> for the frame. The result of
  the loop is (\<open>indicate_seq\<close>, queue, counters, \<open>bPktInBuf\<close>).\<close>

fun indicate_loop ::
  "(recv_frame \<Rightarrow> bool) \<Rightarrow> u16 \<Rightarrow> recv_frame list \<Rightarrow> recv_priv \<Rightarrow> u16 \<times> recv_frame list \<times> recv_priv \<times> bool" where
  "indicate_loop mpdu_ok iseq [] priv = (iseq, [], priv, False)"
| "indicate_loop mpdu_ok iseq (p # ps) priv =
     (if \<not> SN_LESS iseq (seq_num p) then
        indicate_loop mpdu_ok (if SN_EQUAL iseq (seq_num p) then (iseq + 1) AND 0xFFF else iseq) ps
          (priv\<lparr>indicated := indicated priv @ [p],
                dbg_rx_drop_count := dbg_rx_drop_count priv + (if mpdu_ok p then 0 else 1)\<rparr>)
      else (iseq, p # ps, priv, True))"

definition recv_indicatepkts_in_order ::
  "(recv_frame \<Rightarrow> bool) \<Rightarrow> recv_reorder_ctrl \<Rightarrow> recv_priv \<Rightarrow> bool \<Rightarrow> bool \<times> recv_reorder_ctrl \<times> recv_priv" where
  "recv_indicatepkts_in_order mpdu_ok ctrl priv bforced =
     (let run = (\<lambda>iseq priv.
            let (iseq, q, priv, bPktInBuf) = indicate_loop mpdu_ok iseq (pending_recvframe_queue ctrl) priv
            in (bPktInBuf, ctrl\<lparr>indicate_seq := iseq, pending_recvframe_queue := q\<rparr>, priv)) in
      if bforced then
        (let priv = priv\<lparr>dbg_rx_ampdu_forced_indicate_count := dbg_rx_ampdu_forced_indicate_count priv + 1\<rparr> in
         case pending_recvframe_queue ctrl of
           [] \<Rightarrow> (True, ctrl, priv)
         | f # _ \<Rightarrow> run (seq_num f)
             (recv_indicatepkts_pkt_loss_cnt priv (ucast (indicate_seq ctrl)) (ucast (seq_num f))))
      else run (indicate_seq ctrl) priv)"

text \<open>\<open>ctrl\<close> is \<open>prframe->u.hdr.preorder_ctrl\<close>.\<close>

definition recv_indicatepkt_reorder ::
  "(recv_frame \<Rightarrow> bool) \<Rightarrow> recv_reorder_ctrl option \<Rightarrow> recv_priv \<Rightarrow> recv_frame
    \<Rightarrow> rx_result \<times> recv_reorder_ctrl option \<times> recv_priv" where
  "recv_indicatepkt_reorder mpdu_ok preorder_ctrl priv f =
     (case preorder_ctrl of None \<Rightarrow> (RX_SUCCESS, None, priv)
      | Some ctrl \<Rightarrow>
        if \<not> qos f \<or> \<not> enable ctrl then (RX_SUCCESS, Some ctrl, priv)
        else
          (let ctrl = (if rec_abba_rsp_ack ctrl
                       then ctrl\<lparr>rec_abba_rsp_ack := False, indicate_seq := 0xFFFF\<rparr> else ctrl) in
           case check_indicate_seq ctrl priv (seq_num f) of
             (False, ctrl, priv) \<Rightarrow>
               (RX_FAIL, Some ctrl, priv\<lparr>dbg_rx_ampdu_drop_count := dbg_rx_ampdu_drop_count priv + 1\<rparr>)
           | (True, ctrl, priv) \<Rightarrow>
               (case enqueue_reorder_recvframe ctrl f of
                  (False, ctrl) \<Rightarrow> (RX_FAIL, Some ctrl, priv)
                | (True, ctrl) \<Rightarrow>
                    (case recv_indicatepkts_in_order mpdu_ok ctrl priv False of
                       (True, ctrl, priv) \<Rightarrow>
                         (RTW_RX_HANDLED,
                          Some (if \<not> bReorderWaiting ctrl
                                then ctrl\<lparr>bReorderWaiting := True, reordering_ctrl_timer := True\<rparr> else ctrl),
                          priv)
                     | (False, ctrl, priv) \<Rightarrow>
                         (RTW_RX_HANDLED,
                          Some (ctrl\<lparr>bReorderWaiting := False, reordering_ctrl_timer := False\<rparr>), priv)))))"

text \<open>The timer fires: it is no longer armed when the handler runs. \<open>cannot_run\<close> is
  \<open>RTW_CANNOT_RUN(padapter)\<close>.\<close>

definition rtw_reordering_ctrl_timeout_handler ::
  "(recv_frame \<Rightarrow> bool) \<Rightarrow> bool \<Rightarrow> recv_reorder_ctrl option \<Rightarrow> recv_priv \<Rightarrow> recv_reorder_ctrl option \<times> recv_priv" where
  "rtw_reordering_ctrl_timeout_handler mpdu_ok cannot_run pcontext priv =
     (case pcontext of None \<Rightarrow> (None, priv)
      | Some ctrl \<Rightarrow>
        (let ctrl = ctrl\<lparr>reordering_ctrl_timer := False\<rparr> in
         if cannot_run then (Some ctrl, priv)
         else (case recv_indicatepkts_in_order mpdu_ok (ctrl\<lparr>bReorderWaiting := False\<rparr>) priv True of
             (again, ctrl, priv) \<Rightarrow> (Some (if again then ctrl\<lparr>reordering_ctrl_timer := True\<rparr> else ctrl), priv))))"

definition recv_set_iseq_before_mpdu_process :: "recv_reorder_ctrl option \<Rightarrow> u16 \<Rightarrow> recv_reorder_ctrl option" where
  "recv_set_iseq_before_mpdu_process rc seq = map_option (\<lambda>c. c\<lparr>indicate_seq := seq\<rparr>) rc"

definition recv_set_iseq_after_mpdu_process :: "recv_reorder_ctrl option \<Rightarrow> u16 \<Rightarrow> recv_reorder_ctrl option" where
  "recv_set_iseq_after_mpdu_process rc seq =
     map_option (\<lambda>c. c\<lparr>indicate_seq := (indicate_seq c + 1) mod 4096\<rparr>) rc"

section \<open>Sequence numbers as serial numbers\<close>

definition sn_code :: "nat \<Rightarrow> u16" where
  "sn_code n = word_of_nat (n mod 4096)"

lemma uint_sn_code: "uint (sn_code n) = int (n mod 4096)"
proof -
  have "n mod 4096 < 65536" by (rule less_trans [of _ 4096]) simp_all
  then show ?thesis by (simp add: sn_code_def uint_nat del: of_nat_mod)
qed

lemma uint_diff_mod: "uint (a - b :: u16) mod 4096 = (uint a - uint b) mod 4096"
  by (simp add: uint_word_arith_bintrs take_bit_eq_mod mod_mod_cancel)

lemma SN_LESS_uint: "SN_LESS a b \<longleftrightarrow> 2048 \<le> (uint a - uint b) mod 4096"
  using bit_diff_window [of 11 a b] and_exp_eq_0_iff_not_bit [of "a - b" 11] by (simp add: SN_LESS_def)

lemma and_fff: "uint (w AND 0xFFF :: u16) = uint w mod 4096"
proof -
  have "(0xFFF :: u16) = mask 12" by (simp add: mask_eq_exp_minus_1)
  then show ?thesis
    by (simp only: take_bit_eq_mask [symmetric] unsigned_take_bit_eq) (simp add: take_bit_eq_mod)
qed

interpretation sn: serial_numbers sn_code SN_LESS "\<lambda>s. (s + 1) AND 0xFFF" 2047
proof
  fix m n :: nat
  assume "m \<le> n + 2047" "n \<le> m + 2047"
  show "SN_LESS (sn_code m) (sn_code n) \<longleftrightarrow> m < n"
  proof -
    have "SN_LESS (sn_code m) (sn_code n) \<longleftrightarrow> 2048 \<le> (int (m mod 4096) - int (n mod 4096)) mod 4096"
      by (simp add: SN_LESS_uint uint_sn_code)
    then show ?thesis
      using \<open>m \<le> n + 2047\<close> \<open>n \<le> m + 2047\<close> half_window [of m n 2048] by simp
  qed
next
  fix n :: nat
  show "(sn_code n + 1) AND 0xFFF = sn_code (n + 1)"
    by (rule word_uint_eqI) (simp add: and_fff uint_sn_code uint_word_arith_bintrs
        take_bit_eq_mod mod_mod_cancel zmod_int mod_simps add.commute)
qed

section \<open>The reference: a reordering buffer over unbounded numbers\<close>

text \<open>The window start (\<^term>\<open>None\<close> before the first frame) and the held frames with their numbers.\<close>

type_synonym rb = "nat option \<times> (nat \<times> recv_frame) list"

fun rb_drain :: "nat \<Rightarrow> (nat \<times> recv_frame) list \<Rightarrow> nat \<times> (nat \<times> recv_frame) list \<times> (nat \<times> recv_frame) list" where
  "rb_drain W [] = (W, [], [])"
| "rb_drain W (p # P) =
     (if fst p \<le> W then (case rb_drain (if fst p = W then W + 1 else W) P of (W', P', out) \<Rightarrow> (W', P', p # out))
      else (W, p # P, []))"

definition rb_window :: "nat \<Rightarrow> nat \<Rightarrow> nat \<Rightarrow> nat" where
  "rb_window w W n = (if n = W then W + 1 else if W + w \<le> n then n + 1 - w else W)"

definition rb_recv :: "nat \<Rightarrow> nat \<Rightarrow> recv_frame \<Rightarrow> rb \<Rightarrow> bool \<times> rb \<times> (nat \<times> recv_frame) list" where
  "rb_recv w n f a = (case a of (Wo, P) \<Rightarrow>
     let W = (case Wo of None \<Rightarrow> n | Some W \<Rightarrow> W) in
     if n < W then (False, (Some W, P), [])
     else if n \<in> fst ` set P then (False, (Some (rb_window w W n), P), [])
     else (case rb_drain (rb_window w W n) (insort_key fst (n, f) P) of
       (W', P', out) \<Rightarrow> (True, (Some W', P'), out)))"

definition rb_timeout :: "rb \<Rightarrow> rb \<times> (nat \<times> recv_frame) list" where
  "rb_timeout a = (case a of (Wo, P) \<Rightarrow> case P of [] \<Rightarrow> (a, [])
     | p # _ \<Rightarrow> (case rb_drain (fst p) P of (W', P', out) \<Rightarrow> ((Some W', P'), out)))"

definition rb_inv :: "nat \<Rightarrow> rb \<Rightarrow> bool" where
  "rb_inv w a \<longleftrightarrow> (case a of (Wo, P) \<Rightarrow> sorted_wrt (<) (map fst P) \<and>
     (case Wo of None \<Rightarrow> P = [] | Some W \<Rightarrow> \<forall>m \<in> fst ` set P. W < m \<and> m < W + w))"

lemma rb_drain_split:
  "rb_drain W P = (W', P', out) \<Longrightarrow> sorted_wrt (<) (map fst P) \<Longrightarrow>
     P = out @ P' \<and> W \<le> W' \<and> (\<forall>m \<in> fst ` set out. m < W') \<and> (\<forall>m \<in> fst ` set P'. W' < m)"
proof (induction W P arbitrary: W' P' out rule: rb_drain.induct)
  case (1 W)
  then show ?case by simp
next
  case (2 W p P)
  show ?case
  proof (cases "fst p \<le> W")
    case False
    with 2 show ?thesis by fastforce
  next
    case True
    obtain out' where out': "out = p # out'" "rb_drain (if fst p = W then W + 1 else W) P = (W', P', out')"
      using True "2.prems"(1) by (auto split: prod.splits)
    from "2.IH" [OF True out'(2)] "2.prems"(2)
    have ih: "P = out' @ P'" "(if fst p = W then W + 1 else W) \<le> W'" "\<forall>m \<in> fst ` set P'. W' < m"
        "\<forall>m \<in> fst ` set out'. m < W'" by auto
    then have "W \<le> W'" "fst p < W'" using True by (auto split: if_splits)
    with ih out'(1) show ?thesis by auto
  qed
qed

lemma insort_key_sorted_wrt:
  "sorted_wrt (<) (map fst P) \<Longrightarrow> n \<notin> fst ` set P \<Longrightarrow> sorted_wrt (<) (map fst (insort_key fst (n, f) P))"
  by (induction P) (auto simp: set_insort_key)

lemma rb_window_ge: "W \<le> n \<Longrightarrow> 0 < w \<Longrightarrow> W \<le> rb_window w W n \<and> n < rb_window w W n + w"
  by (auto simp: rb_window_def)

lemma rb_recv_None: "rb_recv w n f (None, P) = rb_recv w n f (Some n, P)"
  by (simp add: rb_recv_def)

lemma rb_recv_Some:
  "rb_recv w n f (Some W, P) =
     (if n < W then (False, (Some W, P), [])
      else if n \<in> fst ` set P then (False, (Some (rb_window w W n), P), [])
      else (case rb_drain (rb_window w W n) (insort_key fst (n, f) P) of
        (W', P', out) \<Rightarrow> (True, (Some W', P'), out)))"
  by (simp add: rb_recv_def)

lemma rb_recv_inv_Some:
  assumes "rb_inv w (Some W, P)" and "0 < w" and "rb_recv w n f (Some W, P) = (acc, (Wo', P'), out)"
  shows "rb_inv w (Wo', P')"
proof -
  have inv: "sorted_wrt (<) (map fst P)" "\<forall>m \<in> fst ` set P. W < m \<and> m < W + w"
    using assms(1) by (auto simp: rb_inv_def)
  consider "n < W" | "\<not> n < W" "n \<in> fst ` set P" | "\<not> n < W" "n \<notin> fst ` set P" by blast
  then show ?thesis
  proof cases
    case 1
    with assms(1,3) show ?thesis by (simp add: rb_recv_Some)
  next
    case 2
    then have "rb_window w W n = W" using inv(2) by (auto simp: rb_window_def)
    with 2 assms(1,3) show ?thesis by (simp add: rb_recv_Some)
  next
    case 3
    obtain W2 where d: "rb_drain (rb_window w W n) (insort_key fst (n, f) P) = (W2, P', out)" and Wo': "Wo' = Some W2"
      using 3 assms(3) by (simp add: rb_recv_Some split: prod.splits)
    have srt: "sorted_wrt (<) (map fst (insort_key fst (n, f) P))"
      by (rule insort_key_sorted_wrt [OF inv(1) 3(2)])
    from rb_drain_split [OF d srt] have split: "insort_key fst (n, f) P = out @ P'" "rb_window w W n \<le> W2"
        "\<forall>m \<in> fst ` set P'. W2 < m" by auto
    have sub: "set P' \<subseteq> insert (n, f) (set P)"
      unfolding set_insort_key [of fst "(n, f)" P, symmetric] split(1) by simp
    have ge: "W \<le> rb_window w W n" "n < rb_window w W n + w" using rb_window_ge [of W n w] 3 assms(2) by simp_all
    have "m < W2 + w" if "m \<in> fst ` set P'" for m
    proof -
      have "m \<in> insert n (fst ` set P)" using image_mono [OF sub, of fst] that by auto
      then have "m = n \<or> m < W + w" using inv(2) by blast
      then show ?thesis using ge split(2) by linarith
    qed
    moreover have "sorted_wrt (<) (map fst P')" using srt split(1) by (simp add: sorted_wrt_append)
    ultimately show ?thesis using split(3) by (auto simp: rb_inv_def Wo')
  qed
qed

lemma rb_recv_inv:
  assumes "rb_inv w a" and "0 < w" and "rb_recv w n f a = (acc, a', out)"
  shows "rb_inv w a'"
proof -
  obtain Wo P where a: "a = (Wo, P)" by (cases a)
  obtain Wo' P' where a': "a' = (Wo', P')" by (cases a')
  show ?thesis
  proof (cases Wo)
    case None
    with assms a have "rb_inv w (Some n, P)" "rb_recv w n f (Some n, P) = (acc, (Wo', P'), out)"
      by (auto simp: rb_inv_def rb_recv_None a')
    with assms(2) a' show ?thesis using rb_recv_inv_Some by blast
  next
    case (Some W)
    with assms a a' show ?thesis using rb_recv_inv_Some by blast
  qed
qed

lemma rb_timeout_inv:
  assumes "rb_inv w a" and "rb_timeout a = (a', out)"
  shows "rb_inv w a'"
proof -
  obtain Wo P where a: "a = (Wo, P)" by (cases a)
  show ?thesis
  proof (cases P)
    case Nil
    with assms a show ?thesis by (simp add: rb_timeout_def)
  next
    case (Cons p ps)
    with assms(1) a obtain W where inv: "sorted_wrt (<) (map fst P)" "\<forall>m \<in> fst ` set P. W < m \<and> m < W + w"
      by (auto simp: rb_inv_def split: option.splits)
    obtain W' P' where d: "rb_drain (fst p) P = (W', P', out)" and a': "a' = (Some W', P')"
      using assms(2) Cons by (simp add: rb_timeout_def a split: prod.splits)
    from rb_drain_split [OF d inv(1)] have s: "P = out @ P'" "fst p \<le> W'" "\<forall>m \<in> fst ` set P'. W' < m" by auto
    have "m < W' + w" if "m \<in> fst ` set P'" for m
    proof -
      have "m \<in> fst ` set P" using that s(1) by auto
      then have "m < W + w" "W < fst p" using inv(2) Cons by auto
      with s(2) show ?thesis by linarith
    qed
    with s inv(1) show ?thesis by (auto simp: rb_inv_def a' sorted_wrt_append)
  qed
qed

section \<open>The driver implements the reference\<close>

definition held_ok :: "(nat \<times> recv_frame) list \<Rightarrow> bool" where
  "held_ok P \<longleftrightarrow> (\<forall>p \<in> set P. seq_num (snd p) = sn_code (fst p))"

definition rb_rel :: "recv_reorder_ctrl \<Rightarrow> rb \<Rightarrow> bool" where
  "rb_rel c a \<longleftrightarrow> (case a of (Wo, P) \<Rightarrow>
     indicate_seq c = (case Wo of None \<Rightarrow> 0xFFFF | Some W \<Rightarrow> sn_code W) \<and>
     pending_recvframe_queue c = map snd P \<and> held_ok P)"

definition near :: "nat \<Rightarrow> nat \<Rightarrow> bool" where
  "near m n \<longleftrightarrow> m \<le> n + 2047 \<and> n \<le> m + 2047"

lemma SN_near: "near m n \<Longrightarrow> SN_LESS (sn_code m) (sn_code n) \<longleftrightarrow> m < n"
  "near m n \<Longrightarrow> SN_EQUAL (sn_code m) (sn_code n) \<longleftrightarrow> m = n"
  using sn.less_code [of m n] sn.code_eq_iff [of m n] by (auto simp: near_def SN_EQUAL_def)

lemma enqueue_loop_insort:
  assumes "held_ok P" and "seq_num f = sn_code n" and "\<forall>m \<in> fst ` set P. near m n"
    and "sorted_wrt (<) (map fst P)"
  shows "enqueue_loop f (map snd P)
    = (if n \<in> fst ` set P then None else Some (map snd (insort_key fst (n, f) P)))"
  using assms
proof (induction P)
  case (Cons p P)
  then have p: "seq_num (snd p) = sn_code (fst p)" "near (fst p) n" by (auto simp: held_ok_def)
  have IH: "enqueue_loop f (map snd P)
      = (if n \<in> fst ` set P then None else Some (map snd (insort_key fst (n, f) P)))"
    using Cons by (simp add: held_ok_def)
  have "n \<notin> fst ` set P" if "n < fst p" using Cons.prems(4) that by auto
  with IH p Cons.prems(2) show ?case by (auto simp: SN_near)
qed simp

lemma indicate_loop_drain:
  assumes "held_ok P" and "\<forall>m \<in> fst ` set P. near W m" and "sorted_wrt (<) (map fst P)"
    and "rb_drain W P = (W', P', out)"
  shows "\<exists>priv'. indicate_loop ok (sn_code W) (map snd P) priv = (sn_code W', map snd P', priv', P' \<noteq> [])
      \<and> indicated priv' = indicated priv @ map snd out"
  using assms
proof (induction W P arbitrary: priv W' P' out rule: rb_drain.induct)
  case (1 W)
  then show ?case by auto
next
  case (2 W p P)
  from "2.prems" have p: "seq_num (snd p) = sn_code (fst p)" "near W (fst p)" by (auto simp: held_ok_def)
  show ?case
  proof (cases "fst p \<le> W")
    case False
    with p "2.prems"(4) show ?thesis by (auto simp: SN_near)
  next
    case True
    let ?W = "if fst p = W then W + 1 else W"
    obtain out' where out: "out = p # out'" "rb_drain ?W P = (W', P', out')"
      using True "2.prems"(4) by (simp split: prod.splits)
    have "near ?W m" if "m \<in> fst ` set P" for m
    proof -
      have "near W m" "fst p < m" using "2.prems"(2,3) that by auto
      with True show ?thesis by (auto simp: near_def)
    qed
    with "2.IH" [OF True _ _ _ out(2)] "2.prems"(1,3)
    obtain priv' where "indicate_loop ok (sn_code ?W) (map snd P)
          (priv\<lparr>indicated := indicated priv @ [snd p],
                dbg_rx_drop_count := dbg_rx_drop_count priv + (if ok (snd p) then 0 else 1)\<rparr>)
        = (sn_code W', map snd P', priv', P' \<noteq> [])" "indicated priv' = indicated priv @ snd p # map snd out'"
      by (fastforce simp: held_ok_def)
    moreover have "sn_code ?W = (if SN_EQUAL (sn_code W) (seq_num (snd p)) then (sn_code W + 1) AND 0xFFF else sn_code W)"
      using p SN_near(2) [of W "fst p"] sn.succ_code [of W] by auto
    ultimately show ?thesis
      using True p SN_near(1) [of W "fst p"] out(1) by simp
  qed
qed

lemma sn_code_not_init: "sn_code n \<noteq> 0xFFFF"
proof
  assume "sn_code n = 0xFFFF"
  from arg_cong [OF this, of uint] have "n mod 4096 = 65535" by (simp add: uint_sn_code)
  moreover have "n mod 4096 < 4096" by simp
  ultimately show False by linarith
qed

lemma shift_window:
  fixes wsize :: u8
  assumes "0 < unat wsize" and "unat wsize \<le> n"
  shows "(if uint (sn_code n) \<ge> uint wsize - 1 then sn_code n + 1 - ucast wsize
     else 0xFFF - (ucast wsize - (sn_code n + 1)) + 1) = sn_code (n + 1 - unat wsize)"
proof -
  define w where "w = unat wsize"
  define q where "q = n div 4096"
  define r where "r = n mod 4096"
  have n: "n = 4096 * q + r" "r < 4096" by (simp_all add: q_def r_def)
  have w: "0 < w" "w < 256" "w \<le> n" using assms unat_u8 [of wsize] by (simp_all add: w_def)
  have code: "sn_code n = word_of_nat r" by (simp add: sn_code_def r_def)
  have uc: "(ucast wsize :: u16) = word_of_nat w" by (simp add: w_def)
  have cmp: "uint (sn_code n) \<ge> uint wsize - 1 \<longleftrightarrow> w \<le> r + 1"
    unfolding uint_sn_code uint_nat [of wsize] w_def [symmetric] r_def [symmetric] by linarith
  show ?thesis
  proof (cases "w \<le> r + 1")
    case True
    then have "(n + 1 - w) mod 4096 = (4096 * q + (r + 1 - w)) mod 4096" using n by simp
    also have "\<dots> = r + 1 - w" using n w by simp
    finally have "sn_code (n + 1 - w) = word_of_nat (r + 1 - w)" by (simp add: sn_code_def)
    with True show ?thesis unfolding cmp w_def [symmetric] by (simp add: code uc of_nat_diff)
  next
    case False
    with n w have "0 < q" by (cases q) auto
    then obtain k where k: "q = Suc k" by (cases q) auto
    have "n + 1 - w = 4096 * k + (4096 + r + 1 - w)" using n w False by (simp add: k)
    moreover have "(4096 * k + s) mod 4096 = s" if "s < 4096" for s using that by simp
    moreover have "4096 + r + 1 - w < 4096" using w False by linarith
    ultimately have "(n + 1 - w) mod 4096 = 4096 + r + 1 - w" by metis
    then have "sn_code (n + 1 - w) = word_of_nat (4096 + r + 1 - w)" by (simp add: sn_code_def)
    with False w show ?thesis unfolding cmp w_def [symmetric] by (simp add: code uc of_nat_diff)
  qed
qed

lemma uint_plus_mod: "uint (a + b :: u16) mod 4096 = (uint a + uint b) mod 4096"
  by (simp add: uint_word_arith_bintrs take_bit_eq_mod mod_mod_cancel)

lemma window_end:
  fixes wsize :: u8
  assumes "0 < unat wsize"
  shows "(sn_code W + ucast wsize - 1) AND 0xFFF = sn_code (W + unat wsize - 1)"
proof (rule word_uint_eqI)
  have "uint ((sn_code W + ucast wsize - 1) AND 0xFFF) = (uint (sn_code W + ucast wsize) - 1) mod 4096"
    using uint_diff_mod [of "sn_code W + ucast wsize" 1] by (simp add: and_fff)
  also have "\<dots> = (uint (sn_code W) + uint (ucast wsize :: u16) - 1) mod 4096"
    using uint_plus_mod [of "sn_code W" "ucast wsize"] by (metis mod_diff_left_eq)
  also have "\<dots> = (int W + int (unat wsize) - 1) mod 4096"
  proof -
    have "uint (ucast wsize :: u16) = int (unat wsize)" by (simp add: uint_up_ucast is_up)
    moreover have "uint (sn_code W) = int W mod 4096" by (simp add: uint_sn_code zmod_int)
    ultimately show ?thesis
      using mod_add_left_eq [of "int W" 4096 "int (unat wsize) - 1"] by (simp only: add_diff_eq)
  qed
  also have "\<dots> = uint (sn_code (W + unat wsize - 1))"
    using assms by (simp add: uint_sn_code zmod_int of_nat_diff)
  finally show "uint ((sn_code W + ucast wsize - 1) AND 0xFFF) = uint (sn_code (W + unat wsize - 1))" .
qed

lemma check_indicate_seq_window:
  assumes "indicate_seq c = sn_code W" and "near n W" and "0 < unat (wsize_b c)"
  shows "\<exists>priv'. check_indicate_seq c priv (sn_code n)
        = (\<not> n < W, c\<lparr>indicate_seq := sn_code (if n < W then W else rb_window (unat (wsize_b c)) W n)\<rparr>, priv')
      \<and> indicated priv' = indicated priv"
proof -
  let ?w = "unat (wsize_b c)"
  have w: "?w < 256" by (rule unat_u8)
  have end': "SN_LESS ((sn_code W + ucast (wsize_b c) - 1) AND 0xFFF) (sn_code n) \<longleftrightarrow> W + ?w \<le> n" if "W \<le> n"
  proof -
    have "near (W + ?w - 1) n" using that assms(2,3) w by (auto simp: near_def)
    then show ?thesis using window_end [OF assms(3), of W] SN_near(1) assms(3) by auto
  qed
  consider "n < W" | "n = W" | "W < n" "W + ?w \<le> n" | "W < n" "n < W + ?w" by linarith
  then show ?thesis
  proof cases
    case 1
    with assms(1,2) show ?thesis
      by (simp add: check_indicate_seq_def Let_def sn_code_not_init SN_near)
  next
    case 2
    then show ?thesis
      using assms(1,2) sn.succ_code [of W]
      by (simp add: check_indicate_seq_def Let_def sn_code_not_init SN_near rb_window_def)
  next
    case 3
    then show ?thesis
      using assms(1,2) end' shift_window [OF assms(3), of n]
      by (auto simp: check_indicate_seq_def Let_def sn_code_not_init SN_near rb_window_def)
  next
    case 4
    then show ?thesis
      using assms(1,2) end'
      by (auto simp: check_indicate_seq_def Let_def sn_code_not_init SN_near rb_window_def)
  qed
qed

text \<open>The fields no step changes, as far as the reference needs them.\<close>

definition session :: "nat \<Rightarrow> recv_reorder_ctrl \<Rightarrow> bool" where
  "session w c \<longleftrightarrow> enable c \<and> \<not> rec_abba_rsp_ack c \<and> unat (wsize_b c) = w \<and> 0 < w"

lemma in_order_drain:
  assumes "indicate_seq c = sn_code W" and "pending_recvframe_queue c = map snd P" and "held_ok P"
    and "\<forall>m \<in> fst ` set P. near W m" and "sorted_wrt (<) (map fst P)" and "rb_drain W P = (W', P', out)"
  shows "\<exists>priv'. recv_indicatepkts_in_order ok c priv False
      = (P' \<noteq> [], c\<lparr>indicate_seq := sn_code W', pending_recvframe_queue := map snd P'\<rparr>, priv')
      \<and> indicated priv' = indicated priv @ map snd out"
  using indicate_loop_drain [OF assms(3-6), of ok priv] assms(1,2)
  by (auto simp: recv_indicatepkts_in_order_def Let_def)

lemma near_window:
  assumes "W < m" "m < W + w" "W \<le> n" "near n W" "0 < w" "w < 256"
  shows "near m n" and "near (rb_window w W n) m" and "near (rb_window w W n) n"
  using assms by (auto simp: near_def rb_window_def)

lemma held_ok_split: "held_ok (xs @ ys) \<longleftrightarrow> held_ok xs \<and> held_ok ys"
  by (auto simp: held_ok_def)

lemma recv_refines_Some:
  assumes rel: "rb_rel c (Some W, P)" and inv: "rb_inv w (Some W, P)" and ses: "session w c" and f: "qos f"
    and n: "seq_num f = sn_code n" "near n W" and r: "rb_recv w n f (Some W, P) = (acc, a', out)"
  shows "\<exists>c' priv'. recv_indicatepkt_reorder ok (Some c) priv f = (if acc then RTW_RX_HANDLED else RX_FAIL, Some c', priv')
      \<and> rb_rel c' a' \<and> session w c' \<and> indicated priv' = indicated priv @ map snd out"
proof -
  have c: "indicate_seq c = sn_code W" "pending_recvframe_queue c = map snd P" "held_ok P"
    using rel by (simp_all add: rb_rel_def)
  have P: "sorted_wrt (<) (map fst P)" "\<forall>m \<in> fst ` set P. W < m \<and> m < W + w" using inv by (auto simp: rb_inv_def)
  have w: "unat (wsize_b c) = w" "0 < w" "w < 256" "enable c" "\<not> rec_abba_rsp_ack c"
    using ses unat_u8 [of "wsize_b c"] by (auto simp: session_def)
  from check_indicate_seq_window [OF c(1) n(2), of priv] w obtain priv1 where
    chk: "check_indicate_seq c priv (seq_num f)
        = (\<not> n < W, c\<lparr>indicate_seq := sn_code (if n < W then W else rb_window w W n)\<rparr>, priv1)"
      "indicated priv1 = indicated priv" by (auto simp: n(1))
  show ?thesis
  proof (cases "n < W")
    case True
    with r chk w f show ?thesis
      by (auto simp: recv_indicatepkt_reorder_def rb_recv_Some rb_rel_def c session_def)
  next
    case False
    let ?W1 = "rb_window w W n" and ?c1 = "c\<lparr>indicate_seq := sn_code (rb_window w W n)\<rparr>"
    have nr: "\<forall>m \<in> fst ` set P. near m n" "\<forall>m \<in> fst ` set P. near ?W1 m" "near ?W1 n"
      using near_window P(2) False n(2) w(2,3) by (auto simp: near_def rb_window_def)
    note enq = enqueue_loop_insort [OF c(3) n(1) nr(1) P(1)]
    show ?thesis
    proof (cases "n \<in> fst ` set P")
      case True
      with False r chk w f enq show ?thesis
        by (auto simp: recv_indicatepkt_reorder_def enqueue_reorder_recvframe_def rb_recv_Some rb_rel_def c session_def)
    next
      case fresh: False
      let ?Q = "insort_key fst (n, f) P"
      obtain W' P' where d: "rb_drain ?W1 ?Q = (W', P', out)" and a': "a' = (Some W', P')" and acc
        using False fresh r by (simp add: rb_recv_Some split: prod.splits)
      have Q: "held_ok ?Q" "\<forall>m \<in> fst ` set ?Q. near ?W1 m" "sorted_wrt (<) (map fst ?Q)"
        using c(3) n(1) nr insort_key_sorted_wrt [OF P(1) fresh] by (auto simp: held_ok_def set_insort_key)
      from in_order_drain [of "?c1\<lparr>pending_recvframe_queue := map snd ?Q\<rparr>", OF _ _ Q d, of ok priv1] obtain priv2 where
        io: "recv_indicatepkts_in_order ok (?c1\<lparr>pending_recvframe_queue := map snd ?Q\<rparr>) priv1 False
          = (P' \<noteq> [], c\<lparr>indicate_seq := sn_code W', pending_recvframe_queue := map snd P'\<rparr>, priv2)"
          "indicated priv2 = indicated priv @ map snd out" using chk(2) by auto
      have "held_ok P'" using rb_drain_split [OF d Q(3)] Q(1) by (simp add: held_ok_split)
      with False fresh chk w f enq io \<open>acc\<close> show ?thesis
        by (cases "P' = []") (auto simp: recv_indicatepkt_reorder_def enqueue_reorder_recvframe_def a' rb_rel_def c session_def)
    qed
  qed
qed

lemma check_indicate_seq_init:
  "indicate_seq c = 0xFFFF \<Longrightarrow> seq \<noteq> 0xFFFF \<Longrightarrow>
     check_indicate_seq c priv seq = check_indicate_seq (c\<lparr>indicate_seq := seq\<rparr>) priv seq"
  by (simp add: check_indicate_seq_def Let_def)

lemma recv_refines:
  assumes "rb_rel c a" and "rb_inv w a" and "session w c" and "qos f" and "seq_num f = sn_code n"
    and "\<forall>W. fst a = Some W \<longrightarrow> near n W" and "rb_recv w n f a = (acc, a', out)"
  shows "\<exists>c' priv'. recv_indicatepkt_reorder ok (Some c) priv f = (if acc then RTW_RX_HANDLED else RX_FAIL, Some c', priv')
      \<and> rb_rel c' a' \<and> session w c' \<and> indicated priv' = indicated priv @ map snd out"
proof -
  obtain Wo P where a: "a = (Wo, P)" by (cases a)
  show ?thesis
  proof (cases Wo)
    case (Some W)
    with assms a recv_refines_Some show ?thesis by auto
  next
    case None
    let ?c = "c\<lparr>indicate_seq := sn_code n\<rparr>"
    have "check_indicate_seq c priv (seq_num f) = check_indicate_seq ?c priv (seq_num f)"
      using assms(1,5) None a by (simp add: check_indicate_seq_init sn_code_not_init rb_rel_def)
    then have "recv_indicatepkt_reorder ok (Some c) priv f = recv_indicatepkt_reorder ok (Some ?c) priv f"
      using assms(3,4) by (simp add: recv_indicatepkt_reorder_def session_def)
    moreover have "rb_rel ?c (Some n, P)" "rb_inv w (Some n, P)" "session w ?c" "near n n"
        "rb_recv w n f (Some n, P) = (acc, a', out)"
      using assms None a by (auto simp: rb_rel_def rb_inv_def session_def near_def rb_recv_None)
    ultimately show ?thesis using recv_refines_Some assms(4,5) by metis
  qed
qed

lemma timeout_refines:
  assumes "rb_rel c a" and "rb_inv w a" and "session w c" and "rb_timeout a = (a', out)"
  shows "\<exists>c' priv'. rtw_reordering_ctrl_timeout_handler ok False (Some c) priv = (Some c', priv')
      \<and> rb_rel c' a' \<and> session w c' \<and> indicated priv' = indicated priv @ map snd out"
proof -
  obtain Wo P where a: "a = (Wo, P)" by (cases a)
  have c: "pending_recvframe_queue c = map snd P" "held_ok P" using assms(1) by (simp_all add: a rb_rel_def)
  show ?thesis
  proof (cases P)
    case Nil
    with assms a c show ?thesis
      by (auto simp: rb_timeout_def rtw_reordering_ctrl_timeout_handler_def recv_indicatepkts_in_order_def Let_def
          rb_rel_def session_def)
  next
    case (Cons p ps)
    obtain W where P: "sorted_wrt (<) (map fst P)" "\<forall>m \<in> fst ` set P. W < m \<and> m < W + w"
      using assms(2) a Cons by (auto simp: rb_inv_def split: option.splits)
    have w: "w < 256" using assms(3) unat_u8 [of "wsize_b c"] by (auto simp: session_def)
    have "W < fst p" "fst p < W + w" using P(2) Cons by auto
    then have nr: "\<forall>m \<in> fst ` set P. near (fst p) m" using P(2) w by (force simp: near_def)
    obtain W' P' where d: "rb_drain (fst p) P = (W', P', out)" and a': "a' = (Some W', P')"
      using assms(4) Cons by (simp add: rb_timeout_def a split: prod.splits)
    have "seq_num (snd p) = sn_code (fst p)" using c(2) Cons by (simp add: held_ok_def)
    moreover have "held_ok P'" using rb_drain_split [OF d P(1)] c(2) held_ok_split [of out P'] by simp
    ultimately have held: "held_ok P'" "seq_num (snd p) = sn_code (fst p)" by blast+
    let ?priv = "recv_indicatepkts_pkt_loss_cnt
        (priv\<lparr>dbg_rx_ampdu_forced_indicate_count := dbg_rx_ampdu_forced_indicate_count priv + 1\<rparr>)
        (ucast (indicate_seq c)) (ucast (seq_num (snd p)))"
    have "indicated ?priv = indicated priv" by (simp add: recv_indicatepkts_pkt_loss_cnt_def Let_def)
    with indicate_loop_drain [OF c(2) nr P(1) d, of ok ?priv] Cons c(1) held assms(3) show ?thesis
      by (auto simp: rtw_reordering_ctrl_timeout_handler_def recv_indicatepkts_in_order_def Let_def rb_rel_def a' session_def)
  qed
qed

text \<open>Frames are held only while the timer is armed.\<close>

definition timer_ok :: "recv_reorder_ctrl \<Rightarrow> bool" where
  "timer_ok c \<longleftrightarrow> (pending_recvframe_queue c \<noteq> [] \<or> bReorderWaiting c \<longrightarrow> reordering_ctrl_timer c)"

text \<open>A concrete session for the witnesses: a new session with a window of 64.\<close>

definition ctrl_new :: recv_reorder_ctrl where
  "ctrl_new = \<lparr>enable = True, indicate_seq = 0xFFFF, wsize_b = 64, pending_recvframe_queue = [],
    reordering_ctrl_timer = False, bReorderWaiting = False, rec_abba_rsp_ack = False\<rparr>"

definition priv_new :: recv_priv where
  "priv_new = \<lparr>rx_drop = 0, dbg_rx_drop_count = 0, dbg_rx_ampdu_drop_count = 0,
    dbg_rx_ampdu_forced_indicate_count = 0, dbg_rx_ampdu_loss_count = 0, dbg_rx_ampdu_window_shift_cnt = 0, indicated = []\<rparr>"

lemma ctrl_new_ok: "rb_rel ctrl_new (None, [])" "rb_inv 64 (None, [])" "session 64 ctrl_new" "timer_ok ctrl_new"
  by (simp_all add: rb_rel_def rb_inv_def session_def timer_ok_def ctrl_new_def held_ok_def)

text \<open>C2: receiving one frame. While the sender's unbounded number \<open>n\<close> is less than half the
  sequence space away from the window start, \<open>recv_indicatepkt_reorder\<close> does exactly what the
  reordering buffer over unbounded numbers does: same verdict, same new window and queue, and the
  same frames handed on, in the same order.\<close>

theorem reorder_recv_refines:
  assumes "rb_rel c a" and "rb_inv w a" and "session w c" and "qos f" and "seq_num f = sn_code n"
    and "\<forall>W. fst a = Some W \<longrightarrow> near n W"
  shows "\<exists>c' priv'. recv_indicatepkt_reorder ok (Some c) priv f
        = (if fst (rb_recv w n f a) then RTW_RX_HANDLED else RX_FAIL, Some c', priv')
      \<and> rb_rel c' (fst (snd (rb_recv w n f a))) \<and> rb_inv w (fst (snd (rb_recv w n f a)))
      \<and> indicated priv' = indicated priv @ map snd (snd (snd (rb_recv w n f a)))"
proof -
  obtain acc a' out where r: "rb_recv w n f a = (acc, a', out)" by (cases "rb_recv w n f a")
  have "0 < w" using assms(3) by (simp add: session_def)
  from rb_recv_inv [OF assms(2) this r] recv_refines [OF assms r, of ok priv] show ?thesis by (auto simp: r)
qed

theorem reorder_recv_refines_witness:
  "\<exists>c' priv'. recv_indicatepkt_reorder (\<lambda>_. True) (Some ctrl_new) priv_new \<lparr>seq_num = 7, qos = True, rx_data = [1]\<rparr>
        = (RTW_RX_HANDLED, Some c', priv')
      \<and> rb_rel c' (Some 8, []) \<and> rb_inv 64 (Some 8, [])
      \<and> indicated priv' = [\<lparr>seq_num = 7, qos = True, rx_data = [1]\<rparr>]"
  using reorder_recv_refines [OF ctrl_new_ok(1-3), of "\<lparr>seq_num = 7, qos = True, rx_data = [1]\<rparr>" 7 "\<lambda>_. True" priv_new]
  by (simp add: sn_code_def rb_recv_def rb_window_def priv_new_def)

section \<open>Runs\<close>

text \<open>The states a session can reach, with the reference buffer and the numbered log beside the
  driver's state. Frames arrive with any number less than half the space away; the timer may fire
  at any time.\<close>

inductive reach_reorder :: "(recv_frame \<Rightarrow> bool) \<Rightarrow> nat \<Rightarrow> recv_reorder_ctrl \<Rightarrow> recv_priv \<Rightarrow> rb
    \<Rightarrow> (nat \<times> recv_frame) list \<Rightarrow> bool" for ok w where
  start: "reach_reorder ok w c priv (None, []) []"
  if "session w c" "indicate_seq c = 0xFFFF" "pending_recvframe_queue c = []" "indicated priv = []"
| recv: "reach_reorder ok w c' priv' a' (log @ out)"
  if "reach_reorder ok w c priv a log" "qos f" "seq_num f = sn_code n" "\<forall>W. fst a = Some W \<longrightarrow> near n W"
    "recv_indicatepkt_reorder ok (Some c) priv f = (res, Some c', priv')" "rb_recv w n f a = (acc, a', out)"
| timer: "reach_reorder ok w c' priv' a' (log @ out)"
  if "reach_reorder ok w c priv a log"
    "rtw_reordering_ctrl_timeout_handler ok False (Some c) priv = (Some c', priv')" "rb_timeout a = (a', out)"

definition log_ok :: "rb \<Rightarrow> (nat \<times> recv_frame) list \<Rightarrow> bool" where
  "log_ok a log \<longleftrightarrow> sorted_wrt (<) (map fst log) \<and>
     (case fst a of None \<Rightarrow> log = [] | Some W \<Rightarrow> \<forall>m \<in> fst ` set log. m < W)"

lemma log_extend:
  assumes "log_ok (Wo, P) log" and "rb_drain W1 Q = (W', P', out)" and "sorted_wrt (<) (map fst Q)"
    and "\<forall>W. Wo = Some W \<longrightarrow> W \<le> W1 \<and> (\<forall>m \<in> fst ` set Q. W \<le> m)"
  shows "log_ok (Some W', P') (log @ out)"
proof -
  from rb_drain_split [OF assms(2,3)] have d: "Q = out @ P'" "W1 \<le> W'" "\<forall>m \<in> fst ` set out. m < W'" by auto
  show ?thesis
  proof (cases Wo)
    case None
    with assms(1,3) d show ?thesis by (auto simp: log_ok_def sorted_wrt_append)
  next
    case (Some W)
    have lt: "\<forall>l \<in> fst ` set log. l < W" using assms(1) Some by (simp add: log_ok_def)
    have ge: "\<forall>m \<in> fst ` set out. W \<le> m" using assms(4) Some d(1) by auto
    have "W \<le> W'" using assms(4) Some d(2) by auto
    then have "\<forall>l \<in> fst ` set (log @ out). l < W'" using lt d(3) by fastforce
    moreover have "\<forall>l \<in> fst ` set log. \<forall>m \<in> fst ` set out. l < m" using lt ge less_le_trans by blast
    moreover have "sorted_wrt (<) (map fst out)" "sorted_wrt (<) (map fst log)"
      using assms(1,3) d(1) by (auto simp: log_ok_def sorted_wrt_append)
    ultimately show ?thesis by (simp add: log_ok_def sorted_wrt_append)
  qed
qed

lemma rb_recv_log:
  assumes "rb_inv w a" and "log_ok a log" and "0 < w" and "rb_recv w n f a = (acc, a', out)"
  shows "log_ok a' (log @ out)"
proof -
  obtain Wo P where a: "a = (Wo, P)" by (cases a)
  define W where "W = (case Wo of None \<Rightarrow> n | Some W \<Rightarrow> W)"
  have r: "rb_recv w n f (Some W, P) = (acc, a', out)"
    using assms(4) by (cases Wo) (simp_all add: a W_def rb_recv_None)
  have P: "sorted_wrt (<) (map fst P)" "\<forall>m \<in> fst ` set P. W < m \<and> m < W + w"
    using assms(1) by (auto simp: a rb_inv_def W_def split: option.splits)
  have log: "log_ok (Some W, P) log" using assms(2) by (cases Wo) (auto simp: a log_ok_def W_def)
  consider "n < W" | "\<not> n < W" "n \<in> fst ` set P" | "\<not> n < W" "n \<notin> fst ` set P" by blast
  then show ?thesis
  proof cases
    case 1
    with r log show ?thesis by (auto simp: rb_recv_Some log_ok_def)
  next
    case 2
    then have "rb_window w W n = W" using P(2) by (auto simp: rb_window_def)
    with 2 r log show ?thesis by (auto simp: rb_recv_Some log_ok_def)
  next
    case 3
    then obtain W' P' where d: "rb_drain (rb_window w W n) (insort_key fst (n, f) P) = (W', P', out)"
      and a': "a' = (Some W', P')" using r by (simp add: rb_recv_Some split: prod.splits)
    have "W \<le> rb_window w W n" using rb_window_ge [of W n w] 3(1) assms(3) by simp
    moreover have "\<forall>m \<in> fst ` set (insort_key fst (n, f) P). W \<le> m"
      using P(2) 3(1) by (auto simp: set_insort_key)
    ultimately show ?thesis
      unfolding a' using log_extend [OF log d insort_key_sorted_wrt [OF P(1) 3(2)]] by simp
  qed
qed

lemma rb_timeout_log:
  assumes "rb_inv w a" and "log_ok a log" and "rb_timeout a = (a', out)"
  shows "log_ok a' (log @ out)"
proof -
  obtain Wo P where a: "a = (Wo, P)" by (cases a)
  show ?thesis
  proof (cases P)
    case Nil
    with assms a show ?thesis by (simp add: rb_timeout_def)
  next
    case (Cons p ps)
    obtain W where P: "Wo = Some W" "sorted_wrt (<) (map fst P)" "\<forall>m \<in> fst ` set P. W < m \<and> m < W + w"
      using assms(1) a Cons by (auto simp: rb_inv_def split: option.splits)
    obtain W' P' where d: "rb_drain (fst p) P = (W', P', out)" and a': "a' = (Some W', P')"
      using assms(3) Cons by (simp add: rb_timeout_def a split: prod.splits)
    show ?thesis
      unfolding a' using log_extend [OF assms(2) [unfolded a] d P(2)] P(1,3) Cons by fastforce
  qed
qed

lemma reach_reorder_invariant:
  "reach_reorder ok w c priv a log \<Longrightarrow>
     rb_rel c a \<and> rb_inv w a \<and> session w c \<and> log_ok a log \<and> indicated priv = map snd log"
proof (induction rule: reach_reorder.induct)
  case (start c priv)
  then show ?case by (simp add: rb_rel_def rb_inv_def log_ok_def held_ok_def)
next
  case (recv c priv a log f n res c' priv' acc a' out)
  then have ih: "rb_rel c a" "rb_inv w a" "session w c" "log_ok a log" "indicated priv = map snd log" "0 < w"
    by (auto simp: session_def)
  from recv_refines [OF ih(1-3) recv.hyps(2-4,6), of ok priv] recv.hyps(5) ih(5)
  have "rb_rel c' a'" "session w c'" "indicated priv' = map snd (log @ out)" by auto
  with rb_recv_inv [OF ih(2,6) recv.hyps(6)] rb_recv_log [OF ih(2,4,6) recv.hyps(6)] show ?case by simp
next
  case (timer c priv a log c' priv' a' out)
  then have ih: "rb_rel c a" "rb_inv w a" "session w c" "log_ok a log" "indicated priv = map snd log" by auto
  from timeout_refines [OF ih(1-3) timer.hyps(3), of ok priv] timer.hyps(2) ih(5)
  have "rb_rel c' a'" "session w c'" "indicated priv' = map snd (log @ out)" by auto
  with rb_timeout_inv [OF ih(2) timer.hyps(3)] rb_timeout_log [OF ih(2,4) timer.hyps(3)] show ?case by simp
qed

text \<open>C1: in every reachable state of a reordering session the frames handed to the upper layer
  carry strictly increasing sequence numbers: nothing is handed on twice or out of order, across
  any number of wrap-arounds of the 12-bit counter and any timer expiry. The frames still held lie
  strictly inside the window behind its start, sorted and without duplicates.\<close>

theorem reorder_delivers_in_order:
  assumes "reach_reorder ok w c priv a log"
  shows "indicated priv = map snd log \<and> sorted_wrt (<) (map fst log)
    \<and> pending_recvframe_queue c = map snd (snd a) \<and> sorted_wrt (<) (map fst (snd a))
    \<and> (\<forall>W. fst a = Some W \<longrightarrow> indicate_seq c = sn_code W \<and>
          (\<forall>m \<in> fst ` set log. m < W) \<and> (\<forall>m \<in> fst ` set (snd a). W < m \<and> m < W + w))"
  using reach_reorder_invariant [OF assms]
  by (cases a; cases "fst a") (simp_all add: rb_rel_def rb_inv_def log_ok_def)

theorem reorder_delivers_in_order_witness:
  "\<exists>c priv. reach_reorder (\<lambda>_. True) 64 c priv (Some 4096, [(4097, \<lparr>seq_num = 1, qos = True, rx_data = [2]\<rparr>)])
        [(4095, \<lparr>seq_num = 4095, qos = True, rx_data = [1]\<rparr>)]
    \<and> indicated priv = [\<lparr>seq_num = 4095, qos = True, rx_data = [1]\<rparr>]
    \<and> pending_recvframe_queue c = [\<lparr>seq_num = 1, qos = True, rx_data = [2]\<rparr>]
    \<and> indicate_seq c = 0"
proof -
  define f1 where "f1 = \<lparr>seq_num = 4095, qos = True, rx_data = [1]\<rparr>"
  define f2 where "f2 = \<lparr>seq_num = 1, qos = True, rx_data = [2]\<rparr>"
  let ?ok = "\<lambda>_. True"
  have s0: "reach_reorder ?ok 64 ctrl_new priv_new (None, []) []"
    by (rule reach_reorder.start) (simp_all add: session_def ctrl_new_def priv_new_def)
  have code: "sn_code 4095 = 4095" "sn_code 4096 = 0" "sn_code 4097 = 1" by (simp_all add: sn_code_def)
  have f: "qos f1" "seq_num f1 = sn_code 4095" "qos f2" "seq_num f2 = sn_code 4097"
    by (simp_all add: f1_def f2_def code)
  have r1: "rb_recv 64 4095 f1 (None, []) = (True, (Some 4096, []), [(4095, f1)])"
    by (simp add: rb_recv_def rb_window_def)
  have r2: "rb_recv 64 4097 f2 (Some 4096, []) = (True, (Some 4096, [(4097, f2)]), [])"
    by (simp add: rb_recv_def rb_window_def)
  from recv_refines [OF ctrl_new_ok(1-3) f(1,2) _ r1, of ?ok priv_new] obtain c1 p1 where
    d1: "recv_indicatepkt_reorder ?ok (Some ctrl_new) priv_new f1 = (RTW_RX_HANDLED, Some c1, p1)" by auto
  from reach_reorder.recv [OF s0 f(1,2) _ d1 r1] have s1: "reach_reorder ?ok 64 c1 p1 (Some 4096, []) [(4095, f1)]" by simp
  from reach_reorder_invariant [OF s1] have i1: "rb_rel c1 (Some 4096, [])" "rb_inv 64 (Some 4096, [])" "session 64 c1" by auto
  from recv_refines [OF i1 f(3,4) _ r2, of ?ok p1] obtain c2 p2 where
    d2: "recv_indicatepkt_reorder ?ok (Some c1) p1 f2 = (RTW_RX_HANDLED, Some c2, p2)" by (auto simp: near_def)
  from reach_reorder.recv [OF s1 f(3,4) _ d2 r2] have
    s2: "reach_reorder ?ok 64 c2 p2 (Some 4096, [(4097, f2)]) [(4095, f1)]" by (simp add: near_def)
  from reorder_delivers_in_order [OF s2] s2 show ?thesis
    by (intro exI [of _ c2] exI [of _ p2]) (simp add: f1_def f2_def code)
qed

section \<open>The timer\<close>

lemma indicate_loop_flag:
  "indicate_loop ok iseq q priv = (iseq', q', priv', flag) \<Longrightarrow> flag \<longleftrightarrow> q' \<noteq> []"
  by (induction ok iseq q priv rule: indicate_loop.induct) (auto split: if_splits)

lemma in_order_flag:
  "recv_indicatepkts_in_order ok c priv False = (flag, c', priv') \<Longrightarrow>
     (flag \<longleftrightarrow> pending_recvframe_queue c' \<noteq> []) \<and> bReorderWaiting c' = bReorderWaiting c
     \<and> reordering_ctrl_timer c' = reordering_ctrl_timer c"
  by (auto simp: recv_indicatepkts_in_order_def Let_def split: prod.splits dest: indicate_loop_flag)

lemma check_indicate_seq_keeps:
  "check_indicate_seq c priv seq = (r, c', priv') \<Longrightarrow>
     pending_recvframe_queue c' = pending_recvframe_queue c \<and> bReorderWaiting c' = bReorderWaiting c
     \<and> reordering_ctrl_timer c' = reordering_ctrl_timer c"
  by (auto simp: check_indicate_seq_def Let_def split: if_splits)

text \<open>no held frame is forgotten. Whenever frames are held the reordering timer is armed: the
  property is kept by every received frame, and re-established by every run of the timer handler,
  whatever state it starts from (as long as the adapter may run).\<close>

theorem reorder_timer_armed:
  assumes "timer_ok c"
  shows "(recv_indicatepkt_reorder ok (Some c) priv f = (res, Some c', priv') \<longrightarrow> timer_ok c') \<and>
    (rtw_reordering_ctrl_timeout_handler ok False (Some d) priv = (Some d', priv'') \<longrightarrow> timer_ok d')"
proof (intro conjI impI)
  assume r: "recv_indicatepkt_reorder ok (Some c) priv f = (res, Some c', priv')"
  show "timer_ok c'"
  proof (cases "qos f \<and> enable c")
    case False
    with r assms show ?thesis by (auto simp: recv_indicatepkt_reorder_def)
  next
    case True
    define c1 where "c1 = (if rec_abba_rsp_ack c then c\<lparr>rec_abba_rsp_ack := False, indicate_seq := 0xFFFF\<rparr> else c)"
    have "timer_ok c1" using assms by (simp add: c1_def timer_ok_def)
    with True r show ?thesis
      by (auto simp: recv_indicatepkt_reorder_def enqueue_reorder_recvframe_def timer_ok_def Let_def simp flip: c1_def
          split: prod.splits bool.splits option.splits if_splits dest!: check_indicate_seq_keeps in_order_flag)
  qed
next
  assume "rtw_reordering_ctrl_timeout_handler ok False (Some d) priv = (Some d', priv'')"
  then show "timer_ok d'"
    by (auto simp: rtw_reordering_ctrl_timeout_handler_def recv_indicatepkts_in_order_def timer_ok_def Let_def
        split: prod.splits list.splits if_splits dest!: indicate_loop_flag)
qed

theorem reorder_timer_armed_witness:
  "\<exists>c' priv'. rtw_reordering_ctrl_timeout_handler (\<lambda>_. True) False (Some ctrl_new) priv_new = (Some c', priv')
     \<and> timer_ok c'"
proof -
  obtain c' priv' where "rtw_reordering_ctrl_timeout_handler (\<lambda>_. True) False (Some ctrl_new) priv_new = (Some c', priv')"
    by (simp add: rtw_reordering_ctrl_timeout_handler_def recv_indicatepkts_in_order_def ctrl_new_def)
  with reorder_timer_armed [OF ctrl_new_ok(4)] show ?thesis by blast
qed

end
