(* ===== verification/Vendor_Attr.thy ===== *)
theory Vendor_Attr
  imports Elems
begin

text \<open>
  Vendor elements and the attributes inside them (\<open>core/rtw_ieee80211.c\<close>): the WPS, P2P, WFD and
  OWE elements, and the WPS, P2P and WFD attribute lists. The element finders are four copies of
  one loop and the attribute finders two copies of another; each function of the code is a
  definition over the loop it repeats, with its own selector, byte order and limits. The attribute
  loops advance by a 16-bit sum that can wrap to 0, so they are \<open>partial_function\<close>s over a step
  function: a value of the model means that the loop returned.
\<close>

section \<open>Finding a vendor element\<close>

definition MAX_IE_SZ :: nat where "MAX_IE_SZ = 768"

definition WPS_OUI4 :: buf where "WPS_OUI4 = [0x00, 0x50, 0xf2, 0x04]"
definition P2P_OUI4 :: buf where "P2P_OUI4 = [0x50, 0x6F, 0x9A, 0x09]"
definition WFD_OUI4 :: buf where "WFD_OUI4 = [0x50, 0x6F, 0x9A, 0x0A]"

definition rtw_is_wps_ie :: "buf \<Rightarrow> nat option \<Rightarrow> nat \<Rightarrow> (bool \<times> nat) option" where
  "rtw_is_wps_ie b ie_ptr wps_ielen =
     (case ie_ptr of None \<Rightarrow> Some (False, wps_ielen)
      | Some p \<Rightarrow> do {
          eid \<leftarrow> rd b p;
          hit \<leftarrow> (if eid = 0xdd then mem_eq b (p + 2) WPS_OUI4 else Some False);
          if hit then do { l \<leftarrow> rd b (p + 1); Some (True, unat l + 2) } else Some (False, wps_ielen) })"

text \<open>The loop shared by \<open>rtw_get_wps_ie\<close>, \<open>rtw_get_owe_ie\<close>, \<open>rtw_get_p2p_ie\<close> and
  \<open>rtw_get_wfd_ie\<close>: (pointer, bytes copied to the caller's buffer, length). \<open>hit b p\<close> is the
  test on the element at \<open>p\<close>.\<close>

function vendor_ie_loop ::
  "(buf \<Rightarrow> nat \<Rightarrow> bool option) \<Rightarrow> buf \<Rightarrow> nat \<Rightarrow> nat \<Rightarrow> nat \<Rightarrow> bool \<Rightarrow> (nat option \<times> buf option \<times> nat) option" where
  "vendor_ie_loop hit b in_ie in_len cnt copy =
     (if cnt + 1 + 4 < in_len then
        (case rd b (in_ie + cnt) of None \<Rightarrow> None | Some eid \<Rightarrow>
         if cnt + 1 + 4 \<ge> MAX_IE_SZ then Some (None, None, 0)
         else (case hit b (in_ie + cnt) of None \<Rightarrow> None | Some h \<Rightarrow>
              (case rd b (in_ie + cnt + 1) of None \<Rightarrow> None | Some l \<Rightarrow>
               if h then do {
                 c \<leftarrow> (if copy then map_option Some (rd_n b (in_ie + cnt) (unat l + 2)) else Some None);
                 Some (Some (in_ie + cnt), c, unat l + 2) }
               else vendor_ie_loop hit b in_ie in_len (cnt + unat l + 2) copy)))
      else Some (None, None, 0))"
  by pat_completeness auto
termination
  by (relation "measure (\<lambda>(hit, b, in_ie, in_len, cnt, copy). in_len - cnt)") auto

declare vendor_ie_loop.simps [simp del]

definition oui_hit :: "buf \<Rightarrow> buf \<Rightarrow> nat \<Rightarrow> bool option" where
  "oui_hit oui b p = do { eid \<leftarrow> rd b p; if eid = WLAN_EID_VENDOR_SPECIFIC then mem_eq b (p + 2) oui else Some False }"

definition owe_hit :: "buf \<Rightarrow> nat \<Rightarrow> bool option" where
  "owe_hit b p = do { eid \<leftarrow> rd b p;
     if eid = WLAN_EID_EXTENSION then map_option (\<lambda>x. x = 32) (rd b (p + 2)) else Some False }"

definition rtw_get_wps_ie :: "buf \<Rightarrow> nat option \<Rightarrow> nat \<Rightarrow> bool \<Rightarrow> (nat option \<times> buf option \<times> nat) option" where
  "rtw_get_wps_ie b in_ie in_len wps_ie =
     (case in_ie of None \<Rightarrow> Some (None, None, 0)
      | Some p \<Rightarrow> if in_len \<le> 0 then Some (None, None, 0) else vendor_ie_loop (oui_hit WPS_OUI4) b p in_len 0 wps_ie)"

datatype bss_type = BSS_TYPE_UNDEF | BSS_TYPE_PROB_REQ | BSS_TYPE_BCN | BSS_TYPE_PROB_RSP

definition rtw_get_wps_ie_from_scan_queue ::
  "buf \<Rightarrow> nat \<Rightarrow> nat \<Rightarrow> bool \<Rightarrow> nat \<Rightarrow> bss_type \<Rightarrow> (nat option \<times> buf option \<times> nat) option" where
  "rtw_get_wps_ie_from_scan_queue b in_ie in_len wps_ie wps_ielen frame_type =
     (case frame_type of
        BSS_TYPE_BCN \<Rightarrow> rtw_get_wps_ie b (Some (in_ie + 12)) (usub32 in_len 12) wps_ie
      | BSS_TYPE_PROB_RSP \<Rightarrow> rtw_get_wps_ie b (Some (in_ie + 12)) (usub32 in_len 12) wps_ie
      | BSS_TYPE_PROB_REQ \<Rightarrow> rtw_get_wps_ie b (Some (in_ie + 0)) (usub32 in_len 0) wps_ie
      | BSS_TYPE_UNDEF \<Rightarrow> Some (None, None, wps_ielen))"

definition rtw_get_owe_ie :: "buf \<Rightarrow> nat option \<Rightarrow> nat \<Rightarrow> bool \<Rightarrow> (nat option \<times> buf option \<times> nat) option" where
  "rtw_get_owe_ie b in_ie in_len owe_ie =
     (case in_ie of None \<Rightarrow> Some (None, None, 0)
      | Some p \<Rightarrow> if in_len \<le> 0 then Some (None, None, 0) else vendor_ie_loop owe_hit b p in_len 0 owe_ie)"

definition rtw_get_p2p_ie :: "buf \<Rightarrow> nat option \<Rightarrow> int \<Rightarrow> bool \<Rightarrow> (nat option \<times> buf option \<times> nat) option" where
  "rtw_get_p2p_ie b in_ie in_len p2p_ie =
     (case in_ie of None \<Rightarrow> Some (None, None, 0)
      | Some p \<Rightarrow> if in_len \<le> 0 then Some (None, None, 0)
                 else vendor_ie_loop (oui_hit P2P_OUI4) b p (nat in_len) 0 p2p_ie)"

definition rtw_get_wfd_ie :: "buf \<Rightarrow> nat option \<Rightarrow> int \<Rightarrow> bool \<Rightarrow> (nat option \<times> buf option \<times> nat) option" where
  "rtw_get_wfd_ie b in_ie in_len wfd_ie =
     (case in_ie of None \<Rightarrow> Some (None, None, 0)
      | Some p \<Rightarrow> if in_len \<le> 0 then Some (None, None, 0)
                 else vendor_ie_loop (oui_hit WFD_OUI4) b p (nat in_len) 0 wfd_ie)"

section \<open>Finding an attribute\<close>

text \<open>One iteration of an attribute loop: it stops with a result or goes on at a position. The
  bounds \<open>attr_ptr - ie + k <= ielen\<close> are written with the sum on both sides.\<close>

datatype attr_step = Stop "nat option \<times> buf option \<times> nat" | Next nat

definition wps_attr_step :: "buf \<Rightarrow> nat \<Rightarrow> nat \<Rightarrow> u16 \<Rightarrow> bool \<Rightarrow> nat \<Rightarrow> attr_step option" where
  "wps_attr_step b wps_ie wps_ielen target_attr_id buf_attr attr_ptr =
     (if attr_ptr < wps_ie + wps_ielen then do {
        attr_id \<leftarrow> RTW_GET_BE16 b attr_ptr;
        attr_data_len \<leftarrow> RTW_GET_BE16 b (attr_ptr + 2);
        let attr_len = unat (attr_data_len + 4);
        if attr_id = target_attr_id then do {
          c \<leftarrow> (if buf_attr then map_option Some (rd_n b attr_ptr attr_len) else Some None);
          Some (Stop (Some attr_ptr, c, attr_len)) }
        else Some (Next (attr_ptr + attr_len)) }
      else Some (Stop (None, None, 0)))"

text \<open>The loop of \<open>rtw_get_p2p_attr\<close> (\<open>get_len\<close> is \<open>RTW_GET_LE16\<close>) and \<open>rtw_get_wfd_attr\<close>
  (\<open>RTW_GET_BE16\<close>).\<close>

definition attr3_step ::
  "(buf \<Rightarrow> nat \<Rightarrow> u16 option) \<Rightarrow> buf \<Rightarrow> nat \<Rightarrow> nat \<Rightarrow> u8 \<Rightarrow> bool \<Rightarrow> nat \<Rightarrow> attr_step option" where
  "attr3_step get_len b ie ielen target_attr_id buf_attr attr_ptr =
     (if attr_ptr + 3 \<le> ie + ielen then do {
        attr_id \<leftarrow> rd b attr_ptr;
        attr_data_len \<leftarrow> get_len b (attr_ptr + 1);
        let attr_len = unat (attr_data_len + 3);
        if attr_ptr + attr_len > ie + ielen then Some (Stop (None, None, 0))
        else if attr_id = target_attr_id then do {
          c \<leftarrow> (if buf_attr then map_option Some (rd_n b attr_ptr attr_len) else Some None);
          Some (Stop (Some attr_ptr, c, attr_len)) }
        else Some (Next (attr_ptr + attr_len)) }
      else Some (Stop (None, None, 0)))"

partial_function (option) attr_loop ::
  "(nat \<Rightarrow> attr_step option) \<Rightarrow> nat \<Rightarrow> (nat option \<times> buf option \<times> nat) option" where
  "attr_loop step attr_ptr = do {
     s \<leftarrow> step attr_ptr;
     (case s of Stop r \<Rightarrow> Some r | Next p \<Rightarrow> attr_loop step p) }"

definition rtw_get_wps_attr ::
  "buf \<Rightarrow> nat \<Rightarrow> nat \<Rightarrow> u16 \<Rightarrow> bool \<Rightarrow> (nat option \<times> buf option \<times> nat) option" where
  "rtw_get_wps_attr b wps_ie wps_ielen target_attr_id buf_attr = do {
     e \<leftarrow> rd b wps_ie;
     bad \<leftarrow> (if e \<noteq> WLAN_EID_VENDOR_SPECIFIC then Some True else map_option Not (mem_eq b (wps_ie + 2) WPS_OUI4));
     if bad then Some (None, None, 0)
     else attr_loop (wps_attr_step b wps_ie wps_ielen target_attr_id buf_attr) (wps_ie + 6) }"

definition get_attr3 ::
  "(buf \<Rightarrow> nat \<Rightarrow> u16 option) \<Rightarrow> buf \<Rightarrow> buf \<Rightarrow> nat option \<Rightarrow> nat \<Rightarrow> u8 \<Rightarrow> bool \<Rightarrow> (nat option \<times> buf option \<times> nat) option" where
  "get_attr3 get_len oui b ie ielen target_attr_id buf_attr =
     (case ie of None \<Rightarrow> Some (None, None, 0)
      | Some p \<Rightarrow>
        if ielen \<le> 6 then Some (None, None, 0)
        else do {
          e \<leftarrow> rd b p;
          bad \<leftarrow> (if e \<noteq> WLAN_EID_VENDOR_SPECIFIC then Some True else map_option Not (mem_eq b (p + 2) oui));
          if bad then Some (None, None, 0)
          else attr_loop (attr3_step get_len b p ielen target_attr_id buf_attr) (p + 6) })"

definition rtw_get_p2p_attr ::
  "buf \<Rightarrow> nat option \<Rightarrow> nat \<Rightarrow> u8 \<Rightarrow> bool \<Rightarrow> (nat option \<times> buf option \<times> nat) option" where
  "rtw_get_p2p_attr = get_attr3 RTW_GET_LE16 P2P_OUI4"

definition rtw_get_wfd_attr ::
  "buf \<Rightarrow> nat option \<Rightarrow> nat \<Rightarrow> u8 \<Rightarrow> bool \<Rightarrow> (nat option \<times> buf option \<times> nat) option" where
  "rtw_get_wfd_attr = get_attr3 RTW_GET_BE16 WFD_OUI4"

section \<open>Attribute contents\<close>

text \<open>\<open>rtw_get_wps_attr_content\<close> and \<open>rtw_get_p2p_attr_content\<close> differ in the header size
  \<open>hdr\<close>. \<open>len_content\<close> is the in-out parameter; \<open>buf_content\<close> whether a buffer is given. The
  32-bit difference \<open>attr_len - hdr\<close> wraps for an attribute shorter than its header.\<close>

definition attr_content ::
  "nat \<Rightarrow> buf \<Rightarrow> nat option \<times> buf option \<times> nat \<Rightarrow> bool \<Rightarrow> nat option \<Rightarrow> (nat option \<times> buf option \<times> nat option) option" where
  "attr_content hdr b found buf_content len_content = (case found of
     (Some attr_ptr, _, attr_len) \<Rightarrow>
       if attr_len = 0 then Some (None, None, map_option (\<lambda>_. 0) len_content)
       else do {
         let len' = map_option (\<lambda>n. if (buf_content \<and> n > usub32 attr_len hdr) \<or> \<not> buf_content
                                    then usub32 attr_len hdr else n) len_content;
         c \<leftarrow> (if buf_content then map_option Some (rd_n b (attr_ptr + hdr) (case len' of None \<Rightarrow> 1 | Some n \<Rightarrow> n))
               else Some None);
         Some (Some (attr_ptr + hdr), c, len') }
   | (None, _, _) \<Rightarrow> Some (None, None, map_option (\<lambda>_. 0) len_content))"

definition rtw_get_wps_attr_content ::
  "buf \<Rightarrow> nat \<Rightarrow> nat \<Rightarrow> u16 \<Rightarrow> bool \<Rightarrow> nat option \<Rightarrow> (nat option \<times> buf option \<times> nat option) option" where
  "rtw_get_wps_attr_content b wps_ie wps_ielen target_attr_id buf_content len_content = do {
     r \<leftarrow> rtw_get_wps_attr b wps_ie wps_ielen target_attr_id False;
     attr_content 4 b r buf_content len_content }"

definition rtw_get_p2p_attr_content ::
  "buf \<Rightarrow> nat option \<Rightarrow> nat \<Rightarrow> u8 \<Rightarrow> bool \<Rightarrow> nat option \<Rightarrow> (nat option \<times> buf option \<times> nat option) option" where
  "rtw_get_p2p_attr_content b p2p_ie p2p_ielen target_attr_id buf_content len_content = do {
     r \<leftarrow> rtw_get_p2p_attr b p2p_ie p2p_ielen target_attr_id False;
     attr_content 3 b r buf_content len_content }"

definition rtw_get_wfd_attr_content ::
  "buf \<Rightarrow> nat option \<Rightarrow> nat \<Rightarrow> u8 \<Rightarrow> bool \<Rightarrow> (nat option \<times> buf option \<times> nat) option" where
  "rtw_get_wfd_attr_content b wfd_ie wfd_ielen target_attr_id buf_content = do {
     (attr, _, attr_len) \<leftarrow> rtw_get_wfd_attr b wfd_ie wfd_ielen target_attr_id False;
     (case attr of None \<Rightarrow> Some (None, None, 0)
      | Some attr_ptr \<Rightarrow>
        if attr_len = 0 then Some (None, None, 0)
        else do {
          c \<leftarrow> (if buf_content then map_option Some (rd_n b (attr_ptr + 3) (usub32 attr_len 3)) else Some None);
          Some (Some (attr_ptr + 3), c, usub32 attr_len 3) }) }"

text \<open>The result is the buffer and \<open>a_len\<close>; \<open>pdata_attr\<close> may be \<open>NULL\<close>.\<close>

definition rtw_set_p2p_attr_content :: "buf \<Rightarrow> nat \<Rightarrow> u8 \<Rightarrow> u16 \<Rightarrow> buf option \<Rightarrow> (buf \<times> nat) option" where
  "rtw_set_p2p_attr_content b pbuf attr_id attr_len pdata_attr = do {
     b \<leftarrow> wr b pbuf attr_id;
     b \<leftarrow> wr_n b (pbuf + 1) (le16_bytes attr_len);
     b \<leftarrow> (case pdata_attr of None \<Rightarrow> Some b
           | Some d \<Rightarrow> do { xs \<leftarrow> rd_n d 0 (unat attr_len); wr_n b (pbuf + 3) xs });
     Some (b, unat attr_len + 3) }"

section \<open>Deleting elements and attributes\<close>

text \<open>The loop of \<open>rtw_del_p2p_ie\<close> and \<open>rtw_del_wfd_ie\<close>: \<open>finder b len\<close> is the finder called on
  the same start with the current length.\<close>

partial_function (option) del_ie_loop ::
  "(buf \<Rightarrow> nat \<Rightarrow> (nat option \<times> buf option \<times> nat) option) \<Rightarrow> nat \<Rightarrow> buf \<Rightarrow> nat \<Rightarrow> (buf \<times> nat) option" where
  "del_ie_loop finder ies b ies_len = do {
     (target_ie, _, target_ie_len) \<leftarrow> finder b ies_len;
     (case target_ie of None \<Rightarrow> Some (b, ies_len)
      | Some t \<Rightarrow>
        if target_ie_len = 0 then Some (b, ies_len)
        else do {
          let next_ie = t + target_ie_len;
          let remain_len = usub32 ies_len (next_ie - ies);
          b \<leftarrow> mem_mv b t next_ie remain_len;
          b \<leftarrow> wr_n b (t + remain_len) (replicate target_ie_len 0);
          del_ie_loop finder ies b (usub32 ies_len target_ie_len) }) }"

definition rtw_del_p2p_ie :: "buf \<Rightarrow> nat \<Rightarrow> nat \<Rightarrow> (buf \<times> nat) option" where
  "rtw_del_p2p_ie b ies ies_len_ori =
     del_ie_loop (\<lambda>b n. rtw_get_p2p_ie b (Some ies) (to_s32 n) False) ies b ies_len_ori"

definition rtw_del_wfd_ie :: "buf \<Rightarrow> nat \<Rightarrow> nat \<Rightarrow> (buf \<times> nat) option" where
  "rtw_del_wfd_ie b ies ies_len_ori =
     del_ie_loop (\<lambda>b n. rtw_get_wfd_ie b (Some ies) (to_s32 n) False) ies b ies_len_ori"

text \<open>The loop of \<open>rtw_del_p2p_attr\<close> and \<open>rtw_del_wfd_attr\<close> also lowers the element's length byte.\<close>

partial_function (option) del_attr_loop ::
  "(buf \<Rightarrow> nat \<Rightarrow> (nat option \<times> buf option \<times> nat) option) \<Rightarrow> nat \<Rightarrow> buf \<Rightarrow> nat \<Rightarrow> (buf \<times> nat) option" where
  "del_attr_loop finder ie b ielen = do {
     (target_attr, _, target_attr_len) \<leftarrow> finder b ielen;
     (case target_attr of None \<Rightarrow> Some (b, ielen)
      | Some t \<Rightarrow>
        if target_attr_len = 0 then Some (b, ielen)
        else do {
          let next_attr = t + target_attr_len;
          let remain_len = usub32 ielen (next_attr - ie);
          b \<leftarrow> mem_mv b t next_attr remain_len;
          b \<leftarrow> wr_n b (t + remain_len) (replicate target_attr_len 0);
          l \<leftarrow> rd b (ie + 1);
          b \<leftarrow> wr b (ie + 1) (l - word_of_nat target_attr_len);
          del_attr_loop finder ie b (usub32 ielen target_attr_len) }) }"

definition rtw_del_p2p_attr :: "buf \<Rightarrow> nat \<Rightarrow> nat \<Rightarrow> u8 \<Rightarrow> (buf \<times> nat) option" where
  "rtw_del_p2p_attr b ie ielen_ori attr_id =
     del_attr_loop (\<lambda>b n. rtw_get_p2p_attr b (Some ie) n attr_id False) ie b ielen_ori"

definition rtw_del_wfd_attr :: "buf \<Rightarrow> nat \<Rightarrow> nat \<Rightarrow> u8 \<Rightarrow> (buf \<times> nat) option" where
  "rtw_del_wfd_attr b ie ielen_ori attr_id =
     del_attr_loop (\<lambda>b n. rtw_get_wfd_attr b (Some ie) n attr_id False) ie b ielen_ori"

section \<open>Merging P2P elements\<close>

text \<open>\<open>pIE->Length - 4\<close> is an \<open>int\<close>: negative for an element shorter than its selector.\<close>

function merged_len_loop :: "buf \<Rightarrow> nat \<Rightarrow> nat \<Rightarrow> nat \<Rightarrow> int \<Rightarrow> int option" where
  "merged_len_loop b in_ie in_len i len =
     (if i < in_len then
        (case rd b (in_ie + i) of None \<Rightarrow> None | Some e \<Rightarrow>
        (case rd b (in_ie + i + 1) of None \<Rightarrow> None | Some l \<Rightarrow>
        (case (if e = WLAN_EID_VENDOR_SPECIFIC then mem_eq b (in_ie + i + 2) P2P_OUI4 else Some False) of
           None \<Rightarrow> None
         | Some h \<Rightarrow> merged_len_loop b in_ie in_len (i + unat l + 2) (if h then len + uint l - 4 else len))))
      else Some len)"
  by pat_completeness auto
termination
  by (relation "measure (\<lambda>(b, in_ie, in_len, i, len). in_len - i)") auto

declare merged_len_loop.simps [simp del]

definition rtw_get_p2p_merged_ies_len :: "buf \<Rightarrow> nat \<Rightarrow> nat \<Rightarrow> u32 option" where
  "rtw_get_p2p_merged_ies_len b in_ie in_len = map_option (\<lambda>n. word_of_int (n + 4)) (merged_len_loop b in_ie in_len 0 0)"

text \<open>The result is the output buffer, the output position and the 8-bit \<open>len\<close>. A copy of a
  negative length does not fit any object.\<close>

function merge_loop :: "buf \<Rightarrow> nat \<Rightarrow> nat \<Rightarrow> nat \<Rightarrow> buf \<Rightarrow> nat \<Rightarrow> u8 \<Rightarrow> (buf \<times> nat \<times> u8) option" where
  "merge_loop b in_ie in_len i out pos len =
     (if i < in_len then
        (case rd b (in_ie + i) of None \<Rightarrow> None | Some e \<Rightarrow>
        (case rd b (in_ie + i + 1) of None \<Rightarrow> None | Some l \<Rightarrow>
        (case (if e = WLAN_EID_VENDOR_SPECIFIC then mem_eq b (in_ie + i + 2) P2P_OUI4 else Some False) of
           None \<Rightarrow> None
         | Some False \<Rightarrow> merge_loop b in_ie in_len (i + unat l + 2) out pos len
         | Some True \<Rightarrow>
             if unat l < 4 then None
             else (case do { xs \<leftarrow> rd_n b (in_ie + i + 2 + 4) (unat l - 4); wr_n out pos xs } of
                None \<Rightarrow> None
              | Some out' \<Rightarrow> merge_loop b in_ie in_len (i + unat l + 2) out' (pos + (unat l - 4)) (len + (l - 4))))))
      else Some (out, pos, len))"
  by pat_completeness auto
termination
  by (relation "measure (\<lambda>(b, in_ie, in_len, i, out, pos, len). in_len - i)") auto

declare merge_loop.simps [simp del]

definition rtw_p2p_merge_ies :: "buf \<Rightarrow> nat \<Rightarrow> nat \<Rightarrow> buf \<Rightarrow> nat option \<Rightarrow> (int \<times> buf) option" where
  "rtw_p2p_merge_ies b in_ie in_len out merge_ie =
     (case merge_ie of None \<Rightarrow> Some (0, out)
      | Some m \<Rightarrow> do {
          out \<leftarrow> wr_n out m [0xDD, 0x00, 0x50, 0x6f, 0x9a, 0x09];
          (out, _, len) \<leftarrow> merge_loop b in_ie in_len 0 out (m + 6) 0;
          Some (uint len + 4, out) })"

section \<open>The elements of a scanned network\<close>

text \<open>Of \<open>WLAN_BSSID_EX\<close> these functions use \<open>Reserved[0]\<close>, \<open>IELength\<close> and \<open>IEs\<close>.\<close>

record WLAN_BSSID_EX =
  Reserved0 :: u8
  IELength :: nat
  IEs :: buf

definition BSS_EX_FIXED_IE_OFFSET :: "WLAN_BSSID_EX \<Rightarrow> nat" where
  "BSS_EX_FIXED_IE_OFFSET bss_ex = (if Reserved0 bss_ex = 1 then 0 else 12)"

definition BSS_EX_TLV_IES_LEN :: "WLAN_BSSID_EX \<Rightarrow> nat" where
  "BSS_EX_TLV_IES_LEN bss_ex = usub32 (IELength bss_ex) (BSS_EX_FIXED_IE_OFFSET bss_ex)"

definition rtw_bss_ex_get_p2p_ie :: "WLAN_BSSID_EX \<Rightarrow> bool \<Rightarrow> (nat option \<times> buf option \<times> nat) option" where
  "rtw_bss_ex_get_p2p_ie bss_ex p2p_ie =
     rtw_get_p2p_ie (IEs bss_ex) (Some (BSS_EX_FIXED_IE_OFFSET bss_ex)) (to_s32 (BSS_EX_TLV_IES_LEN bss_ex)) p2p_ie"

definition rtw_bss_ex_get_wfd_ie :: "WLAN_BSSID_EX \<Rightarrow> bool \<Rightarrow> (nat option \<times> buf option \<times> nat) option" where
  "rtw_bss_ex_get_wfd_ie bss_ex wfd_ie =
     rtw_get_wfd_ie (IEs bss_ex) (Some (BSS_EX_FIXED_IE_OFFSET bss_ex)) (to_s32 (BSS_EX_TLV_IES_LEN bss_ex)) wfd_ie"

definition rtw_bss_ex_del_p2p_ie :: "WLAN_BSSID_EX \<Rightarrow> WLAN_BSSID_EX option" where
  "rtw_bss_ex_del_p2p_ie bss_ex = do {
     (b, ies_len) \<leftarrow> rtw_del_p2p_ie (IEs bss_ex) (BSS_EX_FIXED_IE_OFFSET bss_ex) (BSS_EX_TLV_IES_LEN bss_ex);
     Some (bss_ex\<lparr>IEs := b, IELength := usub32 (IELength bss_ex) (usub32 (BSS_EX_TLV_IES_LEN bss_ex) ies_len)\<rparr>) }"

definition rtw_bss_ex_del_wfd_ie :: "WLAN_BSSID_EX \<Rightarrow> WLAN_BSSID_EX option" where
  "rtw_bss_ex_del_wfd_ie bss_ex = do {
     (b, ies_len) \<leftarrow> rtw_del_wfd_ie (IEs bss_ex) (BSS_EX_FIXED_IE_OFFSET bss_ex) (BSS_EX_TLV_IES_LEN bss_ex);
     Some (bss_ex\<lparr>IEs := b, IELength := usub32 (IELength bss_ex) (usub32 (BSS_EX_TLV_IES_LEN bss_ex) ies_len)\<rparr>) }"

text \<open>The loop of \<open>rtw_bss_ex_del_p2p_attr\<close> and \<open>rtw_bss_ex_del_wfd_attr\<close> with the two functions
  it calls as parameters.\<close>

partial_function (option) bss_ex_del_attr_loop ::
  "(buf \<Rightarrow> nat option \<Rightarrow> int \<Rightarrow> bool \<Rightarrow> (nat option \<times> buf option \<times> nat) option)
    \<Rightarrow> (buf \<Rightarrow> nat \<Rightarrow> nat \<Rightarrow> (buf \<times> nat) option) \<Rightarrow> WLAN_BSSID_EX \<Rightarrow> nat \<Rightarrow> nat \<Rightarrow> WLAN_BSSID_EX option" where
  "bss_ex_del_attr_loop get_ie del_attr bss_ex ies ies_len = do {
     (ie, _, ie_len_ori) \<leftarrow> get_ie (IEs bss_ex) (Some ies) (to_s32 ies_len) False;
     (case ie of None \<Rightarrow> Some bss_ex
      | Some p \<Rightarrow> do {
          let next_ie_ori = p + ie_len_ori;
          let remain_len = usub32 (IELength bss_ex) next_ie_ori;
          (b, ie_len) \<leftarrow> del_attr (IEs bss_ex) p ie_len_ori;
          if ie_len \<noteq> ie_len_ori then do {
            let next_ie = p + ie_len;
            b \<leftarrow> mem_mv b next_ie next_ie_ori remain_len;
            b \<leftarrow> wr_n b (next_ie + remain_len) (replicate (usub32 ie_len_ori ie_len) 0);
            bss_ex_del_attr_loop get_ie del_attr
              (bss_ex\<lparr>IEs := b, IELength := usub32 (IELength bss_ex) (usub32 ie_len_ori ie_len)\<rparr>) next_ie remain_len }
          else bss_ex_del_attr_loop get_ie del_attr (bss_ex\<lparr>IEs := b\<rparr>) next_ie_ori remain_len }) }"

definition rtw_bss_ex_del_p2p_attr :: "WLAN_BSSID_EX \<Rightarrow> u8 \<Rightarrow> WLAN_BSSID_EX option" where
  "rtw_bss_ex_del_p2p_attr bss_ex attr_id =
     bss_ex_del_attr_loop rtw_get_p2p_ie (\<lambda>b p n. rtw_del_p2p_attr b p n attr_id) bss_ex
       (BSS_EX_FIXED_IE_OFFSET bss_ex) (BSS_EX_TLV_IES_LEN bss_ex)"

definition rtw_bss_ex_del_wfd_attr :: "WLAN_BSSID_EX \<Rightarrow> u8 \<Rightarrow> WLAN_BSSID_EX option" where
  "rtw_bss_ex_del_wfd_attr bss_ex attr_id =
     bss_ex_del_attr_loop rtw_get_wfd_ie (\<lambda>b p n. rtw_del_wfd_attr b p n attr_id) bss_ex
       (BSS_EX_FIXED_IE_OFFSET bss_ex) (BSS_EX_TLV_IES_LEN bss_ex)"

section \<open>Attribute lists\<close>

text \<open>An attribute is its identifier and its data. The two formats with a one-byte identifier and a
  two-byte length differ in the byte order; the locale is the part the loop relies on.\<close>

type_synonym attr = "u8 \<times> buf"

definition attr_ok :: "attr \<Rightarrow> bool" where
  "attr_ok t \<longleftrightarrow> length (snd t) < 65533"

locale attr3_format =
  fixes get_len :: "buf \<Rightarrow> nat \<Rightarrow> u16 option"
    and len_bytes :: "u16 \<Rightarrow> buf"
  assumes get_len_bytes: "get_len (pre @ len_bytes v @ ys) (length pre) = Some v"
    and length_len_bytes: "length (len_bytes v) = 2"
begin

definition enc_attr :: "attr \<Rightarrow> buf" where
  "enc_attr t = fst t # len_bytes (word_of_nat (length (snd t))) @ snd t"

lemma length_enc_attr: "length (enc_attr t) = length (snd t) + 3"
  by (simp add: enc_attr_def length_len_bytes)

definition attr_scan :: "u8 \<Rightarrow> buf \<Rightarrow> nat \<Rightarrow> nat \<Rightarrow> (nat option \<times> buf option \<times> nat) option" where
  "attr_scan k b lim pos = attr_loop (attr3_step get_len b 0 lim k False) pos"

lemma step_at:
  assumes "attr_ok t" and "length pre + length (enc_attr t) \<le> lim"
  shows "attr3_step get_len (pre @ enc_attr t @ post) 0 lim k False (length pre)
    = Some (if fst t = k then Stop (Some (length pre), None, length (snd t) + 3)
            else Next (length pre + length (enc_attr t)))"
proof -
  have wrap: "unat (word_of_nat (length (snd t)) + 3 :: u16) = length (snd t) + 3"
  proof -
    have "word_of_nat (length (snd t)) + 3 = (word_of_nat (length (snd t) + 3) :: u16)" by simp
    then show ?thesis using assms(1) by (simp only: unat_of_nat_u16 attr_ok_def)
  qed
  have "get_len (pre @ enc_attr t @ post) (length pre + 1) = Some (word_of_nat (length (snd t)))"
    using get_len_bytes [of "pre @ [fst t]" _ "snd t @ post"] by (simp add: enc_attr_def)
  moreover have "rd (pre @ enc_attr t @ post) (length pre) = Some (fst t)"
    by (simp add: enc_attr_def mem_simps)
  ultimately show ?thesis
    using assms(2) wrap by (simp add: attr3_step_def length_enc_attr Let_def)
qed

end

sublocale attr3_format \<subseteq> attrs: tlv_scan enc_attr attr_ok "\<lambda>t. fst t = k" "\<lambda>_ _. True"
  "attr_scan k" "\<lambda>p t. Some (Some p, None, length (snd t) + 3)" "Some (None, None, 0)" for k :: u8
proof
  fix lim b
  show "attr_scan k b lim lim = Some (None, None, 0)"
    unfolding attr_scan_def by (subst attr_loop.simps) (simp add: attr3_step_def)
next
  fix lim and pre post :: buf and t :: attr
  assume a: "attr_ok t" "length pre + length (enc_attr t) \<le> lim"
  show "fst t = k \<Longrightarrow> attr_scan k (pre @ enc_attr t @ post) lim (length pre)
      = Some (Some (length pre), None, length (snd t) + 3)"
    unfolding attr_scan_def by (subst attr_loop.simps) (simp add: step_at [OF a])
  show "fst t \<noteq> k \<Longrightarrow> attr_scan k (pre @ enc_attr t @ post) lim (length pre)
      = attr_scan k (pre @ enc_attr t @ post) lim (length pre + length (enc_attr t))"
    unfolding attr_scan_def by (subst attr_loop.simps) (simp add: step_at [OF a])
qed

interpretation p2p: attr3_format RTW_GET_LE16 le16_bytes
  by unfold_locales (simp_all add: LE16_shift [of _ _ 0, simplified] LE16_le16_bytes)

interpretation wfd: attr3_format RTW_GET_BE16 be16_bytes
  by unfold_locales (simp_all add: BE16_shift [of _ _ 0, simplified] BE16_be16_bytes)

lemma attr3_step_base: "attr3_step g b ie ielen k c = attr3_step g b 0 (ie + ielen) k c"
  by (rule ext) (simp add: attr3_step_def)

context attr3_format
begin

lemma get_attr3_first:
  assumes "list_all attr_ok ts" and "length oui = 4" and "4 + length (tlv_bytes enc_attr ts) < 256"
  shows "get_attr3 get_len oui (pre @ enc_ie (WLAN_EID_VENDOR_SPECIFIC, oui @ tlv_bytes enc_attr ts) @ post)
      (Some (length pre)) (6 + length (tlv_bytes enc_attr ts)) k False
    = Some (case tlv_find enc_attr (\<lambda>t. fst t = k) (length pre + 6) ts of
        None \<Rightarrow> (None, None, 0) | Some (p, t) \<Rightarrow> (Some p, None, length (snd t) + 3))"
proof -
  let ?h = "pre @ [WLAN_EID_VENDOR_SPECIFIC, word_of_nat (4 + length (tlv_bytes enc_attr ts))] @ oui"
  let ?b = "?h @ tlv_bytes enc_attr ts @ post"
  have b: "pre @ enc_ie (WLAN_EID_VENDOR_SPECIFIC, oui @ tlv_bytes enc_attr ts) @ post = ?b"
    using assms(2) by (simp add: enc_ie_def)
  have scan: "attr_scan k ?b (length ?h + length (tlv_bytes enc_attr ts)) (length ?h)
      = Some (case tlv_find enc_attr (\<lambda>t. fst t = k) (length ?h) ts of
        None \<Rightarrow> (None, None, 0) | Some (p, t) \<Rightarrow> (Some p, None, length (snd t) + 3))"
    using attrs.scan_items [OF TrueI assms(1), where pre = ?h and post = post and k = k]
    by (simp add: attrs.result_def split: option.split)
  have h: "length ?h = length pre + 6" using assms(2) by simp
  show ?thesis
  proof (cases "ts = []")
    case True
    then show ?thesis by (simp add: get_attr3_def)
  next
    case False
    then have "0 < length (tlv_bytes enc_attr ts)" by (cases ts) (simp_all add: length_enc_attr)
    moreover have "mem_eq ?b (length pre + 2) oui = Some True"
      using assms(2) by (simp add: mem_eq_def rd_n_def)
    moreover have "rd ?b (length pre) = Some WLAN_EID_VENDOR_SPECIFIC" by (simp add: mem_simps)
    ultimately show ?thesis
      unfolding b using scan h
      by (simp add: get_attr3_def attr_scan_def attr3_step_base [of _ _ "length pre"] ac_simps
          del: append_assoc append.simps)
  qed
qed

end

definition enc_p2p_attr :: "attr \<Rightarrow> buf" where
  "enc_p2p_attr t = fst t # le16_bytes (word_of_nat (length (snd t))) @ snd t"

definition enc_wfd_attr :: "attr \<Rightarrow> buf" where
  "enc_wfd_attr t = fst t # be16_bytes (word_of_nat (length (snd t))) @ snd t"

lemma enc_attr_eq: "p2p.enc_attr = enc_p2p_attr" "wfd.enc_attr = enc_wfd_attr"
  by (rule ext, simp add: p2p.enc_attr_def enc_p2p_attr_def wfd.enc_attr_def enc_wfd_attr_def)+

text \<open>The data of the found attribute, where the finder's result points.\<close>

lemma rd_n_attr_data:
  assumes "length hdr = 3"
  shows "rd_n (pre @ enc_ie (e, oui @ xs @ (hdr @ d) @ ys) @ post) (length pre + 2 + length oui + length xs + 3) (length d) = Some d"
proof -
  let ?l = "word_of_nat (length oui + (length xs + (length hdr + length d) + length ys)) :: u8"
  have "rd_n ((pre @ [e, ?l] @ oui @ xs @ hdr) @ d @ ys @ post) (length (pre @ [e, ?l] @ oui @ xs @ hdr)) (length d) = Some d"
    by (rule rd_n_mid)
  with assms show ?thesis by (simp add: enc_ie_def ac_simps)
qed

text \<open>the content of a P2P attribute. In a P2P element that holds a list of attributes
  \<open>rtw_get_p2p_attr_content\<close> finds the first attribute with the identifier, reports its length,
  and copies exactly its data when the caller's buffer is large enough.\<close>

theorem rtw_get_p2p_attr_content_first:
  assumes "list_all attr_ok (us @ (k, d) # vs)" and "\<forall>u \<in> set us. fst u \<noteq> k" and "length d \<le> n"
    and "length (tlv_bytes enc_p2p_attr (us @ (k, d) # vs)) < 252"
  shows "rtw_get_p2p_attr_content
      (pre @ enc_ie (WLAN_EID_VENDOR_SPECIFIC, P2P_OUI4 @ tlv_bytes enc_p2p_attr (us @ (k, d) # vs)) @ post)
      (Some (length pre)) (6 + length (tlv_bytes enc_p2p_attr (us @ (k, d) # vs))) k True (Some n)
    = Some (Some (length pre + 6 + length (tlv_bytes enc_p2p_attr us) + 3), Some d, Some (length d))"
proof -
  let ?ts = "us @ (k, d) # vs" and ?p = "length pre + 6 + length (tlv_bytes enc_p2p_attr us)"
  let ?b = "pre @ enc_ie (WLAN_EID_VENDOR_SPECIFIC, P2P_OUI4 @ tlv_bytes enc_p2p_attr ?ts) @ post"
  have oui: "length P2P_OUI4 = 4" by (simp add: P2P_OUI4_def)
  have "tlv_find enc_p2p_attr (\<lambda>t. fst t = k) (length pre + 6) ?ts = Some (?p, (k, d))"
    using tlv_find_append [of us "\<lambda>t. fst t = k" "(k, d)" enc_p2p_attr "length pre + 6" vs] assms(2) by simp
  then have get: "rtw_get_p2p_attr ?b (Some (length pre)) (6 + length (tlv_bytes enc_p2p_attr ?ts)) k False
      = Some (Some ?p, None, length d + 3)"
    using p2p.get_attr3_first [of ?ts P2P_OUI4 pre post k] assms(1,4) oui
    by (simp add: rtw_get_p2p_attr_def enc_attr_eq)
  have "rd_n ?b (?p + 3) (length d) = Some d"
    using rd_n_attr_data [of "k # le16_bytes (word_of_nat (length d))" pre WLAN_EID_VENDOR_SPECIFIC P2P_OUI4
        "tlv_bytes enc_p2p_attr us" d "tlv_bytes enc_p2p_attr vs" post] oui
    by (simp add: enc_p2p_attr_def ac_simps)
  moreover have "usub32 (length d + 3) 3 = length d" "length d < 252"
    using assms(4) by (simp_all add: usub32_le enc_p2p_attr_def)
  ultimately show ?thesis
    using assms(3) unfolding rtw_get_p2p_attr_content_def get
    by (cases "length d = n") (auto simp: attr_content_def)
qed

theorem rtw_get_p2p_attr_content_first_witness:
  "rtw_get_p2p_attr_content
      ([7] @ enc_ie (WLAN_EID_VENDOR_SPECIFIC, P2P_OUI4 @ tlv_bytes enc_p2p_attr ([(2, [0, 1])] @ (6, [9, 8]) # [])) @ [])
      (Some 1) 16 6 True (Some 10) = Some (Some 15, Some [9, 8], Some 2)"
  using rtw_get_p2p_attr_content_first [of "[(2, [0, 1])]" 6 "[9, 8]" "[]" 10 "[7]" "[]"]
  by (simp add: attr_ok_def enc_p2p_attr_def nat_lits del: One_nat_def)

text \<open>The same for WFD attributes, whose length field is big-endian:
  \<open>rtw_get_wfd_attr_content\<close> returns the data of the first attribute with the identifier.\<close>

theorem rtw_get_wfd_attr_content_first:
  assumes "list_all attr_ok (us @ (k, d) # vs)" and "\<forall>u \<in> set us. fst u \<noteq> k"
    and "length (tlv_bytes enc_wfd_attr (us @ (k, d) # vs)) < 252"
  shows "rtw_get_wfd_attr_content
      (pre @ enc_ie (WLAN_EID_VENDOR_SPECIFIC, WFD_OUI4 @ tlv_bytes enc_wfd_attr (us @ (k, d) # vs)) @ post)
      (Some (length pre)) (6 + length (tlv_bytes enc_wfd_attr (us @ (k, d) # vs))) k True
    = Some (Some (length pre + 6 + length (tlv_bytes enc_wfd_attr us) + 3), Some d, length d)"
proof -
  let ?ts = "us @ (k, d) # vs" and ?p = "length pre + 6 + length (tlv_bytes enc_wfd_attr us)"
  let ?b = "pre @ enc_ie (WLAN_EID_VENDOR_SPECIFIC, WFD_OUI4 @ tlv_bytes enc_wfd_attr ?ts) @ post"
  have oui: "length WFD_OUI4 = 4" by (simp add: WFD_OUI4_def)
  have "tlv_find enc_wfd_attr (\<lambda>t. fst t = k) (length pre + 6) ?ts = Some (?p, (k, d))"
    using tlv_find_append [of us "\<lambda>t. fst t = k" "(k, d)" enc_wfd_attr "length pre + 6" vs] assms(2) by simp
  then have get: "rtw_get_wfd_attr ?b (Some (length pre)) (6 + length (tlv_bytes enc_wfd_attr ?ts)) k False
      = Some (Some ?p, None, length d + 3)"
    using wfd.get_attr3_first [of ?ts WFD_OUI4 pre post k] assms(1,3) oui
    by (simp add: rtw_get_wfd_attr_def enc_attr_eq)
  have "rd_n ?b (?p + 3) (length d) = Some d"
    using rd_n_attr_data [of "k # be16_bytes (word_of_nat (length d))" pre WLAN_EID_VENDOR_SPECIFIC WFD_OUI4
        "tlv_bytes enc_wfd_attr us" d "tlv_bytes enc_wfd_attr vs" post] oui
    by (simp add: enc_wfd_attr_def ac_simps)
  moreover have "usub32 (length d + 3) 3 = length d"
    using assms(3) by (simp add: usub32_le enc_wfd_attr_def)
  ultimately show ?thesis
    unfolding rtw_get_wfd_attr_content_def get by simp
qed

theorem rtw_get_wfd_attr_content_first_witness:
  "rtw_get_wfd_attr_content
      ([7] @ enc_ie (WLAN_EID_VENDOR_SPECIFIC, WFD_OUI4 @ tlv_bytes enc_wfd_attr ([(0, [0, 1])] @ (6, [9, 8]) # [])) @ [])
      (Some 1) 16 6 True = Some (Some 15, Some [9, 8], 2)"
  using rtw_get_wfd_attr_content_first [of "[(0, [0, 1])]" 6 "[9, 8]" "[]" "[7]" "[]"]
  by (simp add: attr_ok_def enc_wfd_attr_def nat_lits del: One_nat_def)

section \<open>Arbitrary contents\<close>

text \<open>Whatever the element holds, an attribute that is found ends inside the element: the check
  behind the length field.\<close>

lemma attr_loop_inside:
  assumes "attr_loop (attr3_step g b ie ielen k c) pos = Some (Some p, copied, n)" and "ie \<le> pos"
  shows "pos \<le> p \<and> p + n \<le> ie + ielen"
proof -
  let ?step = "attr3_step g b ie ielen k c"
  let ?P = "\<lambda>step pos r. step = ?step \<longrightarrow> fst r = Some p \<longrightarrow> ie \<le> pos \<longrightarrow> pos \<le> p \<and> p + snd (snd r) \<le> ie + ielen"
  have "?P ?step pos (Some p, copied, n)"
  proof (rule attr_loop.raw_induct [where P = ?P, OF _ assms(1)], intro impI)
    fix loop step q r
    assume ih: "\<And>st q r. loop st q = Some r \<Longrightarrow> ?P st q r" and st: "step = ?step"
      and r: "step q \<bind> (\<lambda>s. case s of Stop r \<Rightarrow> Some r | Next p \<Rightarrow> loop step p) = Some r"
      and rp: "fst r = Some p" and le: "ie \<le> q"
    from r obtain s where s: "?step q = Some s" "(case s of Stop r \<Rightarrow> Some r | Next p \<Rightarrow> loop step p) = Some r"
      by (auto simp: st bind_eq_Some_conv)
    show "q \<le> p \<and> p + snd (snd r) \<le> ie + ielen"
    proof (cases s)
      case (Stop x)
      with s rp show ?thesis
        by (auto simp: attr3_step_def Let_def bind_eq_Some_conv split: if_splits)
    next
      case (Next q')
      with s(1) have "q \<le> q'" by (auto simp: attr3_step_def Let_def bind_eq_Some_conv split: if_splits)
      moreover have "loop step q' = Some r" using s(2) Next by simp
      ultimately show ?thesis using ih [of step q' r] st rp le by auto
    qed
  qed
  with assms(2) show ?thesis by simp
qed

text \<open>for every content of the element and every announced length, an attribute that
  \<open>rtw_get_p2p_attr\<close> or \<open>rtw_get_wfd_attr\<close> returns lies, header and data, inside the element.\<close>

theorem get_attr_inside:
  assumes "rtw_get_p2p_attr b (Some ie) ielen k c = Some (Some p, copied, n)
      \<or> rtw_get_wfd_attr b (Some ie) ielen k c = Some (Some p, copied, n)"
  shows "ie + 6 \<le> p \<and> p + n \<le> ie + ielen"
  using assms by (auto simp: rtw_get_p2p_attr_def rtw_get_wfd_attr_def get_attr3_def bind_eq_Some_conv
      split: if_splits dest!: attr_loop_inside)

theorem get_attr_inside_witness:
  "rtw_get_wfd_attr [221, 8, 0x50, 0x6F, 0x9A, 0x0A, 7, 0, 1, 5] (Some 0) 10 7 False = Some (Some 6, None, 4)
     \<and> 0 + 6 \<le> (6 :: nat) \<and> 6 + 4 \<le> (0 + 10 :: nat)"
proof -
  have "rtw_get_wfd_attr [221, 8, 0x50, 0x6F, 0x9A, 0x0A, 7, 0, 1, 5] (Some 0) 10 7 False = Some (Some 6, None, 4)"
    by (simp add: rtw_get_wfd_attr_def get_attr3_def WLAN_EID_VENDOR_SPECIFIC_def mem_simps mem_eq_def rd_n_def
        WFD_OUI4_def attr_loop.simps [of _ 6] attr3_step_def RTW_GET_BE16_def)
  with get_attr_inside [of _ 0 10 7 False 6 None 4] show ?thesis by blast
qed

text \<open>A length field of 0xFFFE makes the 16-bit \<open>attr_len\<close> wrap to 1, which passes the check
  against the element's end; the content length then wraps below zero. For an element that holds
  such an attribute the driver reports 4294967294 bytes of content, and when a buffer is given the
  copy leaves every object shorter than that.\<close>

theorem wfd_attr_content_wraps:
  assumes "9 \<le> ielen" and "length (pre @ [221, l] @ WFD_OUI4 @ [k, 0xFF, 0xFE] @ post) < 4294967294"
  shows "rtw_get_wfd_attr_content (pre @ [221, l] @ WFD_OUI4 @ [k, 0xFF, 0xFE] @ post) (Some (length pre)) ielen k False
      = Some (Some (length pre + 9), None, 4294967294)
    \<and> rtw_get_wfd_attr_content (pre @ [221, l] @ WFD_OUI4 @ [k, 0xFF, 0xFE] @ post) (Some (length pre)) ielen k True = None"
proof -
  let ?b = "pre @ [221, l] @ WFD_OUI4 @ [k, 0xFF, 0xFE] @ post"
  have rds: "rd ?b (length pre) = Some 221" "mem_eq ?b (length pre + 2) WFD_OUI4 = Some True"
    "rd ?b (length pre + 6) = Some k" "RTW_GET_BE16 ?b (length pre + 7) = Some 0xFFFE"
    unfolding mem_eq_shift rd_shift BE16_shift
    by (simp_all add: mem_simps mem_eq_def rd_n_def WFD_OUI4_def RTW_GET_BE16_def)
  moreover have "RTW_GET_BE16 ?b (7 + length pre) = Some 0xFFFE" using rds(4) by (simp only: add.commute)
  ultimately have "attr3_step RTW_GET_BE16 ?b (length pre) ielen k False (length pre + 6) = Some (Stop (Some (length pre + 6), None, 1))"
    using assms(1) by (simp add: attr3_step_def)
  then have get: "rtw_get_wfd_attr ?b (Some (length pre)) ielen k False = Some (Some (length pre + 6), None, 1)"
    using assms(1) rds(1,2)
    by (simp add: rtw_get_wfd_attr_def get_attr3_def WLAN_EID_VENDOR_SPECIFIC_def attr_loop.simps [of _ "length pre + 6"])
  moreover have "usub32 1 3 = 4294967294" by (simp add: usub32_def)
  moreover have "rd_n ?b (9 + length pre) 4294967294 = None" using assms(2) by (simp add: rd_n_def)
  ultimately show ?thesis
    unfolding rtw_get_wfd_attr_content_def get by simp
qed

theorem wfd_attr_content_wraps_witness:
  "rtw_get_wfd_attr_content ([] @ [221, 7] @ WFD_OUI4 @ [3, 0xFF, 0xFE] @ []) (Some 0) 9 3 False
      = Some (Some 9, None, 4294967294)
    \<and> rtw_get_wfd_attr_content ([] @ [221, 7] @ WFD_OUI4 @ [3, 0xFF, 0xFE] @ []) (Some 0) 9 3 True = None"
  using wfd_attr_content_wraps [of 9 "[]" 7 3 "[]"] by (simp add: WFD_OUI4_def)

lemma attr_loop_stuck:
  assumes "step q = Some (Next q)"
  shows "attr_loop step q = None"
proof (rule ccontr)
  assume "attr_loop step q \<noteq> None"
  then obtain r where r: "attr_loop step q = Some r" by blast
  have "step = step \<longrightarrow> q \<noteq> q"
    by (rule attr_loop.raw_induct [where P = "\<lambda>st p r. st = step \<longrightarrow> p \<noteq> q", OF _ r]) (use assms in force)
  then show False by simp
qed

text \<open>C39: a length field of 0xFFFD makes \<open>attr_len\<close> wrap to 0, so one iteration of the loop of
  \<open>rtw_get_p2p_attr\<close> on an attribute with another identifier ends where it began: the loop never
  leaves that attribute, and the function does not return.\<close>

theorem p2p_attr_loop_stuck:
  assumes "9 \<le> ielen" and "k \<noteq> j"
  shows "attr3_step RTW_GET_LE16 (pre @ [221, l] @ P2P_OUI4 @ [j, 0xFD, 0xFF] @ post) (length pre) ielen k c (length pre + 6)
      = Some (Next (length pre + 6))
    \<and> rtw_get_p2p_attr (pre @ [221, l] @ P2P_OUI4 @ [j, 0xFD, 0xFF] @ post) (Some (length pre)) ielen k c = None"
proof -
  let ?b = "pre @ [221, l] @ P2P_OUI4 @ [j, 0xFD, 0xFF] @ post"
  let ?step = "attr3_step RTW_GET_LE16 ?b (length pre) ielen k c" and ?q = "length pre + 6"
  have rds: "rd ?b (length pre) = Some 221" "mem_eq ?b (length pre + 2) P2P_OUI4 = Some True"
    "rd ?b (length pre + 6) = Some j" "RTW_GET_LE16 ?b (length pre + 7) = Some 0xFFFD"
    unfolding mem_eq_shift rd_shift LE16_shift
    by (simp_all add: mem_simps mem_eq_def rd_n_def P2P_OUI4_def RTW_GET_LE16_def)
  moreover have "RTW_GET_LE16 ?b (7 + length pre) = Some 0xFFFD" using rds(4) by (simp only: add.commute)
  ultimately have step: "?step ?q = Some (Next ?q)"
    using assms by (simp add: attr3_step_def)
  from attr_loop_stuck [of ?step, OF step] have "attr_loop ?step ?q = None" .
  with step rds(1,2) assms(1) show ?thesis
    by (simp add: rtw_get_p2p_attr_def get_attr3_def WLAN_EID_VENDOR_SPECIFIC_def)
qed

theorem p2p_attr_loop_stuck_witness:
  "attr3_step RTW_GET_LE16 ([] @ [221, 7] @ P2P_OUI4 @ [3, 0xFD, 0xFF] @ []) 0 9 4 False 6 = Some (Next 6)
    \<and> rtw_get_p2p_attr ([] @ [221, 7] @ P2P_OUI4 @ [3, 0xFD, 0xFF] @ []) (Some 0) 9 4 False = None"
  using p2p_attr_loop_stuck [of 9 4 3 "[]" 7 "[]" False] by simp

section \<open>Finding and deleting vendor elements\<close>

definition vendor_ok :: "ie \<Rightarrow> bool" where
  "vendor_ok t \<longleftrightarrow> ie_ok t \<and> (fst t = WLAN_EID_VENDOR_SPECIFIC \<longrightarrow> 4 \<le> length (snd t))"

definition vendor_match :: "buf \<Rightarrow> ie \<Rightarrow> bool" where
  "vendor_match oui t \<longleftrightarrow> fst t = WLAN_EID_VENDOR_SPECIFIC \<and> take 4 (snd t) = oui"

definition vendor_scan :: "buf \<Rightarrow> buf \<Rightarrow> nat \<Rightarrow> nat \<Rightarrow> (nat option \<times> buf option \<times> nat) option" where
  "vendor_scan oui b lim pos = vendor_ie_loop (oui_hit oui) b pos (lim - pos) 0 False"

lemma vendor_ie_loop_unfold:
  "vendor_ie_loop hit b p n cnt copy =
     (if cnt + 5 < n then do {
        eid \<leftarrow> rd b (p + cnt);
        if cnt + 5 \<ge> 768 then Some (None, None, 0)
        else do {
          h \<leftarrow> hit b (p + cnt);
          l \<leftarrow> rd b (p + cnt + 1);
          if h then do {
            c \<leftarrow> (if copy then map_option Some (rd_n b (p + cnt) (unat l + 2)) else Some None);
            Some (Some (p + cnt), c, unat l + 2) }
          else vendor_ie_loop hit b p n (cnt + unat l + 2) copy } }
      else Some (None, None, 0))"
  by (subst vendor_ie_loop.simps) (auto simp: MAX_IE_SZ_def split: option.split)

lemma vendor_ie_loop_move:
  "n + k \<le> 768 \<Longrightarrow> vendor_ie_loop hit b p (n + k) (cnt + k) copy = vendor_ie_loop hit b (p + k) n cnt copy"
proof (induction "n - cnt" arbitrary: cnt rule: less_induct)
  case less
  have IH: "vendor_ie_loop hit b p (k + n) (Suc (Suc (cnt + (k + m)))) copy
     = vendor_ie_loop hit b (k + p) n (Suc (Suc (cnt + m))) copy" if "cnt + 5 < n" for m
    using less.hyps [of "cnt + m + 2"] less.prems that by (simp add: ac_simps)
  show ?case
    using less.prems by (subst (1 2) vendor_ie_loop_unfold) (simp add: IH ac_simps cong: if_cong)
qed

lemma oui_hit_enc:
  assumes "vendor_ok t" and "length oui = 4"
  shows "oui_hit oui (pre @ enc_ie t @ post) (length pre) = Some (vendor_match oui t)"
proof -
  have "mem_eq (pre @ enc_ie t @ post) (length pre + 2) oui = Some (take 4 (snd t) = oui)"
    if "fst t = WLAN_EID_VENDOR_SPECIFIC"
    using that assms unfolding mem_eq_shift by (simp add: mem_eq_def rd_n_def enc_ie_def vendor_ok_def)
  then show ?thesis by (auto simp: oui_hit_def vendor_match_def mem_simps)
qed

interpretation get_vendor: tlv_scan enc_ie "\<lambda>t. vendor_ok t \<and> length oui = 4" "vendor_match oui"
  "\<lambda>pos lim. lim \<le> pos + 768" "vendor_scan oui" "\<lambda>k t. Some (Some k, None, length (snd t) + 2)" "Some (None, None, 0)"
  for oui :: buf
proof
  fix lim b
  show "vendor_scan oui b lim lim = Some (None, None, 0)"
    by (simp add: vendor_scan_def vendor_ie_loop_unfold)
next
  fix lim :: nat and pre post :: buf and t :: ie
  assume bd: "lim \<le> length pre + 768" and ok: "vendor_ok t \<and> length oui = 4" and lim: "length pre + length (enc_ie t) \<le> lim"
  let ?b = "pre @ enc_ie t @ post"
  have n: "unat (word_of_nat (length (snd t)) :: u8) = length (snd t)" using ok by (simp add: vendor_ok_def ie_ok_def)
  note hit = oui_hit_enc [OF conjunct1 [OF ok] conjunct2 [OF ok], of pre post]
  { assume "vendor_match oui t"
    moreover from this ok have "4 \<le> length (snd t)" by (simp add: vendor_ok_def vendor_match_def)
    ultimately show "vendor_scan oui ?b lim (length pre) = Some (Some (length pre), None, length (snd t) + 2)"
      using lim bd n hit by (simp add: vendor_scan_def vendor_ie_loop_unfold [of _ ?b "length pre"] mem_simps) }
  { assume miss: "\<not> vendor_match oui t"
    show "vendor_scan oui ?b lim (length pre) = vendor_scan oui ?b lim (length pre + length (enc_ie t))"
    proof (cases "5 < lim - length pre")
      case True
      have move: "vendor_ie_loop (oui_hit oui) ?b (length pre) (lim - length pre) (length (snd t) + 2) False
          = vendor_ie_loop (oui_hit oui) ?b (length pre + (length (snd t) + 2)) (lim - (length pre + (length (snd t) + 2))) 0 False"
      proof -
        have sum: "lim - (length pre + (length (snd t) + 2)) + (length (snd t) + 2) = lim - length pre" using lim by simp
        show ?thesis
          using vendor_ie_loop_move [of "lim - (length pre + (length (snd t) + 2))" "length (snd t) + 2" "oui_hit oui" ?b "length pre" 0 False]
            bd unfolding sum by simp
      qed
      with True lim bd n hit miss show ?thesis
        by (simp add: vendor_scan_def vendor_ie_loop_unfold [of _ ?b "length pre" _ 0] mem_simps)
    next
      case False
      then have "\<not> 5 < lim - (length pre + length (enc_ie t))" by simp
      with False show ?thesis by (simp add: vendor_scan_def vendor_ie_loop_unfold [of _ _ _ _ 0])
    qed
  }
qed simp

text \<open>Both deletion loops on a series of elements, for a finder that scans with a selector.\<close>

lemma del_ie_loop_filter:
  assumes "\<And>b n. n \<le> 768 \<Longrightarrow> finder b n = vendor_scan oui b (length pre + n) (length pre)"
    and "length oui = 4" and "list_all vendor_ok ts" and "length (ies_bytes ts) \<le> 768"
  shows "\<exists>post'. del_ie_loop finder (length pre) (pre @ ies_bytes ts @ post) (length (ies_bytes ts))
      = Some (pre @ ies_bytes (filter (\<lambda>t. \<not> vendor_match oui t) ts) @ post',
              length (ies_bytes (filter (\<lambda>t. \<not> vendor_match oui t) ts)))"
  using assms(3,4)
proof (induction ts arbitrary: post rule: length_induct)
  case (1 ts)
  let ?b = "pre @ ies_bytes ts @ post" and ?m = "vendor_match oui"
  have ok: "list_all (\<lambda>t. vendor_ok t \<and> length oui = 4) ts"
    using "1.prems"(1) assms(2) by (simp add: list_all_iff)
  have scan: "finder ?b (length (ies_bytes ts)) = (case tlv_find enc_ie ?m (length pre) ts of
      None \<Rightarrow> Some (None, None, 0) | Some (k, t) \<Rightarrow> Some (Some k, None, length (snd t) + 2))"
    using get_vendor.scan_items [OF _ ok, of pre post, unfolded get_vendor.result_def] assms(1) "1.prems"(2) by simp
  show ?case
  proof (cases "tlv_find enc_ie ?m (length pre) ts")
    case None
    then have "filter (\<lambda>t. \<not> ?m t) ts = ts" by (simp add: tlv_find_None)
    with None scan show ?thesis
      by (subst del_ie_loop.simps) auto
  next
    case (Some kt)
    then obtain k t where kt: "tlv_find enc_ie ?m (length pre) ts = Some (k, t)" by (cases kt) simp
    from tlv_find_Some [OF kt] obtain us vs where
      ts: "ts = us @ t # vs" and mt: "?m t" and us: "\<forall>u \<in> set us. \<not> ?m u"
      and k: "k = length pre + length (ies_bytes us)" by auto
    let ?n = "length (enc_ie t)" and ?r = "ies_bytes vs"
    define tail where "tail = drop (length ?r) (enc_ie t @ ?r @ post)"
    have tail: "?n \<le> length tail" by (simp add: tail_def)
    have mv: "mem_mv ?b k (k + ?n) (length ?r) = Some ((pre @ ies_bytes us @ ?r) @ tail)"
      using mem_mv_down [of "pre @ ies_bytes us" "enc_ie t" ?r post] by (simp add: ts k tail_def)
    have "wr_n ((pre @ ies_bytes us @ ?r) @ tail) (k + length ?r) (replicate ?n 0)
        = Some (pre @ ies_bytes (us @ vs) @ replicate ?n 0 @ drop ?n tail)"
      using wr_n_prefix [of "replicate ?n 0" tail "pre @ ies_bytes us @ ?r"] tail by (simp add: k add.assoc)
    moreover have "usub32 (length (ies_bytes ts)) (k + ?n - length pre) = length ?r"
      "usub32 (length (ies_bytes ts)) ?n = length (ies_bytes (us @ vs))"
      using "1.prems"(2) by (simp_all add: usub32_le ts k)
    ultimately have step: "del_ie_loop finder (length pre) ?b (length (ies_bytes ts))
        = del_ie_loop finder (length pre) (pre @ ies_bytes (us @ vs) @ replicate ?n 0 @ drop ?n tail) (length (ies_bytes (us @ vs)))"
      using scan kt mv by (subst del_ie_loop.simps) (simp add: Let_def)
    have "length (us @ vs) < length ts" "list_all vendor_ok (us @ vs)" "length (ies_bytes (us @ vs)) \<le> 768"
      using "1.prems" by (simp_all add: ts)
    from "1.IH" [rule_format, OF this, of "replicate ?n 0 @ drop ?n tail"] step mt show ?thesis
      by (simp add: ts)
  qed
qed

text \<open>\<open>rtw_del_p2p_ie\<close> deletes every P2P element of a series and nothing else: the other
  elements stay, in order and contiguous, and the returned length is theirs. It returns for every
  such series.\<close>

theorem rtw_del_p2p_ie_filters:
  assumes "list_all vendor_ok ts" and "length (ies_bytes ts) \<le> MAX_IE_SZ"
  shows "\<exists>post'. rtw_del_p2p_ie (pre @ ies_bytes ts @ post) (length pre) (length (ies_bytes ts))
      = Some (pre @ ies_bytes (filter (\<lambda>t. \<not> vendor_match P2P_OUI4 t) ts) @ post',
              length (ies_bytes (filter (\<lambda>t. \<not> vendor_match P2P_OUI4 t) ts)))"
proof -
  have "rtw_get_p2p_ie b (Some p) (to_s32 n) False = vendor_scan P2P_OUI4 b (p + n) p" if "n \<le> 768" for b p n
    using that by (cases "n = 0") (simp_all add: to_s32_small rtw_get_p2p_ie_def vendor_scan_def vendor_ie_loop_unfold [of _ _ _ 0])
  with assms show ?thesis
    unfolding rtw_del_p2p_ie_def by (intro del_ie_loop_filter) (simp_all add: MAX_IE_SZ_def P2P_OUI4_def)
qed

theorem rtw_del_p2p_ie_filters_witness:
  "\<exists>post'. rtw_del_p2p_ie ([1] @ ies_bytes [(0, [65]), (221, [0x50, 0x6F, 0x9A, 0x09, 2]), (48, [7])] @ [5]) 1 13
      = Some ([1] @ ies_bytes [(0, [65]), (48, [7])] @ post', 6)"
  using rtw_del_p2p_ie_filters [of "[(0, [65]), (221, [0x50, 0x6F, 0x9A, 0x09, 2]), (48, [7])]" "[1]" "[5]"]
  by (simp add: vendor_ok_def ie_ok_def MAX_IE_SZ_def vendor_match_def P2P_OUI4_def WLAN_EID_VENDOR_SPECIFIC_def
      take_Cons' nat_lits del: One_nat_def)

end
