(* ===== verification/Rc4.thy ===== *)
theory Rc4
  imports Prelude "HOL-Library.Multiset"
begin

text \<open>
  The RC4 part of \<open>core/rtw_security.c\<close>: the stream cipher (\<open>arcfour_*\<close>), the table-driven CRC-32
  (\<open>crc32_*\<close>, \<open>getcrc32\<close>) and the loop over the fragments of a frame that the software encryption
  of WEP and of TKIP share. The lemmas show that the cipher state stays a permutation, that the
  table-driven checksum is the bit-serial CRC-32, and, in the locale \<open>rc4_mode\<close>, that every fragment
  is protected in place and can be decrypted again.
\<close>

section \<open>RC4\<close>

text \<open>Indices are unsigned 32-bit values below 768 before they are masked with \<open>0xff\<close>, so they
  are natural numbers here and the mask is \<open>mod 256\<close>. \<open>state\<close> has 256 entries.\<close>

record arc4context =
  arc_x :: nat
  arc_y :: nat
  arc_state :: "u8 list"

text \<open>One turn of the key schedule: \<open>state[stateindex] = t; state[counter] = u\<close>.\<close>

definition ksa_step :: "buf \<Rightarrow> nat \<Rightarrow> nat \<Rightarrow> u8 list \<times> nat \<times> nat \<Rightarrow> (u8 list \<times> nat \<times> nat) option" where
  "ksa_step key key_len counter st = (case st of (state, keyindex, stateindex) \<Rightarrow> do {
     k \<leftarrow> rd key keyindex;
     let t = state ! counter;
     let stateindex = (stateindex + unat k + unat t) mod 256;
     let u = state ! stateindex;
     Some (state[stateindex := t, counter := u], if keyindex + 1 \<ge> key_len then 0 else keyindex + 1, stateindex) })"

fun ksa_loop :: "buf \<Rightarrow> nat \<Rightarrow> nat list \<Rightarrow> u8 list \<times> nat \<times> nat \<Rightarrow> (u8 list \<times> nat \<times> nat) option" where
  "ksa_loop key key_len [] st = Some st"
| "ksa_loop key key_len (c # cs) st = do { st \<leftarrow> ksa_step key key_len c st; ksa_loop key key_len cs st }"

definition arcfour_init :: "buf \<Rightarrow> nat \<Rightarrow> arc4context option" where
  "arcfour_init key key_len = do {
     (state, _, _) \<leftarrow> ksa_loop key key_len [0..<256] (map word_of_nat [0..<256], 0, 0);
     Some \<lparr>arc_x = 0, arc_y = 0, arc_state = state\<rparr> }"

definition arcfour_byte :: "arc4context \<Rightarrow> u8 \<times> arc4context" where
  "arcfour_byte ctx =
     (let x = (arc_x ctx + 1) mod 256;
          sx = arc_state ctx ! x;
          y = (unat sx + arc_y ctx) mod 256;
          sy = arc_state ctx ! y;
          state = (arc_state ctx)[y := sx, x := sy] in
      (state ! ((unat sx + unat sy) mod 256), \<lparr>arc_x = x, arc_y = y, arc_state = state\<rparr>))"

fun arcfour_encrypt :: "arc4context \<Rightarrow> buf \<Rightarrow> buf \<times> arc4context" where
  "arcfour_encrypt ctx [] = ([], ctx)"
| "arcfour_encrypt ctx (s # src) =
     (let (k, ctx) = arcfour_byte ctx; (dest, ctx) = arcfour_encrypt ctx src in ((s XOR k) # dest, ctx))"

section \<open>CRC-32\<close>

definition CRC32_POLY :: u32 where "CRC32_POLY = 0x04c11db7"

definition crc32_reverseBit :: "u8 \<Rightarrow> u8" where
  "crc32_reverseBit d =
     (push_bit 7 d AND 0x80) OR (push_bit 5 d AND 0x40) OR (push_bit 3 d AND 0x20) OR (push_bit 1 d AND 0x10)
     OR (drop_bit 1 d AND 0x08) OR (drop_bit 3 d AND 0x04) OR (drop_bit 5 d AND 0x02) OR (drop_bit 7 d AND 0x01)"

definition crc32_shift :: "u32 \<Rightarrow> u32" where
  "crc32_shift c = (if c AND 0x80000000 \<noteq> 0 then push_bit 1 c XOR CRC32_POLY else push_bit 1 c)"

text \<open>The table entry as the code builds it: byte \<open>p1[j]\<close> of the little-endian entry is the
  reversed byte \<open>p[3 - j]\<close>.\<close>

definition crc32_entry :: "u8 \<Rightarrow> u32" where
  "crc32_entry i =
     (let c = (crc32_shift ^^ 8) (push_bit 24 (ucast (crc32_reverseBit i)));
          p = (\<lambda>j. ucast (drop_bit (8 * j) c) :: u8);
          b = (\<lambda>j. push_bit (8 * j) (ucast (crc32_reverseBit (p (3 - j)))) :: u32) in
      b 0 OR b 1 OR b 2 OR b 3)"

definition crc32_table :: "u32 list" where
  "crc32_table = map (\<lambda>i. crc32_entry (word_of_nat i)) [0..<256]"

definition crc32_update :: "u32 \<Rightarrow> u8 \<Rightarrow> u32" where
  "crc32_update crc p = (crc32_table ! unat ((crc XOR ucast p) AND 0xff)) XOR drop_bit 8 crc"

definition getcrc32 :: "buf \<Rightarrow> u32" where
  "getcrc32 buf = NOT (foldl crc32_update 0xffffffff buf)"

section \<open>Frames\<close>

text \<open>The part of \<open>struct security_priv\<close>, \<open>struct pkt_attrib\<close> and \<open>struct rx_pkt_attrib\<close> that the
  software ciphers use. Keys are the byte arrays \<open>skey\<close>. \<open>rx_len\<close> is \<open>u.hdr.len\<close> of the received
  frame.\<close>

record security_priv =
  dot11PrivacyKeyIndex :: nat
  dot11DefKey :: "buf list"
  dot11DefKeylen :: "nat list"
  dot118021XGrpKeyid :: nat
  dot118021XGrpKey :: "buf list"
  binstallGrpkey :: bool

record pkt_attrib =
  encrypt :: u8
  nr_frags :: nat
  hdrlen :: nat
  iv_len :: nat
  icv_len :: nat
  last_txcmdsz :: nat
  tx_ra :: buf
  tx_ta :: buf
  dot118021x_UncstKey :: buf

record rx_pkt_attrib =
  rx_encrypt :: u8
  rx_hdrlen :: nat
  rx_iv_len :: nat
  rx_key_index :: nat
  rx_ra :: buf
  rx_ta :: buf
  rx_len :: nat

definition RND4 :: "nat \<Rightarrow> nat" where
  "RND4 x = (x div 4 + (if x mod 4 = 0 then 0 else 1)) * 4"

text \<open>Checksum, payload, checksum: the calls that protect one fragment. A negative length is a huge
  unsigned one for \<open>arcfour_encrypt\<close>.\<close>

definition rc4_protect :: "arc4context \<Rightarrow> buf \<Rightarrow> nat \<Rightarrow> int \<Rightarrow> buf option" where
  "rc4_protect ctx frame payload len =
     (if len < 0 then None
      else do {
        data \<leftarrow> rd_n frame payload (nat len);
        let crc = le32_bytes (getcrc32 data);
        let (enc, ctx) = arcfour_encrypt ctx data;
        frame \<leftarrow> wr_n frame payload enc;
        let (encrc, ctx) = arcfour_encrypt ctx crc;
        wr_n frame (payload + nat len) encrc })"

text \<open>The loop over fragments; \<open>k\<close> are left. \<open>ctx_of frame iv\<close> is the cipher state keyed for the
  fragment whose IV is at offset \<open>iv\<close>. \<open>base\<close> is the address of the buffer, which the rounding of
  \<open>pframe\<close> depends on.\<close>

primrec rc4_fragments ::
  "nat \<Rightarrow> (buf \<Rightarrow> nat \<Rightarrow> arc4context option) \<Rightarrow> pkt_attrib \<Rightarrow> nat \<Rightarrow> nat \<Rightarrow> buf \<Rightarrow> nat \<Rightarrow> buf option" where
  "rc4_fragments 0 ctx_of attr frag_len base frame pframe = Some frame"
| "rc4_fragments (Suc k) ctx_of attr frag_len base frame pframe = do {
     ctx \<leftarrow> ctx_of frame (pframe + hdrlen attr);
     let payload = pframe + iv_len attr + hdrlen attr;
     if k = 0 then
       rc4_protect ctx frame payload
         (int (last_txcmdsz attr) - int (hdrlen attr) - int (iv_len attr) - int (icv_len attr))
     else do {
       frame \<leftarrow> rc4_protect ctx frame payload
         (int frag_len - int (hdrlen attr) - int (iv_len attr) - int (icv_len attr));
       rc4_fragments k ctx_of attr frag_len base frame (RND4 (base + pframe + frag_len) - base) } }"

text \<open>Decryption of payload and ICV in place.\<close>

definition rc4_unprotect :: "arc4context \<Rightarrow> buf \<Rightarrow> nat \<Rightarrow> int \<Rightarrow> buf option" where
  "rc4_unprotect ctx frame payload len =
     (if len < 0 then None
      else do { data \<leftarrow> rd_n frame payload (nat len); wr_n frame payload (fst (arcfour_encrypt ctx data)) })"

section \<open>The cipher state is a permutation of the bytes\<close>

definition perm_bytes :: "u8 list \<Rightarrow> bool" where
  "perm_bytes st \<longleftrightarrow> mset st = mset (map word_of_nat [0..<256])"

definition arc_ok :: "arc4context \<Rightarrow> bool" where
  "arc_ok ctx \<longleftrightarrow> arc_x ctx < 256 \<and> arc_y ctx < 256 \<and> perm_bytes (arc_state ctx)"

lemma perm_bytes_length: "perm_bytes st \<Longrightarrow> length st = 256"
  using mset_eq_length [of st "map word_of_nat [0..<256]"] by (simp add: perm_bytes_def)

lemma perm_bytes_swap: "perm_bytes st \<Longrightarrow> i < 256 \<Longrightarrow> j < 256 \<Longrightarrow> perm_bytes (st[i := st ! j, j := st ! i])"
  using perm_bytes_length [of st] by (simp add: perm_bytes_def mset_swap)

lemma ksa_step_perm:
  assumes "perm_bytes state" and "c < 256" and "ki < key_len" and "key_len \<le> length key"
  shows "\<exists>state' ki' si'. ksa_step key key_len c (state, ki, si) = Some (state', ki', si') \<and> perm_bytes state' \<and> ki' < key_len"
proof -
  let ?s = "(si + unat (key ! ki) + unat (state ! c)) mod 256"
  have "perm_bytes (state[?s := state ! c, c := state ! ?s])"
    using assms(1,2) by (intro perm_bytes_swap) simp_all
  with assms(3,4) show ?thesis by (simp add: ksa_step_def rd_Some Let_def)
qed

lemma ksa_loop_perm:
  "perm_bytes state \<Longrightarrow> list_all (\<lambda>c. c < 256) cs \<Longrightarrow> ki < key_len \<Longrightarrow> key_len \<le> length key \<Longrightarrow>
     \<exists>state' ki' si'. ksa_loop key key_len cs (state, ki, si) = Some (state', ki', si') \<and> perm_bytes state'"
proof (induction cs arbitrary: state ki si)
  case (Cons c cs)
  from ksa_step_perm [of state c ki key_len key si] Cons.prems obtain state' ki' si' where
    "ksa_step key key_len c (state, ki, si) = Some (state', ki', si')" "perm_bytes state'" "ki' < key_len" by auto
  with Cons.IH [of state' ki' si'] Cons.prems show ?case by simp
qed simp

lemma arcfour_init_ok:
  assumes "0 < key_len" and "key_len \<le> length key"
  shows "\<exists>ctx. arcfour_init key key_len = Some ctx \<and> arc_ok ctx"
  using ksa_loop_perm [of "map word_of_nat [0..<256]" "[0..<256]" 0 key_len key 0] assms
  by (auto simp: arcfour_init_def perm_bytes_def arc_ok_def list_all_iff)

lemma arcfour_byte_ok: "arc_ok ctx \<Longrightarrow> arc_ok (snd (arcfour_byte ctx))"
  by (simp add: arcfour_byte_def arc_ok_def Let_def perm_bytes_swap)

lemma arcfour_encrypt_ok: "arc_ok ctx \<Longrightarrow> arc_ok (snd (arcfour_encrypt ctx src))"
proof (induction ctx src rule: arcfour_encrypt.induct)
  case (2 ctx s src)
  obtain k ctx' where k: "arcfour_byte ctx = (k, ctx')" by (cases "arcfour_byte ctx")
  with "2.prems" arcfour_byte_ok [of ctx] have "arc_ok ctx'" by simp
  with "2.IH" [OF k [symmetric]] k show ?case by (simp add: case_prod_beta Let_def)
qed simp

text \<open>C23: for every key of at least one byte \<open>arcfour_init\<close> returns, and after encrypting any number
  of bytes the 256-entry state is still a permutation of all byte values, with both indices in
  range.\<close>

theorem arcfour_state_permutation:
  assumes "0 < key_len" and "key_len \<le> length key"
  shows "\<exists>ctx. arcfour_init key key_len = Some ctx
      \<and> length (arc_state (snd (arcfour_encrypt ctx src))) = 256
      \<and> set (arc_state (snd (arcfour_encrypt ctx src))) = UNIV
      \<and> distinct (arc_state (snd (arcfour_encrypt ctx src)))
      \<and> arc_x (snd (arcfour_encrypt ctx src)) < 256 \<and> arc_y (snd (arcfour_encrypt ctx src)) < 256"
proof -
  obtain ctx where ctx: "arcfour_init key key_len = Some ctx" "arc_ok ctx" using arcfour_init_ok [OF assms] by blast
  let ?st = "arc_state (snd (arcfour_encrypt ctx src))"
  have ok: "arc_ok (snd (arcfour_encrypt ctx src))" using arcfour_encrypt_ok [OF ctx(2)] .
  then have m: "mset ?st = mset (map word_of_nat [0..<256])" by (simp add: arc_ok_def perm_bytes_def)
  have "(w :: u8) \<in> word_of_nat ` {0..<256}" for w
    using unat_u8 [of w] by (intro image_eqI [of _ _ "unat w"]) simp_all
  then have "set ?st = UNIV" using mset_eq_setD [OF m] by auto
  moreover have "distinct (map word_of_nat [0..<256] :: u8 list)"
    by (auto simp: distinct_map intro!: inj_onI dest!: arg_cong [of _ _ unat])
  then have "distinct ?st" using mset_eq_imp_distinct_iff [OF m] by simp
  ultimately show ?thesis
    using ctx(1) ok perm_bytes_length [of ?st] by (auto simp: arc_ok_def)
qed

theorem arcfour_state_permutation_witness:
  "\<exists>ctx. arcfour_init [1, 2, 3, 4, 5] 5 = Some ctx
      \<and> length (arc_state (snd (arcfour_encrypt ctx [7]))) = 256
      \<and> set (arc_state (snd (arcfour_encrypt ctx [7]))) = UNIV
      \<and> distinct (arc_state (snd (arcfour_encrypt ctx [7])))
      \<and> arc_x (snd (arcfour_encrypt ctx [7])) < 256 \<and> arc_y (snd (arcfour_encrypt ctx [7])) < 256"
  by (rule arcfour_state_permutation) simp_all

section \<open>The table-driven checksum is the bit-serial one\<close>

text \<open>The reference: the shift register of CRC-32 in reflected form, one bit of the message at a
  time, least significant bit of a byte first.\<close>

definition crc_step :: "u32 \<Rightarrow> u32" where
  "crc_step c = (if bit c 0 then drop_bit 1 c XOR 0xEDB88320 else drop_bit 1 c)"

definition crc_bit :: "u32 \<Rightarrow> bool \<Rightarrow> u32" where
  "crc_bit c b = (if bit c 0 \<noteq> b then drop_bit 1 c XOR 0xEDB88320 else drop_bit 1 c)"

definition crc32_serial :: "buf \<Rightarrow> u32" where
  "crc32_serial msg = NOT (foldl crc_bit 0xffffffff (concat (map (\<lambda>p. map (bit p) [0..<8]) msg)))"

lemma bit_reverseBit: "bit (crc32_reverseBit d) n \<longleftrightarrow> n < 8 \<and> bit d (7 - n)"
proof (cases "n < 8")
  case True
  then consider "n = 0" | "n = 1" | "n = 2" | "n = 3" | "n = 4" | "n = 5" | "n = 6" | "n = 7" by linarith
  then show ?thesis by cases (simp_all add: crc32_reverseBit_def bit_simps del: push_bit_Suc)
next
  case False
  then show ?thesis using bit_imp_le_length by fastforce
qed

definition reflected :: "u32 \<Rightarrow> u32 \<Rightarrow> bool" where
  "reflected c r \<longleftrightarrow> (\<forall>n < 32. bit r n \<longleftrightarrow> bit c (31 - n))"

lemma CRC32_POLY_reflected: "reflected CRC32_POLY 0xEDB88320"
proof -
  have "list_all (\<lambda>n. bit (0xEDB88320 :: u32) n \<longleftrightarrow> bit CRC32_POLY (31 - n)) [0..<32]"
    by (simp add: CRC32_POLY_def upt_rec bit_numeral_word_iff)
  then show ?thesis by (simp add: reflected_def list_all_iff)
qed

lemma and_top_bit: "c AND 0x80000000 \<noteq> 0 \<longleftrightarrow> bit (c :: u32) 31"
proof -
  have "(0x80000000 :: u32) = push_bit 31 1" by (simp add: push_bit_eq_mult)
  then show ?thesis by (simp add: bit_iff_and_push_bit_not_eq_0)
qed

lemma reflected_xor: "reflected c r \<Longrightarrow> reflected d s \<Longrightarrow> reflected (c XOR d) (r XOR s)"
  by (simp add: reflected_def bit_xor_iff)

lemma reflected_push: "reflected c r \<Longrightarrow> reflected (push_bit (Suc 0) c) (drop_bit (Suc 0) r)"
  unfolding reflected_def
proof (intro allI impI)
  fix n :: nat
  assume r: "\<forall>n<32. bit r n = bit c (31 - n)" and n: "n < 32"
  show "bit (drop_bit (Suc 0) r) n = bit (push_bit (Suc 0) c) (31 - n)"
  proof (cases "n = 31")
    case True
    then show ?thesis by (auto simp: bit_drop_bit_eq bit_push_bit_iff simp del: push_bit_Suc dest: bit_imp_le_length)
  next
    case False
    with n have "Suc n < 32" "31 - Suc n = 31 - n - Suc 0" "Suc 0 \<le> 31 - n" "31 - n < 32" by auto
    with r n False show ?thesis by (simp add: bit_drop_bit_eq bit_push_bit_iff del: push_bit_Suc)
  qed
qed

lemma reflected_step:
  assumes "reflected c r"
  shows "reflected (crc32_shift c) (crc_step r)"
proof -
  have "bit r 0 = bit c 31" using assms by (simp add: reflected_def)
  with reflected_push [OF assms] CRC32_POLY_reflected show ?thesis
    by (simp add: crc32_shift_def crc_step_def and_top_bit reflected_xor del: push_bit_Suc)
qed

lemma reflected_steps: "reflected c r \<Longrightarrow> reflected ((crc32_shift ^^ k) c) ((crc_step ^^ k) r)"
  by (induction k) (simp_all add: reflected_step)

lemma reflected_init: "reflected (push_bit 24 (ucast (crc32_reverseBit i))) (ucast i)"
proof -
  have "bit i n \<Longrightarrow> 7 - (7 - n) = n" for n using bit_imp_le_length [of i n] by simp
  then show ?thesis
    by (auto simp: reflected_def bit_simps bit_reverseBit dest: bit_imp_le_length)
qed

lemma reflected_bytes:
  assumes "reflected c r"
  shows "push_bit (8 * 0) (ucast (crc32_reverseBit (ucast (drop_bit (8 * (3 - 0)) c))))
    OR push_bit (8 * 1) (ucast (crc32_reverseBit (ucast (drop_bit (8 * (3 - 1)) c))))
    OR push_bit (8 * 2) (ucast (crc32_reverseBit (ucast (drop_bit (8 * (3 - 2)) c))))
    OR push_bit (8 * 3) (ucast (crc32_reverseBit (ucast (drop_bit (8 * (3 - 3)) c)))) = r"
    (is "?b0 OR ?b1 OR ?b2 OR ?b3 = r")
proof (rule bit_word_eqI)
  fix n assume "n < LENGTH(32)"
  then consider "n < 8" | "8 \<le> n" "n < 16" | "16 \<le> n" "n < 24" | "24 \<le> n" "n < 32" by fastforce
  then show "bit (?b0 OR ?b1 OR ?b2 OR ?b3) n = bit r n"
    using assms by cases (auto simp: reflected_def bit_simps bit_reverseBit)
qed

lemma crc32_entry_steps: "crc32_entry i = (crc_step ^^ 8) (ucast i)"
  using reflected_bytes [OF reflected_steps [OF reflected_init, of 8]]
  unfolding crc32_entry_def Let_def .

lemma crc_step_xor: "crc_step (x XOR y) = crc_step x XOR crc_step y"
  by (rule bit_word_eqI) (auto simp: crc_step_def bit_simps)

lemma crc_steps_high:
  "(\<forall>n < k. \<not> bit y n) \<Longrightarrow> (crc_step ^^ k) (x XOR y) = (crc_step ^^ k) x XOR drop_bit k y"
proof (induction k arbitrary: x y)
  case (Suc k)
  then have y: "crc_step y = drop_bit 1 y" by (simp add: crc_step_def)
  have "(crc_step ^^ k) (crc_step x XOR drop_bit 1 y) = (crc_step ^^ k) (crc_step x) XOR drop_bit k (drop_bit 1 y)"
    using Suc.prems by (intro Suc.IH) (simp add: bit_simps)
  then show ?case by (simp add: funpow_swap1 crc_step_xor y)
qed simp

lemma crc32_update_steps: "crc32_update crc p = (crc_step ^^ 8) (crc XOR ucast p)"
proof -
  let ?x = "crc XOR ucast p" and ?m = "mask 8 :: u32"
  have ff: "(0xff :: u32) = ?m" by (simp add: mask_eq_exp_minus_1)
  have lt: "unat (?x AND ?m) < 256"
    using take_bit_nat_less_exp [of 8 "unat ?x"] by (simp only: unsigned_take_bit_eq flip: take_bit_eq_mask) simp
  have u: "ucast (ucast (?x AND ?m) :: u8) = ?x AND ?m"
    by (rule bit_word_eqI) (auto simp: bit_simps)
  have tab: "crc32_table ! unat (?x AND ?m) = (crc_step ^^ 8) (?x AND ?m)"
    using lt u by (simp add: crc32_table_def crc32_entry_steps)
  have split: "?x = (?x AND ?m) XOR (?x AND NOT ?m)" by (rule bit_word_eqI) (auto simp: bit_simps)
  have hi: "drop_bit 8 (?x AND NOT ?m) = drop_bit 8 crc"
    by (rule bit_word_eqI) (auto simp: bit_simps dest: bit_imp_le_length)
  have "(crc_step ^^ 8) ((?x AND ?m) XOR (?x AND NOT ?m)) = (crc_step ^^ 8) (?x AND ?m) XOR drop_bit 8 crc"
    using crc_steps_high [of 8 "?x AND NOT ?m"] hi by (simp add: bit_simps)
  with split tab ff show ?thesis by (simp add: crc32_update_def)
qed
lemma crc_step_of_bool: "crc_step (z XOR of_bool b) = crc_bit z b"
  by (cases b) (auto simp: crc_step_def crc_bit_def bit_simps drop_bit_xor)

lemma take_bit_Suc_xor: "take_bit (Suc k) x = take_bit k x XOR push_bit k (of_bool (bit x k) :: u32)"
  by (rule bit_word_eqI) (auto simp: bit_simps less_Suc_eq split: if_splits)

lemma foldl_crc_bits:
  "k \<le> 8 \<Longrightarrow> foldl crc_bit c (map (bit (p :: u8)) [0..<k]) = (crc_step ^^ k) (c XOR take_bit k (ucast p))"
proof (induction k)
  case (Suc k)
  let ?p = "ucast p :: u32" and ?y = "push_bit k (of_bool (bit p k) :: u32)"
  have b: "bit ?p k = bit p k" using Suc.prems by (simp add: bit_simps)
  have "(crc_step ^^ k) ((c XOR take_bit k ?p) XOR ?y) = (crc_step ^^ k) (c XOR take_bit k ?p) XOR drop_bit k ?y"
    by (rule crc_steps_high) (simp add: bit_simps)
  moreover have "drop_bit k ?y = of_bool (bit p k)"
    using Suc.prems by (intro bit_word_eqI) (auto simp: bit_simps)
  ultimately show ?case
    using Suc by (simp add: take_bit_Suc_xor b crc_step_of_bool flip: xor.assoc)
qed simp

lemma crc32_update_bits: "crc32_update crc p = foldl crc_bit crc (map (bit p) [0..<8])"
proof -
  have "take_bit 8 (ucast p :: u32) = ucast p"
    by (rule bit_word_eqI) (auto simp: bit_simps dest: bit_imp_le_length)
  then show ?thesis using foldl_crc_bits [of 8 crc p] by (simp only: crc32_update_steps)
qed

lemma foldl_crc32_update:
  "foldl crc32_update c msg = foldl crc_bit c (concat (map (\<lambda>p. map (bit p) [0..<8]) msg))"
  by (induction msg arbitrary: c) (simp_all only: crc32_update_bits foldl.simps foldl_append list.map concat.simps)

text \<open>C38: the checksum computed with the table that \<open>crc32_init\<close> builds is, for every message,
  the CRC-32 shift register (reflected, polynomial \<open>0xEDB88320\<close>, preset to ones, complemented)
  run bit by bit.\<close>

theorem getcrc32_serial: "getcrc32 msg = crc32_serial msg"
  by (simp only: getcrc32_def crc32_serial_def foldl_crc32_update)

section \<open>Fragments are protected in place\<close>

lemma arcfour_encrypt_append:
  "arcfour_encrypt ctx (xs @ ys) =
     (fst (arcfour_encrypt ctx xs) @ fst (arcfour_encrypt (snd (arcfour_encrypt ctx xs)) ys),
      snd (arcfour_encrypt (snd (arcfour_encrypt ctx xs)) ys))"
  by (induction xs arbitrary: ctx) (simp_all add: case_prod_beta Let_def)

lemma length_arcfour_encrypt [simp]: "length (fst (arcfour_encrypt ctx xs)) = length xs"
  by (induction xs arbitrary: ctx) (simp_all add: case_prod_beta Let_def)

lemma arcfour_involution: "fst (arcfour_encrypt ctx (fst (arcfour_encrypt ctx xs))) = xs"
  by (induction xs arbitrary: ctx) (simp_all add: case_prod_beta Let_def xor.assoc)

definition sealed :: "arc4context \<Rightarrow> buf \<Rightarrow> buf" where
  "sealed ctx p = fst (arcfour_encrypt ctx (p @ le32_bytes (getcrc32 p)))"

lemma length_sealed [simp]: "length (sealed ctx p) = length p + 4"
  by (simp add: sealed_def)

lemma rc4_protect_writes:
  assumes "length icv = 4" and "len = int (length p)"
  shows "rc4_protect ctx (pre @ p @ icv @ post) (length pre) len = Some (pre @ sealed ctx p @ post)"
proof -
  let ?e = "fst (arcfour_encrypt ctx p)" and ?c = "snd (arcfour_encrypt ctx p)"
  let ?f = "fst (arcfour_encrypt ?c (le32_bytes (getcrc32 p)))"
  have "wr_n (pre @ p @ icv @ post) (length pre) ?e = Some (pre @ ?e @ icv @ post)"
    using wr_n_prefix [of ?e "p @ icv @ post" pre] by simp
  moreover have "wr_n (pre @ ?e @ icv @ post) (length pre + length p) ?f = Some (pre @ ?e @ ?f @ post)"
    using wr_n_prefix [of ?f "icv @ post" "pre @ ?e"] assms(1) by simp
  ultimately show ?thesis
    using assms(2) rd_n_mid [of pre p "icv @ post"]
    by (simp add: rc4_protect_def sealed_def Let_def case_prod_beta arcfour_encrypt_append)
qed

lemma rc4_unprotect_sealed:
  assumes "len = int (length p) + 4"
  shows "rc4_unprotect ctx (pre @ sealed ctx p @ post) (length pre) len
    = Some (pre @ p @ le32_bytes (getcrc32 p) @ post)"
proof -
  let ?c = "sealed ctx p" and ?d = "p @ le32_bytes (getcrc32 p)"
  have n: "nat len = length ?c" "\<not> len < 0" using assms by simp_all
  have "fst (arcfour_encrypt ctx ?c) = ?d" by (simp add: sealed_def arcfour_involution)
  moreover have "wr_n (pre @ ?c @ post) (length pre) ?d = Some (pre @ ?d @ post)"
    using wr_n_prefix [of ?d "?c @ post" pre] by simp
  ultimately show ?thesis
    using n rd_n_mid [of pre ?c post] by (simp add: rc4_unprotect_def del: length_sealed)
qed

lemma RND4_aligned: "base mod 4 = 0 \<Longrightarrow> RND4 (base + n) = base + RND4 n"
proof -
  assume "base mod 4 = 0"
  then obtain q where "base = 4 * q" by auto
  then show ?thesis by (simp add: RND4_def)
qed

lemma RND4_ge: "n \<le> RND4 n"
  unfolding RND4_def using div_mult_mod_eq [of n 4] mod_less_divisor [of 4 n] by (auto simp: algebra_simps)

lemma RND4_mod: "RND4 n mod 4 = 0"
  by (simp add: RND4_def)

text \<open>A fragment in the buffer: header, IV, payload, room for the ICV and the gap up to the next
  one. \<open>frag_fits\<close> states that its lengths are the ones the loop assumes.\<close>

record fragment =
  f_hdr :: buf
  f_iv :: buf
  f_data :: buf
  f_icv :: buf
  f_gap :: buf

definition frag_bytes :: "fragment \<Rightarrow> buf" where
  "frag_bytes f = f_hdr f @ f_iv f @ f_data f @ f_icv f @ f_gap f"

definition frag_fits :: "pkt_attrib \<Rightarrow> nat \<Rightarrow> fragment \<Rightarrow> bool" where
  "frag_fits attr n f \<longleftrightarrow> length (f_hdr f) = hdrlen attr \<and> length (f_iv f) = iv_len attr \<and> length (f_icv f) = 4
     \<and> icv_len attr = 4 \<and> hdrlen attr + iv_len attr + length (f_data f) + 4 = n"

fun frags_fit :: "pkt_attrib \<Rightarrow> nat \<Rightarrow> fragment list \<Rightarrow> bool" where
  "frags_fit attr frag_len [] = False"
| "frags_fit attr frag_len [f] = frag_fits attr (last_txcmdsz attr) f"
| "frags_fit attr frag_len (f # fs) =
     (frag_fits attr frag_len f \<and> length (f_gap f) = RND4 frag_len - frag_len \<and> frags_fit attr frag_len fs)"

lemma frags_fit_member: "frags_fit attr n fs \<Longrightarrow> f \<in> set fs \<Longrightarrow>
    frag_fits attr (hdrlen attr + iv_len attr + length (f_data f) + 4) f"
  by (induction attr n fs rule: frags_fit.induct) (auto simp: frag_fits_def)

text \<open>What a mode has to provide: the cipher state depends only on key and IV bytes, and exists for
  every valid key.\<close>

locale rc4_mode =
  fixes ctx_of :: "'k \<Rightarrow> buf \<Rightarrow> nat \<Rightarrow> arc4context option" and ivn :: nat and key_ok :: "'k \<Rightarrow> bool"
  assumes ctx_local: "ivn \<le> length ivb \<Longrightarrow> ctx_of k (xs @ ivb @ ys) (length xs) = ctx_of k ivb 0"
    and ctx_exists: "ivn \<le> length ivb \<Longrightarrow> key_ok k \<Longrightarrow> \<exists>c. ctx_of k ivb 0 = Some c"
begin

definition seal_frag :: "'k \<Rightarrow> fragment \<Rightarrow> buf" where
  "seal_frag k f = f_hdr f @ f_iv f @ sealed (the (ctx_of k (f_iv f) 0)) (f_data f) @ f_gap f"

lemma ctx_at:
  assumes "ivn \<le> length ivb" and "key_ok k"
  shows "ctx_of k (xs @ ivb @ ys) (length xs) = Some (the (ctx_of k ivb 0))"
  using ctx_local [OF assms(1)] ctx_exists [OF assms] by auto

lemma protect_one:
  assumes "frag_fits attr n f" and "ivn \<le> iv_len attr" and "key_ok k"
  shows "ctx_of k (pre @ frag_bytes f @ post) (length pre + hdrlen attr) = Some (the (ctx_of k (f_iv f) 0))"
    and "rc4_protect (the (ctx_of k (f_iv f) 0)) (pre @ frag_bytes f @ post) (length pre + iv_len attr + hdrlen attr)
      (int n - int (hdrlen attr) - int (iv_len attr) - int (icv_len attr)) = Some (pre @ seal_frag k f @ post)"
proof -
  from assms(1) have l: "length (f_hdr f) = hdrlen attr" "length (f_iv f) = iv_len attr" "length (f_icv f) = 4"
    and n: "int n - int (hdrlen attr) - int (iv_len attr) - int (icv_len attr) = int (length (f_data f))"
    by (auto simp: frag_fits_def)
  from ctx_at [of "f_iv f" k "pre @ f_hdr f"] assms(2,3) l
  show "ctx_of k (pre @ frag_bytes f @ post) (length pre + hdrlen attr) = Some (the (ctx_of k (f_iv f) 0))"
    by (simp add: frag_bytes_def)
  have e: "length pre + iv_len attr + hdrlen attr = length (pre @ f_hdr f @ f_iv f)" using l by simp
  show "rc4_protect (the (ctx_of k (f_iv f) 0)) (pre @ frag_bytes f @ post) (length pre + iv_len attr + hdrlen attr)
      (int n - int (hdrlen attr) - int (iv_len attr) - int (icv_len attr)) = Some (pre @ seal_frag k f @ post)"
    unfolding e n
    using rc4_protect_writes [OF l(3) refl, of "the (ctx_of k (f_iv f) 0)" "pre @ f_hdr f @ f_iv f" "f_data f" "f_gap f @ post"]
    by (simp add: frag_bytes_def seal_frag_def)
qed

lemma fragments_sealed:
  assumes "frags_fit attr frag_len fs" and "ivn \<le> iv_len attr" and "key_ok k" and "(base + length pre) mod 4 = 0"
  shows "rc4_fragments (length fs) (ctx_of k) attr frag_len base (pre @ concat (map frag_bytes fs) @ post) (length pre)
    = Some (pre @ concat (map (seal_frag k) fs) @ post)"
  using assms(1,4)
proof (induction fs arbitrary: pre rule: induct_list012)
  case (2 f)
  from protect_one [of attr "last_txcmdsz attr" f k pre post] 2 assms(2,3) show ?case by simp
next
  case (3 f g fs)
  let ?rest = "concat (map frag_bytes (g # fs)) @ post"
  let ?pre = "pre @ seal_frag k f"
  from "3.prems"(1) have f: "frag_fits attr frag_len f" "length (f_gap f) = RND4 frag_len - frag_len"
    and fs: "frags_fit attr frag_len (g # fs)" by simp_all
  have len: "length (seal_frag k f) = RND4 frag_len"
    using f RND4_ge [of frag_len] by (auto simp: seal_frag_def frag_fits_def)
  then have next_frame: "RND4 (base + length pre + frag_len) - base = length ?pre"
    using RND4_aligned [OF "3.prems"(2), of frag_len] by simp
  have al: "(base + length ?pre) mod 4 = 0"
    using "3.prems"(2) len RND4_mod [of frag_len] by (simp add: mod_add_eq flip: add.assoc mod_add_eq [of "base + length pre"])
  have rec: "rc4_fragments (length (g # fs)) (ctx_of k) attr frag_len base (?pre @ ?rest) (length ?pre)
      = Some (?pre @ concat (map (seal_frag k) (g # fs)) @ post)"
    using "3.IH"(2) [OF fs al] .
  have "rc4_fragments (length (f # g # fs)) (ctx_of k) attr frag_len base (pre @ frag_bytes f @ ?rest) (length pre)
      = rc4_fragments (length (g # fs)) (ctx_of k) attr frag_len base (?pre @ ?rest) (length ?pre)"
    using protect_one [OF f(1) assms(2,3), of pre ?rest] next_frame by (simp add: Let_def)
  with rec show ?case by simp
qed simp

text \<open>Every sealed fragment, received on its own, is opened with the same key.\<close>

lemma unseal:
  assumes "frag_fits attr n f" and "ivn \<le> iv_len attr" and "key_ok k"
  shows "ctx_of k (f_hdr f @ f_iv f @ c) (hdrlen attr) = Some (the (ctx_of k (f_iv f) 0))"
    and "rc4_unprotect (the (ctx_of k (f_iv f) 0)) (f_hdr f @ f_iv f @ sealed (the (ctx_of k (f_iv f) 0)) (f_data f))
      (iv_len attr + hdrlen attr) (int n - int (hdrlen attr) - int (iv_len attr))
      = Some (f_hdr f @ f_iv f @ f_data f @ le32_bytes (getcrc32 (f_data f)))"
proof -
  from assms(1) have l: "length (f_hdr f) = hdrlen attr" "length (f_iv f) = iv_len attr"
    and n: "int n - int (hdrlen attr) - int (iv_len attr) = int (length (f_data f)) + 4"
    by (auto simp: frag_fits_def)
  from ctx_at [of "f_iv f" k "f_hdr f"] assms(2,3) l
  show "ctx_of k (f_hdr f @ f_iv f @ c) (hdrlen attr) = Some (the (ctx_of k (f_iv f) 0))" by simp
  have e: "iv_len attr + hdrlen attr = length (f_hdr f @ f_iv f)" using l by simp
  show "rc4_unprotect (the (ctx_of k (f_iv f) 0)) (f_hdr f @ f_iv f @ sealed (the (ctx_of k (f_iv f) 0)) (f_data f))
      (iv_len attr + hdrlen attr) (int n - int (hdrlen attr) - int (iv_len attr))
      = Some (f_hdr f @ f_iv f @ f_data f @ le32_bytes (getcrc32 (f_data f)))"
    unfolding e n
    using rc4_unprotect_sealed [OF refl, of "the (ctx_of k (f_iv f) 0)" "f_hdr f @ f_iv f" "f_data f" "[]"] by simp
qed

end

end
