(* ===== verification/Wep.thy ===== *)
theory Wep
  imports Rc4
begin

text \<open>
  Software WEP of \<open>core/rtw_security.c\<close>: \<open>rtw_wep_encrypt\<close> and \<open>rtw_wep_decrypt\<close> over the RC4 and
  fragment definitions of \<open>Rc4\<close>. Decryption undoes encryption fragment by fragment.
\<close>

text \<open>The RC4 key: three bytes of the IV and the WEP key, in the 16-byte local array \<open>wepkey\<close>.
  The result is the initialised context.\<close>

definition wep_context :: "security_priv \<Rightarrow> nat \<Rightarrow> buf \<Rightarrow> nat \<Rightarrow> arc4context option" where
  "wep_context sec idx frame iv =
     (if idx < length (dot11DefKeylen sec) \<and> idx < length (dot11DefKey sec) then do {
        let keylength = dot11DefKeylen sec ! idx;
        ivb \<leftarrow> rd_n frame iv 3;
        wepkey \<leftarrow> wr_n (replicate 16 0) 0 ivb;
        k \<leftarrow> rd_n (dot11DefKey sec ! idx) 0 keylength;
        wepkey \<leftarrow> wr_n wepkey 3 k;
        arcfour_init wepkey (3 + keylength) }
      else None)"

text \<open>\<open>buf_addr\<close> is \<open>None\<close> for a null pointer; \<open>hw_hdr_offset\<close> is the offset of the frame behind
  the transmit descriptor.\<close>

definition rtw_wep_encrypt ::
  "security_priv \<Rightarrow> pkt_attrib \<Rightarrow> nat \<Rightarrow> nat \<Rightarrow> buf option \<Rightarrow> nat \<Rightarrow> buf option option" where
  "rtw_wep_encrypt sec attr frag_len base buf_addr hw_hdr_offset =
     (case buf_addr of None \<Rightarrow> Some None
      | Some frame \<Rightarrow>
        if encrypt attr = 1 \<or> encrypt attr = 5
        then map_option Some (rc4_fragments (nr_frags attr) (wep_context sec (dot11PrivacyKeyIndex sec))
               attr frag_len base frame hw_hdr_offset)
        else Some (Some frame))"

text \<open>The checksum of the decrypted payload is computed and not used.\<close>

definition rtw_wep_decrypt :: "security_priv \<Rightarrow> rx_pkt_attrib \<Rightarrow> buf \<Rightarrow> buf option" where
  "rtw_wep_decrypt sec rx frame =
     (if rx_encrypt rx = 1 \<or> rx_encrypt rx = 5 then do {
        ctx \<leftarrow> wep_context sec (rx_key_index rx) frame (rx_hdrlen rx);
        rc4_unprotect ctx frame (rx_iv_len rx + rx_hdrlen rx)
          (int (rx_len rx) - int (rx_hdrlen rx) - int (rx_iv_len rx)) }
      else Some frame)"

section \<open>Keys\<close>

definition wep_key_ok :: "security_priv \<Rightarrow> nat \<Rightarrow> bool" where
  "wep_key_ok sec k \<longleftrightarrow> k < length (dot11DefKeylen sec) \<and> k < length (dot11DefKey sec)
     \<and> dot11DefKeylen sec ! k \<le> 13 \<and> dot11DefKeylen sec ! k \<le> length (dot11DefKey sec ! k)"

lemma wep_context_local:
  assumes "3 \<le> length ivb"
  shows "wep_context sec k (xs @ ivb @ ys) (length xs) = wep_context sec k ivb 0"
proof -
  have "rd_n (xs @ ivb @ ys) (length xs) 3 = rd_n ivb 0 3" using assms by (simp add: rd_n_def)
  then show ?thesis by (simp add: wep_context_def)
qed

lemma wep_context_exists:
  assumes "3 \<le> length ivb" and "wep_key_ok sec k"
  shows "\<exists>ctx. wep_context sec k ivb 0 = Some ctx"
proof -
  let ?n = "dot11DefKeylen sec ! k"
  let ?w = "take 3 ivb @ take ?n (dot11DefKey sec ! k) @ drop (3 + ?n) (take 3 ivb @ replicate 13 0)"
  have "rd_n (dot11DefKey sec ! k) 0 ?n = Some (take ?n (dot11DefKey sec ! k))"
    using assms(2) by (simp add: rd_n_def wep_key_ok_def)
  moreover have "wr_n (replicate 16 0) 0 (take 3 ivb) = Some (take 3 ivb @ replicate 13 0)"
    using assms(1) by (simp add: wr_n_def)
  moreover have "wr_n (take 3 ivb @ replicate 13 0) 3 (take ?n (dot11DefKey sec ! k)) = Some ?w"
    using assms by (simp add: wr_n_def wep_key_ok_def)
  moreover have "\<exists>ctx. arcfour_init ?w (3 + ?n) = Some ctx"
    using arcfour_init_ok [of "3 + ?n" ?w] assms by (auto simp: wep_key_ok_def)
  moreover have "rd_n ivb 0 3 = Some (take 3 ivb)" using assms(1) by (simp add: rd_n_def)
  ultimately show ?thesis
    using assms(2) by (simp add: wep_context_def wep_key_ok_def Let_def del: append_assoc drop_append)
qed

interpretation wep: rc4_mode "\<lambda>(sec, i). wep_context sec i" 3 "\<lambda>(sec, i). wep_key_ok sec i"
  by unfold_locales (auto simp: wep_context_local wep_context_exists split: prod.splits)

section \<open>Decryption undoes encryption\<close>

text \<open>C36: software WEP encrypts every fragment of a frame in place: headers, IVs and the gaps between
  the fragments are unchanged, and each encrypted fragment is decrypted with the same key to its
  payload followed by the little-endian CRC-32 of the payload as ICV.\<close>

theorem wep_decrypt_encrypt:
  assumes "encrypt attr = 1 \<or> encrypt attr = 5" and "rx_encrypt rx = 1 \<or> rx_encrypt rx = 5"
    and "nr_frags attr = length fs" and "frags_fit attr frag_len fs" and "3 \<le> iv_len attr"
    and "(base + length pre) mod 4 = 0" and "wep_key_ok sec (dot11PrivacyKeyIndex sec)"
    and "rx_key_index rx = dot11PrivacyKeyIndex sec" and "rx_hdrlen rx = hdrlen attr" and "rx_iv_len rx = iv_len attr"
  shows "\<exists>cs. rtw_wep_encrypt sec attr frag_len base (Some (pre @ concat (map frag_bytes fs) @ post)) (length pre)
        = Some (Some (pre @ concat (map (\<lambda>f. f_hdr f @ f_iv f @ cs f @ f_gap f) fs) @ post))
      \<and> (\<forall>f\<in>set fs. length (cs f) = length (f_data f) + 4
          \<and> rtw_wep_decrypt sec (rx\<lparr>rx_len := hdrlen attr + iv_len attr + length (f_data f) + 4\<rparr>) (f_hdr f @ f_iv f @ cs f)
            = Some (f_hdr f @ f_iv f @ f_data f @ le32_bytes (getcrc32 (f_data f))))"
proof (intro exI conjI ballI)
  let ?k = "(sec, dot11PrivacyKeyIndex sec)"
  let ?c = "\<lambda>f. the (wep_context sec (dot11PrivacyKeyIndex sec) (f_iv f) 0)"
  show "rtw_wep_encrypt sec attr frag_len base (Some (pre @ concat (map frag_bytes fs) @ post)) (length pre)
        = Some (Some (pre @ concat (map (\<lambda>f. f_hdr f @ f_iv f @ sealed (?c f) (f_data f) @ f_gap f) fs) @ post))"
    using wep.fragments_sealed [of attr frag_len fs ?k base pre post] assms(1,3-7)
    by (auto simp: rtw_wep_encrypt_def wep.seal_frag_def [abs_def])
  fix f assume "f \<in> set fs"
  then have f: "frag_fits attr (hdrlen attr + iv_len attr + length (f_data f) + 4) f"
    using frags_fit_member [OF assms(4)] by simp
  show "length (sealed (?c f) (f_data f)) = length (f_data f) + 4" by simp
  show "rtw_wep_decrypt sec (rx\<lparr>rx_len := hdrlen attr + iv_len attr + length (f_data f) + 4\<rparr>)
      (f_hdr f @ f_iv f @ sealed (?c f) (f_data f)) = Some (f_hdr f @ f_iv f @ f_data f @ le32_bytes (getcrc32 (f_data f)))"
    using wep.unseal [of attr _ f ?k, OF f] assms(2,5,7-10) by (simp add: rtw_wep_decrypt_def)
qed

text \<open>A frame in two fragments, 40-bit key.\<close>

definition wep_ex_sec :: security_priv where
  "wep_ex_sec = \<lparr>dot11PrivacyKeyIndex = 0, dot11DefKey = [[1, 2, 3, 4, 5]], dot11DefKeylen = [5],
     dot118021XGrpKeyid = 0, dot118021XGrpKey = [], binstallGrpkey = False\<rparr>"

definition wep_ex_attr :: pkt_attrib where
  "wep_ex_attr = \<lparr>encrypt = 1, nr_frags = 2, hdrlen = 2, iv_len = 4, icv_len = 4, last_txcmdsz = 11, tx_ra = [], tx_ta = [],
     dot118021x_UncstKey = []\<rparr>"

definition wep_ex_rx :: rx_pkt_attrib where
  "wep_ex_rx = \<lparr>rx_encrypt = 5, rx_hdrlen = 2, rx_iv_len = 4, rx_key_index = 0, rx_ra = [], rx_ta = [], rx_len = 0\<rparr>"

definition wep_ex_frags :: "fragment list" where
  "wep_ex_frags =
     [\<lparr>f_hdr = [8, 9], f_iv = [1, 2, 3, 0], f_data = [5, 6, 7], f_icv = [0, 0, 0, 0], f_gap = [0, 0, 0]\<rparr>,
      \<lparr>f_hdr = [8, 9], f_iv = [1, 2, 4, 0], f_data = [42], f_icv = [0, 0, 0, 0], f_gap = []\<rparr>]"

theorem wep_decrypt_encrypt_witness:
  "\<exists>cs. rtw_wep_encrypt wep_ex_sec wep_ex_attr 13 4096 (Some ([] @ concat (map frag_bytes wep_ex_frags) @ [])) (length ([] :: buf))
      = Some (Some ([] @ concat (map (\<lambda>f. f_hdr f @ f_iv f @ cs f @ f_gap f) wep_ex_frags) @ []))
    \<and> (\<forall>f\<in>set wep_ex_frags. length (cs f) = length (f_data f) + 4
        \<and> rtw_wep_decrypt wep_ex_sec
            (wep_ex_rx\<lparr>rx_len := hdrlen wep_ex_attr + iv_len wep_ex_attr + length (f_data f) + 4\<rparr>) (f_hdr f @ f_iv f @ cs f)
          = Some (f_hdr f @ f_iv f @ f_data f @ le32_bytes (getcrc32 (f_data f))))"
  by (rule wep_decrypt_encrypt)
    (simp_all add: wep_ex_sec_def wep_ex_attr_def wep_ex_rx_def wep_ex_frags_def wep_key_ok_def frag_fits_def RND4_def)

end
