(* ===== verification/Michael.thy ===== *)
theory Michael
  imports Prelude
begin

text \<open>
  The Michael message integrity code of TKIP in \<open>core/rtw_security.c\<close>. The code takes one byte at a
  time and mixes whenever four bytes are collected; the lemmas show that the result is Michael
  as it is defined on 32-bit words of the padded message.
\<close>

section \<open>The code\<close>

definition secmicgetuint32 :: "buf \<Rightarrow> nat \<Rightarrow> u32 option" where
  "secmicgetuint32 b p = do {
     b0 \<leftarrow> rd b p; b1 \<leftarrow> rd b (p + 1); b2 \<leftarrow> rd b (p + 2); b3 \<leftarrow> rd b (p + 3);
     Some (0 OR ucast b0 OR push_bit 8 (ucast b1) OR push_bit 16 (ucast b2) OR push_bit 24 (ucast b3)) }"

primrec secmicputuint32_loop :: "nat \<Rightarrow> u32 \<Rightarrow> buf" where
  "secmicputuint32_loop 0 val = []"
| "secmicputuint32_loop (Suc k) val = ucast (val AND 0xff) # secmicputuint32_loop k (drop_bit 8 val)"

definition secmicputuint32 :: "buf \<Rightarrow> nat \<Rightarrow> u32 \<Rightarrow> buf option" where
  "secmicputuint32 b p val = wr_n b p (secmicputuint32_loop 4 val)"

record mic_data =
  mic_K0 :: u32
  mic_K1 :: u32
  mic_L :: u32
  mic_R :: u32
  mic_M :: u32
  nBytesInM :: nat

definition ROL32 :: "u32 \<Rightarrow> nat \<Rightarrow> u32" where
  "ROL32 A n = push_bit n A OR (drop_bit (32 - n) A AND (push_bit n 1 - 1))"

definition ROR32 :: "u32 \<Rightarrow> nat \<Rightarrow> u32" where
  "ROR32 A n = ROL32 A (32 - n)"

definition secmicclear :: "mic_data \<Rightarrow> mic_data" where
  "secmicclear m = m\<lparr>mic_L := mic_K0 m, mic_R := mic_K1 m, nBytesInM := 0, mic_M := 0\<rparr>"

definition rtw_secmicsetkey :: "mic_data \<Rightarrow> buf \<Rightarrow> mic_data option" where
  "rtw_secmicsetkey m key = do {
     k0 \<leftarrow> secmicgetuint32 key 0;
     k1 \<leftarrow> secmicgetuint32 key 4;
     Some (secmicclear (m\<lparr>mic_K0 := k0, mic_K1 := k1\<rparr>)) }"

definition rtw_secmicappendbyte :: "mic_data \<Rightarrow> u8 \<Rightarrow> mic_data" where
  "rtw_secmicappendbyte m b =
     (let M = mic_M m OR push_bit (8 * nBytesInM m) (ucast b); n = nBytesInM m + 1 in
      if n \<ge> 4 then
        (let L = mic_L m XOR M;
             R = mic_R m XOR ROL32 L 17;
             L = L + R;
             R = R XOR (drop_bit 8 (L AND 0xff00ff00) OR push_bit 8 (L AND 0x00ff00ff));
             L = L + R;
             R = R XOR ROL32 L 3;
             L = L + R;
             R = R XOR ROR32 L 2;
             L = L + R in
         m\<lparr>mic_L := L, mic_R := R, mic_M := 0, nBytesInM := 0\<rparr>)
      else m\<lparr>mic_M := M, nBytesInM := n\<rparr>)"

text \<open>\<open>nbytes\<close> bytes from offset \<open>p\<close>.\<close>

primrec rtw_secmicappend :: "mic_data \<Rightarrow> buf \<Rightarrow> nat \<Rightarrow> nat \<Rightarrow> mic_data option" where
  "rtw_secmicappend m src p 0 = Some m"
| "rtw_secmicappend m src p (Suc nbytes) = do {
     b \<leftarrow> rd src p;
     rtw_secmicappend (rtw_secmicappendbyte m b) src (p + 1) nbytes }"

text \<open>\<open>while (pmicdata->nBytesInM != 0) rtw_secmicappendbyte(pmicdata, 0)\<close>.\<close>

function secmic_flush :: "mic_data \<Rightarrow> mic_data" where
  "secmic_flush m = (if nBytesInM m \<noteq> 0 then secmic_flush (rtw_secmicappendbyte m 0) else m)"
  by pat_completeness auto

termination secmic_flush
  by (relation "measure (\<lambda>m. if nBytesInM m = 0 then 0 else 5 - nBytesInM m + (if nBytesInM m \<ge> 4 then 1 else 0))")
    (auto simp: rtw_secmicappendbyte_def Let_def)

declare secmic_flush.simps [simp del]

definition rtw_secgetmic :: "mic_data \<Rightarrow> buf \<Rightarrow> (mic_data \<times> buf) option" where
  "rtw_secgetmic m dst = do {
     let m = foldl rtw_secmicappendbyte m [0x5a, 0, 0, 0, 0];
     let m = secmic_flush m;
     dst \<leftarrow> secmicputuint32 dst 0 (mic_L m);
     dst \<leftarrow> secmicputuint32 dst 4 (mic_R m);
     Some (secmicclear m, dst) }"

text \<open>\<open>header[1] & 1\<close> is To DS, \<open>header[1] & 2\<close> is From DS. \<open>micdata\<close> is a local variable whose
  fields are all set by \<open>rtw_secmicsetkey\<close>.\<close>

definition rtw_seccalctkipmic :: "buf \<Rightarrow> buf \<Rightarrow> buf \<Rightarrow> nat \<Rightarrow> buf \<Rightarrow> u8 \<Rightarrow> buf option" where
  "rtw_seccalctkipmic key header dat data_len mic_code pri = do {
     m \<leftarrow> rtw_secmicsetkey \<lparr>mic_K0 = 0, mic_K1 = 0, mic_L = 0, mic_R = 0, mic_M = 0, nBytesInM = 0\<rparr> key;
     fc \<leftarrow> rd header 1;
     m \<leftarrow> (if fc AND 1 \<noteq> 0 then do {
             m \<leftarrow> rtw_secmicappend m header 16 6;
             if fc AND 2 \<noteq> 0 then rtw_secmicappend m header 24 6 else rtw_secmicappend m header 10 6 }
           else do {
             m \<leftarrow> rtw_secmicappend m header 4 6;
             if fc AND 2 \<noteq> 0 then rtw_secmicappend m header 16 6 else rtw_secmicappend m header 10 6 });
     m \<leftarrow> rtw_secmicappend m [pri, 0, 0, 0] 0 4;
     m \<leftarrow> rtw_secmicappend m dat 0 data_len;
     (m, mic_code) \<leftarrow> rtw_secgetmic m mic_code;
     Some mic_code }"

section \<open>Michael on words\<close>

text \<open>The reference: the block function on a pair of words, run over the little-endian words of the
  message followed by \<open>0x5a\<close> and four to seven zero bytes.\<close>

definition xswap :: "u32 \<Rightarrow> u32" where
  "xswap x = drop_bit 8 (x AND 0xff00ff00) OR push_bit 8 (x AND 0x00ff00ff)"

definition michael_block :: "u32 \<times> u32 \<Rightarrow> u32 \<Rightarrow> u32 \<times> u32" where
  "michael_block lr w =
     (let l = fst lr XOR w;
          r = snd lr XOR word_rotl 17 l; l = l + r;
          r = r XOR xswap l; l = l + r;
          r = r XOR word_rotl 3 l; l = l + r;
          r = r XOR word_rotr 2 l; l = l + r in (l, r))"

definition le_word32 :: "u8 \<Rightarrow> u8 \<Rightarrow> u8 \<Rightarrow> u8 \<Rightarrow> u32" where
  "le_word32 a b c d = ucast a OR push_bit 8 (ucast b) OR push_bit 16 (ucast c) OR push_bit 24 (ucast d)"

fun words32 :: "buf \<Rightarrow> u32 list" where
  "words32 (a # b # c # d # xs) = le_word32 a b c d # words32 xs"
| "words32 xs = []"

definition michael_pad :: "buf \<Rightarrow> buf" where
  "michael_pad msg = msg @ 0x5a # replicate (7 - length msg mod 4) 0"

definition michael :: "u32 \<Rightarrow> u32 \<Rightarrow> buf \<Rightarrow> u32 \<times> u32" where
  "michael k0 k1 msg = foldl michael_block (k0, k1) (words32 (michael_pad msg))"

text \<open>Destination and source address of a frame, by the two DS bits, and the message that is
  authenticated.\<close>

definition frame_da_sa :: "buf \<Rightarrow> buf \<times> buf" where
  "frame_da_sa h =
     (let a = (\<lambda>n. take 6 (drop n h)) in
      if bit (h ! 1) 0 then (a 16, if bit (h ! 1) 1 then a 24 else a 10)
      else (a 4, if bit (h ! 1) 1 then a 16 else a 10))"

section \<open>The code computes Michael\<close>

lemma ROL32_rotl: "0 < n \<Longrightarrow> n < 32 \<Longrightarrow> ROL32 A n = word_rotl n A"
proof (rule bit_word_eqI)
  fix i assume n: "0 < n" "n < 32" and i: "i < LENGTH(32)"
  have m: "ROL32 A n = push_bit n A OR (drop_bit (32 - n) A AND mask n)"
    by (simp only: ROL32_def mask_eq_exp_minus_1 push_bit_of_1)
  show "bit (ROL32 A n) i = bit (word_rotl n A) i"
  proof (cases "i < n")
    case True
    with n i have "(i + (32 - n)) mod 32 = 32 - n + i" by simp
    with True n i show ?thesis by (simp add: m bit_simps bit_word_rotl_iff)
  next
    case False
    with n i have "(i + (32 - n)) mod 32 = i - n" by (simp add: mod_if)
    with False n i show ?thesis by (simp add: m bit_simps bit_word_rotl_iff)
  qed
qed

lemma ROR32_rotr: "ROR32 A 2 = word_rotr 2 A"
proof -
  have "word_rotl 30 A = word_rotr 2 A"
    by (rule bit_word_eqI) (simp add: bit_word_rotl_iff bit_word_rotr_iff add.commute)
  then show ?thesis by (simp add: ROR32_def ROL32_rotl)
qed

definition mic_empty :: "mic_data \<Rightarrow> bool" where
  "mic_empty m \<longleftrightarrow> nBytesInM m = 0 \<and> mic_M m = 0"

definition set_LR :: "mic_data \<Rightarrow> u32 \<times> u32 \<Rightarrow> mic_data" where
  "set_LR m lr = m\<lparr>mic_L := fst lr, mic_R := snd lr\<rparr>"

lemma set_LR_simps [simp]:
  "mic_empty (set_LR m lr) = mic_empty m" "set_LR (set_LR m lr) lr' = set_LR m lr'"
  "mic_L (set_LR m lr) = fst lr" "mic_R (set_LR m lr) = snd lr" "nBytesInM (set_LR m lr) = nBytesInM m"
  "mic_K0 (set_LR m lr) = mic_K0 m" "mic_K1 (set_LR m lr) = mic_K1 m"
  by (simp_all add: set_LR_def mic_empty_def)

lemma append_four:
  assumes "mic_empty m"
  shows "foldl rtw_secmicappendbyte m [a, b, c, d] = set_LR m (michael_block (mic_L m, mic_R m) (le_word32 a b c d))"
  using assms
  by (simp add: rtw_secmicappendbyte_def Let_def mic_empty_def set_LR_def michael_block_def le_word32_def
      ROL32_rotl ROR32_rotr xswap_def or.assoc)

lemma append_words:
  "mic_empty m \<Longrightarrow> length bs mod 4 = 0 \<Longrightarrow>
     foldl rtw_secmicappendbyte m bs = set_LR m (foldl michael_block (mic_L m, mic_R m) (words32 bs))"
proof (induction bs arbitrary: m rule: words32.induct)
  case (1 a b c d xs)
  let ?m = "set_LR m (michael_block (mic_L m, mic_R m) (le_word32 a b c d))"
  have "foldl rtw_secmicappendbyte m (a # b # c # d # xs) = foldl rtw_secmicappendbyte ?m xs"
    using append_four [OF "1.prems"(1), of a b c d] by simp
  with "1.IH" [of ?m] "1.prems" show ?case by simp
qed (simp_all add: set_LR_def)

lemma appendbyte_count: "nBytesInM m < 4 \<Longrightarrow> nBytesInM (rtw_secmicappendbyte m b) = (nBytesInM m + 1) mod 4"
proof -
  assume "nBytesInM m < 4"
  then consider "nBytesInM m < 3" | "nBytesInM m = 3" by linarith
  then show ?thesis by cases (simp_all add: rtw_secmicappendbyte_def Let_def)
qed

lemma append_count: "nBytesInM m < 4 \<Longrightarrow> nBytesInM (foldl rtw_secmicappendbyte m bs) = (nBytesInM m + length bs) mod 4"
proof (induction bs arbitrary: m)
  case (Cons b bs)
  then show ?case using appendbyte_count [OF Cons.prems, of b] by (simp add: mod_simps)
qed simp

lemma secmic_flush_zeros:
  "nBytesInM m < 4 \<Longrightarrow> secmic_flush m = foldl rtw_secmicappendbyte m (replicate ((4 - nBytesInM m) mod 4) 0)"
proof (induction m rule: secmic_flush.induct)
  case (1 m)
  let ?m = "rtw_secmicappendbyte m 0"
  show ?case
  proof (cases "nBytesInM m = 0")
    case False
    with "1.prems" have n: "nBytesInM ?m < 4" "(4 - nBytesInM m) mod 4 = Suc ((4 - nBytesInM ?m) mod 4)"
      using appendbyte_count [OF "1.prems", of 0] by (auto simp: mod_if)
    with "1.IH" [OF False n(1)] False show ?thesis by (subst secmic_flush.simps) simp
  qed (subst secmic_flush.simps, simp)
qed

lemma pad_zeros:
  "michael_pad msg = msg @ [0x5a, 0, 0, 0, 0] @ replicate ((4 - (length msg + 5) mod 4) mod 4) 0"
proof -
  have "length msg mod 4 < 4" by simp
  then consider "length msg mod 4 = 0" | "length msg mod 4 = 1" | "length msg mod 4 = 2" | "length msg mod 4 = 3"
    by linarith
  moreover have "(length msg + 5) mod 4 = (length msg mod 4 + 1) mod 4" by presburger
  ultimately have "7 - length msg mod 4 = 4 + (4 - (length msg + 5) mod 4) mod 4" by cases simp_all
  moreover have "replicate (4 + z) 0 = [0, 0, 0, 0] @ replicate z (0 :: u8)" for z
    by (simp add: replicate_add numeral_eq_Suc)
  ultimately show ?thesis by (simp only: michael_pad_def append_Cons append_Nil)
qed

lemma length_michael_pad: "length (michael_pad msg) mod 4 = 0"
  unfolding michael_pad_def by simp presburger

lemma putuint32: "secmicputuint32_loop 4 v = le32_bytes v"
proof -
  have ff: "(0xff :: u32) = mask 8" by (simp add: mask_eq_exp_minus_1)
  have "(ucast (x AND 0xff) :: u8) = ucast x" for x :: u32
    unfolding ff by (rule bit_word_eqI) (simp add: bit_simps)
  then show ?thesis by (simp add: le32_bytes_def numeral_eq_Suc)
qed

lemma getmic_michael:
  assumes "mic_empty m" and "mic_L m = k0" and "mic_R m = k1" and "8 \<le> length dst"
    and "michael k0 k1 msg = (l, r)"
  shows "\<exists>m'. rtw_secgetmic (foldl rtw_secmicappendbyte m msg) dst = Some (m', le32_bytes l @ le32_bytes r @ drop 8 dst)"
proof -
  let ?m = "foldl rtw_secmicappendbyte m (msg @ [0x5a, 0, 0, 0, 0])"
  have n: "nBytesInM ?m = (length msg + 5) mod 4"
    using append_count [of m "msg @ [0x5a, 0, 0, 0, 0]"] assms(1) by (simp only: mic_empty_def) (simp add: add.commute)
  have "secmic_flush ?m = foldl rtw_secmicappendbyte m (michael_pad msg)"
    using secmic_flush_zeros [of ?m] n by (simp only: pad_zeros foldl_append append_assoc mod_less_divisor zero_less_numeral)
  also have "\<dots> = set_LR m (l, r)"
    using append_words [OF assms(1) length_michael_pad] assms(2,3,5) by (simp add: michael_def)
  finally have "secmic_flush (foldl rtw_secmicappendbyte (foldl rtw_secmicappendbyte m msg) [0x5a, 0, 0, 0, 0]) = set_LR m (l, r)"
    by simp
  moreover have "wr_n dst 0 (le32_bytes l) = Some (le32_bytes l @ drop 4 dst)"
    using assms(4) by (simp add: wr_n_def)
  moreover have "wr_n (le32_bytes l @ drop 4 dst) 4 (le32_bytes r) = Some (le32_bytes l @ le32_bytes r @ drop 8 dst)"
    using wr_n_prefix [of "le32_bytes r" "drop 4 dst" "le32_bytes l"] assms(4) by simp
  ultimately show ?thesis
    by (simp add: rtw_secgetmic_def secmicputuint32_def putuint32 Let_def del: foldl_Cons foldl_Nil)
qed

lemma secmicappend_take:
  "p + n \<le> length src \<Longrightarrow> rtw_secmicappend m src p n = Some (foldl rtw_secmicappendbyte m (take n (drop p src)))"
proof (induction n arbitrary: m p)
  case (Suc n)
  then have "drop p src = src ! p # drop (Suc p) src" by (intro Cons_nth_drop_Suc [symmetric]) simp
  with Suc show ?case by (simp add: rd_def)
qed simp

lemma secmicsetkey_empty:
  assumes "8 \<le> length key"
  shows "\<exists>m'. rtw_secmicsetkey m key = Some m' \<and> mic_empty m'
    \<and> mic_L m' = le_word32 (key ! 0) (key ! 1) (key ! 2) (key ! 3)
    \<and> mic_R m' = le_word32 (key ! 4) (key ! 5) (key ! 6) (key ! 7)"
proof -
  have "rd key i = Some (key ! i)" if "i < 8" for i using that assms by (simp add: rd_def)
  then show ?thesis
    by (simp add: rtw_secmicsetkey_def secmicgetuint32_def secmicclear_def mic_empty_def le_word32_def or.assoc
        numeral_2_eq_2)
qed

lemma and_low_bits: "(w AND 1 \<noteq> 0) = bit (w :: u8) 0" "(w AND 2 \<noteq> 0) = bit w 1"
  using bit_iff_and_push_bit_not_eq_0 [of w 0] bit_iff_and_push_bit_not_eq_0 [of w 1] by (simp_all add: push_bit_eq_mult)

text \<open>C37: \<open>rtw_seccalctkipmic\<close> writes the Michael code of destination address, source address, priority,
  three zero bytes and the data, under the two little-endian words of the key, to the first eight
  bytes of the result.\<close>

theorem rtw_seccalctkipmic_michael:
  assumes "8 \<le> length key" and "(if bit (header ! 1) 0 \<and> bit (header ! 1) 1 then 30 else 24) \<le> length header" and "data_len \<le> length dat" and "8 \<le> length mic_code"
    and "frame_da_sa header = (da, sa)"
    and "michael (le_word32 (key ! 0) (key ! 1) (key ! 2) (key ! 3)) (le_word32 (key ! 4) (key ! 5) (key ! 6) (key ! 7))
      (da @ sa @ [pri, 0, 0, 0] @ take data_len dat) = (l, r)"
  shows "rtw_seccalctkipmic key header dat data_len mic_code pri
    = Some (le32_bytes l @ le32_bytes r @ drop 8 mic_code)"
proof -
  obtain m where m: "rtw_secmicsetkey \<lparr>mic_K0 = 0, mic_K1 = 0, mic_L = 0, mic_R = 0, mic_M = 0, nBytesInM = 0\<rparr> key = Some m"
    "mic_empty m" "mic_L m = le_word32 (key ! 0) (key ! 1) (key ! 2) (key ! 3)"
    "mic_R m = le_word32 (key ! 4) (key ! 5) (key ! 6) (key ! 7)"
    using secmicsetkey_empty [OF assms(1)] by blast
  obtain m' where m': "rtw_secgetmic (foldl rtw_secmicappendbyte m (da @ sa @ [pri, 0, 0, 0] @ take data_len dat)) mic_code
      = Some (m', le32_bytes l @ le32_bytes r @ drop 8 mic_code)"
    using getmic_michael [OF m(2-4) assms(4,6)] by blast
  have pri: "rtw_secmicappend n [pri, 0, 0, 0] 0 4 = Some (foldl rtw_secmicappendbyte n [pri, 0, 0, 0])" for n
    by (subst secmicappend_take) simp_all
  have h: "rd header 1 = Some (header ! 1)" using assms(2) by (auto simp: rd_def split: if_splits)
  have m'': "rtw_secgetmic (foldl rtw_secmicappendbyte (foldl rtw_secmicappendbyte (foldl rtw_secmicappendbyte
        (foldl rtw_secmicappendbyte m da) sa) [pri, 0, 0, 0]) (take data_len dat)) mic_code
      = Some (m', le32_bytes l @ le32_bytes r @ drop 8 mic_code)"
    using m' by simp
  from h m(1) m'' pri assms(2,3,5) show ?thesis
    by (auto simp: rtw_seccalctkipmic_def secmicappend_take frame_da_sa_def Let_def and_low_bits
        simp del: foldl_Cons split: if_splits)
qed

theorem rtw_seccalctkipmic_michael_witness:
  "rtw_seccalctkipmic [1, 2, 3, 4, 5, 6, 7, 8] (replicate 24 0) [9] 1 (replicate 8 0) 0
    = Some (le32_bytes (fst (michael 0x04030201 0x08070605 (replicate 16 0 @ [9])))
        @ le32_bytes (snd (michael 0x04030201 0x08070605 (replicate 16 0 @ [9]))))"
proof -
  have z: "replicate 6 0 @ replicate 6 0 @ [0, 0, 0, 0] @ take 1 [9] = replicate 16 0 @ [9 :: u8]"
    by (simp add: numeral_eq_Suc)
  have k: "le_word32 1 2 3 4 = 0x04030201" "le_word32 5 6 7 8 = 0x08070605" by (simp_all add: le_word32_def)
  show ?thesis
    using rtw_seccalctkipmic_michael [of "[1, 2, 3, 4, 5, 6, 7, 8]" "replicate 24 0" 1 "[9]" "replicate 8 0"
        "replicate 6 0" "replicate 6 0" 0 "fst (michael 0x04030201 0x08070605 (replicate 16 0 @ [9]))"
        "snd (michael 0x04030201 0x08070605 (replicate 16 0 @ [9]))"]
    unfolding z by (simp add: k frame_da_sa_def)
qed

end
