(* ===== verification/Tkip.thy ===== *)
theory Tkip
  imports Rc4
begin

text \<open>
  TKIP in \<open>core/rtw_security.c\<close>: the two phases of key mixing, the IV macros of \<open>include/rtw_xmit.h\<close>
  and \<open>include/rtw_security.h\<close> and the software encryption and decryption of a frame. The lemmas show
  that the mixing is a keyed permutation, so that no RC4 key is used twice, and that decryption
  accepts and undoes what encryption produces.
\<close>

section \<open>Key mixing\<close>

text \<open>\<open>Sbox1[0]\<close> and \<open>Sbox1[1]\<close>.\<close>

definition Sbox1_lo :: "u16 list" where
  "Sbox1_lo = [
    0xC6A5, 0xF884, 0xEE99, 0xF68D, 0xFF0D, 0xD6BD, 0xDEB1, 0x9154, 0x6050, 0x0203, 0xCEA9, 0x567D,
    0xE719, 0xB562, 0x4DE6, 0xEC9A, 0x8F45, 0x1F9D, 0x8940, 0xFA87, 0xEF15, 0xB2EB, 0x8EC9, 0xFB0B,
    0x41EC, 0xB367, 0x5FFD, 0x45EA, 0x23BF, 0x53F7, 0xE496, 0x9B5B, 0x75C2, 0xE11C, 0x3DAE, 0x4C6A,
    0x6C5A, 0x7E41, 0xF502, 0x834F, 0x685C, 0x51F4, 0xD134, 0xF908, 0xE293, 0xAB73, 0x6253, 0x2A3F,
    0x080C, 0x9552, 0x4665, 0x9D5E, 0x3028, 0x37A1, 0x0A0F, 0x2FB5, 0x0E09, 0x2436, 0x1B9B, 0xDF3D,
    0xCD26, 0x4E69, 0x7FCD, 0xEA9F, 0x121B, 0x1D9E, 0x5874, 0x342E, 0x362D, 0xDCB2, 0xB4EE, 0x5BFB,
    0xA4F6, 0x764D, 0xB761, 0x7DCE, 0x527B, 0xDD3E, 0x5E71, 0x1397, 0xA6F5, 0xB968, 0x0000, 0xC12C,
    0x4060, 0xE31F, 0x79C8, 0xB6ED, 0xD4BE, 0x8D46, 0x67D9, 0x724B, 0x94DE, 0x98D4, 0xB0E8, 0x854A,
    0xBB6B, 0xC52A, 0x4FE5, 0xED16, 0x86C5, 0x9AD7, 0x6655, 0x1194, 0x8ACF, 0xE910, 0x0406, 0xFE81,
    0xA0F0, 0x7844, 0x25BA, 0x4BE3, 0xA2F3, 0x5DFE, 0x80C0, 0x058A, 0x3FAD, 0x21BC, 0x7048, 0xF104,
    0x63DF, 0x77C1, 0xAF75, 0x4263, 0x2030, 0xE51A, 0xFD0E, 0xBF6D, 0x814C, 0x1814, 0x2635, 0xC32F,
    0xBEE1, 0x35A2, 0x88CC, 0x2E39, 0x9357, 0x55F2, 0xFC82, 0x7A47, 0xC8AC, 0xBAE7, 0x322B, 0xE695,
    0xC0A0, 0x1998, 0x9ED1, 0xA37F, 0x4466, 0x547E, 0x3BAB, 0x0B83, 0x8CCA, 0xC729, 0x6BD3, 0x283C,
    0xA779, 0xBCE2, 0x161D, 0xAD76, 0xDB3B, 0x6456, 0x744E, 0x141E, 0x92DB, 0x0C0A, 0x486C, 0xB8E4,
    0x9F5D, 0xBD6E, 0x43EF, 0xC4A6, 0x39A8, 0x31A4, 0xD337, 0xF28B, 0xD532, 0x8B43, 0x6E59, 0xDAB7,
    0x018C, 0xB164, 0x9CD2, 0x49E0, 0xD8B4, 0xACFA, 0xF307, 0xCF25, 0xCAAF, 0xF48E, 0x47E9, 0x1018,
    0x6FD5, 0xF088, 0x4A6F, 0x5C72, 0x3824, 0x57F1, 0x73C7, 0x9751, 0xCB23, 0xA17C, 0xE89C, 0x3E21,
    0x96DD, 0x61DC, 0x0D86, 0x0F85, 0xE090, 0x7C42, 0x71C4, 0xCCAA, 0x90D8, 0x0605, 0xF701, 0x1C12,
    0xC2A3, 0x6A5F, 0xAEF9, 0x69D0, 0x1791, 0x9958, 0x3A27, 0x27B9, 0xD938, 0xEB13, 0x2BB3, 0x2233,
    0xD2BB, 0xA970, 0x0789, 0x33A7, 0x2DB6, 0x3C22, 0x1592, 0xC920, 0x8749, 0xAAFF, 0x5078, 0xA57A,
    0x038F, 0x59F8, 0x0980, 0x1A17, 0x65DA, 0xD731, 0x84C6, 0xD0B8, 0x82C3, 0x29B0, 0x5A77, 0x1E11,
    0x7BCB, 0xA8FC, 0x6DD6, 0x2C3A]"

definition Sbox1_hi :: "u16 list" where
  "Sbox1_hi = [
    0xA5C6, 0x84F8, 0x99EE, 0x8DF6, 0x0DFF, 0xBDD6, 0xB1DE, 0x5491, 0x5060, 0x0302, 0xA9CE, 0x7D56,
    0x19E7, 0x62B5, 0xE64D, 0x9AEC, 0x458F, 0x9D1F, 0x4089, 0x87FA, 0x15EF, 0xEBB2, 0xC98E, 0x0BFB,
    0xEC41, 0x67B3, 0xFD5F, 0xEA45, 0xBF23, 0xF753, 0x96E4, 0x5B9B, 0xC275, 0x1CE1, 0xAE3D, 0x6A4C,
    0x5A6C, 0x417E, 0x02F5, 0x4F83, 0x5C68, 0xF451, 0x34D1, 0x08F9, 0x93E2, 0x73AB, 0x5362, 0x3F2A,
    0x0C08, 0x5295, 0x6546, 0x5E9D, 0x2830, 0xA137, 0x0F0A, 0xB52F, 0x090E, 0x3624, 0x9B1B, 0x3DDF,
    0x26CD, 0x694E, 0xCD7F, 0x9FEA, 0x1B12, 0x9E1D, 0x7458, 0x2E34, 0x2D36, 0xB2DC, 0xEEB4, 0xFB5B,
    0xF6A4, 0x4D76, 0x61B7, 0xCE7D, 0x7B52, 0x3EDD, 0x715E, 0x9713, 0xF5A6, 0x68B9, 0x0000, 0x2CC1,
    0x6040, 0x1FE3, 0xC879, 0xEDB6, 0xBED4, 0x468D, 0xD967, 0x4B72, 0xDE94, 0xD498, 0xE8B0, 0x4A85,
    0x6BBB, 0x2AC5, 0xE54F, 0x16ED, 0xC586, 0xD79A, 0x5566, 0x9411, 0xCF8A, 0x10E9, 0x0604, 0x81FE,
    0xF0A0, 0x4478, 0xBA25, 0xE34B, 0xF3A2, 0xFE5D, 0xC080, 0x8A05, 0xAD3F, 0xBC21, 0x4870, 0x04F1,
    0xDF63, 0xC177, 0x75AF, 0x6342, 0x3020, 0x1AE5, 0x0EFD, 0x6DBF, 0x4C81, 0x1418, 0x3526, 0x2FC3,
    0xE1BE, 0xA235, 0xCC88, 0x392E, 0x5793, 0xF255, 0x82FC, 0x477A, 0xACC8, 0xE7BA, 0x2B32, 0x95E6,
    0xA0C0, 0x9819, 0xD19E, 0x7FA3, 0x6644, 0x7E54, 0xAB3B, 0x830B, 0xCA8C, 0x29C7, 0xD36B, 0x3C28,
    0x79A7, 0xE2BC, 0x1D16, 0x76AD, 0x3BDB, 0x5664, 0x4E74, 0x1E14, 0xDB92, 0x0A0C, 0x6C48, 0xE4B8,
    0x5D9F, 0x6EBD, 0xEF43, 0xA6C4, 0xA839, 0xA431, 0x37D3, 0x8BF2, 0x32D5, 0x438B, 0x596E, 0xB7DA,
    0x8C01, 0x64B1, 0xD29C, 0xE049, 0xB4D8, 0xFAAC, 0x07F3, 0x25CF, 0xAFCA, 0x8EF4, 0xE947, 0x1810,
    0xD56F, 0x88F0, 0x6F4A, 0x725C, 0x2438, 0xF157, 0xC773, 0x5197, 0x23CB, 0x7CA1, 0x9CE8, 0x213E,
    0xDD96, 0xDC61, 0x860D, 0x850F, 0x90E0, 0x427C, 0xC471, 0xAACC, 0xD890, 0x0506, 0x01F7, 0x121C,
    0xA3C2, 0x5F6A, 0xF9AE, 0xD069, 0x9117, 0x5899, 0x273A, 0xB927, 0x38D9, 0x13EB, 0xB32B, 0x3322,
    0xBBD2, 0x70A9, 0x8907, 0xA733, 0xB62D, 0x223C, 0x9215, 0x20C9, 0x4987, 0xFFAA, 0x7850, 0x7AA5,
    0x8F03, 0xF859, 0x8009, 0x171A, 0xDA65, 0x31D7, 0xC684, 0xB8D0, 0xC382, 0xB029, 0x775A, 0x111E,
    0xCB7B, 0xFCA8, 0xD66D, 0x3A2C]"

definition RotR1 :: "u16 \<Rightarrow> u16" where
  "RotR1 v = (drop_bit 1 v AND 0x7FFF) XOR push_bit 15 (v AND 1)"

definition Lo8 :: "u16 \<Rightarrow> u8" where "Lo8 v = ucast (v AND 0x00FF)"

definition Hi8 :: "u16 \<Rightarrow> u8" where "Hi8 v = ucast (drop_bit 8 v AND 0x00FF)"

definition Lo16 :: "u32 \<Rightarrow> u16" where "Lo16 v = ucast (v AND 0xFFFF)"

definition Hi16 :: "u32 \<Rightarrow> u16" where "Hi16 v = ucast (drop_bit 16 v AND 0xFFFF)"

definition Mk16 :: "u8 \<Rightarrow> u8 \<Rightarrow> u16" where "Mk16 hi lo = ucast lo XOR push_bit 8 (ucast hi)"

definition TK16 :: "buf \<Rightarrow> nat \<Rightarrow> u16" where "TK16 tk n = Mk16 (tk ! (2 * n + 1)) (tk ! (2 * n))"

definition Sbox_S :: "u16 \<Rightarrow> u16" where
  "Sbox_S v = Sbox1_lo ! unat (Lo8 v) XOR Sbox1_hi ! unat (Hi8 v)"

text \<open>\<open>a[i] += g(a[j])\<close>, the form of every mixing step.\<close>

definition add_at :: "nat \<Rightarrow> nat \<Rightarrow> (u16 \<Rightarrow> u16) \<Rightarrow> u16 list \<Rightarrow> u16 list" where
  "add_at i j g a = a[i := a ! i + g (a ! j)]"

definition mix_S :: "buf \<Rightarrow> nat \<Rightarrow> nat \<Rightarrow> nat \<Rightarrow> u16 list \<Rightarrow> u16 list" where
  "mix_S tk i j n = add_at i j (\<lambda>v. Sbox_S (v XOR TK16 tk n))"

definition phase1_round :: "buf \<Rightarrow> nat \<Rightarrow> u16 list \<Rightarrow> u16 list" where
  "phase1_round tk i p1k =
     (let p1k = mix_S tk 0 4 (i mod 2 + 0) p1k;
          p1k = mix_S tk 1 0 (i mod 2 + 2) p1k;
          p1k = mix_S tk 2 1 (i mod 2 + 4) p1k;
          p1k = mix_S tk 3 2 (i mod 2 + 6) p1k;
          p1k = mix_S tk 4 3 (i mod 2 + 0) p1k in
      p1k[4 := p1k ! 4 + word_of_nat i])"

definition phase1 :: "buf \<Rightarrow> buf \<Rightarrow> u32 \<Rightarrow> u16 list" where
  "phase1 tk ta iv32 =
     fold (phase1_round tk) [0..<8]
       [Lo16 iv32, Hi16 iv32, Mk16 (ta ! 1) (ta ! 0), Mk16 (ta ! 3) (ta ! 2), Mk16 (ta ! 5) (ta ! 4)]"

definition phase2_mix :: "buf \<Rightarrow> u16 list \<Rightarrow> u16 list" where
  "phase2_mix tk PPK =
     (let PPK = mix_S tk 0 5 0 PPK;
          PPK = mix_S tk 1 0 1 PPK;
          PPK = mix_S tk 2 1 2 PPK;
          PPK = mix_S tk 3 2 3 PPK;
          PPK = mix_S tk 4 3 4 PPK;
          PPK = mix_S tk 5 4 5 PPK;
          PPK = add_at 0 5 (\<lambda>v. RotR1 (v XOR TK16 tk 6)) PPK;
          PPK = add_at 1 0 (\<lambda>v. RotR1 (v XOR TK16 tk 7)) PPK;
          PPK = add_at 2 1 RotR1 PPK;
          PPK = add_at 3 2 RotR1 PPK;
          PPK = add_at 4 3 RotR1 PPK in
      add_at 5 4 RotR1 PPK)"

definition phase2 :: "buf \<Rightarrow> u16 list \<Rightarrow> u16 \<Rightarrow> buf" where
  "phase2 tk p1k iv16 =
     (let PPK = phase2_mix tk (take 5 p1k @ [p1k ! 4 + iv16]) in
      [Hi8 iv16, (Hi8 iv16 OR 0x20) AND 0x7F, Lo8 iv16, Lo8 (drop_bit 1 (PPK ! 5 XOR TK16 tk 0))]
      @ concat (map (\<lambda>i. [Lo8 (PPK ! i), Hi8 (PPK ! i)]) [0..<6]))"

section \<open>Packet numbers and IVs\<close>

text \<open>Byte \<open>TSC<n>\<close> of the packet number, and the number made of six such bytes. The two high bytes
  of the union are never read.\<close>

definition TSC :: "nat \<Rightarrow> u64 \<Rightarrow> u8" where "TSC n pn = ucast (drop_bit (8 * n) pn)"

definition pn48_bytes :: "u8 \<Rightarrow> u8 \<Rightarrow> u8 \<Rightarrow> u8 \<Rightarrow> u8 \<Rightarrow> u8 \<Rightarrow> u64" where
  "pn48_bytes t0 t1 t2 t3 t4 t5 = ucast t0 OR push_bit 8 (ucast t1) OR push_bit 16 (ucast t2)
     OR push_bit 24 (ucast t3) OR push_bit 32 (ucast t4) OR push_bit 40 (ucast t5)"

definition GET_TKIP_PN :: "buf \<Rightarrow> nat \<Rightarrow> u64 option" where
  "GET_TKIP_PN b iv = do {
     t0 \<leftarrow> rd b (iv + 2); t1 \<leftarrow> rd b iv; t2 \<leftarrow> rd b (iv + 4);
     t3 \<leftarrow> rd b (iv + 5); t4 \<leftarrow> rd b (iv + 6); t5 \<leftarrow> rd b (iv + 7);
     Some (pn48_bytes t0 t1 t2 t3 t4 t5) }"

definition next_pn :: "u64 \<Rightarrow> u64" where
  "next_pn pn = (if pn = 0xffffffffffff then 0 else pn + 1)"

definition TKIP_IV :: "u64 \<Rightarrow> u8 \<Rightarrow> u64 \<times> buf" where
  "TKIP_IV pn keyidx =
     (let pn = next_pn pn in
      (pn, [TSC 1 pn, (TSC 1 pn OR 0x20) AND 0x7f, TSC 0 pn, 0x20 OR push_bit 6 (keyidx AND 0x3),
            TSC 2 pn, TSC 3 pn, TSC 4 pn, TSC 5 pn]))"

definition AES_IV :: "u64 \<Rightarrow> u8 \<Rightarrow> u64 \<times> buf" where
  "AES_IV pn keyidx =
     (let pn = next_pn pn in
      (pn, [TSC 0 pn, TSC 1 pn, 0, 0x20 OR push_bit 6 (keyidx AND 0x3), TSC 2 pn, TSC 3 pn, TSC 4 pn, TSC 5 pn]))"

definition WEP_IV :: "u64 \<Rightarrow> u8 \<Rightarrow> u64 \<times> buf" where
  "WEP_IV pn keyidx =
     (let pn = (if pn = 0xffffff then 0 else pn + 1) in
      (pn, [TSC 0 pn, TSC 1 pn, TSC 2 pn, push_bit 6 (keyidx AND 0x3)]))"

section \<open>Frames\<close>

text \<open>The RC4 key of the fragment whose IV is at offset \<open>iv\<close>, and the context initialised with it.
  \<open>prwskey\<close> holds at least 16 bytes and \<open>ta\<close> six.\<close>

definition tkip_rc4key :: "buf \<Rightarrow> buf \<Rightarrow> buf \<Rightarrow> nat \<Rightarrow> buf option" where
  "tkip_rc4key prwskey ta frame iv = do {
     prwskey \<leftarrow> rd_n prwskey 0 16;
     ta \<leftarrow> rd_n ta 0 6;
     dot11txpn \<leftarrow> GET_TKIP_PN frame iv;
     let pnl = ucast dot11txpn;
     let pnh = ucast (drop_bit 16 dot11txpn);
     Some (phase2 prwskey (phase1 prwskey ta pnh) pnl) }"

definition tkip_context :: "buf \<Rightarrow> buf \<Rightarrow> buf \<Rightarrow> nat \<Rightarrow> arc4context option" where
  "tkip_context prwskey ta frame iv = do { rc4key \<leftarrow> tkip_rc4key prwskey ta frame iv; arcfour_init rc4key 16 }"

definition IS_MCAST :: "buf \<Rightarrow> bool option" where
  "IS_MCAST da = do { b \<leftarrow> rd da 0; Some (b AND 1 \<noteq> 0) }"

definition nth_key :: "buf list \<Rightarrow> nat \<Rightarrow> buf option" where
  "nth_key ks i = (if i < length ks then Some (ks ! i) else None)"

text \<open>The result is the return value (\<open>True\<close> for \<open>_SUCCESS\<close>) and the buffer.\<close>

definition rtw_tkip_encrypt ::
  "security_priv \<Rightarrow> pkt_attrib \<Rightarrow> nat \<Rightarrow> nat \<Rightarrow> buf option \<Rightarrow> nat \<Rightarrow> (bool \<times> buf option) option" where
  "rtw_tkip_encrypt sec attr frag_len base buf_addr hw_hdr_offset =
     (case buf_addr of None \<Rightarrow> Some (False, None)
      | Some frame \<Rightarrow>
        if encrypt attr = 2 then do {
          mc \<leftarrow> IS_MCAST (tx_ra attr);
          prwskey \<leftarrow> (if mc then nth_key (dot118021XGrpKey sec) (dot118021XGrpKeyid sec)
                     else Some (dot118021x_UncstKey attr));
          frame \<leftarrow> rc4_fragments (nr_frags attr) (tkip_context prwskey (tx_ta attr)) attr frag_len base frame hw_hdr_offset;
          Some (True, Some frame) }
        else Some (True, Some frame))"

text \<open>The comparison of the ICV, last byte first; \<open>e\<close> is the end of the payload.\<close>

fun icv_mismatch :: "buf \<Rightarrow> nat \<Rightarrow> buf \<Rightarrow> nat list \<Rightarrow> bool option" where
  "icv_mismatch frame e crc [] = Some False"
| "icv_mismatch frame e crc (j # js) =
     (if e < 4 - j then None
      else do {
        b \<leftarrow> rd frame (e - (4 - j));
        if crc ! j \<noteq> b then Some True else icv_mismatch frame e crc js })"

text \<open>\<open>rtw_get_stainfo\<close> is an argument: it gives the unicast key of the station with the
  transmitter address, if there is one. The counters of frames received without a group key
  are only printed.\<close>

definition rtw_tkip_decrypt :: "security_priv \<Rightarrow> (buf \<Rightarrow> buf option) \<Rightarrow> rx_pkt_attrib \<Rightarrow> buf \<Rightarrow> (bool \<times> buf) option" where
  "rtw_tkip_decrypt sec rtw_get_stainfo rx frame =
     (if rx_encrypt rx = 2 then
        (case rtw_get_stainfo (rx_ta rx) of None \<Rightarrow> Some (False, frame)
         | Some uncst_key \<Rightarrow> do {
           mc \<leftarrow> IS_MCAST (rx_ra rx);
           if mc \<and> \<not> binstallGrpkey sec then Some (False, frame)
           else do {
             prwskey \<leftarrow> (if mc then nth_key (dot118021XGrpKey sec) (rx_key_index rx) else Some uncst_key);
             ctx \<leftarrow> tkip_context prwskey (rx_ta rx) frame (rx_hdrlen rx);
             let payload = rx_iv_len rx + rx_hdrlen rx;
             let len = int (rx_len rx) - int (rx_hdrlen rx) - int (rx_iv_len rx);
             frame \<leftarrow> rc4_unprotect ctx frame payload len;
             data \<leftarrow> rd_n frame payload (nat (len - 4));
             let crc = le32_bytes (getcrc32 data);
             mismatch \<leftarrow> icv_mismatch frame (payload + nat len) crc [3, 2, 1, 0];
             Some (\<not> mismatch, frame) } })
      else Some (True, frame))"

section \<open>The mixing is a keyed permutation\<close>

definition perm_on :: "nat \<Rightarrow> (u16 list \<Rightarrow> u16 list) \<Rightarrow> bool" where
  "perm_on n F \<longleftrightarrow> (\<forall>xs. length xs = n \<longrightarrow> length (F xs) = n) \<and> inj_on F {xs. length xs = n}"

named_theorems perm_intros \<open>functions that permute the lists of a length\<close>

lemma perm_onI:
  assumes "\<And>xs. length xs = n \<Longrightarrow> length (F xs) = n"
    and "\<And>xs ys. length xs = n \<Longrightarrow> length ys = n \<Longrightarrow> F xs = F ys \<Longrightarrow> xs = ys"
  shows "perm_on n F"
  unfolding perm_on_def inj_on_def using assms by blast

lemma perm_on_length: "perm_on n F \<Longrightarrow> length xs = n \<Longrightarrow> length (F xs) = n"
  by (simp add: perm_on_def)

lemma perm_on_eq: "perm_on n F \<Longrightarrow> length xs = n \<Longrightarrow> length ys = n \<Longrightarrow> F xs = F ys \<longleftrightarrow> xs = ys"
  unfolding perm_on_def inj_on_def by blast

lemma perm_on_comp [perm_intros]: "perm_on n F \<Longrightarrow> perm_on n G \<Longrightarrow> perm_on n (F \<circ> G)"
  by (rule perm_onI) (simp_all add: perm_on_length perm_on_eq)

lemma perm_on_fold: "(\<And>i. i \<in> set is \<Longrightarrow> perm_on n (F i)) \<Longrightarrow> perm_on n (fold F is)"
proof (induction "is")
  case (Cons i "is")
  then have "perm_on n (fold F is \<circ> F i)" by (intro perm_on_comp) simp_all
  then show ?case by (simp add: comp_def)
qed (simp add: perm_on_def)

lemma list_update_undo: "xs[i := a] = ys[i := b] \<Longrightarrow> xs ! i = ys ! i \<Longrightarrow> xs = ys"
proof -
  assume e: "xs[i := a] = ys[i := b]" "xs ! i = ys ! i"
  have "xs = xs[i := a, i := xs ! i]" by simp
  also have "\<dots> = ys[i := b, i := ys ! i]" by (simp only: e)
  finally show "xs = ys" by simp
qed

lemma perm_on_add_at [perm_intros]:
  assumes "i < n" and "j < n" and "i \<noteq> j"
  shows "perm_on n (add_at i j g)"
proof -
  have inj: "xs = ys" if l: "length xs = n" "length ys = n" and e: "add_at i j g xs = add_at i j g ys" for xs ys
  proof -
    have "xs ! j = ys ! j" using arg_cong [OF e, of "\<lambda>zs. zs ! j"] assms l by (simp add: add_at_def)
    moreover have "xs ! i + g (xs ! j) = ys ! i + g (ys ! j)"
      using arg_cong [OF e, of "\<lambda>zs. zs ! i"] assms l by (simp add: add_at_def)
    ultimately show ?thesis using list_update_undo [OF e [unfolded add_at_def]] by simp
  qed
  show ?thesis by (rule perm_onI, simp add: add_at_def, rule inj)
qed

lemma perm_on_add_const [perm_intros]:
  assumes "i < n"
  shows "perm_on n (\<lambda>xs. xs[i := xs ! i + c])"
proof -
  have inj: "xs = ys" if l: "length xs = n" "length ys = n" and e: "xs[i := xs ! i + c] = ys[i := ys ! i + c]" for xs ys :: "u16 list"
    using arg_cong [OF e, of "\<lambda>zs. zs ! i"] assms l list_update_undo [OF e] by simp
  show ?thesis by (rule perm_onI, simp, rule inj)
qed

lemma perm_on_phase1_round: "perm_on 5 (phase1_round tk i)"
proof -
  have "perm_on 5 ((\<lambda>q. q[4 := q ! 4 + word_of_nat i]) \<circ> mix_S tk 4 3 (i mod 2 + 0) \<circ> mix_S tk 3 2 (i mod 2 + 6)
      \<circ> mix_S tk 2 1 (i mod 2 + 4) \<circ> mix_S tk 1 0 (i mod 2 + 2) \<circ> mix_S tk 0 4 (i mod 2 + 0))"
    unfolding mix_S_def by (intro perm_intros) simp_all
  then show ?thesis by (simp add: phase1_round_def [abs_def] Let_def comp_def)
qed

lemma perm_on_phase2_mix: "perm_on 6 (phase2_mix tk)"
proof -
  have "perm_on 6 (add_at 5 4 RotR1 \<circ> add_at 4 3 RotR1 \<circ> add_at 3 2 RotR1 \<circ> add_at 2 1 RotR1
      \<circ> add_at 1 0 (\<lambda>v. RotR1 (v XOR TK16 tk 7)) \<circ> add_at 0 5 (\<lambda>v. RotR1 (v XOR TK16 tk 6))
      \<circ> mix_S tk 5 4 5 \<circ> mix_S tk 4 3 4 \<circ> mix_S tk 3 2 3 \<circ> mix_S tk 2 1 2 \<circ> mix_S tk 1 0 1 \<circ> mix_S tk 0 5 0)"
    unfolding mix_S_def by (intro perm_intros) simp_all
  then show ?thesis by (simp add: phase2_mix_def [abs_def] Let_def comp_def)
qed

lemma low_masks: "(0xFF :: u16) = mask 8" "(0xFFFF :: u32) = mask 16"
  by (simp_all add: mask_eq_exp_minus_1)

lemma bytes_determine: "Lo8 v = Lo8 w \<Longrightarrow> Hi8 v = Hi8 w \<Longrightarrow> v = w"
proof (rule bit_word_eqI)
  fix n assume e: "Lo8 v = Lo8 w" "Hi8 v = Hi8 w" and n: "n < LENGTH(16)"
  have "bit v k = bit w k" if "k < 8" for k
    using arg_cong [OF e(1), of "\<lambda>x. bit x k"] that by (simp add: Lo8_def low_masks bit_simps)
  moreover have "bit v (8 + k) = bit w (8 + k)" if "k < 8" for k
    using arg_cong [OF e(2), of "\<lambda>x. bit x k"] that by (simp add: Hi8_def low_masks bit_simps)
  ultimately show "bit v n = bit w n" using n by (cases "n < 8") (auto dest: meta_spec [of _ "n - 8"])
qed

lemma halves_determine: "Lo16 v = Lo16 w \<Longrightarrow> Hi16 v = Hi16 w \<Longrightarrow> v = w"
proof (rule bit_word_eqI)
  fix n assume e: "Lo16 v = Lo16 w" "Hi16 v = Hi16 w" and n: "n < LENGTH(32)"
  have "bit v k = bit w k" if "k < 16" for k
    using arg_cong [OF e(1), of "\<lambda>x. bit x k"] that by (simp add: Lo16_def low_masks bit_simps)
  moreover have "bit v (16 + k) = bit w (16 + k)" if "k < 16" for k
    using arg_cong [OF e(2), of "\<lambda>x. bit x k"] that by (simp add: Hi16_def low_masks bit_simps)
  ultimately show "bit v n = bit w n" using n by (cases "n < 16") (auto dest: meta_spec [of _ "n - 16"])
qed

lemma Mk16_inject: "Mk16 h l = Mk16 h' l' \<longleftrightarrow> h = h' \<and> l = l'"
proof -
  have "Lo8 (Mk16 h l) = l" "Hi8 (Mk16 h l) = h" for h l
    by (rule bit_word_eqI, auto simp: Mk16_def Lo8_def Hi8_def low_masks bit_simps dest: bit_imp_le_length)+
  then show ?thesis by metis
qed

lemma phase1_inject:
  assumes "length ta = 6" and "length ta' = 6" and "phase1 tk ta iv32 = phase1 tk ta' iv32'"
  shows "ta = ta' \<and> iv32 = iv32'"
proof -
  have "perm_on 5 (fold (phase1_round tk) [0..<8])" by (intro perm_on_fold perm_on_phase1_round)
  then have "Lo16 iv32 = Lo16 iv32'" "Hi16 iv32 = Hi16 iv32'" "\<forall>i\<in>{0, 1, 2, 3, 4, 5}. ta ! i = ta' ! i"
    using assms(3) by (simp_all add: phase1_def perm_on_eq Mk16_inject del: upt_Suc)
  moreover from this(3) have "ta = ta'"
    using assms(1,2) by (intro nth_equalityI) (auto simp: numeral_eq_Suc less_Suc_eq)
  ultimately show ?thesis using halves_determine by blast
qed

lemma length_phase1: "length (phase1 tk ta iv32) = 5"
  unfolding phase1_def by (rule perm_on_length [OF perm_on_fold [OF perm_on_phase1_round]]) simp

lemma phase2_inject:
  assumes "length p = 5" and "length q = 5" and "phase2 tk p iv16 = phase2 tk q iv16'"
  shows "p = q \<and> iv16 = iv16'"
proof -
  let ?P = "phase2_mix tk (take 5 p @ [p ! 4 + iv16])" and ?Q = "phase2_mix tk (take 5 q @ [q ! 4 + iv16'])"
  have len: "length ?P = 6" "length ?Q = 6"
    using assms(1,2) by (simp_all add: perm_on_length [OF perm_on_phase2_mix])
  have "\<forall>i\<in>{0, 1, 2, 3, 4, 5}. Lo8 (?P ! i) = Lo8 (?Q ! i) \<and> Hi8 (?P ! i) = Hi8 (?Q ! i)"
    using assms(3) by (simp add: phase2_def Let_def upt_rec numeral_eq_Suc)
  then have "\<forall>i\<in>{0, 1, 2, 3, 4, 5}. ?P ! i = ?Q ! i" using bytes_determine by blast
  then have "?P = ?Q" using len by (intro nth_equalityI) (auto simp: numeral_eq_Suc less_Suc_eq)
  then show ?thesis using assms(1,2) by (auto simp: perm_on_eq [OF perm_on_phase2_mix])
qed

lemma tkip_mix_inject:
  assumes "phase2 tk (phase1 tk ta iv32) iv16 = phase2 tk (phase1 tk ta' iv32') iv16'" and "length ta = 6" and "length ta' = 6"
  shows "ta = ta' \<and> iv32 = iv32' \<and> iv16 = iv16'"
  using phase2_inject [OF length_phase1 length_phase1 assms(1)] phase1_inject [OF assms(2,3)] by blast

text \<open>TKIP key mixing never gives the same RC4 key for two different combinations of
  transmitter address, high and low part of the packet number under one temporal key, as the
  comment in \<open>phase2\<close> claims.\<close>

theorem tkip_rc4key_unique:
  assumes "length ta = 6" and "length ta' = 6" and "(ta, iv32, iv16) \<noteq> (ta', iv32', iv16')"
  shows "phase2 tk (phase1 tk ta iv32) iv16 \<noteq> phase2 tk (phase1 tk ta' iv32') iv16'"
  using tkip_mix_inject [OF _ assms(1,2)] assms(3) by blast

theorem tkip_rc4key_unique_witness:
  "phase2 (replicate 16 7) (phase1 (replicate 16 7) [2, 0, 0, 0, 0, 1] 5) 0
    \<noteq> phase2 (replicate 16 7) (phase1 (replicate 16 7) [2, 0, 0, 0, 0, 1] 5) 1"
  by (rule tkip_rc4key_unique) simp_all

text \<open>The second half of the S-box table is the byte-swapped first half, as its comment says.\<close>

theorem Sbox1_halves: "Sbox1_hi = map (\<lambda>v. Mk16 (Lo8 v) (Hi8 v)) Sbox1_lo \<and> length Sbox1_lo = 256"
  by (simp add: Sbox1_hi_def Sbox1_lo_def Mk16_def Lo8_def Hi8_def)

section \<open>Packet numbers\<close>

lemma pn48_bound_bit: "unat (pn :: u64) < 2 ^ 48 \<Longrightarrow> 48 \<le> n \<Longrightarrow> \<not> bit pn n"
proof
  assume "unat pn < 2 ^ 48" "48 \<le> n" "bit pn n"
  then have "bit (unat pn) n" by (simp add: bit_unsigned_iff)
  moreover have "take_bit 48 (unat pn) = unat pn" using \<open>unat pn < 2 ^ 48\<close> by (simp add: take_bit_nat_eq_self)
  ultimately show False using \<open>48 \<le> n\<close> by (metis bit_take_bit_iff not_le)
qed

lemma pn48_bytes_TSC:
  assumes "unat pn < 2 ^ 48"
  shows "pn48_bytes (TSC 0 pn) (TSC 1 pn) (TSC 2 pn) (TSC 3 pn) (TSC 4 pn) (TSC 5 pn) = pn"
proof (rule bit_word_eqI)
  fix n assume "n < LENGTH(64)"
  then consider "n < 8" | "8 \<le> n" "n < 16" | "16 \<le> n" "n < 24" | "24 \<le> n" "n < 32" | "32 \<le> n" "n < 40"
    | "40 \<le> n" "n < 48" | "48 \<le> n" "n < 64" by fastforce
  then show "bit (pn48_bytes (TSC 0 pn) (TSC 1 pn) (TSC 2 pn) (TSC 3 pn) (TSC 4 pn) (TSC 5 pn)) n = bit pn n"
    by cases (auto simp: pn48_bytes_def TSC_def bit_simps pn48_bound_bit [OF assms])
qed

lemma unat_next_pn: "unat pn < 2 ^ 48 \<Longrightarrow> unat (next_pn pn) = (unat pn + 1) mod 2 ^ 48"
proof (cases "pn = 0xffffffffffff")
  case False
  assume "unat pn < 2 ^ 48"
  moreover from False have "unat pn \<noteq> unat (0xffffffffffff :: u64)" by (simp only: word_unat_eq_iff [symmetric] not_False_eq_True)
  ultimately have "unat pn + 1 < 2 ^ 48" by simp
  then show ?thesis using False by (simp add: next_pn_def unat_word_ariths)
qed (simp add: next_pn_def)

lemma unat_next_pns: "unat pn < 2 ^ 48 \<Longrightarrow> unat ((next_pn ^^ n) pn) = (unat pn + n) mod 2 ^ 48"
proof (induction n)
  case (Suc n)
  then show ?case using unat_next_pn [of "(next_pn ^^ n) pn"] by (simp add: mod_simps)
qed simp

lemma GET_TKIP_PN_TKIP_IV:
  assumes "unat pn < 2 ^ 48"
  shows "GET_TKIP_PN (snd (TKIP_IV pn k)) 0 = Some (next_pn pn)"
proof -
  have "unat (next_pn pn) < 2 ^ 48" using unat_next_pn [OF assms] by simp
  then show ?thesis by (simp add: GET_TKIP_PN_def TKIP_IV_def Let_def mem_simps pn48_bytes_TSC [simplified])
qed

lemma pn_parts_determine:
  fixes pn qn :: u64
  assumes "unat pn < 2 ^ 48" "unat qn < 2 ^ 48" "(ucast pn :: u16) = ucast qn"
    and "(ucast (drop_bit 16 pn) :: u32) = ucast (drop_bit 16 qn)"
  shows "pn = qn"
proof (rule bit_word_eqI)
  fix n assume "n < LENGTH(64)"
  then have "n < 16 \<or> (\<exists>k. n = 16 + k \<and> k < 32) \<or> 48 \<le> n" by simp presburger
  then consider "n < 16" | k where "n = 16 + k" "k < 32" | "48 \<le> n" by blast
  then show "bit pn n = bit qn n"
  proof cases
    case 1
    with arg_cong [OF assms(3), of "\<lambda>w. bit w n"] show ?thesis by (simp add: bit_simps)
  next
    case 2
    with arg_cong [OF assms(4), of "\<lambda>w. bit w k"] show ?thesis by (simp add: bit_simps)
  next
    case 3
    then show ?thesis using pn48_bound_bit [OF assms(1)] pn48_bound_bit [OF assms(2)] by simp
  qed
qed

lemma tkip_rc4key_of_IV:
  assumes "16 \<le> length key" and "6 \<le> length ta" and "unat pn < 2 ^ 48"
  shows "tkip_rc4key key ta (snd (TKIP_IV pn k)) 0
    = Some (phase2 (take 16 key) (phase1 (take 16 key) (take 6 ta) (ucast (drop_bit 16 (next_pn pn)))) (ucast (next_pn pn)))"
  using assms(1,2) GET_TKIP_PN_TKIP_IV [OF assms(3)] by (simp add: tkip_rc4key_def rd_n_def Let_def)

text \<open>The IV that \<open>TKIP_IV\<close> writes carries the incremented packet number, from which the receiver
  computes the RC4 key, and its first three bytes are the clear-text part of that key.\<close>

theorem TKIP_IV_roundtrip:
  assumes "16 \<le> length key" and "6 \<le> length ta" and "unat pn < 2 ^ 48"
  shows "GET_TKIP_PN (snd (TKIP_IV pn k)) 0 = Some (fst (TKIP_IV pn k))
    \<and> unat (fst (TKIP_IV pn k)) = (unat pn + 1) mod 2 ^ 48
    \<and> (\<exists>rc4key. tkip_rc4key key ta (snd (TKIP_IV pn k)) 0 = Some rc4key \<and> length rc4key = 16
        \<and> take 3 rc4key = take 3 (snd (TKIP_IV pn k)))"
proof -
  have b: "Hi8 (ucast w) = TSC 1 w" "Lo8 (ucast w) = TSC 0 w" for w
    by (rule bit_word_eqI, simp add: Hi8_def Lo8_def TSC_def low_masks bit_simps)+
  show ?thesis
    using GET_TKIP_PN_TKIP_IV [OF assms(3)] unat_next_pn [OF assms(3)] tkip_rc4key_of_IV [OF assms]
    by (simp add: TKIP_IV_def phase2_def Let_def b upt_rec)
qed

theorem TKIP_IV_roundtrip_witness:
  "GET_TKIP_PN (snd (TKIP_IV 0xffffffffffff 1)) 0 = Some (fst (TKIP_IV 0xffffffffffff 1))
    \<and> unat (fst (TKIP_IV 0xffffffffffff 1)) = (unat (0xffffffffffff :: u64) + 1) mod 2 ^ 48
    \<and> (\<exists>rc4key. tkip_rc4key (replicate 16 7) (replicate 6 2) (snd (TKIP_IV 0xffffffffffff 1)) 0 = Some rc4key
        \<and> length rc4key = 16 \<and> take 3 rc4key = take 3 (snd (TKIP_IV 0xffffffffffff 1)))"
  by (rule TKIP_IV_roundtrip) simp_all

text \<open>C28: a station that takes its IVs from \<open>TKIP_IV\<close> encrypts no two of \<open>2 ^ 48\<close> successive frames
  with the same RC4 key.\<close>

theorem tkip_key_never_reused:
  assumes "16 \<le> length key" and "6 \<le> length ta" and "unat pn < 2 ^ 48" and "i < j" and "j < i + 2 ^ 48"
  shows "\<exists>a b. tkip_rc4key key ta (snd (TKIP_IV ((next_pn ^^ i) pn) k)) 0 = Some a
    \<and> tkip_rc4key key ta (snd (TKIP_IV ((next_pn ^^ j) pn) k')) 0 = Some b \<and> a \<noteq> b"
proof -
  let ?p = "(next_pn ^^ Suc i) pn" and ?q = "(next_pn ^^ Suc j) pn"
  have u: "unat ((next_pn ^^ n) pn) < 2 ^ 48" for n using unat_next_pns [OF assms(3)] by simp
  have "(unat pn + Suc i) mod 2 ^ 48 \<noteq> (unat pn + Suc j) mod 2 ^ 48"
  proof
    assume "(unat pn + Suc i) mod 2 ^ 48 = (unat pn + Suc j) mod 2 ^ 48"
    then have "2 ^ 48 dvd (unat pn + Suc j) - (unat pn + Suc i)"
      using assms(4) mod_eq_dvd_iff_nat [of "unat pn + Suc i" "unat pn + Suc j" "2 ^ 48"] by simp
    moreover have "0 < (unat pn + Suc j) - (unat pn + Suc i)" "(unat pn + Suc j) - (unat pn + Suc i) < 2 ^ 48"
      using assms(4,5) by simp_all
    ultimately show False using nat_dvd_not_less by blast
  qed
  then have "?p \<noteq> ?q" using unat_next_pns [OF assms(3)] by metis
  then have "((ucast ?p :: u16), (ucast (drop_bit 16 ?p) :: u32)) \<noteq> (ucast ?q, ucast (drop_bit 16 ?q))"
    using pn_parts_determine u by blast
  then have "phase2 (take 16 key) (phase1 (take 16 key) (take 6 ta) (ucast (drop_bit 16 ?p))) (ucast ?p)
      \<noteq> phase2 (take 16 key) (phase1 (take 16 key) (take 6 ta) (ucast (drop_bit 16 ?q))) (ucast ?q)"
    using tkip_mix_inject [of "take 16 key" "take 6 ta" _ _ "take 6 ta"] assms(2) by auto
  then show ?thesis using tkip_rc4key_of_IV [OF assms(1,2) u] by simp
qed

theorem tkip_key_never_reused_witness:
  "\<exists>a b. tkip_rc4key (replicate 16 7) (replicate 6 2) (snd (TKIP_IV ((next_pn ^^ 0) 0) 0)) 0 = Some a
    \<and> tkip_rc4key (replicate 16 7) (replicate 6 2) (snd (TKIP_IV ((next_pn ^^ 5) 0) 0)) 0 = Some b \<and> a \<noteq> b"
  by (rule tkip_key_never_reused) simp_all

section \<open>Decryption undoes encryption\<close>

definition tkip_key_ok :: "buf \<Rightarrow> buf \<Rightarrow> bool" where
  "tkip_key_ok key ta \<longleftrightarrow> 16 \<le> length key \<and> 6 \<le> length ta"

lemma length_phase2: "length p = 5 \<Longrightarrow> length (phase2 tk p iv16) = 16"
  by (simp add: phase2_def Let_def upt_rec)

lemma GET_TKIP_PN_local:
  assumes "8 \<le> length ivb"
  shows "GET_TKIP_PN (xs @ ivb @ ys) (length xs) = GET_TKIP_PN ivb 0"
proof -
  have "rd (xs @ ivb @ ys) (length xs + i) = rd ivb i" if "i < 8" for i
    using that assms by (simp add: rd_def nth_append)
  from this [of 0] this [of 2] this [of 4] this [of 5] this [of 6] this [of 7]
  show ?thesis by (simp add: GET_TKIP_PN_def numeral_2_eq_2)
qed

interpretation tkip: rc4_mode "\<lambda>(key, ta). tkip_context key ta" 8 "\<lambda>(key, ta). tkip_key_ok key ta"
proof
  fix ivb xs ys :: buf and k :: "buf \<times> buf"
  assume "8 \<le> length ivb"
  then show "(case k of (key, ta) \<Rightarrow> tkip_context key ta) (xs @ ivb @ ys) (length xs)
      = (case k of (key, ta) \<Rightarrow> tkip_context key ta) ivb 0"
    by (cases k) (simp add: tkip_context_def tkip_rc4key_def GET_TKIP_PN_local)
next
  fix ivb :: buf and k :: "buf \<times> buf"
  assume l: "8 \<le> length ivb" and k: "case k of (key, ta) \<Rightarrow> tkip_key_ok key ta"
  obtain key ta where k': "k = (key, ta)" by (cases k)
  have "rd ivb i = Some (ivb ! i)" if "i < 8" for i using that l by (simp add: rd_def)
  then obtain pn where "GET_TKIP_PN ivb 0 = Some pn" by (simp add: GET_TKIP_PN_def)
  then obtain rc4key where "tkip_rc4key key ta ivb 0 = Some rc4key" "length rc4key = 16"
    using k k' by (auto simp: tkip_rc4key_def tkip_key_ok_def rd_n_def Let_def length_phase2 length_phase1)
  then show "\<exists>c. (case k of (key, ta) \<Rightarrow> tkip_context key ta) ivb 0 = Some c"
    using arcfour_init_ok [of 16 rc4key] k' by (auto simp: tkip_context_def)
qed

lemma icv_match: "icv_mismatch (pre @ le32_bytes v) (length pre + 4) (le32_bytes v) [3, 2, 1, 0] = Some False"
proof -
  have "rd (pre @ le32_bytes v) (length pre + j) = Some (le32_bytes v ! j)" if "j < 4" for j
    using that by (simp add: rd_def nth_append)
  from this [of 0] this [of 1] this [of 2] this [of 3] show ?thesis by (simp add: numeral_eq_Suc)
qed

text \<open>C27: software TKIP, unicast and multicast: encryption protects every fragment in place, and
  each one is decrypted by a receiver with the same key, which finds the ICV correct and returns
  success.\<close>

theorem tkip_decrypt_encrypt:
  assumes "encrypt attr = 2" and "rx_encrypt rx = 2"
    and "nr_frags attr = length fs" and "frags_fit attr frag_len fs" and "8 \<le> iv_len attr"
    and "(base + length pre) mod 4 = 0" and "tkip_key_ok key (tx_ta attr)" and "IS_MCAST (tx_ra attr) = Some mc"
    and "if mc then nth_key (dot118021XGrpKey sec) (dot118021XGrpKeyid sec) = Some key \<and> binstallGrpkey sec
           \<and> rx_key_index rx = dot118021XGrpKeyid sec
         else dot118021x_UncstKey attr = key \<and> uncst = key"
    and "sta (rx_ta rx) = Some uncst" and "rx_ra rx = tx_ra attr" and "rx_ta rx = tx_ta attr"
    and "rx_hdrlen rx = hdrlen attr" and "rx_iv_len rx = iv_len attr"
  shows "\<exists>cs. rtw_tkip_encrypt sec attr frag_len base (Some (pre @ concat (map frag_bytes fs) @ post)) (length pre)
        = Some (True, Some (pre @ concat (map (\<lambda>f. f_hdr f @ f_iv f @ cs f @ f_gap f) fs) @ post))
      \<and> (\<forall>f\<in>set fs. length (cs f) = length (f_data f) + 4
          \<and> rtw_tkip_decrypt sec sta (rx\<lparr>rx_len := hdrlen attr + iv_len attr + length (f_data f) + 4\<rparr>) (f_hdr f @ f_iv f @ cs f)
            = Some (True, f_hdr f @ f_iv f @ f_data f @ le32_bytes (getcrc32 (f_data f))))"
proof (intro exI conjI ballI)
  let ?k = "(key, tx_ta attr)"
  let ?c = "\<lambda>f. the (tkip_context key (tx_ta attr) (f_iv f) 0)"
  show "rtw_tkip_encrypt sec attr frag_len base (Some (pre @ concat (map frag_bytes fs) @ post)) (length pre)
        = Some (True, Some (pre @ concat (map (\<lambda>f. f_hdr f @ f_iv f @ sealed (?c f) (f_data f) @ f_gap f) fs) @ post))"
    using tkip.fragments_sealed [of attr frag_len fs ?k base pre post] assms(1,3-9)
    by (cases mc) (simp_all add: rtw_tkip_encrypt_def tkip.seal_frag_def [abs_def])
  fix f assume "f \<in> set fs"
  then have f: "frag_fits attr (hdrlen attr + iv_len attr + length (f_data f) + 4) f"
    using frags_fit_member [OF assms(4)] by simp
  show "length (sealed (?c f) (f_data f)) = length (f_data f) + 4" by simp
  let ?h = "f_hdr f @ f_iv f" and ?crc = "le32_bytes (getcrc32 (f_data f))"
  have l: "iv_len attr + hdrlen attr = length ?h" using f by (simp add: frag_fits_def)
  have icv: "icv_mismatch (?h @ f_data f @ ?crc) (length ?h + length (f_data f) + 4) ?crc [3, 2, 1, 0] = Some False"
    using icv_match [of "?h @ f_data f" "getcrc32 (f_data f)"] by (simp add: add.assoc del: icv_mismatch.simps)
  have data: "rd_n (?h @ f_data f @ ?crc) (length ?h) (length (f_data f)) = Some (f_data f)"
    using rd_n_mid [of ?h "f_data f" ?crc] by simp
  have n: "nat (int (length (f_data f)) + 4) = length (f_data f) + 4" by simp
  show "rtw_tkip_decrypt sec sta (rx\<lparr>rx_len := hdrlen attr + iv_len attr + length (f_data f) + 4\<rparr>)
      (f_hdr f @ f_iv f @ sealed (?c f) (f_data f)) = Some (True, f_hdr f @ f_iv f @ f_data f @ ?crc)"
    using tkip.unseal [of attr _ f ?k, OF f] assms(2,5,7-14) icv data l n
    by (cases mc) (simp_all add: rtw_tkip_decrypt_def Let_def add.assoc n del: icv_mismatch.simps)
qed

text \<open>A multicast frame in two fragments.\<close>

definition tkip_ex_sec :: security_priv where
  "tkip_ex_sec = \<lparr>dot11PrivacyKeyIndex = 0, dot11DefKey = [], dot11DefKeylen = [],
     dot118021XGrpKeyid = 1, dot118021XGrpKey = [[], replicate 16 7], binstallGrpkey = True\<rparr>"

definition tkip_ex_attr :: pkt_attrib where
  "tkip_ex_attr = \<lparr>encrypt = 2, nr_frags = 2, hdrlen = 1, iv_len = 8, icv_len = 4, last_txcmdsz = 14,
     tx_ra = [1, 0, 0, 0, 0, 0], tx_ta = [2, 0, 0, 0, 0, 9], dot118021x_UncstKey = []\<rparr>"

definition tkip_ex_rx :: rx_pkt_attrib where
  "tkip_ex_rx = \<lparr>rx_encrypt = 2, rx_hdrlen = 1, rx_iv_len = 8, rx_key_index = 1,
     rx_ra = [1, 0, 0, 0, 0, 0], rx_ta = [2, 0, 0, 0, 0, 9], rx_len = 0\<rparr>"

definition tkip_ex_frags :: "fragment list" where
  "tkip_ex_frags =
     [\<lparr>f_hdr = [8], f_iv = snd (TKIP_IV 0 1), f_data = [5, 6], f_icv = [0, 0, 0, 0], f_gap = [0]\<rparr>,
      \<lparr>f_hdr = [8], f_iv = snd (TKIP_IV 1 1), f_data = [42], f_icv = [0, 0, 0, 0], f_gap = []\<rparr>]"

theorem tkip_decrypt_encrypt_witness:
  "\<exists>cs. rtw_tkip_encrypt tkip_ex_sec tkip_ex_attr 15 4096 (Some ([] @ concat (map frag_bytes tkip_ex_frags) @ [])) (length ([] :: buf))
      = Some (True, Some ([] @ concat (map (\<lambda>f. f_hdr f @ f_iv f @ cs f @ f_gap f) tkip_ex_frags) @ []))
    \<and> (\<forall>f\<in>set tkip_ex_frags. length (cs f) = length (f_data f) + 4
        \<and> rtw_tkip_decrypt tkip_ex_sec (\<lambda>_. Some [])
            (tkip_ex_rx\<lparr>rx_len := hdrlen tkip_ex_attr + iv_len tkip_ex_attr + length (f_data f) + 4\<rparr>) (f_hdr f @ f_iv f @ cs f)
          = Some (True, f_hdr f @ f_iv f @ f_data f @ le32_bytes (getcrc32 (f_data f))))"
  by (rule tkip_decrypt_encrypt [where mc = True and key = "replicate 16 7" and uncst = "[]"])
    (simp_all add: tkip_ex_sec_def tkip_ex_attr_def tkip_ex_rx_def tkip_ex_frags_def tkip_key_ok_def frag_fits_def
      RND4_def TKIP_IV_def Let_def IS_MCAST_def nth_key_def rd_def)

end
