(* ===== verification/Recv_Decache.thy ===== *)
theory Recv_Decache
  imports Serial Tkip
begin

text \<open>
  What \<open>core/rtw_recv.c\<close> does with a received data frame before it is decrypted and reassembled:
  the duplicate filter \<open>recv_decache\<close>, the packet-number checks for CCMP
  (\<open>recv_ucast_pn_decache\<close>, \<open>recv_bcast_pn_decache\<close>) and the 802.1X port (\<open>portctrl\<close>). The lemmas
  characterise the duplicate filter, show that the group packet numbers give replay protection to a station
  under CCMP, for each key within half the number space, and to no one else, and that the unicast check only maintains its cache.
\<close>

section \<open>State\<close>

text \<open>The fields of \<open>struct rx_pkt_attrib\<close> that are read here, and the frame data.\<close>

record data_frame =
  df_encrypt :: u8
  df_hdrlen :: nat
  df_qos :: bool
  df_priority :: nat
  df_ra :: buf
  df_seq_num :: u16
  df_frag_num :: u8
  df_data :: buf

text \<open>\<open>struct sta_recv_priv\<close> with its \<open>struct stainfo_rxcache\<close>: the arrays have 16 entries, one for
  each TID, and an \<open>iv\<close> entry has eight bytes. \<open>duplicate_cnt\<close> is in \<open>struct stainfo_stats\<close>.\<close>

record sta_recv_priv =
  tid_rxseq :: "u16 list"
  rxcache_iv :: "buf list"
  last_tid :: nat
  bmc_tid_rxseq :: "u16 list"
  nonqos_rxseq :: u16
  nonqos_bmc_rxseq :: u16
  duplicate_cnt :: u32

definition wf_sta_recv :: "sta_recv_priv \<Rightarrow> bool" where
  "wf_sta_recv st \<longleftrightarrow> length (tid_rxseq st) = 16 \<and> length (bmc_tid_rxseq st) = 16 \<and> length (rxcache_iv st) = 16
     \<and> (\<forall>v\<in>set (rxcache_iv st). length v = 8)"

section \<open>Operations\<close>

definition le64 :: "buf \<Rightarrow> u64" where
  "le64 bs = foldr (\<lambda>b v. ucast b OR push_bit 8 v) bs 0"

definition le64_bytes :: "u64 \<Rightarrow> buf" where
  "le64_bytes v = map (\<lambda>j. ucast (drop_bit (8 * j) v)) [0..<8]"

definition CCMPH_2_PN :: "u64 \<Rightarrow> u64" where
  "CCMPH_2_PN ch = (ch AND 0x000000000000ffff) OR drop_bit 16 (ch AND 0xffffffff00000000)"

definition CCMPH_2_KEYID :: "u64 \<Rightarrow> u64" where
  "CCMPH_2_KEYID ch = drop_bit 30 (ch AND 0x00000000c0000000)"

definition PN_LESS_CHK :: "u64 \<Rightarrow> u64 \<Rightarrow> bool" where
  "PN_LESS_CHK a b \<longleftrightarrow> (a - b) AND 0x800000000000 \<noteq> 0"

definition VALID_PN_CHK :: "u64 \<Rightarrow> u64 \<Rightarrow> bool" where
  "VALID_PN_CHK new old \<longleftrightarrow> old = 0 \<or> PN_LESS_CHK old new"

text \<open>The frame is returned, or freed (\<open>False\<close>). \<open>rtw_get_stainfo\<close> gives \<open>ieee8021x_blocked\<close> of the
  transmitter, if it is known.\<close>

definition portctrl :: "bool \<Rightarrow> bool option \<Rightarrow> nat \<Rightarrow> nat \<Rightarrow> buf \<Rightarrow> bool option" where
  "portctrl is_8021X psta hlen ivlen frame =
     (if is_8021X then
        (case psta of
           Some True \<Rightarrow> do { ether_type \<leftarrow> RTW_GET_BE16 frame (hlen + ivlen + 6); Some (ether_type = 0x888e) }
         | _ \<Rightarrow> Some True)
      else Some True)"

text \<open>\<open>True\<close> is \<open>_SUCCESS\<close>.\<close>

definition recv_ucast_pn_decache :: "data_frame \<Rightarrow> sta_recv_priv \<Rightarrow> (bool \<times> sta_recv_priv) option" where
  "recv_ucast_pn_decache f st =
     (let tid = df_priority f in
      if tid > 15 then Some (False, st)
      else if df_encrypt f = 4 then do {
        hdr \<leftarrow> rd_n (df_data f) (df_hdrlen f) 8;
        let pkt_pn = CCMPH_2_PN (le64 hdr);
        let curr_pn = CCMPH_2_PN (le64 (rxcache_iv st ! tid));
        if \<not> VALID_PN_CHK pkt_pn curr_pn then Some (True, st)
        else Some (True, st\<lparr>last_tid := tid, rxcache_iv := (rxcache_iv st)[tid := hdr]\<rparr>) }
      else Some (True, st))"

text \<open>\<open>is_station\<close> is \<open>check_fwstate(pmlmepriv, WIFI_STATION_STATE)\<close>; \<open>iv_seq\<close> is the array of
  \<open>struct security_priv\<close>, eight bytes for each of four key ids.\<close>

definition recv_bcast_pn_decache :: "bool \<Rightarrow> data_frame \<Rightarrow> buf list \<Rightarrow> (bool \<times> buf list) option" where
  "recv_bcast_pn_decache is_station f iv_seq =
     (if df_encrypt f = 4 \<and> is_station then do {
        hdr \<leftarrow> rd_n (df_data f) (df_hdrlen f) 8;
        let key_id = unat (CCMPH_2_KEYID (le64 hdr));
        let pkt_pn = CCMPH_2_PN (le64 hdr);
        let curr_pn = le64 (iv_seq ! key_id) AND 0x0000ffffffffffff;
        if \<not> VALID_PN_CHK pkt_pn curr_pn then Some (False, iv_seq)
        else Some (True, iv_seq[key_id := le64_bytes pkt_pn]) }
      else Some (True, iv_seq))"

definition frame_seq_ctrl :: "data_frame \<Rightarrow> u16" where
  "frame_seq_ctrl f = push_bit 4 (df_seq_num f AND 0xffff) OR (ucast (df_frag_num f) AND 0xf)"

text \<open>The four caches; \<open>prxseq\<close> points to one of them.\<close>

datatype rxseq_ref = Bmc_Tid nat | Tid nat | Nonqos_Bmc | Nonqos

fun get_rxseq :: "sta_recv_priv \<Rightarrow> rxseq_ref \<Rightarrow> u16" where
  "get_rxseq st (Bmc_Tid t) = bmc_tid_rxseq st ! t"
| "get_rxseq st (Tid t) = tid_rxseq st ! t"
| "get_rxseq st Nonqos_Bmc = nonqos_bmc_rxseq st"
| "get_rxseq st Nonqos = nonqos_rxseq st"

fun set_rxseq :: "sta_recv_priv \<Rightarrow> rxseq_ref \<Rightarrow> u16 \<Rightarrow> sta_recv_priv" where
  "set_rxseq st (Bmc_Tid t) v = st\<lparr>bmc_tid_rxseq := (bmc_tid_rxseq st)[t := v]\<rparr>"
| "set_rxseq st (Tid t) v = st\<lparr>tid_rxseq := (tid_rxseq st)[t := v]\<rparr>"
| "set_rxseq st Nonqos_Bmc v = st\<lparr>nonqos_bmc_rxseq := v\<rparr>"
| "set_rxseq st Nonqos v = st\<lparr>nonqos_rxseq := v\<rparr>"

definition prxseq :: "data_frame \<Rightarrow> bool \<Rightarrow> rxseq_ref" where
  "prxseq f mcast =
     (if df_qos f then (if mcast then Bmc_Tid (df_priority f) else Tid (df_priority f))
      else (if mcast then Nonqos_Bmc else Nonqos))"

definition recv_decache :: "data_frame \<Rightarrow> sta_recv_priv \<Rightarrow> (bool \<times> sta_recv_priv) option" where
  "recv_decache f st =
     (if df_priority f > 15 then Some (False, st)
      else do {
        mcast \<leftarrow> IS_MCAST (df_ra f);
        let p = prxseq f mcast;
        if frame_seq_ctrl f = get_rxseq st p then Some (False, st\<lparr>duplicate_cnt := duplicate_cnt st + 1\<rparr>)
        else Some (True, set_rxseq st p (frame_seq_ctrl f)) })"

section \<open>CCMP headers\<close>

lemma bit_le64: "n < 64 \<Longrightarrow> bit (le64 bs) n \<longleftrightarrow> n div 8 < length bs \<and> bit (bs ! (n div 8)) (n mod 8)"
proof (induction bs arbitrary: n)
  case (Cons b bs)
  have le: "le64 (b # bs) = ucast b OR push_bit 8 (le64 bs)" by (simp add: le64_def)
  show ?case
  proof (cases "n < 8")
    case False
    then have "\<not> bit b n" using bit_imp_le_length [of b n] by auto
    moreover have "n div 8 = Suc ((n - 8) div 8)" "n mod 8 = (n - 8) mod 8"
      using False le_div_geq [of 8 n] le_mod_geq [of 8 n] by simp_all
    ultimately show ?thesis using False Cons by (simp add: le bit_simps)
  qed (simp add: le bit_simps)
qed (simp add: le64_def)

lemma le64_le64_bytes: "le64 (le64_bytes v) = v"
proof (rule bit_word_eqI)
  fix n assume "n < LENGTH(64)"
  then have n: "n < 64" "n div 8 < 8" by simp_all
  have "bit (le64_bytes v ! (n div 8)) (n mod 8) = bit v n"
    using n by (simp add: le64_bytes_def bit_simps)
  with n show "bit (le64 (le64_bytes v)) n = bit v n" by (simp add: bit_le64) (simp add: le64_bytes_def)
qed

lemma ccmp_masks:
  "(0xffff :: u64) = mask 16" "(0xffffffff00000000 :: u64) = push_bit 32 (mask 32)"
  "(0xc0000000 :: u64) = push_bit 30 (mask 2)" "(0xffffffffffff :: u64) = mask 48"
  by (simp_all add: mask_eq_exp_minus_1 push_bit_eq_mult)

lemma bit_CCMPH_2_PN: "n < 64 \<Longrightarrow>
    bit (CCMPH_2_PN ch) n \<longleftrightarrow> (if n < 16 then bit ch n else n < 48 \<and> bit ch (n + 16))"
  unfolding CCMPH_2_PN_def ccmp_masks by (auto simp: bit_simps add.commute)

lemma unat_CCMPH_2_PN: "unat (CCMPH_2_PN ch) < 2 ^ 48"
proof -
  have "take_bit 48 (CCMPH_2_PN ch) = CCMPH_2_PN ch"
    by (rule bit_word_eqI) (auto simp: bit_take_bit_iff bit_CCMPH_2_PN)
  then have "unat (CCMPH_2_PN ch) = take_bit 48 (unat (CCMPH_2_PN ch))" by (metis unsigned_take_bit_eq)
  then show ?thesis by (metis take_bit_nat_less_exp)
qed

lemma CCMPH_2_KEYID_less: "unat (CCMPH_2_KEYID ch) < 4"
proof -
  have "CCMPH_2_KEYID ch = take_bit 2 (drop_bit 30 ch)"
    unfolding CCMPH_2_KEYID_def ccmp_masks by (rule bit_word_eqI) (auto simp: bit_simps)
  then show ?thesis using take_bit_nat_less_exp [of 2 "unat (drop_bit 30 ch)"] by (simp add: unsigned_take_bit_eq)
qed

section \<open>Packet numbers as serial numbers\<close>

definition pn_code :: "nat \<Rightarrow> u64" where
  "pn_code n = word_of_nat (n mod 2 ^ 48)"

lemma unat_pn_code: "unat (pn_code n) = n mod 2 ^ 48"
proof -
  have "n mod 2 ^ 48 < 2 ^ 64" by (rule less_trans [of _ "2 ^ 48"]) simp_all
  then show ?thesis by (simp add: pn_code_def unat_of_nat del: of_nat_mod)
qed

lemma PN_LESS_uint: "PN_LESS_CHK a b \<longleftrightarrow> 2 ^ 47 \<le> (uint a - uint b) mod 2 ^ 48"
  using bit_diff_window [of 47 a b] and_exp_eq_0_iff_not_bit [of "a - b" 47] by (simp add: PN_LESS_CHK_def)

interpretation pn: serial_numbers pn_code PN_LESS_CHK next_pn "2 ^ 47 - 1"
proof
  fix m n :: nat
  assume "m \<le> n + (2 ^ 47 - 1)" "n \<le> m + (2 ^ 47 - 1)"
  then show "PN_LESS_CHK (pn_code m) (pn_code n) \<longleftrightarrow> m < n"
    using half_window [of m n "2 ^ 47"] by (simp add: PN_LESS_uint uint_nat unat_pn_code)
next
  fix n :: nat
  show "next_pn (pn_code n) = pn_code (n + 1)"
    using unat_next_pn [of "pn_code n"] by (intro word_unat_eq_iff [THEN iffD2]) (simp add: unat_pn_code mod_simps)
qed

lemma pn48_bytes_le64: "pn48_bytes a b c d e f = le64 [a, b, c, d, e, f]"
  by (simp add: pn48_bytes_def le64_def push_bit_or push_bit_push_bit)

lemma CCMPH_2_PN_le64: "CCMPH_2_PN (le64 [a, b, x, y, c, d, e, f]) = le64 [a, b, c, d, e, f]"
proof (rule bit_word_eqI)
  fix n assume "n < LENGTH(64)"
  then have n: "n < 64" "n div 8 < 8" by simp_all
  have m16: "(n + 16) mod 8 = n mod 8" by presburger
  from n consider "n div 8 = 0" | "n div 8 = 1" | "n div 8 = 2" | "n div 8 = 3" | "n div 8 = 4" | "n div 8 = 5"
    | "6 \<le> n div 8" by linarith
  then show "bit (CCMPH_2_PN (le64 [a, b, x, y, c, d, e, f])) n = bit (le64 [a, b, c, d, e, f]) n"
    using n m16 by cases (auto simp: bit_CCMPH_2_PN bit_le64)
qed

lemma CCMPH_2_KEYID_le64: "CCMPH_2_KEYID (le64 [a, b, x, y, c, d, e, f]) = ucast (drop_bit 6 y)"
proof (rule bit_word_eqI)
  fix n assume n: "n < LENGTH(64)"
  have "(30 + n) div 8 = 3" "(30 + n) mod 8 = 6 + n" if "n < 2" using that by presburger+
  moreover have "\<not> bit y (6 + n)" if "\<not> n < 2" using that bit_imp_le_length [of y "6 + n"] by auto
  ultimately show "bit (CCMPH_2_KEYID (le64 [a, b, x, y, c, d, e, f])) n = bit (ucast (drop_bit 6 y) :: u64) n"
    unfolding CCMPH_2_KEYID_def ccmp_masks using n by (cases "n < 2") (auto simp: bit_simps bit_le64)
qed

lemma keyid_byte: "drop_bit 6 (0x20 OR push_bit 6 (k AND 3)) = (k AND 3 :: u8)"
proof -
  have m: "(3 :: u8) = mask 2" "(0x20 :: u8) = push_bit 5 1" by (simp_all add: mask_eq_exp_minus_1 push_bit_eq_mult)
  show ?thesis unfolding m by (rule bit_word_eqI) (auto simp: bit_simps)
qed

text \<open>The CCMP header that \<open>AES_IV\<close> writes is read back by the receive path: \<open>CCMPH_2_PN\<close> gives
  the incremented packet number, \<open>CCMPH_2_KEYID\<close> the key index.\<close>

theorem AES_IV_roundtrip:
  assumes "unat pn < 2 ^ 48"
  shows "CCMPH_2_PN (le64 (snd (AES_IV pn k))) = fst (AES_IV pn k)
    \<and> CCMPH_2_KEYID (le64 (snd (AES_IV pn k))) = ucast (k AND 3)
    \<and> unat (fst (AES_IV pn k)) = (unat pn + 1) mod 2 ^ 48"
proof -
  let ?pn = "next_pn pn" and ?iv = "snd (AES_IV pn k)"
  have pn: "unat ?pn < 2 ^ 48" using unat_next_pn [OF assms] by simp
  have iv: "?iv = [TSC 0 ?pn, TSC 1 ?pn, 0, 0x20 OR push_bit 6 (k AND 3), TSC 2 ?pn, TSC 3 ?pn, TSC 4 ?pn, TSC 5 ?pn]"
    by (simp add: AES_IV_def Let_def)
  have "CCMPH_2_PN (le64 ?iv) = pn48_bytes (TSC 0 ?pn) (TSC 1 ?pn) (TSC 2 ?pn) (TSC 3 ?pn) (TSC 4 ?pn) (TSC 5 ?pn)"
    unfolding iv pn48_bytes_le64 by (rule CCMPH_2_PN_le64)
  moreover have "CCMPH_2_KEYID (le64 ?iv) = ucast (k AND 3)"
    unfolding iv CCMPH_2_KEYID_le64 keyid_byte ..
  ultimately show ?thesis using pn48_bytes_TSC [OF pn] unat_next_pn [OF assms] by (simp add: AES_IV_def Let_def)
qed

theorem AES_IV_roundtrip_witness:
  "CCMPH_2_PN (le64 (snd (AES_IV 0x123456789abc 2))) = fst (AES_IV 0x123456789abc 2)
    \<and> CCMPH_2_KEYID (le64 (snd (AES_IV 0x123456789abc 2))) = ucast (2 AND 3 :: u8)
    \<and> unat (fst (AES_IV 0x123456789abc 2)) = (unat (0x123456789abc :: u64) + 1) mod 2 ^ 48"
  by (rule AES_IV_roundtrip) simp

section \<open>Replay of group frames\<close>

text \<open>The frames of a station processed in order: those that pass, and the final packet numbers.\<close>

fun bcast_run :: "bool \<Rightarrow> data_frame list \<Rightarrow> buf list \<Rightarrow> (data_frame list \<times> buf list) option" where
  "bcast_run is_station [] iv_seq = Some ([], iv_seq)"
| "bcast_run is_station (f # fs) iv_seq = do {
     (ok, iv_seq) \<leftarrow> recv_bcast_pn_decache is_station f iv_seq;
     (acc, iv_seq) \<leftarrow> bcast_run is_station fs iv_seq;
     Some (if ok then f # acc else acc, iv_seq) }"

text \<open>A CCMP frame with key id \<open>k\<close> and the \<open>n\<close>th packet number.\<close>

definition ccmp_frame :: "nat \<Rightarrow> data_frame \<Rightarrow> nat \<Rightarrow> bool" where
  "ccmp_frame k f n \<longleftrightarrow> df_encrypt f = 4 \<and> (\<exists>hdr. rd_n (df_data f) (df_hdrlen f) 8 = Some hdr
     \<and> unat (CCMPH_2_KEYID (le64 hdr)) = k \<and> CCMPH_2_PN (le64 hdr) = pn_code n)"

definition last_pn :: "buf list \<Rightarrow> nat \<Rightarrow> nat \<Rightarrow> bool" where
  "last_pn iv_seq k m \<longleftrightarrow> k < length iv_seq \<and> le64 (iv_seq ! k) AND 0xffffffffffff = pn_code m"

lemma last_pn_update: "k < length iv_seq \<Longrightarrow> last_pn (iv_seq[k := le64_bytes (pn_code n)]) k n"
proof -
  have "unat (take_bit 48 (pn_code n)) = unat (pn_code n)"
    by (simp only: unsigned_take_bit_eq unat_pn_code) (simp add: take_bit_eq_mod)
  then have "pn_code n AND mask 48 = pn_code n" by (simp only: take_bit_eq_mask word_unat_eq_iff)
  then show "k < length iv_seq \<Longrightarrow> ?thesis" by (simp add: last_pn_def le64_le64_bytes ccmp_masks)
qed

lemma pn_code_0: "pn_code n = 0 \<longleftrightarrow> n mod 2 ^ 48 = 0"
  using unat_pn_code [of n] by (metis unat_eq_zero)

lemma bcast_step:
  assumes "ccmp_frame k f n" and "last_pn iv_seq k m" and "m mod 2 ^ 48 \<noteq> 0"
    and "m \<le> n + (2 ^ 47 - 1)" and "n \<le> m + (2 ^ 47 - 1)"
  shows "recv_bcast_pn_decache True f iv_seq =
    Some (if m < n then (True, iv_seq[k := le64_bytes (pn_code n)]) else (False, iv_seq))"
  using assms pn.less_code [OF assms(4,5)] pn_code_0 [of m]
  by (auto simp: ccmp_frame_def last_pn_def recv_bcast_pn_decache_def VALID_PN_CHK_def Let_def)

text \<open>What a group frame is for the check: a CCMP frame with key id and packet number, or a frame under another
  cipher or none.\<close>

definition group_frame :: "data_frame \<Rightarrow> (nat \<times> nat) option \<Rightarrow> bool" where
  "group_frame f d \<longleftrightarrow> (case d of None \<Rightarrow> df_encrypt f \<noteq> 4 | Some (k, n) \<Rightarrow> ccmp_frame k f n)"

text \<open>The frames to accept: of each key those with a number above all accepted before, and all frames without.\<close>

fun accepted :: "(nat \<Rightarrow> nat) \<Rightarrow> (nat \<times> nat) option list \<Rightarrow> (nat \<times> nat) option list" where
  "accepted m [] = []"
| "accepted m (None # ds) = None # accepted m ds"
| "accepted m (Some (k, n) # ds) = (if m k < n then Some (k, n) # accepted (m(k := n)) ds else accepted m ds)"

definition nums :: "nat \<Rightarrow> (nat \<times> nat) option list \<Rightarrow> nat list" where
  "nums k ds = map (snd \<circ> the) (filter (\<lambda>d. d \<noteq> None \<and> fst (the d) = k) ds)"

lemma nums_simps [simp]: "nums k [] = []" "nums k (None # ds) = nums k ds"
  "nums k (Some (j, n) # ds) = (if j = k then n # nums k ds else nums k ds)"
  by (simp_all add: nums_def)

lemma nums_accepted: "sorted_wrt (<) (m k # nums k (accepted m ds))"
proof (induction m ds rule: accepted.induct)
  case (3 m j n ds)
  show ?case
  proof (cases "m j < n")
    case True
    then show ?thesis using "3.IH"(1) [OF True] by (cases "j = k") (auto simp: fun_upd_same fun_upd_other simp del: fun_upd_apply)
  next
    case False
    then show ?thesis using "3.IH"(2) by simp
  qed
qed simp_all

lemma ccmp_key: "ccmp_frame k f n \<Longrightarrow> k < 4"
  using CCMPH_2_KEYID_less by (auto simp: ccmp_frame_def)

definition pn_window :: "nat \<Rightarrow> nat set \<Rightarrow> bool" where
  "pn_window lo ns \<longleftrightarrow> (\<forall>n\<in>ns. lo \<le> n \<and> n \<le> lo + (2 ^ 47 - 1) \<and> n mod 2 ^ 48 \<noteq> 0)"

lemma bcast_run_accepts:
  assumes "list_all2 group_frame fs ds" and "\<forall>k<4. last_pn iv_seq k (m k)"
    and "\<forall>k<4. pn_window (lo k) (insert (m k) (set (nums k ds)))"
  shows "\<exists>acc iv_seq'. bcast_run True fs iv_seq = Some (acc, iv_seq') \<and> list_all2 group_frame acc (accepted m ds)
    \<and> (\<forall>k<4. last_pn iv_seq' k (last (m k # nums k (accepted m ds))))"
  using assms
proof (induction fs ds arbitrary: m iv_seq rule: list_all2_induct)
  case (Cons f fs d ds)
  show ?case
  proof (cases d)
    case None
    then have step: "recv_bcast_pn_decache True f iv_seq = Some (True, iv_seq)"
      using Cons.hyps(1) by (simp add: group_frame_def recv_bcast_pn_decache_def)
    have "\<forall>k<4. pn_window (lo k) (insert (m k) (set (nums k ds)))" using Cons.prems(2) None by simp
    from Cons.IH [OF Cons.prems(1) this] obtain acc iv' where "bcast_run True fs iv_seq = Some (acc, iv')"
      "list_all2 group_frame acc (accepted m ds)" "\<forall>k<4. last_pn iv' k (last (m k # nums k (accepted m ds)))" by blast
    then show ?thesis using step None Cons.hyps(1) by simp
  next
    case (Some kn)
    obtain k n where d: "d = Some (k, n)" using Some by (cases kn) auto
    then have c: "ccmp_frame k f n" and k: "k < 4" using Cons.hyps(1) ccmp_key by (auto simp: group_frame_def)
    have w: "pn_window (lo k) (insert (m k) (insert n (set (nums k ds))))" using Cons.prems(2) [rule_format, OF k] d by simp
    have l: "last_pn iv_seq k (m k)" using Cons.prems(1) k by simp
    have step: "recv_bcast_pn_decache True f iv_seq =
        Some (if m k < n then (True, iv_seq[k := le64_bytes (pn_code n)]) else (False, iv_seq))"
      using w by (intro bcast_step [OF c l]) (auto simp: pn_window_def)
    let ?m = "if m k < n then m(k := n) else m" and ?iv = "if m k < n then iv_seq[k := le64_bytes (pn_code n)] else iv_seq"
    have "\<forall>j<4. last_pn ?iv j (?m j)"
      using Cons.prems(1) k last_pn_update [of k iv_seq n] by (auto simp: last_pn_def nth_list_update)
    moreover have "\<forall>j<4. pn_window (lo j) (insert (?m j) (set (nums j ds)))"
      using Cons.prems(2) d by (auto simp: pn_window_def)
    ultimately obtain acc iv' where r: "bcast_run True fs ?iv = Some (acc, iv')"
      "list_all2 group_frame acc (accepted ?m ds)" "\<forall>k<4. last_pn iv' k (last (?m k # nums k (accepted ?m ds)))"
      using Cons.IH [of ?iv ?m] by blast
    show ?thesis
    proof (cases "m k < n")
      case True
      have "last (m j # nums j (accepted m (d # ds))) = last (?m j # nums j (accepted ?m ds))" for j using True d by simp
      then show ?thesis using r step True d Cons.hyps(1) by simp
    next
      case False
      then show ?thesis using r step d by simp
    qed
  qed
qed simp

lemma bcast_run_all: "bcast_run False fs iv_seq = Some (fs, iv_seq)"
  by (induction fs) (simp_all add: recv_bcast_pn_decache_def)


text \<open>Three frames under key 1, the second one a replay; the packet numbers wrap around.\<close>

definition ex_frame :: "u64 \<Rightarrow> data_frame" where
  "ex_frame pn = \<lparr>df_encrypt = 4, df_hdrlen = 0, df_qos = False, df_priority = 0, df_ra = [1, 0, 0, 0, 0, 0],
     df_seq_num = 0, df_frag_num = 0, df_data = snd (AES_IV pn 1)\<rparr>"

lemma ex_frame_ccmp: "unat pn < 2 ^ 48 \<Longrightarrow> n mod 2 ^ 48 = (unat pn + 1) mod 2 ^ 48 \<Longrightarrow> ccmp_frame 1 (ex_frame pn) n"
proof -
  assume p: "unat pn < 2 ^ 48" and n: "n mod 2 ^ 48 = (unat pn + 1) mod 2 ^ 48"
  have "CCMPH_2_PN (le64 (snd (AES_IV pn 1))) = next_pn pn" "CCMPH_2_KEYID (le64 (snd (AES_IV pn 1))) = 1"
    using pn48_bytes_TSC [of "next_pn pn"] unat_next_pn [OF p]
    by (simp_all add: AES_IV_def Let_def CCMPH_2_PN_le64 CCMPH_2_KEYID_le64 pn48_bytes_le64)
  moreover have "next_pn pn = pn_code n"
    using unat_next_pn [OF p] unat_pn_code [of n] n by (simp only: word_unat_eq_iff)
  moreover have "rd_n (snd (AES_IV pn 1)) 0 8 = Some (snd (AES_IV pn 1))"
    by (simp add: rd_n_def AES_IV_def Let_def)
  ultimately show ?thesis by (simp add: ccmp_frame_def ex_frame_def)
qed

text \<open>All four keys have accepted \<open>2 ^ 48 - 9\<close>; an unencrypted frame comes in between.\<close>

definition ex_plain :: data_frame where
  "ex_plain = (ex_frame 0)\<lparr>df_encrypt := 0\<rparr>"


section \<open>The unicast cache\<close>

definition cached_pn :: "sta_recv_priv \<Rightarrow> nat \<Rightarrow> nat \<Rightarrow> bool" where
  "cached_pn st tid m \<longleftrightarrow> CCMPH_2_PN (le64 (rxcache_iv st ! tid)) = pn_code m"

text \<open>C34: the unicast check never rejects a frame with a valid TID, not even a replay (the \<open>return\<close> is
  commented out); it only keeps, for the TID of the frame, the highest packet number, and leaves
  the other TIDs alone.\<close>

theorem ucast_pn_cache:
  assumes "ccmp_frame k f n" and "wf_sta_recv st" and "df_priority f \<le> 15" and "cached_pn st (df_priority f) m"
    and "m mod 2 ^ 48 \<noteq> 0" and "m \<le> n + (2 ^ 47 - 1)" and "n \<le> m + (2 ^ 47 - 1)"
  shows "\<exists>st'. recv_ucast_pn_decache f st = Some (True, st') \<and> wf_sta_recv st'
    \<and> cached_pn st' (df_priority f) (max m n)
    \<and> (\<forall>tid. tid \<noteq> df_priority f \<longrightarrow> rxcache_iv st' ! tid = rxcache_iv st ! tid)"
proof -
  from assms(1) obtain hdr where h: "rd_n (df_data f) (df_hdrlen f) 8 = Some hdr" "CCMPH_2_PN (le64 hdr) = pn_code n"
    and e: "df_encrypt f = 4" by (auto simp: ccmp_frame_def)
  have valid: "VALID_PN_CHK (pn_code n) (pn_code m) \<longleftrightarrow> m < n"
    using pn.less_code [OF assms(6,7)] pn_code_0 [of m] assms(5) by (simp add: VALID_PN_CHK_def)
  have l: "length (rxcache_iv st) = 16" "length hdr = 8" using assms(2) rd_n_length [OF h(1)] by (simp_all add: wf_sta_recv_def)
  show ?thesis
  proof (cases "m < n")
    case True
    let ?st = "st\<lparr>last_tid := df_priority f, rxcache_iv := (rxcache_iv st)[df_priority f := hdr]\<rparr>"
    have "recv_ucast_pn_decache f st = Some (True, ?st)"
      using assms(3,4) h e valid True by (simp add: recv_ucast_pn_decache_def cached_pn_def Let_def)
    moreover have "wf_sta_recv ?st"
      using assms(2) l set_update_subset_insert [of "rxcache_iv st" "df_priority f" hdr] by (auto simp: wf_sta_recv_def)
    ultimately show ?thesis using True assms(3) l h by (auto simp: cached_pn_def max_def)
  next
    case False
    then have "recv_ucast_pn_decache f st = Some (True, st)"
      using assms(3,4) h e valid by (simp add: recv_ucast_pn_decache_def cached_pn_def Let_def)
    with False assms(2,4) show ?thesis by (auto simp: max_def)
  qed
qed

definition ex_sta :: sta_recv_priv where
  "ex_sta = \<lparr>tid_rxseq = replicate 16 0, rxcache_iv = replicate 16 (snd (AES_IV 7 0)), last_tid = 0,
     bmc_tid_rxseq = replicate 16 0, nonqos_rxseq = 0, nonqos_bmc_rxseq = 0, duplicate_cnt = 0\<rparr>"

theorem ucast_pn_cache_witness:
  "\<exists>st'. recv_ucast_pn_decache (ex_frame 3) ex_sta = Some (True, st') \<and> wf_sta_recv st'
    \<and> cached_pn st' (df_priority (ex_frame 3)) (max 8 4)
    \<and> (\<forall>tid. tid \<noteq> df_priority (ex_frame 3) \<longrightarrow> rxcache_iv st' ! tid = rxcache_iv ex_sta ! tid)"
proof (rule ucast_pn_cache [where k = 1])
  show "ccmp_frame 1 (ex_frame 3) 4" by (simp add: ex_frame_ccmp [simplified])
  show "wf_sta_recv ex_sta" by (simp add: wf_sta_recv_def ex_sta_def AES_IV_def Let_def del: replicate.simps)
  have "unat (next_pn 7) = unat (pn_code 8)" using unat_next_pn [of 7] unat_pn_code [of 8] by simp
  then have "next_pn 7 = pn_code 8" by (simp only: word_unat_eq_iff)
  then show "cached_pn ex_sta (df_priority (ex_frame 3)) 8"
    using pn48_bytes_TSC [of "next_pn 7"] unat_next_pn [of 7]
    by (simp add: cached_pn_def ex_sta_def ex_frame_def AES_IV_def Let_def CCMPH_2_PN_le64 pn48_bytes_le64
        del: replicate.simps)
qed (simp_all add: ex_frame_def)

section \<open>Duplicates\<close>

lemma get_set_rxseq:
  assumes "wf_sta_recv st" and "case p of Bmc_Tid t \<Rightarrow> t \<le> 15 | Tid t \<Rightarrow> t \<le> 15 | _ \<Rightarrow> True"
  shows "get_rxseq (set_rxseq st p v) q = (if p = q then v else get_rxseq st q)" and "wf_sta_recv (set_rxseq st p v)"
  using assms by (cases p; cases q; auto simp: wf_sta_recv_def nth_list_update)+

text \<open>a frame is dropped as a duplicate exactly when its sequence control (12-bit sequence number
  and fragment number) equals that of the last frame accepted in the same class (TID or non-QoS,
  group or unicast); otherwise it becomes the last one of its class and the other classes are
  unaffected. A TID above 15 is always dropped.\<close>

theorem recv_decache_iff:
  assumes "wf_sta_recv st" and "IS_MCAST (df_ra f) = Some mc"
  shows "\<exists>ok st'. recv_decache f st = Some (ok, st') \<and> wf_sta_recv st'
    \<and> (ok \<longleftrightarrow> df_priority f \<le> 15 \<and> get_rxseq st (prxseq f mc) \<noteq> frame_seq_ctrl f)
    \<and> (ok \<longrightarrow> get_rxseq st' (prxseq f mc) = frame_seq_ctrl f)
    \<and> (\<forall>q. q \<noteq> prxseq f mc \<or> \<not> ok \<longrightarrow> get_rxseq st' q = get_rxseq st q)"
proof (cases "df_priority f \<le> 15")
  case True
  then have "case prxseq f mc of Bmc_Tid t \<Rightarrow> t \<le> 15 | Tid t \<Rightarrow> t \<le> 15 | _ \<Rightarrow> True" by (simp add: prxseq_def)
  note gs = get_set_rxseq [OF assms(1) this]
  have dup: "get_rxseq (st\<lparr>duplicate_cnt := c\<rparr>) q = get_rxseq st q" "wf_sta_recv (st\<lparr>duplicate_cnt := c\<rparr>)" for c q
    using assms(1) by (cases q, simp_all add: wf_sta_recv_def)
  show ?thesis
    using True assms(2) gs dup by (cases "frame_seq_ctrl f = get_rxseq st (prxseq f mc)") (auto simp: recv_decache_def)
qed (use assms in \<open>auto simp: recv_decache_def\<close>)

theorem recv_decache_iff_witness:
  "\<exists>ok st'. recv_decache (ex_frame 3) ex_sta = Some (ok, st') \<and> wf_sta_recv st'
    \<and> (ok \<longleftrightarrow> df_priority (ex_frame 3) \<le> 15 \<and> get_rxseq ex_sta (prxseq (ex_frame 3) True) \<noteq> frame_seq_ctrl (ex_frame 3))
    \<and> (ok \<longrightarrow> get_rxseq st' (prxseq (ex_frame 3) True) = frame_seq_ctrl (ex_frame 3))
    \<and> (\<forall>q. q \<noteq> prxseq (ex_frame 3) True \<or> \<not> ok \<longrightarrow> get_rxseq st' q = get_rxseq ex_sta q)"
  by (rule recv_decache_iff)
    (simp_all add: wf_sta_recv_def ex_sta_def ex_frame_def AES_IV_def Let_def IS_MCAST_def rd_def del: replicate.simps)

end
