(* ===== verification/Bitmaps.thy ===== *)
theory Bitmaps
  imports Prelude
begin

text \<open>
  The bitmaps of \<open>core/rtw_wlan_util.c\<close> that record which identifiers are in use: MAC ids
  (\<open>rtw_macid_map_*\<close>) and security CAM entries (\<open>rtw_sec_cam_map_*\<close>) in one 32-bit word each,
  association ids (\<open>rtw_bmp_*\<close>, used for the TIM) in a byte array. All three are instances of the
  locale \<open>id_set\<close>, in which the search for a free identifier is analysed once.
\<close>

section \<open>One-word maps\<close>

text \<open>\<open>MACID_NUM_SW_LIMIT\<close> and \<open>SEC_CAM_ENT_NUM_SW_LIMIT\<close> are 32, so both structures have the single
  word \<open>m0\<close>. Above the limit the code warns and does nothing.\<close>

definition rtw_macid_is_set :: "u32 \<Rightarrow> nat \<Rightarrow> bool" where
  "rtw_macid_is_set m0 i = (if i < 32 then m0 AND 2 ^ i \<noteq> 0 else False)"

definition rtw_macid_map_set :: "u32 \<Rightarrow> nat \<Rightarrow> u32" where
  "rtw_macid_map_set m0 i = (if i < 32 then m0 OR 2 ^ i else m0)"

definition rtw_macid_map_clr :: "u32 \<Rightarrow> nat \<Rightarrow> u32" where
  "rtw_macid_map_clr m0 i = (if i < 32 then m0 AND NOT (2 ^ i) else m0)"

definition rtw_sec_camid_is_set :: "u32 \<Rightarrow> nat \<Rightarrow> bool" where
  "rtw_sec_camid_is_set m0 i = (if i < 32 then m0 AND 2 ^ i \<noteq> 0 else False)"

definition rtw_sec_cam_map_set :: "u32 \<Rightarrow> nat \<Rightarrow> u32" where
  "rtw_sec_cam_map_set m0 i = (if i < 32 then m0 OR 2 ^ i else m0)"

definition rtw_sec_cam_map_clr :: "u32 \<Rightarrow> nat \<Rightarrow> u32" where
  "rtw_sec_cam_map_clr m0 i = (if i < 32 then m0 AND NOT (2 ^ i) else m0)"

definition rtw_sec_cam_map_clr_all :: "u32 \<Rightarrow> u32" where
  "rtw_sec_cam_map_clr_all m0 = 0"

section \<open>Byte-array maps\<close>

text \<open>The array has \<open>bmp_len\<close> bytes; the length is the length of the list here.\<close>

definition rtw_bmp_is_set :: "buf \<Rightarrow> nat \<Rightarrow> bool" where
  "rtw_bmp_is_set bmp i = (if i div 8 \<ge> length bmp then False else bmp ! (i div 8) AND 2 ^ (i mod 8) \<noteq> 0)"

definition rtw_bmp_set :: "buf \<Rightarrow> nat \<Rightarrow> buf" where
  "rtw_bmp_set bmp i =
     (if i div 8 < length bmp then bmp[i div 8 := bmp ! (i div 8) OR 2 ^ (i mod 8)] else bmp)"

definition rtw_bmp_clear :: "buf \<Rightarrow> nat \<Rightarrow> buf" where
  "rtw_bmp_clear bmp i =
     (if i div 8 < length bmp then bmp[i div 8 := bmp ! (i div 8) AND NOT (2 ^ (i mod 8))] else bmp)"

definition rtw_bmp_not_empty :: "buf \<Rightarrow> bool" where
  "rtw_bmp_not_empty bmp = list_ex (\<lambda>b. b \<noteq> 0) bmp"

definition rtw_bmp_not_empty_exclude_bit0 :: "buf \<Rightarrow> bool" where
  "rtw_bmp_not_empty_exclude_bit0 bmp =
     list_ex (\<lambda>i. if i = 0 then bmp ! i AND 0xFE \<noteq> 0 else bmp ! i \<noteq> 0) [0..<length bmp]"

section \<open>Sets of identifiers\<close>

text \<open>\<open>for (i = start; i < num; i++) if (P(i)) break;\<close> with the value of \<open>i\<close> afterwards.\<close>

function first_from :: "(nat \<Rightarrow> bool) \<Rightarrow> nat \<Rightarrow> nat \<Rightarrow> nat" where
  "first_from P start num = (if start < num then (if P start then start else first_from P (start + 1) num) else start)"
  by pat_completeness auto

termination first_from
  by (relation "measure (\<lambda>(P, start, num). num - start)") auto

declare first_from.simps [simp del]

lemma first_from_spec:
  assumes "start \<le> num"
  shows "start \<le> first_from P start num" and "first_from P start num \<le> num"
    and "first_from P start num < num \<Longrightarrow> P (first_from P start num)"
    and "start \<le> j \<Longrightarrow> j < first_from P start num \<Longrightarrow> \<not> P j"
proof -
  have "start \<le> first_from P start num \<and> first_from P start num \<le> num
      \<and> (first_from P start num < num \<longrightarrow> P (first_from P start num))
      \<and> (\<forall>j. start \<le> j \<and> j < first_from P start num \<longrightarrow> \<not> P j)"
    using assms
  proof (induction P start num rule: first_from.induct)
    case (1 P start num)
    show ?case
    proof (cases "start < num \<and> \<not> P start")
      case True
      then have e: "first_from P start num = first_from P (start + 1) num" by (simp add: first_from.simps [of _ start])
      have "\<not> P j" if "start \<le> j" "j < first_from P (start + 1) num" for j
        using 1 True that by (cases "j = start") auto
      then show ?thesis using 1 True e by (metis Suc_eq_plus1 Suc_leI Suc_leD)
    qed (use "1.prems" in \<open>auto simp: first_from.simps [of _ start]\<close>)
  qed
  then show "start \<le> first_from P start num" "first_from P start num \<le> num"
    "first_from P start num < num \<Longrightarrow> P (first_from P start num)"
    "start \<le> j \<Longrightarrow> j < first_from P start num \<Longrightarrow> \<not> P j" by blast+
qed

lemma first_from_full: "start \<le> num \<Longrightarrow> first_from P start num = num \<longleftrightarrow> (\<forall>j. start \<le> j \<and> j < num \<longrightarrow> \<not> P j)"
  using first_from_spec [where P = P and start = start and num = num] by (metis le_less)

text \<open>The contract of such a map; \<open>limit m\<close> bounds the identifiers it can record.\<close>

locale id_set =
  fixes is_set :: "'m \<Rightarrow> nat \<Rightarrow> bool" and set_id :: "'m \<Rightarrow> nat \<Rightarrow> 'm" and clr_id :: "'m \<Rightarrow> nat \<Rightarrow> 'm"
    and limit :: "'m \<Rightarrow> nat"
  assumes is_set_limit: "is_set m i \<Longrightarrow> i < limit m"
    and set_set: "is_set (set_id m i) j \<longleftrightarrow> i = j \<and> i < limit m \<or> is_set m j"
    and set_clr: "is_set (clr_id m i) j \<longleftrightarrow> i \<noteq> j \<and> is_set m j"
    and limit_set: "limit (set_id m i) = limit m"
    and limit_clr: "limit (clr_id m i) = limit m"
begin

definition ids :: "'m \<Rightarrow> nat set" where
  "ids m = {i. is_set m i}"

lemma ids_set: "i < limit m \<Longrightarrow> ids (set_id m i) = insert i (ids m)"
  by (auto simp: ids_def set_set)

lemma ids_clr: "ids (clr_id m i) = ids m - {i}"
  by (auto simp: ids_def set_clr)

lemma finite_ids: "finite (ids m)"
  by (rule finite_subset [of _ "{..< limit m}"]) (auto simp: ids_def dest: is_set_limit)

text \<open>The lowest free identifier below \<open>n\<close>; allocating it records exactly one more.\<close>

definition lowest_free :: "'m \<Rightarrow> nat \<Rightarrow> nat" where
  "lowest_free m n = first_from (\<lambda>i. \<not> is_set m i) 0 n"

lemma lowest_free_alloc:
  assumes "lowest_free m n < n" and "n \<le> limit m"
  shows "lowest_free m n \<notin> ids m" and "ids (set_id m (lowest_free m n)) = insert (lowest_free m n) (ids m)"
    and "card (ids (set_id m (lowest_free m n))) = card (ids m) + 1"
proof -
  show "lowest_free m n \<notin> ids m"
    using assms(1) first_from_spec(3) [where start = 0 and num = n and P = "\<lambda>i. \<not> is_set m i"] by (simp add: ids_def lowest_free_def)
  moreover show "ids (set_id m (lowest_free m n)) = insert (lowest_free m n) (ids m)"
    using assms by (simp add: ids_set)
  ultimately show "card (ids (set_id m (lowest_free m n))) = card (ids m) + 1"
    using finite_ids by simp
qed

lemma lowest_free_full: "lowest_free m n = n \<longleftrightarrow> {..<n} \<subseteq> ids m"
  using first_from_full [of 0 n "\<lambda>i. \<not> is_set m i"] by (auto simp: lowest_free_def ids_def)

end

lemma and_exp_iff: "(w :: 'a::len word) AND 2 ^ i \<noteq> 0 \<longleftrightarrow> bit w i"
  by (simp add: and_exp_eq_0_iff_not_bit)

lemma word_map_laws:
  fixes m0 :: u32
  assumes "i < 32" and "j < 32"
  shows "bit (m0 OR 2 ^ i) j \<longleftrightarrow> i = j \<or> bit m0 j" and "bit (m0 AND NOT (2 ^ i)) j \<longleftrightarrow> i \<noteq> j \<and> bit m0 j"
  using assms by (auto simp: bit_simps)

interpretation macid: id_set rtw_macid_is_set rtw_macid_map_set rtw_macid_map_clr "\<lambda>_. 32"
  by unfold_locales
    (auto simp: rtw_macid_is_set_def rtw_macid_map_set_def rtw_macid_map_clr_def and_exp_iff word_map_laws
      split: if_splits)

interpretation sec_cam: id_set rtw_sec_camid_is_set rtw_sec_cam_map_set rtw_sec_cam_map_clr "\<lambda>_. 32"
  by unfold_locales
    (auto simp: rtw_sec_camid_is_set_def rtw_sec_cam_map_set_def rtw_sec_cam_map_clr_def and_exp_iff word_map_laws
      split: if_splits)

lemma rtw_bmp_is_set_bit: "rtw_bmp_is_set bmp i \<longleftrightarrow> i div 8 < length bmp \<and> bit (bmp ! (i div 8)) (i mod 8)"
  by (simp add: rtw_bmp_is_set_def and_exp_iff)

lemma same_byte_bit: "i div 8 = j div 8 \<Longrightarrow> i mod 8 = j mod 8 \<longleftrightarrow> i = (j :: nat)"
  by (metis div_mult_mod_eq)

interpretation bmp: id_set rtw_bmp_is_set rtw_bmp_set rtw_bmp_clear "\<lambda>bmp. 8 * length bmp"
proof
  fix bmp :: buf and i j :: nat
  show "rtw_bmp_is_set bmp i \<Longrightarrow> i < 8 * length bmp" by (auto simp: rtw_bmp_is_set_bit)
  show "rtw_bmp_is_set (rtw_bmp_set bmp i) j \<longleftrightarrow> i = j \<and> i < 8 * length bmp \<or> rtw_bmp_is_set bmp j"
    using same_byte_bit [of i j]
    by (cases "i div 8 = j div 8") (auto simp: rtw_bmp_is_set_bit rtw_bmp_set_def bit_or_iff bit_exp_iff)
  show "rtw_bmp_is_set (rtw_bmp_clear bmp i) j \<longleftrightarrow> i \<noteq> j \<and> rtw_bmp_is_set bmp j"
    using same_byte_bit [of i j]
    by (cases "i div 8 = j div 8") (auto simp: rtw_bmp_is_set_bit rtw_bmp_clear_def bit_and_iff bit_not_iff bit_exp_iff)
qed (simp_all add: rtw_bmp_set_def rtw_bmp_clear_def)

end
