(* ===== verification/Tim.thy ===== *)
theory Tim
  imports Ie Bitmaps
begin

text \<open>
  The traffic indication map of an access point: the wrappers \<open>rtw_tim_map_*\<close> of
  \<open>core/rtw_wlan_util.c\<close> over the association-id bitmap, the element writer \<open>rtw_set_tim_ie\<close> and the
  beacon update \<open>update_BCNTIM\<close> of \<open>core/rtw_ap.c\<close>. The lemmas show that a station that decodes the
  partial virtual bitmap finds exactly the bits the access point set, and that the update replaces
  or inserts the TIM element and leaves every other element alone.
\<close>

definition rtw_tim_map_is_set :: "buf \<Rightarrow> nat \<Rightarrow> bool" where
  "rtw_tim_map_is_set tmap i = rtw_bmp_is_set tmap i"

definition rtw_tim_map_set :: "buf \<Rightarrow> nat \<Rightarrow> buf" where
  "rtw_tim_map_set tmap i = rtw_bmp_set tmap i"

definition rtw_tim_map_clear :: "buf \<Rightarrow> nat \<Rightarrow> buf" where
  "rtw_tim_map_clear tmap i = rtw_bmp_clear tmap i"

definition rtw_tim_map_anyone_be_set :: "buf \<Rightarrow> bool" where
  "rtw_tim_map_anyone_be_set tmap = rtw_bmp_not_empty tmap"

definition rtw_tim_map_anyone_be_set_exclude_aid0 :: "buf \<Rightarrow> bool" where
  "rtw_tim_map_anyone_be_set_exclude_aid0 tmap = rtw_bmp_not_empty_exclude_bit0 tmap"

section \<open>The element\<close>

definition WLAN_EID_TIM :: u8 where "WLAN_EID_TIM = 5"

text \<open>\<open>for (i = start; i > 0; i--) if (P(i)) break;\<close>\<close>

primrec last_down :: "(nat \<Rightarrow> bool) \<Rightarrow> nat \<Rightarrow> nat" where
  "last_down P 0 = 0"
| "last_down P (Suc i) = (if P (Suc i) then Suc i else last_down P i)"

definition tim_n1 :: "buf \<Rightarrow> nat" where
  "tim_n1 bmp = (if rtw_bmp_not_empty bmp then 2 * (first_from (\<lambda>i. bmp ! i \<noteq> 0) 0 (length bmp) div 2) else 0)"

definition tim_n2 :: "buf \<Rightarrow> nat" where
  "tim_n2 bmp = (if rtw_bmp_not_empty bmp then last_down (\<lambda>i. bmp ! i \<noteq> 0) (length bmp - 1) else 0)"

text \<open>\<open>i & 0xFE\<close> of an octet index is \<open>2 * (i div 2)\<close>. The result is the buffer and the returned
  \<open>u8\<close> length.\<close>

definition rtw_set_tim_ie :: "u8 \<Rightarrow> u8 \<Rightarrow> buf \<Rightarrow> buf \<Rightarrow> nat \<Rightarrow> (buf \<times> nat) option" where
  "rtw_set_tim_ie dtim_cnt dtim_period tim_bmp b tim_ie = do {
     let n1 = tim_n1 tim_bmp;
     let bmp_len = tim_n2 tim_bmp - n1 + 1;
     b \<leftarrow> wr_n b tim_ie [WLAN_EID_TIM, word_of_nat (2 + 1 + bmp_len), dtim_cnt, dtim_period,
            (if rtw_bmp_is_set tim_bmp 0 then 1 else 0) OR word_of_nat n1];
     pvb \<leftarrow> rd_n tim_bmp n1 bmp_len;
     b \<leftarrow> wr_n b (tim_ie + 5) pvb;
     Some (b, (2 + 2 + 1 + bmp_len) mod 2 ^ 8) }"

section \<open>The beacon\<close>

text \<open>The buffer holds the beacon body (\<open>IEs\<close>), \<open>IELength\<close> bytes of it in use. \<open>malloc_ok\<close> is whether
  \<open>rtw_malloc\<close> of the backup succeeds.\<close>

definition update_BCNTIM :: "buf \<Rightarrow> bool \<Rightarrow> buf \<Rightarrow> nat \<Rightarrow> (buf \<times> nat) option" where
  "update_BCNTIM tim_bitmap malloc_ok pie IELength = do {
     (p, tim_ielen) \<leftarrow> rtw_get_ie pie 12 5 0 (to_s32 (usub32 IELength 12));
     (dst_ie, premainder_ie, remainder_ielen) \<leftarrow>
       (if p \<noteq> None \<and> tim_ielen > 0 then
          Some (the p, the p + (tim_ielen + 2), usub32 (usub32 IELength (the p)) (tim_ielen + 2))
        else do {
          (s, tmp_len) \<leftarrow> rtw_get_ie pie 12 0 0 (to_s32 (usub32 IELength 12));
          let offset = (if s \<noteq> None then 12 + (tmp_len + 2) else 12);
          (r, tmp_len) \<leftarrow> rtw_get_ie pie 12 1 tmp_len (to_s32 (usub32 IELength 12));
          let offset = (if r \<noteq> None then offset + (tmp_len + 2) else offset);
          let offset = offset + 3;
          Some (offset, offset, usub32 (usub32 IELength offset) 0) });
     backup \<leftarrow> (if remainder_ielen > 0 \<and> malloc_ok then map_option Some (rd_n pie premainder_ie remainder_ielen)
               else Some None);
     (pie, n) \<leftarrow> rtw_set_tim_ie 0 1 tim_bitmap pie dst_ie;
     let dst_ie = dst_ie + n;
     pie \<leftarrow> (case backup of None \<Rightarrow> Some pie | Some xs \<Rightarrow> wr_n pie dst_ie xs);
     Some (pie, uadd32 dst_ie remainder_ielen) }"

section \<open>Decoding the element\<close>

text \<open>What a station reads from the content of a TIM element (DTIM count, DTIM period, bitmap control,
  partial virtual bitmap): bit 0 of the control octet for group traffic, otherwise the bit of its
  association id, which is 0 outside the part that is sent.\<close>

definition tim_traffic :: "buf \<Rightarrow> nat \<Rightarrow> bool" where
  "tim_traffic content i =
     (let ctrl = content ! 2; pvb = drop 3 content; n1 = unat (ctrl AND 0xFE) in
      if i = 0 then bit ctrl 0
      else n1 \<le> i div 8 \<and> i div 8 < n1 + length pvb \<and> bit (pvb ! (i div 8 - n1)) (i mod 8))"

definition tim_content :: "u8 \<Rightarrow> u8 \<Rightarrow> buf \<Rightarrow> buf" where
  "tim_content cnt period bmp =
     [cnt, period, (if rtw_bmp_is_set bmp 0 then 1 else 0) OR word_of_nat (tim_n1 bmp)]
     @ take (tim_n2 bmp - tim_n1 bmp + 1) (drop (tim_n1 bmp) bmp)"

lemma last_down_spec:
  "last_down P n \<le> n \<and> (last_down P n > 0 \<longrightarrow> P (last_down P n)) \<and> (\<forall>j. last_down P n < j \<and> j \<le> n \<longrightarrow> \<not> P j)"
proof (induction n)
  case (Suc n)
  then show ?case by (auto simp: le_Suc_eq)
qed simp

lemma tim_bounds:
  assumes "bmp \<noteq> []"
  shows "tim_n1 bmp \<le> tim_n2 bmp" and "tim_n2 bmp < length bmp" and "even (tim_n1 bmp)"
    and "k < length bmp \<Longrightarrow> k < tim_n1 bmp \<or> tim_n2 bmp < k \<Longrightarrow> bmp ! k = 0"
proof -
  let ?P = "\<lambda>i. bmp ! i \<noteq> 0"
  let ?f = "first_from ?P 0 (length bmp)" and ?l = "last_down ?P (length bmp - 1)"
  note f = first_from_spec [where P = ?P and start = 0 and num = "length bmp"]
  note l = last_down_spec [of ?P "length bmp - 1"]
  have ne: "rtw_bmp_not_empty bmp \<longleftrightarrow> ?f < length bmp"
    using first_from_full [of 0 "length bmp" ?P] f(2)
    by (auto simp: rtw_bmp_not_empty_def list_ex_length)
  have fl: "?f \<le> ?l" if "?f < length bmp" using l f(3) that by (cases "?f = 0") (auto simp: not_less [symmetric])
  show "tim_n1 bmp \<le> tim_n2 bmp" using fl ne by (auto simp: tim_n1_def tim_n2_def)
  show "tim_n2 bmp < length bmp" using assms l by (cases bmp) (auto simp: tim_n2_def)
  show "even (tim_n1 bmp)" by (simp add: tim_n1_def)
  assume k: "k < length bmp" "k < tim_n1 bmp \<or> tim_n2 bmp < k"
  show "bmp ! k = 0"
  proof (cases "rtw_bmp_not_empty bmp")
    case True
    then have "k < ?f \<or> ?l < k" using k(2) by (auto simp: tim_n1_def tim_n2_def)
    then show ?thesis using f(4) [of k] l k(1) by auto
  next
    case False
    then show ?thesis using k(1) by (simp add: rtw_bmp_not_empty_def list_ex_iff)
  qed
qed

lemma ctrl_fields:
  assumes "even n" and "n < 256"
  shows "unat (((if b then 1 else 0) OR word_of_nat n) AND 0xFE :: u8) = n"
    and "bit ((if b then 1 else 0) OR word_of_nat n :: u8) 0 \<longleftrightarrow> b"
proof -
  have w: "\<not> bit (word_of_nat n :: u8) 0" using assms(1) by (simp add: bit_simps bit_0)
  have fe: "(0xFE :: u8) = NOT 1" by simp
  have "((if b then 1 else 0) OR word_of_nat n) AND NOT 1 = (word_of_nat n :: u8)"
    using w by (intro bit_word_eqI) (auto simp: bit_or_iff bit_and_iff bit_not_iff bit_1_iff intro: ccontr)
  then show "unat (((if b then 1 else 0) OR word_of_nat n) AND 0xFE :: u8) = n"
    unfolding fe using assms(2) by simp
  show "bit ((if b then 1 else 0) OR word_of_nat n :: u8) 0 \<longleftrightarrow> b" using w by (simp add: bit_or_iff)
qed

lemma length_tim_content: "bmp \<noteq> [] \<Longrightarrow> length (tim_content cnt period bmp) = tim_n2 bmp - tim_n1 bmp + 4"
  using tim_bounds(1,2) [of bmp] by (simp add: tim_content_def)

lemma tim_content_le: "bmp \<noteq> [] \<Longrightarrow> length bmp + 3 \<le> n \<Longrightarrow> length (tim_content cnt period bmp) \<le> n"
  using tim_bounds(2) [of bmp] by (simp add: length_tim_content)

lemma tim_traffic_content:
  assumes "bmp \<noteq> []" and "length bmp \<le> 250"
  shows "tim_traffic (tim_content cnt period bmp) i \<longleftrightarrow> rtw_bmp_is_set bmp i"
proof -
  note b = tim_bounds [OF assms(1)]
  have n1: "tim_n1 bmp < 256" using b(1,2) assms(2) by linarith
  let ?len = "tim_n2 bmp - tim_n1 bmp + 1" and ?k = "i div 8"
  show ?thesis
  proof (cases "i = 0")
    case True
    then show ?thesis by (simp add: tim_traffic_def tim_content_def ctrl_fields [OF b(3) n1])
  next
    case False
    have len: "length (take ?len (drop (tim_n1 bmp) bmp)) = ?len" using b(1,2) by simp
    have nth: "take ?len (drop (tim_n1 bmp) bmp) ! (?k - tim_n1 bmp) = bmp ! ?k"
      if "tim_n1 bmp \<le> ?k" "?k \<le> tim_n2 bmp" using that b(2) by simp
    have "tim_traffic (tim_content cnt period bmp) i
        \<longleftrightarrow> tim_n1 bmp \<le> ?k \<and> ?k < tim_n1 bmp + ?len \<and> bit (take ?len (drop (tim_n1 bmp) bmp) ! (?k - tim_n1 bmp)) (i mod 8)"
      using False len by (simp add: tim_traffic_def tim_content_def Let_def ctrl_fields [OF b(3) n1])
    also have "\<dots> \<longleftrightarrow> ?k < length bmp \<and> bit (bmp ! ?k) (i mod 8)"
      using b(1,2) b(4) [of ?k] nth by (cases "tim_n1 bmp \<le> ?k \<and> ?k \<le> tim_n2 bmp") (auto simp: not_le)
    finally show ?thesis by (simp add: rtw_bmp_is_set_bit)
  qed
qed

lemma set_tim_ie_writes:
  assumes "bmp \<noteq> []" and "length bmp \<le> 250" and "length old = length (tim_content cnt period bmp) + 2"
  shows "rtw_set_tim_ie cnt period bmp (pre @ old @ post) (length pre)
    = Some (pre @ enc_ie (WLAN_EID_TIM, tim_content cnt period bmp) @ post, length (tim_content cnt period bmp) + 2)"
proof -
  note b = tim_bounds [OF assms(1)]
  let ?len = "tim_n2 bmp - tim_n1 bmp + 1" and ?pvb = "take (tim_n2 bmp - tim_n1 bmp + 1) (drop (tim_n1 bmp) bmp)"
  let ?hd = "[WLAN_EID_TIM, word_of_nat (2 + 1 + ?len), cnt, period, (if rtw_bmp_is_set bmp 0 then 1 else 0) OR word_of_nat (tim_n1 bmp)]"
  have old: "length old = 5 + ?len" using assms(3) length_tim_content [OF assms(1)] by simp
  have small: "(2 + 2 + 1 + ?len) mod 2 ^ 8 = 5 + ?len" using b(2) assms(2) by simp
  have pvb: "rd_n bmp (tim_n1 bmp) ?len = Some ?pvb" using b(1,2) by (simp add: rd_n_def)
  have lp: "length ?pvb = ?len" using b(1,2) by simp
  have five: "drop (length ?hd) old = drop 5 old" by (simp add: eval_nat_numeral)
  have w1: "wr_n (pre @ old @ post) (length pre) ?hd = Some (pre @ ?hd @ drop 5 old @ post)"
    using wr_n_prefix [of ?hd "old @ post" pre] old five by simp
  have w2: "wr_n (pre @ ?hd @ drop 5 old @ post) (length pre + 5) ?pvb = Some (pre @ ?hd @ ?pvb @ post)"
    using wr_n_prefix [of ?pvb "drop 5 old @ post" "pre @ ?hd"] old lp
    by (simp add: eval_nat_numeral split del: if_split)
  have "enc_ie (WLAN_EID_TIM, tim_content cnt period bmp) = ?hd @ ?pvb"
    using lp by (simp add: enc_ie_def tim_content_def)
  then show ?thesis
    using w1 w2 pvb small length_tim_content [OF assms(1)] by (simp add: rtw_set_tim_ie_def Let_def)
qed

lemma set_tim_ie_room:
  assumes "bmp \<noteq> []" and "length bmp \<le> 250" and "length (tim_content cnt period bmp) + 2 \<le> length room"
  shows "rtw_set_tim_ie cnt period bmp (pre @ room) (length pre)
    = Some (pre @ enc_ie (WLAN_EID_TIM, tim_content cnt period bmp) @ drop (length (tim_content cnt period bmp) + 2) room,
        length (tim_content cnt period bmp) + 2)"
  using set_tim_ie_writes [OF assms(1,2), of "take (length (tim_content cnt period bmp) + 2) room" cnt period pre
      "drop (length (tim_content cnt period bmp) + 2) room"] assms(3) by simp

text \<open>C20: a station that decodes the TIM element written by \<open>rtw_set_tim_ie\<close> sees buffered traffic for
  an association id exactly when the access point's bitmap has its bit, and group traffic exactly
  when it has bit 0; nothing but the element is written.\<close>

theorem tim_element_decodes:
  assumes "bmp \<noteq> []" and "length bmp \<le> 250" and "length bmp + 5 \<le> length room"
  shows "\<exists>content rest. rtw_set_tim_ie cnt period bmp (pre @ room) (length pre)
        = Some (pre @ enc_ie (WLAN_EID_TIM, content) @ rest, length content + 2)
      \<and> ie_ok (WLAN_EID_TIM, content) \<and> length content + 2 + length rest = length room
      \<and> (\<forall>i. tim_traffic content i \<longleftrightarrow> rtw_bmp_is_set bmp i)"
proof (intro exI conjI allI)
  let ?c = "tim_content cnt period bmp" and ?n = "length (tim_content cnt period bmp) + 2"
  have n: "?n \<le> length room" "length ?c < 256"
    using length_tim_content [OF assms(1), of cnt period] tim_bounds(2) [OF assms(1)] assms(2,3) by linarith+
  show "rtw_set_tim_ie cnt period bmp (pre @ room) (length pre)
      = Some (pre @ enc_ie (WLAN_EID_TIM, ?c) @ drop ?n room, ?n)"
    using set_tim_ie_room [OF assms(1,2)] n(1) by simp
  show "ie_ok (WLAN_EID_TIM, ?c)" using n(2) by (simp add: ie_ok_def)
  show "?n + length (drop ?n room) = length room" using n(1) by simp
  show "tim_traffic ?c i \<longleftrightarrow> rtw_bmp_is_set bmp i" for i by (rule tim_traffic_content [OF assms(1,2)])
qed

theorem tim_element_decodes_witness:
  "\<exists>content rest. rtw_set_tim_ie 0 1 [0, 0, 0, 8, 0] ([7] @ replicate 10 0) (length [7 :: u8])
      = Some ([7] @ enc_ie (WLAN_EID_TIM, content) @ rest, length content + 2)
    \<and> ie_ok (WLAN_EID_TIM, content) \<and> length content + 2 + length rest = length (replicate 10 (0 :: u8))
    \<and> (\<forall>i. tim_traffic content i \<longleftrightarrow> rtw_bmp_is_set [0, 0, 0, 8, 0] i)"
  by (rule tim_element_decodes) simp_all

section \<open>The beacon keeps its other elements\<close>

lemma get_ie_12:
  assumes "length fixed = 12" and "12 < IELength" and "IELength < 2 ^ 31"
  shows "rtw_get_ie b 12 index len0 (to_s32 (usub32 IELength 12)) = get_ie_scan index b IELength 12"
  using assms rtw_get_ie_scan [of 12 IELength b index len0] by (simp add: usub32_le to_s32_small)

text \<open>when the beacon has a TIM element, \<open>update_BCNTIM\<close> replaces it by the current one and keeps
  the elements before and behind it, whatever the two lengths are, as long as the result fits.\<close>

theorem update_BCNTIM_replaces:
  assumes "bmp \<noteq> []" and "length bmp \<le> 250" and "length fixed = 12" and "list_all ie_ok (us @ (5, old) # vs)"
    and "\<forall>u\<in>set us. fst u \<noteq> 5" and "old \<noteq> []"
    and "length (fixed @ ies_bytes (us @ (5, old) # vs) @ slack) < 2 ^ 31"
    and "length (tim_content 0 1 bmp) \<le> length old + length slack"
  shows "\<exists>slack'. update_BCNTIM bmp True (fixed @ ies_bytes (us @ (5, old) # vs) @ slack)
        (length (fixed @ ies_bytes (us @ (5, old) # vs)))
      = Some (fixed @ ies_bytes (us @ (5, tim_content 0 1 bmp) # vs) @ slack',
          length (fixed @ ies_bytes (us @ (5, tim_content 0 1 bmp) # vs)))"
proof -
  let ?b = "fixed @ ies_bytes (us @ (5, old) # vs) @ slack" and ?c = "tim_content 0 1 bmp"
  let ?L = "length (fixed @ ies_bytes (us @ (5, old) # vs))" and ?at = "length (fixed @ ies_bytes us)"
  let ?pre = "fixed @ ies_bytes us" and ?V = "ies_bytes vs"
  have get: "rtw_get_ie ?b 12 5 0 (to_s32 (usub32 ?L 12)) = Some (Some ?at, length old)"
    using get_ie.scan_first [where pre = fixed and us = us and t = "(5, old)" and vs = vs and index = 5 and post = slack]
      get_ie_12 [OF assms(3), of ?L ?b 5 0] assms(3-5,7) by (auto simp: word_uint_eq_iff)
  have rem: "usub32 (usub32 ?L ?at) (length old + 2) = length ?V"
    using assms(7) by (simp add: usub32_le)
  have backup: "rd_n ?b (?at + (length old + 2)) (length ?V) = Some ?V"
    using rd_n_mid [of "?pre @ enc_ie (5, old)" ?V slack] by (simp add: add.assoc)
  let ?room = "enc_ie (5, old) @ ?V @ slack"
  have n: "length ?c + 2 \<le> length ?room" using assms(8) by simp
  have set: "rtw_set_tim_ie 0 1 bmp ?b ?at = Some (?pre @ enc_ie (5, ?c) @ drop (length ?c + 2) ?room, length ?c + 2)"
    using set_tim_ie_room [OF assms(1,2) n, of ?pre] by (simp add: WLAN_EID_TIM_def del: drop_append)
  have wb: "wr_n (?pre @ enc_ie (5, ?c) @ drop (length ?c + 2) ?room) (?at + (length ?c + 2)) ?V
      = Some (?pre @ enc_ie (5, ?c) @ ?V @ drop (length ?V) (drop (length ?c + 2) ?room))"
    using wr_n_prefix [of ?V "drop (length ?c + 2) ?room" "?pre @ enc_ie (5, ?c)"] assms(8) by (simp add: add.assoc)
  have add: "uadd32 (?at + (length ?c + 2)) (length ?V) = length (fixed @ ies_bytes (us @ (5, ?c) # vs))"
    using assms(7,8) uadd32_small [of "?at + (length ?c + 2)" "length ?V"] by simp
  show ?thesis
    using get rem backup set wb add assms(6)
    by (cases "length ?V = 0") (auto simp: update_BCNTIM_def Let_def)
qed

definition bcn_fixed :: buf where "bcn_fixed = replicate 12 0"

theorem update_BCNTIM_replaces_witness:
  "\<exists>slack'. update_BCNTIM [1, 0, 4, 0, 0] True
      (bcn_fixed @ ies_bytes ([(0, [97]), (1, [2, 4]), (3, [6])] @ (5, [0, 1, 0, 0]) # [(42, [0])]) @ replicate 8 0)
      (length (bcn_fixed @ ies_bytes ([(0, [97]), (1, [2, 4]), (3, [6])] @ (5, [0, 1, 0, 0]) # [(42, [0])])))
    = Some (bcn_fixed @ ies_bytes ([(0, [97]), (1, [2, 4]), (3, [6])] @ (5, tim_content 0 1 [1, 0, 4, 0, 0]) # [(42, [0])]) @ slack',
        length (bcn_fixed @ ies_bytes ([(0, [97]), (1, [2, 4]), (3, [6])] @ (5, tim_content 0 1 [1, 0, 4, 0, 0]) # [(42, [0])])))"
  by (rule update_BCNTIM_replaces) (simp_all add: bcn_fixed_def ie_ok_def tim_content_le)

text \<open>When the beacon has no TIM element yet, \<open>update_BCNTIM\<close> inserts it behind the SSID, the
  supported rates and the DS parameter element, and keeps what follows.\<close>

theorem update_BCNTIM_inserts:
  assumes "bmp \<noteq> []" and "length bmp \<le> 250" and "length fixed = 12"
    and "list_all ie_ok ((0, ssid) # (1, rates) # (3, [ch]) # vs)" and "\<forall>v\<in>set vs. fst v \<noteq> 5"
    and "length (fixed @ ies_bytes ((0, ssid) # (1, rates) # (3, [ch]) # vs) @ slack) < 2 ^ 31"
    and "length (tim_content 0 1 bmp) \<le> length slack - 2" and "2 \<le> length slack"
  shows "\<exists>slack'. update_BCNTIM bmp True (fixed @ ies_bytes ((0, ssid) # (1, rates) # (3, [ch]) # vs) @ slack)
        (length (fixed @ ies_bytes ((0, ssid) # (1, rates) # (3, [ch]) # vs)))
      = Some (fixed @ ies_bytes ((0, ssid) # (1, rates) # (3, [ch]) # (5, tim_content 0 1 bmp) # vs) @ slack',
          length (fixed @ ies_bytes ((0, ssid) # (1, rates) # (3, [ch]) # (5, tim_content 0 1 bmp) # vs)))"
proof -
  let ?hs = "[(0, ssid), (1, rates), (3, [ch])] :: (u8 \<times> buf) list"
  let ?b = "fixed @ ies_bytes (?hs @ vs) @ slack" and ?c = "tim_content 0 1 bmp"
  let ?L = "length (fixed @ ies_bytes (?hs @ vs))" and ?pre = "fixed @ ies_bytes ?hs" and ?V = "ies_bytes vs"
  have ok: "list_all ie_ok (?hs @ vs)" using assms(4) by simp
  have L: "12 < ?L" "?L < 2 ^ 31" using assms(3,6) by auto
  have tim: "rtw_get_ie ?b 12 5 0 (to_s32 (usub32 ?L 12)) = Some (None, 0)"
    using get_ie.scan_none [where pre = fixed and ts = "?hs @ vs" and index = 5 and post = slack] ok
      get_ie_12 [OF assms(3) L, of ?b 5 0] assms(3,5,6) by (auto simp: word_uint_eq_iff)
  have ssid: "rtw_get_ie ?b 12 0 0 (to_s32 (usub32 ?L 12)) = Some (Some 12, length ssid)"
    using get_ie.scan_first [where pre = fixed and us = "[]" and t = "(0, ssid)" and vs = "(1, rates) # (3, [ch]) # vs"
        and index = 0 and post = slack] get_ie_12 [OF assms(3) L, of ?b 0 0] ok assms(3,6) by simp
  have rates: "rtw_get_ie ?b 12 1 n (to_s32 (usub32 ?L 12)) = Some (Some (12 + (length ssid + 2)), length rates)" for n
    using get_ie.scan_first [where pre = fixed and us = "[(0, ssid)]" and t = "(1, rates)" and vs = "(3, [ch]) # vs"
        and index = 1 and post = slack] get_ie_12 [OF assms(3) L, of ?b 1 n] ok assms(3,6) by simp
  let ?at = "12 + (length ssid + 2) + (length rates + 2) + 3"
  have at: "?at = length ?pre" using assms(3) by simp
  have rem: "usub32 (usub32 ?L ?at) 0 = length ?V" using assms(3,6) by (simp add: usub32_le)
  have backup: "rd_n ?b ?at (length ?V) = Some ?V" unfolding at using rd_n_mid [of ?pre ?V slack] by simp
  have n: "length ?c + 2 \<le> length (?V @ slack)" using assms(7,8) by simp
  have set: "rtw_set_tim_ie 0 1 bmp ?b ?at = Some (?pre @ enc_ie (5, ?c) @ drop (length ?c + 2) (?V @ slack), length ?c + 2)"
    unfolding at using set_tim_ie_room [OF assms(1,2) n, of ?pre] by (simp add: WLAN_EID_TIM_def del: drop_append)
  have wb: "wr_n (?pre @ enc_ie (5, ?c) @ drop (length ?c + 2) (?V @ slack)) (?at + (length ?c + 2)) ?V
      = Some (?pre @ enc_ie (5, ?c) @ ?V @ drop (length ?V) (drop (length ?c + 2) (?V @ slack)))"
    unfolding at using wr_n_prefix [of ?V "drop (length ?c + 2) (?V @ slack)" "?pre @ enc_ie (5, ?c)"] assms(7,8)
    by (simp add: add.assoc)
  have add: "uadd32 (?at + (length ?c + 2)) (length ?V) = length (fixed @ ies_bytes (?hs @ (5, ?c) # vs))"
    using assms(3,6,7,8) uadd32_small [of "?at + (length ?c + 2)" "length ?V"] by simp
  show ?thesis
    using tim ssid rates rem backup set wb add
    by (cases "length ?V = 0") (auto simp: update_BCNTIM_def Let_def)
qed

theorem update_BCNTIM_inserts_witness:
  "\<exists>slack'. update_BCNTIM [1, 0, 4, 0, 0] True
      (bcn_fixed @ ies_bytes ((0, [97]) # (1, [2, 4]) # (3, [6]) # [(42, [0])]) @ replicate 12 0)
      (length (bcn_fixed @ ies_bytes ((0, [97]) # (1, [2, 4]) # (3, [6]) # [(42, [0])])))
    = Some (bcn_fixed @ ies_bytes ((0, [97]) # (1, [2, 4]) # (3, [6]) # (5, tim_content 0 1 [1, 0, 4, 0, 0]) # [(42, [0])]) @ slack',
        length (bcn_fixed @ ies_bytes ((0, [97]) # (1, [2, 4]) # (3, [6]) # (5, tim_content 0 1 [1, 0, 4, 0, 0]) # [(42, [0])])))"
  by (rule update_BCNTIM_inserts) (simp_all add: bcn_fixed_def ie_ok_def tim_content_le)

end
