(* ===== verification/Acl.thy ===== *)
theory Acl
  imports Prelude
begin

text \<open>
  The MAC address access lists of an access point: \<open>core/rtw_ap.c\<close> (initialise, clear, set the mode,
  add and remove an address) and the decision \<open>rtw_access_ctrl\<close> of \<open>core/rtw_sta_mgt.c\<close>. A list is a
  pool of 16 nodes with a queue of the nodes in use. The locale \<open>bounded_set\<close> is the contract the
  pool offers; the refinement theorem shows that any sequence of operations acts as the same
  sequence on plain sets of addresses.
\<close>

section \<open>State\<close>

definition NUM_ACL :: nat where "NUM_ACL = 16"
definition RTW_ACL_PERIOD_NUM :: nat where "RTW_ACL_PERIOD_NUM = 2"
definition RTW_ACL_MODE_DISABLED :: int where "RTW_ACL_MODE_DISABLED = 0"
definition RTW_ACL_MODE_ACCEPT_UNLESS_LISTED :: int where "RTW_ACL_MODE_ACCEPT_UNLESS_LISTED = 1"
definition RTW_ACL_MODE_DENY_UNLESS_LISTED :: int where "RTW_ACL_MODE_DENY_UNLESS_LISTED = 2"

lemmas acl_consts = NUM_ACL_def RTW_ACL_PERIOD_NUM_def RTW_ACL_MODE_DISABLED_def
  RTW_ACL_MODE_ACCEPT_UNLESS_LISTED_def RTW_ACL_MODE_DENY_UNLESS_LISTED_def

record rtw_wlan_acl_node =
  acl_addr :: buf
  acl_valid :: bool

text \<open>The queue links nodes of the pool; it is the list of their indices.\<close>

record wlan_acl_pool =
  acl_mode :: int
  acl_num :: int
  aclnode :: "rtw_wlan_acl_node list"
  acl_node_q :: "nat list"

definition is_broadcast_mac_addr :: "buf \<Rightarrow> bool" where
  "is_broadcast_mac_addr a = (a = [0xFF, 0xFF, 0xFF, 0xFF, 0xFF, 0xFF])"

section \<open>Operations\<close>

definition rtw_macaddr_acl_init :: "wlan_acl_pool list \<Rightarrow> nat \<Rightarrow> wlan_acl_pool list" where
  "rtw_macaddr_acl_init acl_list period =
     (if period \<ge> RTW_ACL_PERIOD_NUM then acl_list
      else acl_list[period := (acl_list ! period)\<lparr>acl_node_q := [], acl_num := 0, acl_mode := RTW_ACL_MODE_DISABLED,
             aclnode := map (acl_valid_update (\<lambda>_. False)) (aclnode (acl_list ! period))\<rparr>])"

text \<open>One turn of the loops that walk the queue and release nodes; the loops fetch the successor before
  they unlink a node, so they visit the queue as it was at the start.\<close>

definition acl_release :: "(buf \<Rightarrow> bool) \<Rightarrow> wlan_acl_pool \<Rightarrow> nat \<Rightarrow> wlan_acl_pool" where
  "acl_release P acl i =
     (if P (acl_addr (aclnode acl ! i)) \<and> acl_valid (aclnode acl ! i) then
        acl\<lparr>aclnode := (aclnode acl)[i := (aclnode acl ! i)\<lparr>acl_valid := False\<rparr>],
            acl_node_q := remove1 i (acl_node_q acl), acl_num := acl_num acl - 1\<rparr>
      else acl)"

definition acl_release_all :: "(buf \<Rightarrow> bool) \<Rightarrow> wlan_acl_pool \<Rightarrow> wlan_acl_pool" where
  "acl_release_all P acl = foldl (acl_release P) acl (acl_node_q acl)"

definition rtw_macaddr_acl_clear :: "wlan_acl_pool list \<Rightarrow> nat \<Rightarrow> wlan_acl_pool list" where
  "rtw_macaddr_acl_clear acl_list period =
     (if period \<ge> RTW_ACL_PERIOD_NUM then acl_list
      else acl_list[period := (acl_release_all (\<lambda>_. True) (acl_list ! period))\<lparr>acl_mode := RTW_ACL_MODE_DISABLED\<rparr>])"

definition rtw_set_macaddr_acl :: "wlan_acl_pool list \<Rightarrow> nat \<Rightarrow> int \<Rightarrow> wlan_acl_pool list" where
  "rtw_set_macaddr_acl acl_list period mode =
     (if period \<ge> RTW_ACL_PERIOD_NUM then acl_list
      else acl_list[period := (acl_list ! period)\<lparr>acl_mode := mode\<rparr>])"

text \<open>The search over the queue of both the add and the access check.\<close>

definition acl_listed :: "wlan_acl_pool \<Rightarrow> buf \<Rightarrow> bool" where
  "acl_listed acl a = list_ex (\<lambda>i. acl_addr (aclnode acl ! i) = a \<and> acl_valid (aclnode acl ! i)) (acl_node_q acl)"

definition acl_first_free :: "wlan_acl_pool \<Rightarrow> nat option" where
  "acl_first_free acl = find (\<lambda>i. \<not> acl_valid (aclnode acl ! i)) [0..<NUM_ACL]"

definition acl_add :: "wlan_acl_pool \<Rightarrow> buf \<Rightarrow> wlan_acl_pool \<times> int" where
  "acl_add acl a =
     (if acl_listed acl a then (acl, 0)
      else if acl_num acl \<ge> int NUM_ACL then (acl, -1)
      else case acl_first_free acl of
          None \<Rightarrow> (acl, -1)
        | Some i \<Rightarrow> (acl\<lparr>aclnode := (aclnode acl)[i := \<lparr>acl_addr = a, acl_valid = True\<rparr>],
              acl_node_q := acl_node_q acl @ [i], acl_num := acl_num acl + 1\<rparr>, 0))"

definition rtw_acl_add_sta :: "wlan_acl_pool list \<Rightarrow> nat \<Rightarrow> buf \<Rightarrow> wlan_acl_pool list \<times> int" where
  "rtw_acl_add_sta acl_list period a =
     (if period \<ge> RTW_ACL_PERIOD_NUM then (acl_list, -1)
      else let (acl, ret) = acl_add (acl_list ! period) a in (acl_list[period := acl], ret))"

definition acl_remove :: "wlan_acl_pool \<Rightarrow> buf \<Rightarrow> wlan_acl_pool" where
  "acl_remove acl a = acl_release_all (\<lambda>b. is_broadcast_mac_addr a \<or> b = a) acl"

definition rtw_acl_remove_sta :: "wlan_acl_pool list \<Rightarrow> nat \<Rightarrow> buf \<Rightarrow> wlan_acl_pool list \<times> int" where
  "rtw_acl_remove_sta acl_list period a =
     (if period \<ge> RTW_ACL_PERIOD_NUM then (acl_list, 0)
      else (acl_list[period := acl_remove (acl_list ! period) a], 0))"

definition access_ctrl_period :: "wlan_acl_pool list \<Rightarrow> nat \<Rightarrow> buf \<Rightarrow> bool" where
  "access_ctrl_period acl_list period a =
     (if period \<ge> RTW_ACL_PERIOD_NUM then True
      else let acl = acl_list ! period in
        if acl_mode acl \<noteq> RTW_ACL_MODE_ACCEPT_UNLESS_LISTED \<and> acl_mode acl \<noteq> RTW_ACL_MODE_DENY_UNLESS_LISTED
        then True
        else if acl_mode acl = RTW_ACL_MODE_ACCEPT_UNLESS_LISTED then \<not> acl_listed acl a
        else acl_listed acl a)"

definition rtw_access_ctrl :: "wlan_acl_pool list \<Rightarrow> buf \<Rightarrow> bool" where
  "rtw_access_ctrl acl_list a = list_all (\<lambda>i. access_ctrl_period acl_list i a) [0..<RTW_ACL_PERIOD_NUM]"

section \<open>A bounded set and its clients\<close>

text \<open>The contract: an insertion fails exactly when the element is new and the set is full, and a
  removal takes out the elements its argument covers.\<close>

locale bounded_set =
  fixes members :: "'s \<Rightarrow> 'a set" and ok :: "'s \<Rightarrow> bool" and cap :: nat
    and add :: "'s \<Rightarrow> 'a \<Rightarrow> 's \<times> int" and remove :: "'s \<Rightarrow> 'a \<Rightarrow> 's" and covers :: "'a \<Rightarrow> 'a \<Rightarrow> bool"
    and mem :: "'s \<Rightarrow> 'a \<Rightarrow> bool"
  assumes mem_iff: "ok s \<Longrightarrow> mem s a \<longleftrightarrow> a \<in> members s"
    and card_le: "ok s \<Longrightarrow> finite (members s) \<and> card (members s) \<le> cap"
    and add_ok: "ok s \<Longrightarrow> ok (fst (add s a))"
    and add_spec: "ok s \<Longrightarrow> snd (add s a) = (if a \<in> members s \<or> card (members s) < cap then 0 else -1)
      \<and> members (fst (add s a)) = (if card (members s) < cap then insert a (members s) else members s)"
    and remove_ok: "ok s \<Longrightarrow> ok (remove s a)"
    and remove_spec: "ok s \<Longrightarrow> members (remove s a) = {b \<in> members s. \<not> covers a b}"
begin

lemma add_success_mem: "ok s \<Longrightarrow> snd (add s a) = 0 \<Longrightarrow> mem (fst (add s a)) a"
  using add_ok [of s a] add_spec [of s a] by (auto simp: mem_iff split: if_splits)

lemma remove_gone: "ok s \<Longrightarrow> covers a b \<Longrightarrow> \<not> mem (remove s a) b"
  using remove_ok [of s a] remove_spec [of s a] by (auto simp: mem_iff)

lemma remove_add:
  assumes "ok s" and "snd (add s a) = 0" and "\<And>b. covers a b \<longleftrightarrow> b = a" and "a \<notin> members s"
  shows "members (remove (fst (add s a)) a) = members s"
  using add_ok [OF assms(1), of a] add_spec [OF assms(1), of a] remove_spec assms by (auto split: if_splits)

lemma add_after_remove:
  assumes "ok s" and "b \<in> members s" and "covers a b"
  shows "snd (add (remove s a) c) = 0"
proof -
  have "members (remove s a) \<subset> members s" using remove_spec [OF assms(1), of a] assms(2,3) by auto
  then have "card (members (remove s a)) < cap"
    using card_le [OF assms(1)] psubset_card_mono [of "members s" "members (remove s a)"] by linarith
  then show ?thesis using add_spec [OF remove_ok [OF assms(1)], of a c] by simp
qed

end

section \<open>The pool is a bounded set\<close>

definition acl_ok :: "wlan_acl_pool \<Rightarrow> bool" where
  "acl_ok acl \<longleftrightarrow> length (aclnode acl) = NUM_ACL \<and> distinct (acl_node_q acl)
     \<and> (\<forall>i. i \<in> set (acl_node_q acl) \<longleftrightarrow> i < NUM_ACL \<and> acl_valid (aclnode acl ! i))
     \<and> inj_on (\<lambda>i. acl_addr (aclnode acl ! i)) (set (acl_node_q acl))
     \<and> acl_num acl = int (length (acl_node_q acl))"

definition acl_members :: "wlan_acl_pool \<Rightarrow> buf set" where
  "acl_members acl = (\<lambda>i. acl_addr (aclnode acl ! i)) ` set (acl_node_q acl)"

lemma acl_listed_iff: "acl_ok acl \<Longrightarrow> acl_listed acl a \<longleftrightarrow> a \<in> acl_members acl"
  by (auto simp: acl_ok_def acl_listed_def acl_members_def list_ex_iff)

lemma acl_card: "acl_ok acl \<Longrightarrow> card (acl_members acl) = length (acl_node_q acl)"
  by (simp add: acl_ok_def acl_members_def card_image distinct_card)

lemma acl_num_card: "acl_ok acl \<Longrightarrow> acl_num acl = int (card (acl_members acl))"
  by (simp add: acl_card) (simp add: acl_ok_def)

lemma acl_q_le: "acl_ok acl \<Longrightarrow> length (acl_node_q acl) \<le> NUM_ACL"
  using card_mono [of "{..<NUM_ACL}" "set (acl_node_q acl)"] by (auto simp: acl_ok_def distinct_card)

lemma acl_first_free_Some:
  assumes "acl_ok acl" and "length (acl_node_q acl) < NUM_ACL"
  obtains i where "acl_first_free acl = Some i" and "i < NUM_ACL" and "i \<notin> set (acl_node_q acl)"
proof (cases "acl_first_free acl")
  case None
  then have "{..<NUM_ACL} \<subseteq> set (acl_node_q acl)" using assms(1) by (auto simp: acl_first_free_def find_None_iff acl_ok_def)
  then have "NUM_ACL \<le> length (acl_node_q acl)"
    using card_mono [of "set (acl_node_q acl)" "{..<NUM_ACL}"] card_length [of "acl_node_q acl"] by simp
  then show ?thesis using assms(2) by simp
next
  case (Some i)
  then have "i < NUM_ACL" "\<not> acl_valid (aclnode acl ! i)" by (auto simp: acl_first_free_def find_Some_iff)
  then show ?thesis using that Some assms(1) by (auto simp: acl_ok_def)
qed

lemma acl_add_new:
  assumes "acl_ok acl" and "a \<notin> acl_members acl" and "length (acl_node_q acl) < NUM_ACL"
  shows "acl_ok (fst (acl_add acl a))" and "acl_members (fst (acl_add acl a)) = insert a (acl_members acl)"
    and "snd (acl_add acl a) = 0"
proof -
  obtain i where i: "acl_first_free acl = Some i" "i < NUM_ACL" "i \<notin> set (acl_node_q acl)"
    using acl_first_free_Some [OF assms(1,3)] by blast
  let ?n = "(aclnode acl)[i := \<lparr>acl_addr = a, acl_valid = True\<rparr>]"
  have add: "acl_add acl a = (acl\<lparr>aclnode := ?n, acl_node_q := acl_node_q acl @ [i], acl_num := acl_num acl + 1\<rparr>, 0)"
    using assms i(1) by (simp add: acl_add_def acl_listed_iff acl_ok_def)
  have len: "length (aclnode acl) = NUM_ACL" using assms(1) by (simp add: acl_ok_def)
  have nth: "?n ! j = (if j = i then \<lparr>acl_addr = a, acl_valid = True\<rparr> else aclnode acl ! j)" for j
    using len i(2) by (simp add: nth_list_update)
  have old: "(\<lambda>j. acl_addr (?n ! j)) ` set (acl_node_q acl) = acl_members acl"
    using i(3) by (auto simp: acl_members_def nth intro!: image_cong)
  have "inj_on (\<lambda>j. acl_addr (?n ! j)) (insert i (set (acl_node_q acl)))"
    using assms(1,2) i(3) by (auto simp: acl_ok_def inj_on_def nth acl_members_def)
  then show "acl_ok (fst (acl_add acl a))"
    using assms(1) i len unfolding add by (auto simp: acl_ok_def nth)
  show "acl_members (fst (acl_add acl a)) = insert a (acl_members acl)"
    using old i(2) len unfolding add by (simp add: acl_members_def nth)
  show "snd (acl_add acl a) = 0" by (simp add: add)
qed

lemma acl_add_old:
  assumes "acl_ok acl"
  shows "a \<in> acl_members acl \<Longrightarrow> acl_add acl a = (acl, 0)"
    and "a \<notin> acl_members acl \<Longrightarrow> NUM_ACL \<le> length (acl_node_q acl) \<Longrightarrow> acl_add acl a = (acl, -1)"
  using acl_listed_iff [OF assms, of a] acl_num_card [OF assms] acl_card [OF assms] by (simp_all add: acl_add_def)

lemma acl_release_ok:
  assumes "acl_ok acl" and "i \<in> set (acl_node_q acl)" and "P (acl_addr (aclnode acl ! i))"
  shows "acl_ok (acl_release P acl i)" and "set (acl_node_q (acl_release P acl i)) = set (acl_node_q acl) - {i}"
    and "j \<noteq> i \<Longrightarrow> aclnode (acl_release P acl i) ! j = aclnode acl ! j"
proof -
  have v: "acl_valid (aclnode acl ! i)" "i < length (aclnode acl)" "distinct (acl_node_q acl)"
    using assms(1,2) by (auto simp: acl_ok_def)
  have rel: "acl_release P acl i = acl\<lparr>aclnode := (aclnode acl)[i := (aclnode acl ! i)\<lparr>acl_valid := False\<rparr>],
            acl_node_q := remove1 i (acl_node_q acl), acl_num := acl_num acl - 1\<rparr>"
    using assms(3) v by (simp add: acl_release_def)
  show q: "set (acl_node_q (acl_release P acl i)) = set (acl_node_q acl) - {i}" using v(3) by (simp add: rel)
  show nth: "aclnode (acl_release P acl i) ! j = aclnode acl ! j" if "j \<noteq> i" for j using that by (simp add: rel)
  have "length (remove1 i (acl_node_q acl)) = length (acl_node_q acl) - 1" "0 < length (acl_node_q acl)"
    using assms(2) by (auto simp: length_remove1)
  then have num: "acl_num (acl_release P acl i) = int (length (acl_node_q (acl_release P acl i)))"
    using assms(1) by (simp add: rel acl_ok_def of_nat_diff Suc_leI)
  have val: "j \<in> set (acl_node_q (acl_release P acl i)) \<longleftrightarrow> j < NUM_ACL \<and> acl_valid (aclnode (acl_release P acl i) ! j)" for j
    using assms(1) v(2) by (cases "j = i") (simp_all add: acl_ok_def q nth, simp add: rel)
  have "inj_on (\<lambda>j. acl_addr (aclnode (acl_release P acl i) ! j)) (set (acl_node_q (acl_release P acl i)))"
    using assms(1) by (auto simp: acl_ok_def q nth inj_on_def)
  then show "acl_ok (acl_release P acl i)"
    using assms(1) num val v(3) by (simp add: acl_ok_def) (simp add: rel)
qed

lemma acl_release_loop:
  assumes "acl_ok acl" and "distinct is" and "set is \<subseteq> set (acl_node_q acl)"
  shows "acl_ok (foldl (acl_release P) acl is)
    \<and> acl_members (foldl (acl_release P) acl is)
      = acl_members acl - {acl_addr (aclnode acl ! i) |i. i \<in> set is \<and> P (acl_addr (aclnode acl ! i))}"
  using assms
proof (induction "is" arbitrary: acl)
  case (Cons i "is")
  show ?case
  proof (cases "P (acl_addr (aclnode acl ! i))")
    case True
    let ?acl = "acl_release P acl i"
    note r = acl_release_ok [of acl i P, OF Cons.prems(1) _ True]
    have i: "i \<in> set (acl_node_q acl)" "i \<notin> set is" using Cons.prems(2,3) by auto
    have "acl_members ?acl = acl_members acl - {acl_addr (aclnode acl ! i)}"
      using r(2,3) [OF i(1)] i(1) Cons.prems(1) by (auto simp: acl_members_def acl_ok_def inj_on_def)
    moreover have "aclnode ?acl ! j = aclnode acl ! j" if "j \<in> set is" for j using r(3) [OF i(1), of j] i(2) that by blast
    moreover have "set is \<subseteq> set (acl_node_q ?acl)" using r(2) [OF i(1)] i(2) Cons.prems(3) by auto
    ultimately show ?thesis
      using Cons.IH [OF r(1) [OF i(1)]] Cons.prems(2) True by (auto; metis)
  next
    case False
    then show ?thesis using Cons.IH [of acl] Cons.prems by (auto simp: acl_release_def)
  qed
qed simp

lemma acl_release_all_spec:
  assumes "acl_ok acl"
  shows "acl_ok (acl_release_all P acl)" and "acl_members (acl_release_all P acl) = {a \<in> acl_members acl. \<not> P a}"
  using acl_release_loop [OF assms, of "acl_node_q acl" P] assms
  by (auto simp: acl_release_all_def acl_ok_def acl_members_def)

lemma acl_release_mode: "acl_mode (acl_release_all P acl) = acl_mode acl"
proof -
  have "acl_mode (foldl (acl_release P) acl is) = acl_mode acl" for "is"
    by (induction "is" arbitrary: acl) (auto simp: acl_release_def)
  then show ?thesis by (simp add: acl_release_all_def)
qed

interpretation acl: bounded_set acl_members acl_ok NUM_ACL acl_add acl_remove
  "\<lambda>a b. is_broadcast_mac_addr a \<or> b = a" acl_listed
proof
  fix s a
  assume s: "acl_ok s"
  show "acl_listed s a \<longleftrightarrow> a \<in> acl_members s" by (rule acl_listed_iff [OF s])
  show "finite (acl_members s) \<and> card (acl_members s) \<le> NUM_ACL"
    using acl_q_le [OF s] acl_card [OF s] by (simp add: acl_members_def)
  note card = acl_card [OF s]
  consider "a \<in> acl_members s" | "a \<notin> acl_members s" "NUM_ACL \<le> length (acl_node_q s)"
    | "a \<notin> acl_members s" "length (acl_node_q s) < NUM_ACL" by linarith
  then show "acl_ok (fst (acl_add s a))"
    "snd (acl_add s a) = (if a \<in> acl_members s \<or> card (acl_members s) < NUM_ACL then 0 else -1)
      \<and> acl_members (fst (acl_add s a)) = (if card (acl_members s) < NUM_ACL then insert a (acl_members s) else acl_members s)"
    by (cases; simp add: acl_add_old [OF s] acl_add_new [OF s] s card insert_absorb)+
  show "acl_ok (acl_remove s a)" "acl_members (acl_remove s a) = {b \<in> acl_members s. \<not> (is_broadcast_mac_addr a \<or> b = a)}"
    using acl_release_all_spec [OF s] by (auto simp: acl_remove_def)
qed

section \<open>Histories of operations\<close>

datatype acl_op =
    Acl_Set_Mode nat int
  | Acl_Add nat buf
  | Acl_Remove nat buf
  | Acl_Clear nat

fun acl_step :: "wlan_acl_pool list \<Rightarrow> acl_op \<Rightarrow> wlan_acl_pool list \<times> int" where
  "acl_step s (Acl_Set_Mode p m) = (rtw_set_macaddr_acl s p m, 0)"
| "acl_step s (Acl_Add p a) = rtw_acl_add_sta s p a"
| "acl_step s (Acl_Remove p a) = rtw_acl_remove_sta s p a"
| "acl_step s (Acl_Clear p) = (rtw_macaddr_acl_clear s p, 0)"

text \<open>The abstract lists: for each period the mode and a set of at most 16 addresses.\<close>

fun acl_spec :: "(int \<times> buf set) list \<Rightarrow> acl_op \<Rightarrow> (int \<times> buf set) list \<times> int" where
  "acl_spec t (Acl_Set_Mode p m) = (if p < 2 then t[p := (m, snd (t ! p))] else t, 0)"
| "acl_spec t (Acl_Add p a) =
     (if p < 2 then
        let (m, A) = t ! p in
        if a \<in> A then (t, 0) else if card A < 16 then (t[p := (m, insert a A)], 0) else (t, -1)
      else (t, -1))"
| "acl_spec t (Acl_Remove p a) =
     (if p < 2 then t[p := (fst (t ! p), if is_broadcast_mac_addr a then {} else snd (t ! p) - {a})] else t, 0)"
| "acl_spec t (Acl_Clear p) = (if p < 2 then t[p := (0, {})] else t, 0)"

definition acl_permits :: "buf \<Rightarrow> int \<times> buf set \<Rightarrow> bool" where
  "acl_permits a t = (case t of (m, A) \<Rightarrow> (m = 1 \<longrightarrow> a \<notin> A) \<and> (m = 2 \<longrightarrow> a \<in> A))"

definition acl_abs :: "wlan_acl_pool list \<Rightarrow> (int \<times> buf set) list" where
  "acl_abs s = map (\<lambda>acl. (acl_mode acl, acl_members acl)) s"

definition acls_ok :: "wlan_acl_pool list \<Rightarrow> bool" where
  "acls_ok s \<longleftrightarrow> length s = 2 \<and> list_all acl_ok s"

primrec acl_history :: "('s \<Rightarrow> acl_op \<Rightarrow> 's \<times> int) \<Rightarrow> 's \<Rightarrow> acl_op list \<Rightarrow> 's \<times> int list" where
  "acl_history step s [] = (s, [])"
| "acl_history step s (op # ops) =
     (let (s', r) = step s op; (s'', rs) = acl_history step s' ops in (s'', r # rs))"

lemma acl_ok_mode [simp]: "acl_ok (acl\<lparr>acl_mode := m\<rparr>) = acl_ok acl"
  "acl_members (acl\<lparr>acl_mode := m\<rparr>) = acl_members acl"
  by (simp_all add: acl_ok_def acl_members_def)

lemma acl_add_mode: "acl_mode (fst (acl_add acl a)) = acl_mode acl"
  by (auto simp: acl_add_def split: option.splits)

lemma acls_ok_update: "acls_ok s \<Longrightarrow> acl_ok acl \<Longrightarrow> acls_ok (s[p := acl])"
  by (auto simp: acls_ok_def list_all_iff dest!: set_update_subset_insert [THEN subsetD])

lemma acls_ok_nth: "acls_ok s \<Longrightarrow> p < 2 \<Longrightarrow> acl_ok (s ! p)"
  by (simp add: acls_ok_def list_all_length)

lemma acl_abs_nth: "acls_ok s \<Longrightarrow> p < 2 \<Longrightarrow> acl_abs s ! p = (acl_mode (s ! p), acl_members (s ! p))"
  by (simp add: acls_ok_def acl_abs_def)

lemma acl_abs_update: "acl_abs (s[p := acl]) = (acl_abs s)[p := (acl_mode acl, acl_members acl)]"
  by (simp add: acl_abs_def map_update)

lemma acl_abs_same: "acls_ok s \<Longrightarrow> p < 2 \<Longrightarrow> (acl_abs s)[p := (acl_mode (s ! p), acl_members (s ! p))] = acl_abs s"
  using acl_abs_nth [of s p] by (metis list_update_id)

lemma acl_step_refines:
  assumes "acls_ok s"
  shows "acls_ok (fst (acl_step s op)) \<and> acl_spec (acl_abs s) op = (acl_abs (fst (acl_step s op)), snd (acl_step s op))"
proof (cases op)
  case (Acl_Set_Mode p m)
  then show ?thesis
    using assms acls_ok_nth [OF assms]
    by (auto simp: rtw_set_macaddr_acl_def acl_consts acls_ok_update acl_abs_update acl_abs_nth)
next
  case (Acl_Add p a)
  show ?thesis
  proof (cases "p < 2")
    case True
    note ok = acls_ok_nth [OF assms True]
    show ?thesis
      using acl.add_ok [OF ok, of a] acl.add_spec [OF ok, of a] acl_add_mode [of "s ! p" a] assms True Acl_Add
      by (auto simp: rtw_acl_add_sta_def acl_consts acls_ok_update acl_abs_update acl_abs_nth acl_abs_same insert_absorb
          split: prod.splits)
  qed (use assms Acl_Add in \<open>simp add: rtw_acl_add_sta_def acl_consts\<close>)
next
  case (Acl_Remove p a)
  show ?thesis
  proof (cases "p < 2")
    case True
    note ok = acls_ok_nth [OF assms True]
    have "{b \<in> A. \<not> (is_broadcast_mac_addr a \<or> b = a)} = (if is_broadcast_mac_addr a then {} else A - {a})" for A
      by auto
    then show ?thesis
      using acl.remove_ok [OF ok, of a] acl.remove_spec [OF ok, of a] assms True Acl_Remove
      by (simp add: rtw_acl_remove_sta_def acl_consts acls_ok_update acl_abs_update acl_abs_nth acl_release_mode [folded acl_remove_def]
          acl_remove_def acl_release_mode)
  qed (use assms Acl_Remove in \<open>simp add: rtw_acl_remove_sta_def acl_consts\<close>)
next
  case (Acl_Clear p)
  then show ?thesis
    using assms acl_release_all_spec [OF acls_ok_nth [OF assms], of p "\<lambda>_. True"]
    by (auto simp: rtw_macaddr_acl_clear_def acl_consts acls_ok_update acl_abs_update)
qed

lemma acl_history_refines:
  assumes "acls_ok s"
  shows "acls_ok (fst (acl_history acl_step s ops))
    \<and> acl_history acl_spec (acl_abs s) ops = (acl_abs (fst (acl_history acl_step s ops)), snd (acl_history acl_step s ops))"
  using assms
proof (induction ops arbitrary: s)
  case (Cons op ops)
  obtain s' r s'' rs where "acl_step s op = (s', r)" "acl_history acl_step s' ops = (s'', rs)" by fastforce
  then show ?case using acl_step_refines [of s op] Cons.IH [of s'] Cons.prems by simp
qed simp

lemma access_ctrl_permits:
  assumes "acls_ok s"
  shows "rtw_access_ctrl s a \<longleftrightarrow> list_all (acl_permits a) (acl_abs s)"
proof -
  have "access_ctrl_period s p a \<longleftrightarrow> acl_permits a (acl_abs s ! p)" if "p < 2" for p
    using that acl.mem_iff [OF acls_ok_nth [OF assms that]] acl_abs_nth [OF assms that]
    by (auto simp: access_ctrl_period_def acl_permits_def acl_consts)
  then show ?thesis
    using assms by (auto simp: rtw_access_ctrl_def list_all_length acl_consts acl_abs_def acls_ok_def)
qed

definition acl_start :: "wlan_acl_pool list \<Rightarrow> wlan_acl_pool list" where
  "acl_start s = rtw_macaddr_acl_init (rtw_macaddr_acl_init s 0) 1"

lemma acl_start_ok:
  assumes "length s = 2" and "\<forall>acl\<in>set s. length (aclnode acl) = NUM_ACL"
  shows "acls_ok (acl_start s)" and "acl_abs (acl_start s) = [(0, {}), (0, {})]"
proof -
  obtain x y where s: "s = [x, y]" using assms(1) by (auto simp: length_Suc_conv numeral_2_eq_2)
  show "acls_ok (acl_start s)" "acl_abs (acl_start s) = [(0, {}), (0, {})]"
    using assms(2) by (auto simp: s acl_start_def rtw_macaddr_acl_init_def acl_consts acls_ok_def acl_ok_def acl_abs_def acl_members_def)
qed

text \<open>C18: after initialisation, any sequence of mode changes, additions, removals and clears has on the
  two pools of linked nodes the results (return codes included) it has on two plain sets of at most
  16 addresses, the pool invariant holds, and \<open>rtw_access_ctrl\<close> admits an address exactly when
  both abstract lists permit it.\<close>

theorem acl_refines_sets:
  assumes "length pools = 2" and "\<forall>acl\<in>set pools. length (aclnode acl) = NUM_ACL"
  shows "acls_ok (fst (acl_history acl_step (acl_start pools) ops))
    \<and> acl_history acl_spec [(0, {}), (0, {})] ops
      = (acl_abs (fst (acl_history acl_step (acl_start pools) ops)), snd (acl_history acl_step (acl_start pools) ops))
    \<and> (rtw_access_ctrl (fst (acl_history acl_step (acl_start pools) ops)) a
        \<longleftrightarrow> list_all (acl_permits a) (fst (acl_history acl_spec [(0, {}), (0, {})] ops)))"
  using acl_history_refines [OF acl_start_ok(1) [OF assms], of ops] acl_start_ok(2) [OF assms] access_ctrl_permits by simp

definition acl_pools0 :: "wlan_acl_pool list" where
  "acl_pools0 = replicate 2 \<lparr>acl_mode = 7, acl_num = 5,
     aclnode = replicate 16 \<lparr>acl_addr = [], acl_valid = True\<rparr>, acl_node_q = []\<rparr>"

definition acl_ops0 :: "acl_op list" where
  "acl_ops0 = [Acl_Set_Mode 0 1, Acl_Add 0 [1, 2, 3, 4, 5, 6], Acl_Add 0 [9, 9, 9, 9, 9, 9], Acl_Remove 0 [9, 9, 9, 9, 9, 9]]"

theorem acl_refines_sets_witness:
  "acls_ok (fst (acl_history acl_step (acl_start acl_pools0) acl_ops0))
    \<and> acl_history acl_spec [(0, {}), (0, {})] acl_ops0
      = (acl_abs (fst (acl_history acl_step (acl_start acl_pools0) acl_ops0)), snd (acl_history acl_step (acl_start acl_pools0) acl_ops0))
    \<and> \<not> rtw_access_ctrl (fst (acl_history acl_step (acl_start acl_pools0) acl_ops0)) [1, 2, 3, 4, 5, 6]"
proof -
  have "length acl_pools0 = 2" "\<forall>acl\<in>set acl_pools0. length (aclnode acl) = NUM_ACL"
    by (simp_all add: acl_pools0_def acl_consts)
  moreover have "\<not> list_all (acl_permits [1, 2, 3, 4, 5, 6]) (fst (acl_history acl_spec [(0, {}), (0, {})] acl_ops0))"
    by (simp add: acl_ops0_def acl_permits_def is_broadcast_mac_addr_def)
  ultimately show ?thesis using acl_refines_sets [of acl_pools0 acl_ops0 "[1, 2, 3, 4, 5, 6]"] by simp
qed

end
