(* ===== verification/Sec_Cam.thy ===== *)
theory Sec_Cam
  imports Bitmaps "HOL-Library.Multiset"
begin

text \<open>
  The security CAM: the register-level entry access of \<open>hal/hal_com.c\<close>, the software copy of the
  table and the allocation of entries of \<open>core/rtw_wlan_util.c\<close>, for the configuration of the driver
  (one interface, no default key search). The lemmas show that an entry written through the
  32-bit data port is read back unchanged, which entry an allocation takes, that exchanging two
  entries moves keys and loses none, and what emptying the default-key section does to any table.
\<close>

section \<open>The table in the chip\<close>

text \<open>The chip holds 256 words; \<open>rtw_sec_write_cam\<close> and \<open>rtw_sec_read_cam\<close> go through a command and a
  data register and wait for the chip, which is taken to obey: the table is a function from the
  8-bit address to the word last written.\<close>

type_synonym cam_hw = "u8 \<Rightarrow> u32"

definition rtw_sec_write_cam :: "cam_hw \<Rightarrow> u8 \<Rightarrow> u32 \<Rightarrow> cam_hw" where
  "rtw_sec_write_cam hw a wdata = hw(a := wdata)"

definition rtw_sec_read_cam :: "cam_hw \<Rightarrow> u8 \<Rightarrow> u32" where
  "rtw_sec_read_cam hw a = hw a"

definition cam_word :: "u8 \<Rightarrow> u8 \<Rightarrow> u8 \<Rightarrow> u8 \<Rightarrow> u32" where
  "cam_word a b c d = ucast a OR push_bit 8 (ucast b) OR push_bit 16 (ucast c) OR push_bit 24 (ucast d)"

text \<open>The word for index \<open>j\<close> of an entry.\<close>

definition cam_wdata :: "u16 \<Rightarrow> buf \<Rightarrow> buf \<Rightarrow> nat \<Rightarrow> u32 option" where
  "cam_wdata ctrl mac key j =
     (if j = 0 then do { a \<leftarrow> rd mac 0; b \<leftarrow> rd mac 1;
        Some (ucast ctrl OR push_bit 16 (ucast a) OR push_bit 24 (ucast b)) }
      else if j = 1 then do { a \<leftarrow> rd mac 2; b \<leftarrow> rd mac 3; c \<leftarrow> rd mac 4; d \<leftarrow> rd mac 5; Some (cam_word a b c d) }
      else if j = 6 \<or> j = 7 then Some 0
      else let i = 4 * (j - 2) in
        do { a \<leftarrow> rd key i; b \<leftarrow> rd key (i + 1); c \<leftarrow> rd key (i + 2); d \<leftarrow> rd key (i + 3); Some (cam_word a b c d) })"

primrec cam_write_loop :: "nat \<Rightarrow> cam_hw \<Rightarrow> u8 \<Rightarrow> u16 \<Rightarrow> buf \<Rightarrow> buf \<Rightarrow> cam_hw option" where
  "cam_write_loop 0 hw cid ctrl mac key = Some hw"
| "cam_write_loop (Suc j) hw cid ctrl mac key = do {
     wdata \<leftarrow> cam_wdata ctrl mac key j;
     cam_write_loop j (rtw_sec_write_cam hw (push_bit 3 cid + word_of_nat j) wdata) cid ctrl mac key }"

definition rtw_sec_write_cam_ent :: "cam_hw \<Rightarrow> u8 \<Rightarrow> u16 \<Rightarrow> buf \<Rightarrow> buf \<Rightarrow> cam_hw option" where
  "rtw_sec_write_cam_ent hw cid ctrl mac key = cam_write_loop 8 hw cid ctrl mac key"

definition rtw_sec_clr_cam_ent :: "cam_hw \<Rightarrow> u8 \<Rightarrow> cam_hw" where
  "rtw_sec_clr_cam_ent hw cid = rtw_sec_write_cam hw (push_bit 3 cid) 0"

text \<open>A copy to an output buffer the caller may leave out.\<close>

definition cpy_out :: "buf option \<Rightarrow> nat \<Rightarrow> buf \<Rightarrow> buf option option" where
  "cpy_out p off xs = (case p of None \<Rightarrow> Some None | Some b \<Rightarrow> map_option Some (wr_n b off xs))"

fun cam_read_loop :: "cam_hw \<Rightarrow> u8 \<Rightarrow> nat list \<Rightarrow> buf option \<times> buf option \<times> buf option \<Rightarrow>
    (buf option \<times> buf option \<times> buf option) option" where
  "cam_read_loop hw cid [] out = Some out"
| "cam_read_loop hw cid (i # is) (ctrl, mac, key) = do {
     let rdata = le32_bytes (rtw_sec_read_cam hw (push_bit 3 cid OR word_of_nat i));
     out \<leftarrow> (if i = 0 then do { ctrl \<leftarrow> cpy_out ctrl 0 (take 2 rdata); mac \<leftarrow> cpy_out mac 0 (drop 2 rdata); Some (ctrl, mac, key) }
            else if i = 1 then do { mac \<leftarrow> cpy_out mac 2 rdata; Some (ctrl, mac, key) }
            else do { key \<leftarrow> cpy_out key ((i - 2) * 4) rdata; Some (ctrl, mac, key) });
     cam_read_loop hw cid is out }"

definition rtw_sec_read_cam_ent :: "cam_hw \<Rightarrow> u8 \<Rightarrow> buf option \<Rightarrow> buf option \<Rightarrow> buf option \<Rightarrow>
    (buf option \<times> buf option \<times> buf option) option" where
  "rtw_sec_read_cam_ent hw cid ctrl mac key =
     (if ctrl = None \<and> mac = None \<and> key = None then Some (ctrl, mac, key)
      else let begin_i = (if ctrl = None \<and> mac = None then 2 else 0);
               end_i = (if key = None \<and> mac = None then 0 else if key = None then 2 else 5) in
        cam_read_loop hw cid [begin_i..<end_i + 1] (ctrl, mac, key))"

definition rtw_sec_read_cam_is_gk :: "cam_hw \<Rightarrow> u8 \<Rightarrow> bool option" where
  "rtw_sec_read_cam_is_gk hw cid = do {
     (ctrl, _, _) \<leftarrow> rtw_sec_read_cam_ent hw cid (Some [0, 0]) None None;
     v \<leftarrow> RTW_GET_LE16 (the ctrl) 0;
     Some (v AND 2 ^ 6 \<noteq> 0) }"

lemma le32_cam_word: "le32_bytes (cam_word a b c d) = [a, b, c, d]"
  unfolding le32_bytes_def cam_word_def list.map
  by (intro arg_cong2 [where f = "(#)"] refl bit_word_eqI) (auto simp: bit_simps dest: bit_imp_le_length)

lemma le32_ctrl_word:
  "le32_bytes (ucast (ctrl :: u16) OR push_bit 16 (ucast a) OR push_bit 24 (ucast b)) = le16_bytes ctrl @ [a, b]"
  unfolding le32_bytes_def le16_bytes_def mask_ff list.map append.simps
  by (intro arg_cong2 [where f = "(#)"] refl bit_word_eqI) (auto simp: bit_simps dest: bit_imp_le_length)

lemma cam_addr_or: "j < 8 \<Longrightarrow> push_bit 3 (cid :: u8) OR word_of_nat j = push_bit 3 cid + word_of_nat j"
proof -
  assume j: "j < 8"
  have "\<not> bit j n" if "3 \<le> n" for n
  proof -
    have "j < 2 ^ n" using j power_increasing [of 3 n "2 :: nat"] that by simp
    then show ?thesis by (simp add: bit_iff_odd)
  qed
  then have "push_bit 3 cid AND word_of_nat j = 0"
    by (intro bit_word_eqI) (auto simp: bit_and_iff bit_push_bit_iff bit_of_nat_iff)
  then show ?thesis by (simp add: disjunctive_add_eq_or)
qed

lemma cam_addr_inj:
  assumes "cid < 32" and "cid' < 32" and "j < 8" and "j' < 8"
  shows "push_bit 3 (word_of_nat cid :: u8) + word_of_nat j = push_bit 3 (word_of_nat cid') + word_of_nat j' \<longleftrightarrow> cid = cid' \<and> j = j'"
proof -
  have addr: "push_bit 3 (word_of_nat i :: u8) + word_of_nat k = word_of_nat (8 * i + k)" for i k
    by (simp add: push_bit_eq_mult)
  have lt: "8 * cid + j < 256" "8 * cid' + j' < 256" using assms by simp_all
  have "(word_of_nat (8 * cid + j) :: u8) = word_of_nat (8 * cid' + j') \<longleftrightarrow> 8 * cid + j = 8 * cid' + j'"
    unfolding word_of_nat_eq_iff using lt by (simp add: take_bit_nat_eq_self)
  moreover have "8 * i + k = 8 * i' + k' \<Longrightarrow> k < 8 \<Longrightarrow> k' < 8 \<Longrightarrow> i = i' \<and> k = k'" for i k i' k' :: nat
    by presburger
  ultimately show ?thesis unfolding addr using assms by metis
qed

lemma cam_wdata_Some:
  assumes "length mac = 6" and "length key = 16" and "j < 8"
  shows "\<exists>w. cam_wdata ctrl mac key j = Some w"
  using assms by (auto simp: cam_wdata_def rd_def Let_def)

definition cam_words :: "u16 \<Rightarrow> buf \<Rightarrow> buf \<Rightarrow> nat \<Rightarrow> u32" where
  "cam_words ctrl mac key j = the (cam_wdata ctrl mac key j)"

text \<open>The table after an entry has been written.\<close>

definition cam_put :: "cam_hw \<Rightarrow> nat \<Rightarrow> u16 \<Rightarrow> buf \<Rightarrow> buf \<Rightarrow> nat \<Rightarrow> cam_hw" where
  "cam_put hw i ctrl mac key n =
     (\<lambda>a. if \<exists>j<n. a = push_bit 3 (word_of_nat i) + word_of_nat j
          then cam_words ctrl mac key (unat (a - push_bit 3 (word_of_nat i))) else hw a)"

lemma cam_write_loop_put:
  assumes "length mac = 6" and "length key = 16" and "n \<le> 8"
  shows "cam_write_loop n hw (word_of_nat i) ctrl mac key = Some (cam_put hw i ctrl mac key n)"
  using assms(3)
proof (induction n arbitrary: hw)
  case (Suc n)
  obtain w where w: "cam_wdata ctrl mac key n = Some w" using cam_wdata_Some [OF assms(1,2)] Suc.prems by fastforce
  let ?hw = "rtw_sec_write_cam hw (push_bit 3 (word_of_nat i) + word_of_nat n) w"
  have "cam_put ?hw i ctrl mac key n = cam_put hw i ctrl mac key (Suc n)"
    using w Suc.prems
    by (intro ext) (auto simp: cam_put_def rtw_sec_write_cam_def cam_words_def less_Suc_eq unat_of_nat take_bit_nat_eq_self)
  then show ?case using Suc w by simp
qed (simp add: cam_put_def)

lemma cam_put_same: "j < 8 \<Longrightarrow> i < 32 \<Longrightarrow>
    cam_put hw i ctrl mac key 8 (push_bit 3 (word_of_nat i) OR word_of_nat j) = cam_words ctrl mac key j"
  by (auto simp: cam_put_def cam_addr_or)

lemma cam_put_other: "j < 8 \<Longrightarrow> i < 32 \<Longrightarrow> i' < 32 \<Longrightarrow> i \<noteq> i' \<Longrightarrow>
    cam_put hw i ctrl mac key 8 (push_bit 3 (word_of_nat i') OR word_of_nat j) = hw (push_bit 3 (word_of_nat i') OR word_of_nat j)"
  by (auto simp: cam_put_def cam_addr_or cam_addr_inj)

lemma list_6: "length xs = 6 \<longleftrightarrow> (\<exists>a b c d e f. xs = [a, b, c, d, e, f])"
  by (auto simp: length_Suc_conv eval_nat_numeral)

lemma list_16: "length xs = 16 \<longleftrightarrow> (\<exists>a b c d e f g h i j k l m n q p. xs = [a, b, c, d, e, f, g, h, i, j, k, l, m, n, q, p])"
  by (auto simp: length_Suc_conv eval_nat_numeral)

text \<open>The entry the read of all three parts delivers.\<close>

record sec_cam_ent =
  cam_ctrl :: u16
  cam_mac :: buf
  cam_key :: buf

definition cam_ent_ok :: "sec_cam_ent \<Rightarrow> bool" where
  "cam_ent_ok e \<longleftrightarrow> length (cam_mac e) = 6 \<and> length (cam_key e) = 16"

definition hw_ent :: "cam_hw \<Rightarrow> nat \<Rightarrow> (buf option \<times> buf option \<times> buf option) option" where
  "hw_ent hw i = rtw_sec_read_cam_ent hw (word_of_nat i) (Some [0, 0]) (Some (replicate 6 0)) (Some (replicate 16 0))"

definition ent_bytes :: "sec_cam_ent \<Rightarrow> (buf option \<times> buf option \<times> buf option) option" where
  "ent_bytes e = Some (Some (le16_bytes (cam_ctrl e)), Some (cam_mac e), Some (cam_key e))"

lemma hw_ent_cong:
  "(\<And>j. j < 8 \<Longrightarrow> hw (push_bit 3 (word_of_nat i) OR word_of_nat j) = hw' (push_bit 3 (word_of_nat i) OR word_of_nat j))
    \<Longrightarrow> hw_ent hw i = hw_ent hw' i"
proof -
  assume a: "\<And>j. j < 8 \<Longrightarrow> hw (push_bit 3 (word_of_nat i) OR word_of_nat j) = hw' (push_bit 3 (word_of_nat i) OR word_of_nat j)"
  have "cam_read_loop hw (word_of_nat i) js out = cam_read_loop hw' (word_of_nat i) js out" if "\<forall>j\<in>set js. j < 8" for js out
    using that
  proof (induction js arbitrary: out)
    case (Cons j js)
    then show ?case using a [of j] by (cases out) (simp add: rtw_sec_read_cam_def cong: bind_option_cong)
  qed simp
  then show ?thesis by (simp add: hw_ent_def rtw_sec_read_cam_ent_def)
qed

lemma length_4: "length xs = 4 \<Longrightarrow> \<exists>a b c d. xs = [a, b, c, d]"
  by (auto simp: length_Suc_conv eval_nat_numeral)

lemma hw_ent_words:
  "hw_ent hw i =
     (let w = (\<lambda>j. le32_bytes (hw (push_bit 3 (word_of_nat i) OR word_of_nat j))) in
      Some (Some (take 2 (w 0)), Some (drop 2 (w 0) @ w 1), Some (w 2 @ w 3 @ w 4 @ w 5)))"
proof -
  let ?w = "\<lambda>j. le32_bytes (hw (push_bit 3 (word_of_nat i) OR word_of_nat j))"
  have upt: "[0..<6] = [0, 1, 2, 3, 4, 5]" by (simp add: upt_rec)
  have r: "replicate 6 (0 :: u8) = [0, 0, 0, 0, 0, 0]" "replicate 16 (0 :: u8) = [0, 0, 0, 0, 0, 0, 0, 0, 0, 0, 0, 0, 0, 0, 0, 0]"
    by (simp_all add: eval_nat_numeral)
  have "\<exists>a b c d. ?w j = [a, b, c, d]" for j by (rule length_4) simp
  then obtain a b c d where w: "\<And>j. ?w j = [a j, b j, c j, d j]" by metis
  show ?thesis
    unfolding hw_ent_def rtw_sec_read_cam_ent_def r Let_def w
    by (simp add: Let_def upt rtw_sec_read_cam_def w w [of 0, simplified] w [of 1, simplified] cpy_out_def wr_n_def del: of_nat_0 of_nat_1 of_nat_numeral)
qed

lemma cam_words_bytes:
  assumes "length (cam_mac e) = 6" and "length (cam_key e) = 16"
  defines "w \<equiv> \<lambda>j. le32_bytes (cam_words (cam_ctrl e) (cam_mac e) (cam_key e) j)"
  shows "Some (Some (take 2 (w 0)), Some (drop 2 (w 0) @ w 1), Some (w 2 @ w 3 @ w 4 @ w 5)) = ent_bytes e"
proof -
  obtain a b c d f g where m: "cam_mac e = [a, b, c, d, f, g]" using assms(1) by (auto simp: list_6)
  obtain k0 k1 k2 k3 k4 k5 k6 k7 k8 k9 ka kb kc kd ke kf
    where k: "cam_key e = [k0, k1, k2, k3, k4, k5, k6, k7, k8, k9, ka, kb, kc, kd, ke, kf]" using assms(2) by (auto simp: list_16)
  have "w 2 @ w 3 @ w 4 @ w 5 = cam_key e"
    unfolding w_def cam_words_def k by (simp add: cam_wdata_def rd_def Let_def le32_cam_word)
  moreover have "w 0 = le16_bytes (cam_ctrl e) @ [a, b]" "w 1 = [c, d, f, g]"
    using m by (simp_all add: w_def cam_words_def cam_wdata_def rd_def le32_cam_word le32_ctrl_word)
  ultimately show ?thesis using m by (simp add: ent_bytes_def)
qed

lemma cam_ent_written:
  assumes "cam_ent_ok e" and "i < 32"
  shows "\<exists>hw'. rtw_sec_write_cam_ent hw (word_of_nat i) (cam_ctrl e) (cam_mac e) (cam_key e) = Some hw'
    \<and> hw_ent hw' i = ent_bytes e \<and> (\<forall>k<32. k \<noteq> i \<longrightarrow> hw_ent hw' k = hw_ent hw k)"
proof (intro exI conjI allI impI)
  let ?hw = "cam_put hw i (cam_ctrl e) (cam_mac e) (cam_key e) 8"
  show "rtw_sec_write_cam_ent hw (word_of_nat i) (cam_ctrl e) (cam_mac e) (cam_key e) = Some ?hw"
    using assms(1) by (simp add: rtw_sec_write_cam_ent_def cam_write_loop_put cam_ent_ok_def)
  show "hw_ent ?hw k = hw_ent hw k" if "k < 32" "k \<noteq> i" for k
    using that assms(2) by (intro hw_ent_cong cam_put_other) auto
  have mac: "length (cam_mac e) = 6" and key: "length (cam_key e) = 16" using assms(1) by (simp_all add: cam_ent_ok_def)
  have w: "le32_bytes (?hw (push_bit 3 (word_of_nat i) OR word_of_nat j))
      = le32_bytes (cam_words (cam_ctrl e) (cam_mac e) (cam_key e) j)" if "j < 8" for j
    using cam_put_same [OF that assms(2)] by simp
  show "hw_ent ?hw i = ent_bytes e"
    unfolding hw_ent_words Let_def by (subst w, simp)+ (rule cam_words_bytes [OF mac key])
qed

text \<open>C24: an entry written with \<open>rtw_sec_write_cam_ent\<close> is read back by \<open>rtw_sec_read_cam_ent\<close>
  unchanged, and the 31 other entries of the table keep what they held.\<close>

theorem sec_cam_ent_roundtrip:
  assumes "cam_ent_ok e" and "i < 32"
  shows "\<exists>hw'. rtw_sec_write_cam_ent hw (word_of_nat i) (cam_ctrl e) (cam_mac e) (cam_key e) = Some hw'
    \<and> hw_ent hw' i = ent_bytes e \<and> (\<forall>k<32. k \<noteq> i \<longrightarrow> hw_ent hw' k = hw_ent hw k)"
  by (rule cam_ent_written [OF assms])

theorem sec_cam_ent_roundtrip_witness:
  "\<exists>hw'. rtw_sec_write_cam_ent (\<lambda>_. 7) (word_of_nat 5) (cam_ctrl \<lparr>cam_ctrl = 0x8041, cam_mac = [1, 2, 3, 4, 5, 6], cam_key = replicate 16 9\<rparr>)
        (cam_mac \<lparr>cam_ctrl = 0x8041, cam_mac = [1, 2, 3, 4, 5, 6], cam_key = replicate 16 9\<rparr>)
        (cam_key \<lparr>cam_ctrl = 0x8041, cam_mac = [1, 2, 3, 4, 5, 6], cam_key = replicate 16 9\<rparr>) = Some hw'
    \<and> hw_ent hw' 5 = ent_bytes \<lparr>cam_ctrl = 0x8041, cam_mac = [1, 2, 3, 4, 5, 6], cam_key = replicate 16 9\<rparr>
    \<and> (\<forall>k<32. k \<noteq> 5 \<longrightarrow> hw_ent hw' k = hw_ent (\<lambda>_. 7) k)"
  by (rule sec_cam_ent_roundtrip) (simp_all add: cam_ent_ok_def)

section \<open>The software copy and the allocation of entries\<close>

text \<open>The part of the device object these functions use: the number of entries, the map of used ones,
  the capabilities and flags, the copy and the table of the chip.\<close>

record cam_dev =
  cam_num :: nat
  cam_used :: u32
  cam_sec_cap :: u8
  cam_flags :: u32
  cam_cache :: "sec_cam_ent list"
  cam_chip :: cam_hw

definition SEC_CAP_CHK_BMC :: u8 where "SEC_CAP_CHK_BMC = 1"
definition SEC_CAP_CHK_EXTRA_SEC :: u8 where "SEC_CAP_CHK_EXTRA_SEC = 2"
definition SEC_CAP_CHK_WRITE_CAM_NEW_RULE :: u8 where "SEC_CAP_CHK_WRITE_CAM_NEW_RULE = 4"
definition INVALID_SEC_MAC_CAM_ID :: nat where "INVALID_SEC_MAC_CAM_ID = 0xFF"

definition null_ent :: sec_cam_ent where
  "null_ent = \<lparr>cam_ctrl = 0, cam_mac = replicate 6 0, cam_key = replicate 16 0\<rparr>"

definition rtw_camctl_chk_cap :: "cam_dev \<Rightarrow> u8 \<Rightarrow> bool" where
  "rtw_camctl_chk_cap d cap = (cam_sec_cap d AND cap \<noteq> 0)"

definition rtw_camctl_set_flags :: "cam_dev \<Rightarrow> u32 \<Rightarrow> cam_dev" where
  "rtw_camctl_set_flags d fl = d\<lparr>cam_flags := cam_flags d OR fl\<rparr>"

definition rtw_camctl_clr_flags :: "cam_dev \<Rightarrow> u32 \<Rightarrow> cam_dev" where
  "rtw_camctl_clr_flags d fl = d\<lparr>cam_flags := cam_flags d AND NOT fl\<rparr>"

definition rtw_camctl_chk_flags :: "cam_dev \<Rightarrow> u32 \<Rightarrow> bool" where
  "rtw_camctl_chk_flags d fl = (cam_flags d AND fl \<noteq> 0)"

text \<open>\<open>_rtw_memcpy\<close> of 6 and 16 bytes from the arguments; the copy has 32 entries.\<close>

definition write_cam_cache :: "cam_dev \<Rightarrow> nat \<Rightarrow> u16 \<Rightarrow> buf \<Rightarrow> buf \<Rightarrow> cam_dev option" where
  "write_cam_cache d cid ctrl mac key = do {
     m \<leftarrow> rd_n mac 0 6;
     k \<leftarrow> rd_n key 0 16;
     if cid < length (cam_cache d)
     then Some (d\<lparr>cam_cache := (cam_cache d)[cid := \<lparr>cam_ctrl = ctrl, cam_mac = m, cam_key = k\<rparr>]\<rparr>) else None }"

definition clear_cam_cache :: "cam_dev \<Rightarrow> nat \<Rightarrow> cam_dev option" where
  "clear_cam_cache d cid =
     (if cid < length (cam_cache d) then Some (d\<lparr>cam_cache := (cam_cache d)[cid := null_ent]\<rparr>) else None)"

definition write_cam_one :: "cam_dev \<Rightarrow> nat \<Rightarrow> u16 \<Rightarrow> buf \<Rightarrow> buf \<Rightarrow> cam_dev option" where
  "write_cam_one d cid ctrl mac key = do {
     hw \<leftarrow> rtw_sec_write_cam_ent (cam_chip d) (word_of_nat cid) ctrl mac key;
     write_cam_cache (d\<lparr>cam_chip := hw\<rparr>) cid ctrl mac key }"

definition write_cam :: "cam_dev \<Rightarrow> nat \<Rightarrow> u16 \<Rightarrow> buf \<Rightarrow> buf \<Rightarrow> cam_dev option" where
  "write_cam d cid ctrl mac key =
     (if ctrl AND 2 ^ 9 \<noteq> 0 then do {
        d \<leftarrow> write_cam_one d cid ctrl mac key;
        write_cam_one d (cid + 1) (ctrl OR 2 ^ 5) mac (drop 16 key) }
      else write_cam_one d cid ctrl mac key)"

definition clear_chip_entry :: "cam_dev \<Rightarrow> nat \<Rightarrow> cam_dev option" where
  "clear_chip_entry d cid = do {
     hw \<leftarrow> rtw_sec_write_cam_ent (cam_chip d) (word_of_nat cid) 0 (replicate 6 0) (replicate 32 0);
     Some (d\<lparr>cam_chip := hw\<rparr>) }"

definition clear_cam_entry :: "cam_dev \<Rightarrow> nat \<Rightarrow> cam_dev option" where
  "clear_cam_entry d cid = do { d \<leftarrow> clear_chip_entry d cid; clear_cam_cache d cid }"

definition write_cam_from_cache :: "cam_dev \<Rightarrow> nat \<Rightarrow> cam_dev option" where
  "write_cam_from_cache d cid =
     (if cid < length (cam_cache d) then
        let cache = cam_cache d ! cid in do {
          hw \<leftarrow> rtw_sec_write_cam_ent (cam_chip d) (word_of_nat cid) (cam_ctrl cache) (cam_mac cache) (cam_key cache);
          Some (d\<lparr>cam_chip := hw\<rparr>) }
      else None)"

definition rtw_sec_camid_is_drv_forbid :: "nat \<Rightarrow> bool" where
  "rtw_sec_camid_is_drv_forbid cid = (if cid < 32 then (0x00000ff0 :: u32) AND 2 ^ cid \<noteq> 0 else True)"

definition rtw_sec_camid_is_used :: "cam_dev \<Rightarrow> nat \<Rightarrow> bool" where
  "rtw_sec_camid_is_used d cid =
     (if cid \<ge> cam_num d then False else rtw_sec_camid_is_set (cam_used d) cid)"

fun get_sec_camid_loop :: "cam_dev \<Rightarrow> nat \<Rightarrow> nat list \<Rightarrow> nat list \<Rightarrow> nat list" where
  "get_sec_camid_loop d m [] acc = acc"
| "get_sec_camid_loop d m (i # is) acc =
     (if rtw_sec_camid_is_used d i then
        (if length (acc @ [i]) = m then acc @ [i] else get_sec_camid_loop d m is (acc @ [i]))
      else get_sec_camid_loop d m is acc)"

definition rtw_get_sec_camid :: "cam_dev \<Rightarrow> nat \<Rightarrow> nat list" where
  "rtw_get_sec_camid d max_bk_key_num = get_sec_camid_loop d max_bk_key_num [0..<cam_num d] []"

definition rtw_camid_is_gk :: "cam_dev \<Rightarrow> nat \<Rightarrow> bool" where
  "rtw_camid_is_gk d cam_id =
     (if cam_id \<ge> cam_num d then False
      else if \<not> rtw_sec_camid_is_used d cam_id then False
      else cam_ctrl (cam_cache d ! cam_id) AND 2 ^ 6 \<noteq> 0)"

definition cam_cache_chk :: "cam_dev \<Rightarrow> nat \<Rightarrow> buf option \<Rightarrow> int \<Rightarrow> int \<Rightarrow> bool" where
  "cam_cache_chk d cid addr kid gk =
     (let e = cam_cache d ! cid in
      if addr \<noteq> None \<and> cam_mac e \<noteq> the addr then False
      else if kid \<ge> 0 \<and> kid \<noteq> uint (cam_ctrl e AND 0x03) then False
      else if gk \<noteq> -1 \<and> (gk \<noteq> 0) \<noteq> rtw_camid_is_gk d cid then False
      else True)"

definition rtw_camid_search :: "cam_dev \<Rightarrow> buf option \<Rightarrow> int \<Rightarrow> int \<Rightarrow> int" where
  "rtw_camid_search d addr kid gk =
     (let i = first_from (\<lambda>i. cam_cache_chk d i addr kid gk) 0 (cam_num d) in
      if i < cam_num d then int i else -1)"

text \<open>\<open>start_id\<close> is 0, so \<open>(i + start_id) % num\<close> is \<open>i\<close> for the \<open>i\<close> of the loop.\<close>

definition camid_fits :: "cam_dev \<Rightarrow> bool \<Rightarrow> nat \<Rightarrow> bool" where
  "camid_fits d ext_sec i \<longleftrightarrow> \<not> rtw_sec_camid_is_used d (i mod cam_num d) \<and>
     (ext_sec \<longrightarrow> i + 1 < cam_num d \<and> \<not> rtw_sec_camid_is_used d ((i + 1) mod cam_num d))"

definition rtw_get_camid :: "cam_dev \<Rightarrow> buf option \<Rightarrow> int \<Rightarrow> int \<Rightarrow> bool \<Rightarrow> int" where
  "rtw_get_camid d addr kid gk ext_sec =
     (if addr = None then -1
      else let i = (if rtw_camctl_chk_cap d SEC_CAP_CHK_BMC then rtw_camid_search d addr kid gk
                    else rtw_camid_search d addr kid (-1)) in
        if i \<ge> 0 then i
        else let i = first_from (camid_fits d ext_sec) 0 (cam_num d) in
          if i = cam_num d then -1 else int (i mod cam_num d))"

text \<open>The interface state the allocation reads: \<open>mlmeinfo->state\<close>, the own address and the BSSID. \<open>sta\<close>
  is the address of the station, if one is given. The result is the state, the entry (or -1) and
  whether it was in use before.\<close>

definition camid_map_set :: "cam_dev \<Rightarrow> nat \<Rightarrow> cam_dev" where
  "camid_map_set d cid = d\<lparr>cam_used := rtw_sec_cam_map_set (cam_used d) cid\<rparr>"

definition rtw_camid_alloc :: "cam_dev \<Rightarrow> u32 \<Rightarrow> buf \<Rightarrow> buf \<Rightarrow> buf option \<Rightarrow> int \<Rightarrow> int \<Rightarrow> bool \<Rightarrow> cam_dev \<times> int \<times> bool" where
  "rtw_camid_alloc d mlme_state own_addr bssid sta kid gk ext_sec =
     (let cam_id =
        (if (mlme_state AND 0x03 = 0x03 \<or> mlme_state AND 0x03 = 0x01) \<and> sta = None
         then rtw_get_camid d (Some own_addr) kid gk ext_sec
         else if sta = None then
           (if mlme_state AND 0x00004000 = 0 then -1 else rtw_get_camid d (Some bssid) kid gk ext_sec)
         else rtw_get_camid d sta kid gk ext_sec) in
      if cam_id \<ge> 0 then
        (let used = rtw_sec_camid_is_used d (nat cam_id);
             d = camid_map_set d (nat cam_id);
             d = (if ext_sec then camid_map_set d (nat cam_id + 1) else d) in
         (d, cam_id, used))
      else (d, cam_id, False))"

definition rtw_camid_set :: "cam_dev \<Rightarrow> nat \<Rightarrow> cam_dev" where
  "rtw_camid_set d cam_id = (if cam_id < cam_num d then camid_map_set d cam_id else d)"

definition rtw_camid_free :: "cam_dev \<Rightarrow> nat \<Rightarrow> cam_dev" where
  "rtw_camid_free d cam_id =
     (if cam_id < cam_num d then d\<lparr>cam_used := rtw_sec_cam_map_clr (cam_used d) cam_id\<rparr> else d)"

definition rtw_sec_cam_swap :: "cam_dev \<Rightarrow> nat \<Rightarrow> nat \<Rightarrow> cam_dev option" where
  "rtw_sec_cam_swap d a b =
     (if a = b then Some d
      else
        let a_used = rtw_sec_camid_is_used d a; b_used = rtw_sec_camid_is_used d b;
            cache_a = cam_cache d ! a; cache_b = cam_cache d ! b in do {
        d \<leftarrow> (if a_used then clear_cam_entry (rtw_camid_free d a) a else Some d);
        d \<leftarrow> (if b_used then clear_cam_entry (rtw_camid_free d b) b else Some d);
        d \<leftarrow> (if a_used then map_option (\<lambda>d. rtw_camid_set d b)
                (write_cam d b (cam_ctrl cache_a) (cam_mac cache_a) (cam_key cache_a)) else Some d);
        (if b_used then map_option (\<lambda>d. rtw_camid_set d a)
                (write_cam d a (cam_ctrl cache_b) (cam_mac cache_b) (cam_key cache_b)) else Some d) })"

definition rtw_get_empty_cam_entry :: "cam_dev \<Rightarrow> nat \<Rightarrow> int" where
  "rtw_get_empty_cam_entry d start_camid =
     (let i = first_from (\<lambda>i. \<not> rtw_sec_camid_is_used d i) start_camid (cam_num d) in
      if i < cam_num d then int i else -1)"

fun clean_dk_loop :: "cam_dev \<Rightarrow> nat list \<Rightarrow> cam_dev option" where
  "clean_dk_loop d [] = Some d"
| "clean_dk_loop d (i # is) = do {
     d \<leftarrow> (if rtw_sec_camid_is_used d i then
             let ept_cam_id = rtw_get_empty_cam_entry d 4 in
             if ept_cam_id > 0 then rtw_sec_cam_swap d i (nat ept_cam_id) else Some d
           else Some d);
     clean_dk_loop d is }"

definition rtw_clean_dk_section :: "cam_dev \<Rightarrow> cam_dev option" where
  "rtw_clean_dk_section d = clean_dk_loop d [0..<4]"

text \<open>\<open>HW_VAR_CAM_INVALID_ALL\<close> tells the chip to forget the table; what it then reads is a parameter.\<close>

definition invalidate_cam_all :: "cam_dev \<Rightarrow> cam_hw \<Rightarrow> nat \<Rightarrow> cam_dev" where
  "invalidate_cam_all d hw_invalid bmc_id =
     (let d = d\<lparr>cam_chip := hw_invalid, cam_used := rtw_sec_cam_map_clr_all (cam_used d)\<rparr>;
          d = (if bmc_id \<noteq> INVALID_SEC_MAC_CAM_ID then
                 let d = camid_map_set d bmc_id in
                 (if rtw_camctl_chk_cap d SEC_CAP_CHK_EXTRA_SEC then camid_map_set d (bmc_id + 1) else d)
               else d) in
      d\<lparr>cam_cache := replicate 32 null_ent\<rparr>)"

section \<open>Allocation\<close>

lemma is_used_iff: "rtw_sec_camid_is_used d i \<longleftrightarrow> i < cam_num d \<and> rtw_sec_camid_is_set (cam_used d) i"
  by (simp add: rtw_sec_camid_is_used_def)

lemma camid_map_set_used:
  "cam_num d \<le> 32 \<Longrightarrow> rtw_sec_camid_is_used (camid_map_set d i) j \<longleftrightarrow> j = i \<and> i < cam_num d \<or> rtw_sec_camid_is_used d j"
  by (auto simp: is_used_iff camid_map_set_def sec_cam.set_set)

lemma camid_map_set_simps [simp]: "cam_num (camid_map_set d i) = cam_num d" "cam_cache (camid_map_set d i) = cam_cache d"
  "cam_chip (camid_map_set d i) = cam_chip d"
  by (simp_all add: camid_map_set_def)

definition camid_match :: "cam_dev \<Rightarrow> buf \<Rightarrow> int \<Rightarrow> int \<Rightarrow> int" where
  "camid_match d a kid gk = rtw_camid_search d (Some a) kid (if rtw_camctl_chk_cap d SEC_CAP_CHK_BMC then gk else -1)"

definition cam_room :: "cam_dev \<Rightarrow> bool \<Rightarrow> nat \<Rightarrow> bool" where
  "cam_room d ext_sec i \<longleftrightarrow> i < cam_num d \<and> \<not> rtw_sec_camid_is_used d i
     \<and> (ext_sec \<longrightarrow> i + 1 < cam_num d \<and> \<not> rtw_sec_camid_is_used d (i + 1))"

text \<open>\<open>rtw_camid_alloc\<close> for a station's key that is not in the table takes the lowest entry that is
  free (for a 256-bit key the lowest pair of free neighbours), reports it as unused, marks exactly
  it as used, and fails without a change exactly when there is none.\<close>

theorem rtw_camid_alloc_lowest:
  assumes "0 < cam_num d" and "cam_num d \<le> 32" and "camid_match d a kid gk = -1"
  shows "case rtw_camid_alloc d mlme_state own bssid (Some a) kid gk ext_sec of (d', c, used) \<Rightarrow>
      \<not> used \<and> cam_cache d' = cam_cache d \<and>
      (if \<exists>i. cam_room d ext_sec i
       then c = int (LEAST i. cam_room d ext_sec i)
         \<and> (\<forall>j. rtw_sec_camid_is_used d' j \<longleftrightarrow> int j = c \<or> ext_sec \<and> int j = c + 1 \<or> rtw_sec_camid_is_used d j)
       else c = -1 \<and> d' = d)"
proof -
  let ?n = "cam_num d" and ?i = "first_from (camid_fits d ext_sec) 0 (cam_num d)"
  note ff = first_from_spec [where start = 0 and num = ?n and P = "camid_fits d ext_sec"]
  have fits: "camid_fits d ext_sec i \<longleftrightarrow> cam_room d ext_sec i" if "i < ?n" for i
    using that by (auto simp: camid_fits_def cam_room_def)
  have get: "rtw_get_camid d (Some a) kid gk ext_sec = (if ?i = ?n then -1 else int (?i mod ?n))"
    using assms(3) by (auto simp: rtw_get_camid_def camid_match_def Let_def)
  show ?thesis
  proof (cases "?i = ?n")
    case True
    then have "\<not> cam_room d ext_sec i" for i
      using ff(4) [of i] fits [of i] by (cases "i < ?n") (auto simp: cam_room_def)
    then show ?thesis using get True by (simp add: rtw_camid_alloc_def)
  next
    case False
    then have lt: "?i < ?n" using ff(2) by simp
    have fi: "cam_room d ext_sec ?i" using ff(3) lt fits by simp
    have "?i \<le> j" if "cam_room d ext_sec j" for j using ff(4) [of j] fits that by (metis cam_room_def le0 not_le)
    then have least: "(LEAST i. cam_room d ext_sec i) = ?i" using fi by (intro Least_equality) auto
    have ex: "\<exists>i. cam_room d ext_sec i" using fi by blast
    have free: "\<not> rtw_sec_camid_is_used d ?i" "ext_sec \<Longrightarrow> Suc ?i < ?n" using fi by (simp_all add: cam_room_def)
    show ?thesis using get False lt free assms(2)
      by (auto simp: rtw_camid_alloc_def Let_def camid_map_set_used ex least)
  qed
qed

definition cam_dev0 :: cam_dev where
  "cam_dev0 = \<lparr>cam_num = 4, cam_used = 0b0101, cam_sec_cap = 0, cam_flags = 0,
     cam_cache = replicate 32 null_ent, cam_chip = (\<lambda>_. 0)\<rparr>"

theorem rtw_camid_alloc_lowest_witness:
  "case rtw_camid_alloc cam_dev0 0 [0, 0, 0, 0, 0, 9] [] (Some [1, 2, 3, 4, 5, 6]) 0 0 False of (d', c, used) \<Rightarrow>
      \<not> used \<and> cam_cache d' = cam_cache cam_dev0 \<and>
      (if \<exists>i. cam_room cam_dev0 False i
       then c = int (LEAST i. cam_room cam_dev0 False i)
         \<and> (\<forall>j. rtw_sec_camid_is_used d' j \<longleftrightarrow> int j = c \<or> False \<and> int j = c + 1 \<or> rtw_sec_camid_is_used cam_dev0 j)
       else c = -1 \<and> d' = cam_dev0)"
proof (rule rtw_camid_alloc_lowest)
  show "camid_match cam_dev0 [1, 2, 3, 4, 5, 6] 0 0 = -1"
    by (simp add: cam_dev0_def camid_match_def rtw_camid_search_def rtw_camctl_chk_cap_def first_from.simps
        cam_cache_chk_def null_ent_def Let_def eval_nat_numeral)
qed (simp_all add: cam_dev0_def)

section \<open>Exchanging entries\<close>

definition cam_ok :: "cam_dev \<Rightarrow> bool" where
  "cam_ok d \<longleftrightarrow> cam_num d \<le> 32 \<and> length (cam_cache d) = 32 \<and> list_all cam_ent_ok (cam_cache d)
     \<and> (\<forall>i<32. hw_ent (cam_chip d) i = ent_bytes (cam_cache d ! i))"

definition cam_view :: "cam_dev \<Rightarrow> nat \<Rightarrow> sec_cam_ent option" where
  "cam_view d i = (if rtw_sec_camid_is_used d i then Some (cam_cache d ! i) else None)"

definition cam_single :: "sec_cam_ent \<Rightarrow> bool" where
  "cam_single e \<longleftrightarrow> cam_ctrl e AND 2 ^ 9 = 0"

lemma cam_ok_update:
  assumes "cam_ok d" and "cam_ent_ok e" and "i < 32"
    and "rtw_sec_write_cam_ent (cam_chip d) (word_of_nat i) (cam_ctrl e) (cam_mac e) (cam_key e) = Some hw"
  shows "cam_ok (d\<lparr>cam_chip := hw, cam_cache := (cam_cache d)[i := e]\<rparr>)"
proof -
  have hw: "hw_ent hw i = ent_bytes e" "k < 32 \<Longrightarrow> k \<noteq> i \<Longrightarrow> hw_ent hw k = hw_ent (cam_chip d) k" for k
    using cam_ent_written [OF assms(2,3), of "cam_chip d"] assms(4) by auto
  show ?thesis
    using assms(1-3) hw unfolding cam_ok_def
    by (auto simp: nth_list_update list_all_iff dest!: set_update_subset_insert [THEN subsetD])
qed

lemma cam_wdata_take: "16 \<le> length key \<Longrightarrow> j < 8 \<Longrightarrow> cam_wdata ctrl mac (take 16 key) j = cam_wdata ctrl mac key j"
  by (auto simp: cam_wdata_def rd_def Let_def)

lemma write_cam_ent_take:
  assumes "16 \<le> length key"
  shows "rtw_sec_write_cam_ent hw cid ctrl mac (take 16 key) = rtw_sec_write_cam_ent hw cid ctrl mac key"
proof -
  have "cam_write_loop n hw cid ctrl mac (take 16 key) = cam_write_loop n hw cid ctrl mac key" if "n \<le> 8" for n hw
    using that by (induction n arbitrary: hw) (simp_all add: cam_wdata_take [OF assms])
  then show ?thesis by (simp add: rtw_sec_write_cam_ent_def)
qed

lemma null_ent_ok: "cam_ent_ok null_ent"
  by (simp add: cam_ent_ok_def null_ent_def)

lemma cam_okD: "cam_ok d \<Longrightarrow> cam_num d \<le> 32" "cam_ok d \<Longrightarrow> length (cam_cache d) = 32"
  "cam_ok d \<Longrightarrow> i < 32 \<Longrightarrow> cam_ent_ok (cam_cache d ! i)"
  by (auto simp: cam_ok_def list_all_length)

lemma cam_ok_map [simp]: "cam_ok (d\<lparr>cam_used := m\<rparr>) = cam_ok d"
  by (simp add: cam_ok_def)

lemma clear_entry_step:
  assumes "cam_ok d" and "i < cam_num d"
  obtains d' where "clear_cam_entry (rtw_camid_free d i) i = Some d'" and "cam_ok d'" and "cam_num d' = cam_num d"
    and "cam_view d' = (cam_view d)(i := None)"
proof -
  have i: "i < 32" "length (cam_cache d) = 32" using assms cam_okD(1,2) [of d] by auto
  let ?f = "rtw_camid_free d i"
  have f: "?f = d\<lparr>cam_used := rtw_sec_cam_map_clr (cam_used d) i\<rparr>" using assms(2) by (simp add: rtw_camid_free_def)
  have t: "take 16 (replicate 32 (0 :: u8)) = replicate 16 0" by simp
  obtain hw where hw: "rtw_sec_write_cam_ent (cam_chip d) (word_of_nat i) 0 (replicate 6 0) (replicate 16 0) = Some hw"
    using cam_ent_written [OF null_ent_ok i(1), of "cam_chip d"] by (auto simp: null_ent_def)
  let ?d = "?f\<lparr>cam_chip := hw, cam_cache := (cam_cache ?f)[i := null_ent]\<rparr>"
  have "clear_cam_entry ?f i = Some ?d"
    using hw i write_cam_ent_take [of "replicate 32 0"]
    by (simp add: clear_cam_entry_def clear_chip_entry_def clear_cam_cache_def f t)
  moreover have "cam_ok ?d"
    by (rule cam_ok_update) (use assms(1) null_ent_ok i hw in \<open>simp_all add: f null_ent_def\<close>)
  moreover have "cam_view ?d = (cam_view d)(i := None)"
    using i by (intro ext) (simp add: cam_view_def is_used_iff f sec_cam.set_clr)
  ultimately show ?thesis using that by (simp add: f)
qed

lemma write_entry_step:
  assumes "cam_ok d" and "i < cam_num d" and "cam_ent_ok e" and "cam_single e"
  obtains d' where "map_option (\<lambda>d. rtw_camid_set d i) (write_cam d i (cam_ctrl e) (cam_mac e) (cam_key e)) = Some d'"
    and "cam_ok d'" and "cam_num d' = cam_num d" and "cam_view d' = (cam_view d)(i \<mapsto> e)"
proof -
  have i: "i < 32" "length (cam_cache d) = 32" using assms(1,2) cam_okD(1,2) [of d] by auto
  obtain hw where hw: "rtw_sec_write_cam_ent (cam_chip d) (word_of_nat i) (cam_ctrl e) (cam_mac e) (cam_key e) = Some hw"
    using cam_ent_written [OF assms(3) i(1), of "cam_chip d"] by auto
  let ?w = "d\<lparr>cam_chip := hw, cam_cache := (cam_cache d)[i := e]\<rparr>"
  have "write_cam d i (cam_ctrl e) (cam_mac e) (cam_key e) = Some ?w"
    using hw i assms(3,4)
    by (cases e) (simp add: write_cam_def cam_single_def write_cam_one_def write_cam_cache_def rd_n_def cam_ent_ok_def)
  moreover have "cam_ok ?w" by (rule cam_ok_update [OF assms(1,3) i(1) hw])
  moreover have "cam_view (rtw_camid_set ?w i) = (cam_view d)(i \<mapsto> e)"
    using i assms(1,2) cam_okD(1) [of d]
    by (intro ext) (simp add: cam_view_def is_used_iff rtw_camid_set_def camid_map_set_def sec_cam.set_set)
  ultimately show ?thesis using that [of "rtw_camid_set ?w i"] assms(2)
    by (simp add: rtw_camid_set_def camid_map_set_def)
qed

lemma clear_if_used:
  assumes "cam_ok d" and "i < cam_num d" and "u \<longleftrightarrow> cam_view d i \<noteq> None"
  shows "\<exists>d'. (if u then clear_cam_entry (rtw_camid_free d i) i else Some d) = Some d' \<and> cam_ok d'
    \<and> cam_num d' = cam_num d \<and> cam_view d' = (cam_view d)(i := None)"
proof (cases u)
  case True
  then show ?thesis using clear_entry_step [OF assms(1,2)] by metis
next
  case False
  then have "(cam_view d)(i := None) = cam_view d" using assms(3) by (simp add: fun_upd_idem)
  then show ?thesis using False assms(1) by simp
qed

lemma write_if_used:
  assumes "cam_ok d" and "i < cam_num d" and "cam_ent_ok e" and "u \<Longrightarrow> cam_single e" and "cam_view d i = None"
  shows "\<exists>d'. (if u then map_option (\<lambda>d. rtw_camid_set d i) (write_cam d i (cam_ctrl e) (cam_mac e) (cam_key e)) else Some d) = Some d'
    \<and> cam_ok d' \<and> cam_num d' = cam_num d \<and> cam_view d' = (cam_view d)(i := if u then Some e else None)"
proof (cases u)
  case True
  then show ?thesis using write_entry_step [OF assms(1-3) assms(4) [OF True]] by (simp del: map_option_eq_Some) metis
next
  case False
  then have "(cam_view d)(i := None) = cam_view d" using assms(5) by (simp add: fun_upd_idem)
  then show ?thesis using False assms(1) by simp
qed

lemma swap_steps:
  assumes "cam_ok d" and "a < cam_num d" and "b < cam_num d"
    and "\<And>i e. i \<in> {a, b} \<Longrightarrow> cam_view d i = Some e \<Longrightarrow> cam_single e"
  shows "\<exists>d'. rtw_sec_cam_swap d a b = Some d' \<and> cam_ok d' \<and> cam_num d' = cam_num d
    \<and> cam_view d' = (cam_view d)(a := cam_view d b, b := cam_view d a)"
proof (cases "a = b")
  case False
  let ?ua = "rtw_sec_camid_is_used d a" and ?ub = "rtw_sec_camid_is_used d b"
  let ?ea = "cam_cache d ! a" and ?eb = "cam_cache d ! b"
  have ok: "cam_ent_ok ?ea" "cam_ent_ok ?eb" using cam_okD(1,3) [OF assms(1)] assms(2,3) by (auto dest: order_less_le_trans)
  have single: "?ua \<Longrightarrow> cam_single ?ea" "?ub \<Longrightarrow> cam_single ?eb" using assms(4) [of a ?ea] assms(4) [of b ?eb] by (simp_all add: cam_view_def)
  have va: "cam_view d a = (if ?ua then Some ?ea else None)" and vb: "cam_view d b = (if ?ub then Some ?eb else None)"
    by (simp_all add: cam_view_def)
  have ua: "?ua \<longleftrightarrow> cam_view d a \<noteq> None" by (simp add: cam_view_def)
  obtain d1 where d1: "(if ?ua then clear_cam_entry (rtw_camid_free d a) a else Some d) = Some d1" "cam_ok d1"
      "cam_num d1 = cam_num d" "cam_view d1 = (cam_view d)(a := None)"
    using clear_if_used [OF assms(1,2) ua] by blast
  have ub1: "?ub \<longleftrightarrow> cam_view d1 b \<noteq> None" using d1(4) False by (simp add: cam_view_def)
  obtain d2 where d2: "(if ?ub then clear_cam_entry (rtw_camid_free d1 b) b else Some d1) = Some d2" "cam_ok d2"
      "cam_num d2 = cam_num d" "cam_view d2 = (cam_view d)(a := None, b := None)"
    using clear_if_used [OF d1(2) _ ub1] d1(3,4) assms(3) by metis
  obtain d3 where d3: "(if ?ua then map_option (\<lambda>d. rtw_camid_set d b) (write_cam d2 b (cam_ctrl ?ea) (cam_mac ?ea) (cam_key ?ea)) else Some d2) = Some d3"
      "cam_ok d3" "cam_num d3 = cam_num d" "cam_view d3 = (cam_view d)(a := None, b := cam_view d a)"
    using write_if_used [OF d2(2), of b ?ea ?ua] d2(3,4) assms(3) ok(1) single(1) va by (auto simp del: map_option_eq_Some)
  obtain d4 where d4: "(if ?ub then map_option (\<lambda>d. rtw_camid_set d a) (write_cam d3 a (cam_ctrl ?eb) (cam_mac ?eb) (cam_key ?eb)) else Some d3) = Some d4"
      "cam_ok d4" "cam_num d4 = cam_num d" "cam_view d4 = (cam_view d3)(a := cam_view d b)"
    using write_if_used [OF d3(2), of a ?eb ?ub] d3(3,4) assms(2) ok(2) single(2) vb False by (auto simp del: map_option_eq_Some)
  have "cam_view d4 = (cam_view d)(a := cam_view d b, b := cam_view d a)"
    using d4(4) d3(4) False by (simp add: fun_upd_twist)
  then show ?thesis using d1(1) d2(1) d3(1) d4(1-3) False by (simp add: rtw_sec_cam_swap_def Let_def)
qed (use assms(1) in \<open>auto simp: rtw_sec_cam_swap_def\<close>)

text \<open>\<open>rtw_sec_cam_swap\<close> exchanges two entries of the table, whichever of them are in use: keys and
  usage marks change places, the other entries stay, and the chip still agrees with the copy.\<close>

theorem rtw_sec_cam_swap_exchanges:
  assumes "cam_ok d" and "a < cam_num d" and "b < cam_num d"
    and "\<And>i e. i \<in> {a, b} \<Longrightarrow> cam_view d i = Some e \<Longrightarrow> cam_single e"
  shows "\<exists>d'. rtw_sec_cam_swap d a b = Some d' \<and> cam_ok d' \<and> cam_num d' = cam_num d
    \<and> cam_view d' = (cam_view d)(a := cam_view d b, b := cam_view d a)"
  by (rule swap_steps [OF assms])

lemma cam_dev0_ok: "cam_ok cam_dev0"
proof -
  have "le32_bytes 0 = [0, 0, 0, 0]" "le16_bytes 0 = [0, 0]" by (simp_all add: le32_bytes_def le16_bytes_def)
  then have "hw_ent (\<lambda>_. 0) i = ent_bytes null_ent" for i
    by (simp add: hw_ent_words Let_def ent_bytes_def null_ent_def eval_nat_numeral)
  then show ?thesis by (simp add: cam_ok_def cam_dev0_def list_all_iff null_ent_ok)
qed

theorem rtw_sec_cam_swap_exchanges_witness:
  "\<exists>d'. rtw_sec_cam_swap cam_dev0 0 3 = Some d' \<and> cam_ok d' \<and> cam_num d' = cam_num cam_dev0
    \<and> cam_view d' = (cam_view cam_dev0)(0 := cam_view cam_dev0 3, 3 := cam_view cam_dev0 0)"
proof (rule rtw_sec_cam_swap_exchanges [OF cam_dev0_ok])
  fix i e
  assume "cam_view cam_dev0 i = Some e" "i \<in> {0, 3}"
  then show "cam_single e" by (auto simp: cam_view_def cam_dev0_def cam_single_def null_ent_def split: if_splits)
qed (simp_all add: cam_dev0_def)

text \<open>An entry of a 256-bit key (bit 9 of the control word) is never moved: writing it reads the
  second half of the key behind the 16 bytes of the copy.\<close>

lemma write_cam_ext_oob:
  assumes "cam_ctrl e AND 2 ^ 9 \<noteq> 0" and "cam_ent_ok e"
  shows "write_cam d i (cam_ctrl e) (cam_mac e) (cam_key e) = None"
proof -
  have "cam_wdata c m [] 5 = None" for c m by (simp add: cam_wdata_def rd_def Let_def)
  then have "rtw_sec_write_cam_ent hw cid c m [] = None" for hw cid c m
    by (simp add: rtw_sec_write_cam_ent_def numeral_eq_Suc cam_wdata_def)
  then show ?thesis
    using assms by (simp add: write_cam_def write_cam_one_def cam_ent_ok_def Option.bind_eq_None_conv)
qed

text \<open>Exchanging entries when one in use holds a 256-bit key leaves the object that holds the saved
  entry: \<open>write_cam\<close> reads 16 key bytes past the 16-byte key of the copy.\<close>

theorem rtw_sec_cam_swap_ext_oob:
  assumes "cam_ok d" and "a < cam_num d" and "b < cam_num d" and "a \<noteq> b"
    and "cam_view d a = Some e" and "cam_ctrl e AND 2 ^ 9 \<noteq> 0"
  shows "rtw_sec_cam_swap d a b = None"
proof -
  have "cam_ent_ok e" "e = cam_cache d ! a" "rtw_sec_camid_is_used d a"
    using assms(1,2,5) cam_okD(1) [OF assms(1)] cam_okD(3) [OF assms(1), of a]
    by (auto simp: cam_view_def split: if_splits)
  then show ?thesis
    using assms(4,6) by (auto simp: rtw_sec_cam_swap_def Let_def write_cam_ext_oob bind_eq_None_conv)
qed

section \<open>Emptying the default-key section\<close>

lemma cam_view_None: "cam_view d i = None \<longleftrightarrow> \<not> rtw_sec_camid_is_used d i"
  by (simp add: cam_view_def)

lemma first_from_filter: "first_from P n m = (case filter P [n..<m] of [] \<Rightarrow> max n m | j # _ \<Rightarrow> j)"
proof (induction P n m rule: first_from.induct)
  case (1 P n m)
  show ?case
  proof (cases "n < m")
    case True
    then have u: "[n..<m] = n # [n + 1..<m]" "max n m = max (n + 1) m" by (simp_all add: upt_conv_Cons)
    show ?thesis using 1 True unfolding first_from.simps [of P n] u by simp
  qed (simp add: first_from.simps [of P n])
qed

lemma empty_entry:
  "rtw_get_empty_cam_entry d 4 = (case filter (\<lambda>i. cam_view d i = None) [4..<cam_num d] of [] \<Rightarrow> -1 | j # _ \<Rightarrow> int j)"
proof (cases "filter (\<lambda>i. cam_view d i = None) [4..<cam_num d]")
  case Nil
  then show ?thesis
    unfolding rtw_get_empty_cam_entry_def first_from_filter cam_view_None by (simp only: Let_def list.case) simp
next
  case (Cons j js)
  from arg_cong [OF this, of set] have "j < cam_num d" by auto
  then show ?thesis
    using Cons unfolding rtw_get_empty_cam_entry_def first_from_filter cam_view_None by (simp only: Let_def list.case) simp
qed

definition cam_keys :: "cam_dev \<Rightarrow> sec_cam_ent option multiset" where
  "cam_keys d = mset (map (cam_view d) [0..<cam_num d])"

text \<open>The exchanges \<open>rtw_clean_dk_section\<close> is to make: the used entries among \<open>is\<close> in their order, each
  with a free entry behind the section, as long as there is one; and the table after them.\<close>

definition dk_pairs :: "cam_dev \<Rightarrow> nat list \<Rightarrow> (nat \<times> nat) list" where
  "dk_pairs d is = zip (filter (\<lambda>i. cam_view d i \<noteq> None) is) (filter (\<lambda>i. cam_view d i = None) [4..<cam_num d])"

definition exchanged :: "(nat \<times> nat) list \<Rightarrow> (nat \<Rightarrow> 'e) \<Rightarrow> nat \<Rightarrow> 'e" where
  "exchanged ps v i = (case map_of (ps @ map prod.swap ps) i of None \<Rightarrow> v i | Some j \<Rightarrow> v j)"

lemma keys_exchange:
  assumes "a < cam_num d" and "b < cam_num d" and "cam_num d' = cam_num d"
    and "cam_view d' = (cam_view d)(a := cam_view d b, b := cam_view d a)"
  shows "cam_keys d' = cam_keys d"
proof -
  let ?l = "map (cam_view d) [0..<cam_num d]"
  have "map (cam_view d') [0..<cam_num d] = ?l[a := ?l ! b, b := ?l ! a]"
    using assms by (intro nth_equalityI) (auto simp: nth_list_update)
  then show ?thesis using mset_swap [of b ?l a] assms(1-3) by (simp add: cam_keys_def list_update_swap)
qed

lemma map_of_unkeyed: "k \<notin> fst ` set ps \<Longrightarrow> map_of ps k = None"
  by (simp add: map_of_eq_None_iff)

lemma map_of_swapped_None: "k \<notin> snd ` set ps \<Longrightarrow> map_of (map prod.swap ps) k = None"
  by (force simp: map_of_eq_None_iff)

lemma exchanged_Cons:
  assumes "i \<noteq> j" and "i \<notin> fst ` set ps \<union> snd ` set ps" and "j \<notin> fst ` set ps \<union> snd ` set ps"
  shows "exchanged ((i, j) # ps) v = exchanged ps (v(i := v j, j := v i))"
proof
  fix k
  let ?m = "map_of (ps @ map prod.swap ps)"
  have none: "map_of ps i = None" "?m i = None" "?m j = None" "map_of ps j = None"
    using assms(2,3) by (simp_all add: map_of_swapped_None map_of_unkeyed map_add_def)
  have new: "map_of (((i, j) # ps) @ map prod.swap ((i, j) # ps)) k = (if k = i then Some j else if k = j then Some i else ?m k)"
    using none assms(1) by (auto simp: map_add_def split: option.splits)
  have "m \<noteq> i \<and> m \<noteq> j" if "?m k = Some m" for m
  proof -
    from that have "(k, m) \<in> set (ps @ map prod.swap ps)" by (rule map_of_SomeD)
    then show ?thesis using assms(2,3) by force
  qed
  then show "exchanged ((i, j) # ps) v k = exchanged ps (v(i := v j, j := v i)) k"
    unfolding exchanged_def new using none assms(1) by (auto split: option.splits)
qed

text \<open>With room behind, the section is free afterwards.\<close>

lemma exchanged_front:
  assumes "i < 4"
    and "length (filter (\<lambda>i. cam_view d i \<noteq> None) [0..<4]) \<le> length (filter (\<lambda>i. cam_view d i = None) [4..<cam_num d])"
  shows "exchanged (dk_pairs d [0..<4]) (cam_view d) i = None"
proof -
  let ?ps = "dk_pairs d [0..<4]"
  have fst: "map fst ?ps = filter (\<lambda>i. cam_view d i \<noteq> None) [0..<4]" using assms(2) by (simp add: dk_pairs_def map_fst_zip_take)
  have snd: "cam_view d j = None \<and> 4 \<le> j" if "(k, j) \<in> set ?ps" for k j
    using set_zip_rightD [OF that [unfolded dk_pairs_def]] by auto
  show ?thesis
  proof (cases "cam_view d i = None")
    case True
    have "i \<notin> fst ` set ?ps" using True arg_cong [OF fst, of set] by auto
    moreover have "i \<notin> snd ` set ?ps" using snd assms(1) by force
    ultimately show ?thesis using True by (simp add: exchanged_def map_of_swapped_None map_of_unkeyed map_add_def)
  next
    case False
    then have "i \<in> fst ` set ?ps" using arg_cong [OF fst, of set] assms(1) by auto
    then obtain j where "map_of ?ps i = Some j" by (metis map_of_eq_None_iff not_Some_eq)
    moreover from this have "cam_view d j = None" using snd map_of_SomeD by fast
    moreover have "i \<notin> snd ` set ?ps" using snd assms(1) by force
    ultimately show ?thesis by (simp add: exchanged_def map_of_swapped_None map_add_def)
  qed
qed

text \<open>One exchange: what is left to do afterwards is the rest of the list.\<close>

abbreviation cam_free :: "cam_dev \<Rightarrow> nat list" where
  "cam_free d \<equiv> filter (\<lambda>i. cam_view d i = None) [4..<cam_num d]"

lemma dk_pairs_step:
  assumes "cam_view d i \<noteq> None" and "cam_free d = j # js" and "i < 4" and "i \<notin> set is" and "\<And>k. k \<in> set is \<Longrightarrow> k < 4"
    and d1: "cam_num d1 = cam_num d" "cam_view d1 = (cam_view d)(i := cam_view d j, j := cam_view d i)"
  shows "dk_pairs d (i # is) = (i, j) # dk_pairs d1 is"
    and "exchanged (dk_pairs d (i # is)) (cam_view d) = exchanged (dk_pairs d1 is) (cam_view d1)"
    and "(k, m) \<in> set (dk_pairs d1 is) \<Longrightarrow> cam_cache d1 ! k = cam_cache d ! k"
proof -
  have mem: "k \<in> set (j # js) \<Longrightarrow> 4 \<le> k \<and> cam_view d k = None" for k unfolding assms(2) [symmetric] by simp
  have dist: "distinct (j # js)" using arg_cong [OF assms(2), of distinct] by simp
  have ij: "i \<noteq> j" "j \<notin> set is" using mem [of j] assms(3,5) by fastforce+
  have "cam_free d1 = filter (\<lambda>k. k \<noteq> j) (cam_free d)"
    unfolding filter_filter d1(1) by (rule filter_cong) (use d1(2) ij mem [of j] assms(1,3) in auto)
  also have "\<dots> = js" unfolding assms(2) using dist by (auto intro!: filter_True)
  finally have free: "cam_free d1 = js" .
  have used: "filter (\<lambda>i. cam_view d1 i \<noteq> None) is = filter (\<lambda>i. cam_view d i \<noteq> None) is"
    by (rule filter_cong) (use d1(2) ij assms(4) in auto)
  show pairs: "dk_pairs d (i # is) = (i, j) # dk_pairs d1 is"
    using assms(1) unfolding dk_pairs_def free used by (simp add: assms(2))
  have sub: "set (dk_pairs d1 is) \<subseteq> {k \<in> set is. cam_view d k \<noteq> None} \<times> set js"
    unfolding dk_pairs_def free used by (auto dest: set_zip_leftD set_zip_rightD)
  then have "fst ` set (dk_pairs d1 is) \<union> snd ` set (dk_pairs d1 is) \<subseteq> set is \<union> set js" by force
  moreover have "i \<notin> set js" "j \<notin> set js" using mem [of i] dist assms(3) by auto
  ultimately show "exchanged (dk_pairs d (i # is)) (cam_view d) = exchanged (dk_pairs d1 is) (cam_view d1)"
    unfolding pairs d1(2) by (intro exchanged_Cons) (use ij assms(4) in auto)
  show "cam_cache d1 ! k = cam_cache d ! k" if "(k, m) \<in> set (dk_pairs d1 is)"
  proof -
    have k: "k \<in> set is" "cam_view d k \<noteq> None" using subsetD [OF sub that] by simp_all
    then have "cam_view d1 k = cam_view d k" using ij(2) assms(4) d1(2) by auto
    then show ?thesis using k(2) by (simp add: cam_view_def split: if_splits)
  qed
qed

lemma clean_dk_loop_exact:
  assumes "cam_ok d" and "distinct is" and "\<And>i. i \<in> set is \<Longrightarrow> i < 4"
  shows "if list_all (\<lambda>(i, j). cam_single (cam_cache d ! i)) (dk_pairs d is)
    then \<exists>d'. clean_dk_loop d is = Some d' \<and> cam_ok d' \<and> cam_num d' = cam_num d \<and> cam_keys d' = cam_keys d
      \<and> cam_view d' = exchanged (dk_pairs d is) (cam_view d)
    else clean_dk_loop d is = None"
  using assms
proof (induction "is" arbitrary: d)
  case Nil
  then show ?case by (simp add: dk_pairs_def exchanged_def fun_eq_iff)
next
  case (Cons i "is")
  show ?case
  proof (cases "cam_view d i = None \<or> cam_free d = []")
    case True
    then have "dk_pairs d (i # is) = dk_pairs d is" by (auto simp: dk_pairs_def)
    moreover have "clean_dk_loop d (i # is) = clean_dk_loop d is" using True by (auto simp: cam_view_None empty_entry)
    ultimately show ?thesis using Cons.IH [OF Cons.prems(1)] Cons.prems(2,3) by simp
  next
    case False
    then obtain j js e where j: "cam_free d = j # js" and e: "cam_view d i = Some e" by (auto simp: neq_Nil_conv)
    have jv: "4 \<le> j" "j < cam_num d" "cam_view d j = None" using arg_cong [OF j, of set] by auto
    have ij: "i < 4" "i \<noteq> j" "i < cam_num d" "i \<notin> set is" using Cons.prems(2) Cons.prems(3) [of i] jv by auto
    have used: "rtw_sec_camid_is_used d i" and ce: "e = cam_cache d ! i" using e by (simp_all add: cam_view_def split: if_splits)
    have step: "clean_dk_loop d (i # is) = Option.bind (rtw_sec_cam_swap d i j) (\<lambda>d. clean_dk_loop d is)"
      using used j jv(1) by (simp add: empty_entry)
    show ?thesis
    proof (cases "cam_single e")
      case False
      then have "rtw_sec_cam_swap d i j = None"
        by (intro rtw_sec_cam_swap_ext_oob [OF Cons.prems(1) ij(3) jv(2) ij(2) e]) (simp add: cam_single_def)
      then show ?thesis using False ce e j unfolding step by (simp add: dk_pairs_def)
    next
      case True
      have single: "cam_single x" if "k \<in> {i, j}" "cam_view d k = Some x" for k x using that True e jv(3) by auto
      obtain d1 where d1: "rtw_sec_cam_swap d i j = Some d1" "cam_ok d1" "cam_num d1 = cam_num d"
          "cam_view d1 = (cam_view d)(i := cam_view d j, j := cam_view d i)"
        using swap_steps [OF Cons.prems(1) ij(3) jv(2)] single by metis
      note rest = dk_pairs_step [OF _ j ij(1,4) _ d1(3,4)]
      have all: "list_all (\<lambda>(i, j). cam_single (cam_cache d1 ! i)) (dk_pairs d1 is)
          \<longleftrightarrow> list_all (\<lambda>(i, j). cam_single (cam_cache d ! i)) (dk_pairs d (i # is))"
        using True ce e Cons.prems(3) rest(1,3) by (auto simp: list_all_iff)
      have eq: "exchanged (dk_pairs d (i # is)) (cam_view d) = exchanged (dk_pairs d1 is) (cam_view d1)"
        by (rule rest(2)) (use e Cons.prems(3) in auto)
      show ?thesis
        using Cons.IH [OF d1(2)] Cons.prems(2,3)
        unfolding step eq all [symmetric] d1(1,3) bind.bind_lunit keys_exchange [OF ij(3) jv(2) d1(3,4)] by simp
    qed
  qed
qed

text \<open>C33: What \<open>rtw_clean_dk_section\<close> does to any table that agrees with the chip: the used entries 0 to 3
  are exchanged, in order, with the free entries from 4 on, until one of the two runs out; the entries of a
  section for which there is no room stay where they are. No key is lost, all other entries are as before,
  and with at least as many free entries behind as used ones in front all four are free afterwards. If an
  entry to be moved holds a 256-bit key (bit 9 of its control word), and only then, the call reads
  outside the saved entry.\<close>

theorem rtw_clean_dk_section_moves:
  assumes "cam_ok d"
  shows "if list_all (\<lambda>(i, j). cam_single (cam_cache d ! i)) (dk_pairs d [0..<4])
    then \<exists>d'. rtw_clean_dk_section d = Some d' \<and> cam_ok d' \<and> cam_num d' = cam_num d \<and> cam_keys d' = cam_keys d
      \<and> cam_view d' = exchanged (dk_pairs d [0..<4]) (cam_view d)
      \<and> (length (filter (\<lambda>i. cam_view d i \<noteq> None) [0..<4]) \<le> length (filter (\<lambda>i. cam_view d i = None) [4..<cam_num d])
           \<longrightarrow> (\<forall>i<4. cam_view d' i = None))
    else rtw_clean_dk_section d = None"
proof -
  have "exchanged (dk_pairs d [0..<4]) (cam_view d) i = None"
    if "i < 4" and room: "length (filter (\<lambda>i. cam_view d i \<noteq> None) [0..<4]) \<le> length (filter (\<lambda>i. cam_view d i = None) [4..<cam_num d])" for i
    by (rule exchanged_front) (use that in simp_all)
  then show ?thesis
    using clean_dk_loop_exact [OF assms, of "[0..<4]"] by (auto simp: rtw_clean_dk_section_def split: if_splits)
qed

definition cam_dev1 :: cam_dev where
  "cam_dev1 = \<lparr>cam_num = 8, cam_used = 0b10101, cam_sec_cap = 0, cam_flags = 0,
     cam_cache = replicate 32 null_ent, cam_chip = (\<lambda>_. 0)\<rparr>"

lemma cam_dev1_ok: "cam_ok cam_dev1"
  using cam_dev0_ok by (simp add: cam_ok_def cam_dev1_def cam_dev0_def)

lemma cam_dev1_view: "cam_view cam_dev1 i = (if i \<in> {0, 2, 4} then Some null_ent else None)"
proof -
  have "bit (0b10101 :: u32) i \<longleftrightarrow> i \<in> {0, 2, 4}" if "i < 8"
    using that by (auto simp: less_Suc_eq numeral_eq_Suc)
  then show ?thesis
    by (auto simp: cam_view_def is_used_iff rtw_sec_camid_is_set_def and_exp_iff cam_dev1_def)
qed

definition cam_dev2 :: cam_dev where
  "cam_dev2 = cam_dev0\<lparr>cam_cache := replicate 32 (null_ent\<lparr>cam_ctrl := 0x200\<rparr>),
     cam_chip := (\<lambda>a. if a AND 7 = 0 then 0x200 else 0)\<rparr>"

lemma cam_dev2_ok: "cam_ok cam_dev2"
proof -
  have b: "le32_bytes 0 = [0, 0, 0, 0]" "le32_bytes 0x200 = [0, 2, 0, 0]" "le16_bytes 0x200 = [0, 2]"
    by (simp_all add: le32_bytes_def le16_bytes_def)
  have r: "replicate 6 (0 :: u8) = [0, 0, 0, 0, 0, 0]" "replicate 16 (0 :: u8) = [0, 0, 0, 0, 0, 0, 0, 0, 0, 0, 0, 0, 0, 0, 0, 0]"
    by (simp_all add: eval_nat_numeral)
  have a: "(push_bit 3 w OR (j :: u8)) AND 7 = j AND 7" for w j
  proof -
    have m: "(7 :: u8) = mask 3" by (simp add: mask_eq_exp_minus_1)
    show ?thesis unfolding m by (rule bit_word_eqI) (auto simp: bit_simps)
  qed
  have "hw_ent (\<lambda>a. if a AND 7 = 0 then 0x200 else 0) i = ent_bytes (null_ent\<lparr>cam_ctrl := 0x200\<rparr>)" for i
    by (simp add: hw_ent_words Let_def ent_bytes_def null_ent_def a a [where j = 0, simplified] b r)
  then show ?thesis by (simp add: cam_ok_def cam_dev2_def cam_dev0_def list_all_iff cam_ent_ok_def null_ent_def)
qed

text \<open>Entries 0 and 2 move to 5 and 6; a table whose first entry is a 256-bit key.\<close>

theorem rtw_clean_dk_section_moves_witness:
  "(\<exists>d'. rtw_clean_dk_section cam_dev1 = Some d' \<and> cam_keys d' = cam_keys cam_dev1
     \<and> map (cam_view d') [0..<8] = [None, None, None, None, Some null_ent, Some null_ent, Some null_ent, None])
   \<and> rtw_clean_dk_section (cam_dev2\<lparr>cam_num := 8\<rparr>) = None"
proof
  have n: "cam_num cam_dev1 = 8" by (simp add: cam_dev1_def)
  have p: "dk_pairs cam_dev1 [0..<4] = [(0, 5), (2, 6)]" by (simp add: dk_pairs_def n cam_dev1_view upt_rec)
  have "\<exists>d'. rtw_clean_dk_section cam_dev1 = Some d' \<and> cam_keys d' = cam_keys cam_dev1
      \<and> cam_view d' = exchanged [(0, 5), (2, 6)] (cam_view cam_dev1)"
    using rtw_clean_dk_section_moves [OF cam_dev1_ok] unfolding p
    by (auto simp: cam_dev1_def null_ent_def cam_single_def split: if_splits)
  moreover have "map (exchanged [(0, 5), (2, 6)] (cam_view cam_dev1)) [0..<8]
      = [None, None, None, None, Some null_ent, Some null_ent, Some null_ent, None]"
    by (simp add: exchanged_def cam_dev1_view upt_rec)
  ultimately show "\<exists>d'. rtw_clean_dk_section cam_dev1 = Some d' \<and> cam_keys d' = cam_keys cam_dev1
     \<and> map (cam_view d') [0..<8] = [None, None, None, None, Some null_ent, Some null_ent, Some null_ent, None]"
    by metis
  let ?d = "cam_dev2\<lparr>cam_num := 8\<rparr>"
  have "cam_ok ?d" using cam_dev2_ok by (simp add: cam_ok_def)
  moreover have "dk_pairs ?d [0..<4] \<noteq> []" "\<not> cam_single (cam_cache ?d ! fst (hd (dk_pairs ?d [0..<4])))"
    by (simp_all add: dk_pairs_def upt_rec cam_view_def is_used_iff rtw_sec_camid_is_set_def cam_dev2_def cam_dev0_def cam_single_def)
  then have "\<not> list_all (\<lambda>(i, j). cam_single (cam_cache ?d ! i)) (dk_pairs ?d [0..<4])"
    by (cases "dk_pairs ?d [0..<4]") auto
  ultimately show "rtw_clean_dk_section ?d = None" using rtw_clean_dk_section_moves [of ?d] by simp
qed

theorem rtw_sec_cam_swap_ext_oob_witness: "rtw_sec_cam_swap cam_dev2 0 3 = None"
  by (rule rtw_sec_cam_swap_ext_oob [OF cam_dev2_ok, where e = "null_ent\<lparr>cam_ctrl := 0x200\<rparr>"])
    (simp_all add: cam_dev2_def cam_dev0_def cam_view_def is_used_iff rtw_sec_camid_is_set_def)

end
