(* ===== verification/Macid.thy ===== *)
theory Macid
  imports Sec_Cam
begin

text \<open>
  MAC ids: the firmware's handles for stations, allocated in \<open>core/rtw_wlan_util.c\<close>
  (\<open>rtw_macid_*\<close>, \<open>rtw_alloc_macid\<close>, \<open>rtw_release_macid\<close>). The broadcast station of an access point
  also takes the security CAM entry of the same number, so these operations act on the CAM state of
  \<open>Sec_Cam\<close> as well. The lemmas show which id an allocation takes for each kind of station, what releasing it restores, and that the counts of connected stations per role agree with the recorded states.
\<close>

section \<open>State\<close>

definition MACID_NUM_SW_LIMIT :: nat where "MACID_NUM_SW_LIMIT = 32"
definition RTW_DEFAULT_MGMT_MACID :: nat where "RTW_DEFAULT_MGMT_MACID = 1"
definition H2C_MSR_ROLE_MAX :: nat where "H2C_MSR_ROLE_MAX = 8"

definition bc_addr :: buf where "bc_addr = [0xff, 0xff, 0xff, 0xff, 0xff, 0xff]"

text \<open>\<open>mc_if_g\<close> and \<open>mc_iface_bmc\<close> have one element per interface; stations are named by their index in
  the station table.\<close>

record macid_ctl =
  mc_num :: nat
  mc_used :: u32
  mc_bmc :: u32
  mc_if_g :: "u32 list"
  mc_ch_g :: "u32 list"
  mc_iface_bmc :: "nat list"
  mc_h2c_msr :: "u8 list"
  mc_bw :: "u8 list"
  mc_vht_en :: "u8 list"
  mc_rate_bmp0 :: "u32 list"
  mc_rate_bmp1 :: "u32 list"
  mc_op_num :: "u8 list"
  mc_sta :: "nat option list"

section \<open>Queries\<close>

definition rtw_macid_is_used :: "macid_ctl \<Rightarrow> nat \<Rightarrow> bool" where
  "rtw_macid_is_used m i = rtw_macid_is_set (mc_used m) i"

definition rtw_macid_is_bmc :: "macid_ctl \<Rightarrow> nat \<Rightarrow> bool" where
  "rtw_macid_is_bmc m i = rtw_macid_is_set (mc_bmc m) i"

definition rtw_macid_get_iface_bmp :: "macid_ctl \<Rightarrow> nat \<Rightarrow> u8" where
  "rtw_macid_get_iface_bmp m mid =
     foldl (\<lambda>bmp i. if rtw_macid_is_set (mc_if_g m ! i) mid then bmp OR 2 ^ i else bmp) 0 [0..<length (mc_if_g m)]"

fun iface_specific_loop :: "macid_ctl \<Rightarrow> nat \<Rightarrow> nat \<Rightarrow> nat list \<Rightarrow> u8 \<Rightarrow> bool" where
  "iface_specific_loop m mid iface_id [] bmp = (bmp \<noteq> 0)"
| "iface_specific_loop m mid iface_id (i # is) bmp =
     (if rtw_macid_is_set (mc_if_g m ! i) mid then
        (if bmp \<noteq> 0 \<or> i \<noteq> iface_id then False else iface_specific_loop m mid iface_id is (bmp OR 2 ^ i))
      else iface_specific_loop m mid iface_id is bmp)"

definition rtw_macid_is_iface_specific :: "macid_ctl \<Rightarrow> nat \<Rightarrow> nat \<Rightarrow> bool" where
  "rtw_macid_is_iface_specific m mid iface_id = iface_specific_loop m mid iface_id [0..<length (mc_if_g m)] 0"

definition rtw_macid_get_ch_g :: "macid_ctl \<Rightarrow> nat \<Rightarrow> int" where
  "rtw_macid_get_ch_g m mid =
     (if rtw_macid_is_set (mc_ch_g m ! 0) mid then 0 else if rtw_macid_is_set (mc_ch_g m ! 1) mid then 1 else -1)"

definition rtw_iface_bcmc_id_set :: "macid_ctl \<Rightarrow> nat \<Rightarrow> nat \<Rightarrow> macid_ctl" where
  "rtw_iface_bcmc_id_set m iface_id mac_id = m\<lparr>mc_iface_bmc := (mc_iface_bmc m)[iface_id := mac_id]\<rparr>"

definition rtw_iface_bcmc_id_get :: "macid_ctl \<Rightarrow> nat \<Rightarrow> nat" where
  "rtw_iface_bcmc_id_get m iface_id = mc_iface_bmc m ! iface_id"

text \<open>\<open>for (i = num - 1; i > 0; i--) if (used(i)) break;\<close>\<close>

primrec max_mac_id_loop :: "macid_ctl \<Rightarrow> nat \<Rightarrow> nat" where
  "max_mac_id_loop m 0 = 0"
| "max_mac_id_loop m (Suc i) = (if rtw_macid_is_used m (Suc i) then Suc i else max_mac_id_loop m i)"

definition rtw_search_max_mac_id :: "macid_ctl \<Rightarrow> nat" where
  "rtw_search_max_mac_id m = max_mac_id_loop m (mc_num m - 1)"

section \<open>Allocation and release\<close>

text \<open>The interface state the allocation reads: its id, its address and whether it is in station or
  null mode (\<open>MLME_IS_STA || MLME_IS_NULL\<close>).\<close>

record mac_iface =
  if_id :: nat
  if_mac :: buf
  if_sta_mode :: bool

definition macid_busy :: "macid_ctl \<Rightarrow> cam_dev \<Rightarrow> bool \<Rightarrow> nat \<Rightarrow> bool" where
  "macid_busy m d is_bc_sta i \<longleftrightarrow> (is_bc_sta \<and> rtw_sec_camid_is_used d i) \<or> rtw_macid_is_used m i"

definition rtw_alloc_macid :: "mac_iface \<Rightarrow> macid_ctl \<Rightarrow> cam_dev \<Rightarrow> buf \<Rightarrow> nat \<Rightarrow> macid_ctl \<times> cam_dev \<times> nat" where
  "rtw_alloc_macid ifc m d mac psta =
     (if mac = if_mac ifc then (m, d, mc_num m)
      else
        let is_bc_sta = (mac = bc_addr);
            m = (if is_bc_sta then rtw_iface_bcmc_id_set m (if_id ifc) INVALID_SEC_MAC_CAM_ID else m) in
        if is_bc_sta \<and> if_sta_mode ifc then (m, d, RTW_DEFAULT_MGMT_MACID)
        else
          let i = first_from (\<lambda>i. \<not> macid_busy m d is_bc_sta i) 0 (mc_num m) in
          if i < mc_num m then
            let m = m\<lparr>mc_used := rtw_macid_map_set (mc_used m) i\<rparr>;
                (m, d) =
                  (if is_bc_sta then
                     let m = rtw_iface_bcmc_id_set (m\<lparr>mc_bmc := rtw_macid_map_set (mc_bmc m) i\<rparr>) (if_id ifc) i;
                         d = camid_map_set d i;
                         d = (if rtw_camctl_chk_cap d SEC_CAP_CHK_EXTRA_SEC then camid_map_set d (i + 1) else d) in
                     (m, d)
                   else (m, d));
                m = m\<lparr>mc_if_g := (mc_if_g m)[if_id ifc := rtw_macid_map_set (mc_if_g m ! if_id ifc) i],
                      mc_sta := (mc_sta m)[i := Some psta]\<rparr> in
            (m, d, i)
          else (m, d, mc_num m))"

definition camid_map_clr :: "cam_dev \<Rightarrow> nat \<Rightarrow> cam_dev" where
  "camid_map_clr d i = d\<lparr>cam_used := rtw_sec_cam_map_clr (cam_used d) i\<rparr>"

text \<open>The station's new \<open>mac_id\<close> is \<open>num\<close> on every path.\<close>

definition rtw_release_macid :: "mac_iface \<Rightarrow> macid_ctl \<Rightarrow> cam_dev \<Rightarrow> buf \<Rightarrow> nat \<Rightarrow> macid_ctl \<times> cam_dev \<times> nat" where
  "rtw_release_macid ifc m d mac mac_id =
     (if mac = if_mac ifc then (m, d, mc_num m)
      else if mac_id \<ge> mc_num m then (m, d, mc_num m)
      else if mac_id = RTW_DEFAULT_MGMT_MACID then (m, d, mc_num m)
      else if \<not> rtw_macid_is_used m mac_id then (m, d, mc_num m)
      else
        let ifbmp = rtw_macid_get_iface_bmp m mac_id in
        if ifbmp AND 2 ^ if_id ifc = 0 then (m, d, mc_num m)
        else
          let (m, d) =
                (if mac = bc_addr then
                   let cid = rtw_iface_bcmc_id_get m (if_id ifc);
                       d = (if cid \<noteq> INVALID_SEC_MAC_CAM_ID \<and> cid < cam_num d then
                              let d = camid_map_clr d cid in
                              (if rtw_camctl_chk_cap d SEC_CAP_CHK_EXTRA_SEC then camid_map_clr d (cid + 1) else d)
                            else d) in
                   (rtw_iface_bcmc_id_set m (if_id ifc) INVALID_SEC_MAC_CAM_ID, d)
                 else (m, d));
              m = m\<lparr>mc_if_g := (mc_if_g m)[if_id ifc := rtw_macid_map_clr (mc_if_g m ! if_id ifc) mac_id]\<rparr>;
              ifbmp = ifbmp AND NOT (2 ^ if_id ifc);
              m = (if ifbmp = 0 then
                     m\<lparr>mc_used := rtw_macid_map_clr (mc_used m) mac_id, mc_bmc := rtw_macid_map_clr (mc_bmc m) mac_id,
                       mc_ch_g := map (\<lambda>g. rtw_macid_map_clr g mac_id) (mc_ch_g m), mc_sta := (mc_sta m)[mac_id := None]\<rparr>
                   else m) in
          (m, d, mc_num m))"

definition rtw_macid_ctl_init :: "macid_ctl \<Rightarrow> macid_ctl" where
  "rtw_macid_ctl_init m =
     (let i = RTW_DEFAULT_MGMT_MACID in
      m\<lparr>mc_used := rtw_macid_map_set (mc_used m) i, mc_bmc := rtw_macid_map_set (mc_bmc m) i,
        mc_if_g := map (\<lambda>g. rtw_macid_map_set g i) (mc_if_g m), mc_sta := (mc_sta m)[i := None]\<rparr>)"

section \<open>Per-id settings\<close>

definition rtw_macid_ctl_set_bw :: "macid_ctl \<Rightarrow> nat \<Rightarrow> u8 \<Rightarrow> macid_ctl" where
  "rtw_macid_ctl_set_bw m i bw = (if i \<ge> mc_num m then m else m\<lparr>mc_bw := (mc_bw m)[i := bw]\<rparr>)"

definition rtw_macid_ctl_set_vht_en :: "macid_ctl \<Rightarrow> nat \<Rightarrow> u8 \<Rightarrow> macid_ctl" where
  "rtw_macid_ctl_set_vht_en m i en = (if i \<ge> mc_num m then m else m\<lparr>mc_vht_en := (mc_vht_en m)[i := en]\<rparr>)"

definition rtw_macid_ctl_set_rate_bmp0 :: "macid_ctl \<Rightarrow> nat \<Rightarrow> u32 \<Rightarrow> macid_ctl" where
  "rtw_macid_ctl_set_rate_bmp0 m i b = (if i \<ge> mc_num m then m else m\<lparr>mc_rate_bmp0 := (mc_rate_bmp0 m)[i := b]\<rparr>)"

definition rtw_macid_ctl_set_rate_bmp1 :: "macid_ctl \<Rightarrow> nat \<Rightarrow> u32 \<Rightarrow> macid_ctl" where
  "rtw_macid_ctl_set_rate_bmp1 m i b = (if i \<ge> mc_num m then m else m\<lparr>mc_rate_bmp1 := (mc_rate_bmp1 m)[i := b]\<rparr>)"

text \<open>\<open>LE_BITS_TO_1BYTE(b, 0, 1)\<close> and \<open>LE_BITS_TO_1BYTE(b, 4, 4)\<close> of the media status report.\<close>

definition GET_H2CCMD_MSRRPT_PARM_OPMODE :: "u8 \<Rightarrow> bool" where
  "GET_H2CCMD_MSRRPT_PARM_OPMODE b = (b AND 1 \<noteq> 0)"

definition GET_H2CCMD_MSRRPT_PARM_ROLE :: "u8 \<Rightarrow> nat" where
  "GET_H2CCMD_MSRRPT_PARM_ROLE b = unat (drop_bit 4 b AND 0xF)"

definition rtw_macid_ctl_set_h2c_msr :: "macid_ctl \<Rightarrow> nat \<Rightarrow> u8 \<Rightarrow> macid_ctl \<times> u8" where
  "rtw_macid_ctl_set_h2c_msr m i h2c_msr =
     (if i \<ge> mc_num m then (m, 0)
      else
        let old = mc_h2c_msr m ! i;
            (m, change) =
              (if GET_H2CCMD_MSRRPT_PARM_OPMODE old \<and> \<not> GET_H2CCMD_MSRRPT_PARM_OPMODE h2c_msr then
                 let role = GET_H2CCMD_MSRRPT_PARM_ROLE old in
                 if role < H2C_MSR_ROLE_MAX
                 then (m\<lparr>mc_op_num := (mc_op_num m)[role := mc_op_num m ! role - 1]\<rparr>, 2 ^ role) else (m, 0)
               else if \<not> GET_H2CCMD_MSRRPT_PARM_OPMODE old \<and> GET_H2CCMD_MSRRPT_PARM_OPMODE h2c_msr then
                 let role = GET_H2CCMD_MSRRPT_PARM_ROLE h2c_msr in
                 if role < H2C_MSR_ROLE_MAX
                 then (m\<lparr>mc_op_num := (mc_op_num m)[role := mc_op_num m ! role + 1]\<rparr>, 2 ^ role) else (m, 0)
               else (m, 0)) in
        (m\<lparr>mc_h2c_msr := (mc_h2c_msr m)[i := h2c_msr]\<rparr>, change))"

section \<open>Releasing restores the maps\<close>

lemma map_clr_set: "\<not> rtw_macid_is_set m0 i \<Longrightarrow> i < 32 \<Longrightarrow> rtw_macid_map_clr (rtw_macid_map_set m0 i) i = m0"
  by (rule bit_word_eqI)
    (auto simp: rtw_macid_is_set_def rtw_macid_map_set_def rtw_macid_map_clr_def and_exp_eq_0_iff_not_bit word_map_laws)

lemma map_clr_idle: "\<not> rtw_macid_is_set m0 i \<Longrightarrow> rtw_macid_map_clr m0 i = m0"
  by (rule bit_word_eqI)
    (auto simp: rtw_macid_is_set_def rtw_macid_map_clr_def and_exp_eq_0_iff_not_bit word_map_laws split: if_splits)

lemma sec_map_clr_set: "\<not> rtw_sec_camid_is_set m0 i \<Longrightarrow> i < 32 \<Longrightarrow> rtw_sec_cam_map_clr (rtw_sec_cam_map_set m0 i) i = m0"
  by (rule bit_word_eqI)
    (auto simp: rtw_sec_camid_is_set_def rtw_sec_cam_map_set_def rtw_sec_cam_map_clr_def and_exp_eq_0_iff_not_bit word_map_laws)

lemma sec_map_clr_set2: "\<not> rtw_sec_camid_is_set m0 i \<Longrightarrow> i < 32 \<Longrightarrow>
    rtw_sec_cam_map_clr (rtw_sec_cam_map_clr (rtw_sec_cam_map_set (rtw_sec_cam_map_set m0 i) j) i) j = rtw_sec_cam_map_clr m0 j"
  by (rule bit_word_eqI)
    (auto simp: rtw_sec_camid_is_set_def rtw_sec_cam_map_set_def rtw_sec_cam_map_clr_def and_exp_eq_0_iff_not_bit word_map_laws bit_simps)

definition macid_ok :: "macid_ctl \<Rightarrow> bool" where
  "macid_ok m \<longleftrightarrow> mc_num m \<le> 32 \<and> length (mc_sta m) = 32 \<and> length (mc_if_g m) \<le> 8
     \<and> length (mc_iface_bmc m) = length (mc_if_g m) \<and> rtw_macid_is_used m RTW_DEFAULT_MGMT_MACID
     \<and> (\<forall>i<32. \<not> rtw_macid_is_used m i \<longrightarrow> mc_sta m ! i = None \<and> \<not> rtw_macid_is_bmc m i
         \<and> (\<forall>g\<in>set (mc_if_g m) \<union> set (mc_ch_g m). \<not> rtw_macid_is_set g i))"

lemma bit_iface_bmp:
  assumes "length (mc_if_g m) \<le> 8"
  shows "bit (rtw_macid_get_iface_bmp m mid) k \<longleftrightarrow> k < length (mc_if_g m) \<and> rtw_macid_is_set (mc_if_g m ! k) mid"
proof -
  let ?step = "\<lambda>(bmp :: u8) i. if rtw_macid_is_set (mc_if_g m ! i) mid then bmp OR 2 ^ i else bmp"
  have "bit (foldl ?step 0 [0..<n]) k \<longleftrightarrow> k < n \<and> rtw_macid_is_set (mc_if_g m ! k) mid" if "n \<le> 8" for n
    using that by (induction n) (auto simp: bit_or_iff bit_exp_iff less_Suc_eq)
  then show ?thesis using assms by (simp add: rtw_macid_get_iface_bmp_def)
qed

lemma map_idle: "\<forall>g\<in>set gs. \<not> rtw_macid_is_set g i \<Longrightarrow> map (\<lambda>g. rtw_macid_map_clr g i) gs = gs"
  by (induction gs) (simp_all add: map_clr_idle)

lemma macid_busy_bmc [simp]: "macid_busy (m\<lparr>mc_iface_bmc := x\<rparr>) d b = macid_busy m d b"
  by (intro ext) (simp add: macid_busy_def rtw_macid_is_used_def)

text \<open>The id an allocation finds is free in every map.\<close>

lemma free_id:
  assumes "macid_ok m"
    and "i = first_from (\<lambda>i. \<not> macid_busy m d bc i) 0 (mc_num m)" and "i < mc_num m"
  shows "i < 32" and "\<not> rtw_macid_is_set (mc_used m) i" and "\<not> rtw_macid_is_set (mc_bmc m) i"
    and "\<forall>g\<in>set (mc_if_g m) \<union> set (mc_ch_g m). \<not> rtw_macid_is_set g i" and "mc_sta m ! i = None"
    and "i \<noteq> RTW_DEFAULT_MGMT_MACID" and "bc \<Longrightarrow> \<not> rtw_sec_camid_is_used d i"
proof -
  show lt: "i < 32" using assms(1,3) by (simp add: macid_ok_def)
  have "\<not> macid_busy m d bc i" using first_from_spec(3) [of 0 "mc_num m"] assms(2,3) by blast
  then show "\<not> rtw_macid_is_set (mc_used m) i" "bc \<Longrightarrow> \<not> rtw_sec_camid_is_used d i"
    by (auto simp: macid_busy_def rtw_macid_is_used_def)
  then show "\<not> rtw_macid_is_set (mc_bmc m) i" "mc_sta m ! i = None" "i \<noteq> RTW_DEFAULT_MGMT_MACID"
    "\<forall>g\<in>set (mc_if_g m) \<union> set (mc_ch_g m). \<not> rtw_macid_is_set g i"
    using assms(1) lt by (auto simp: macid_ok_def rtw_macid_is_used_def rtw_macid_is_bmc_def)
qed

text \<open>After the allocation of \<open>i\<close> only the own interface uses it.\<close>

lemma own_iface_bmp:
  assumes "length (mc_if_g m) \<le> 8" and "k < length (mc_if_g m)" and "i < 32"
    and "\<forall>g\<in>set (mc_if_g m). \<not> rtw_macid_is_set g i"
    and "mc_if_g m' = (mc_if_g m)[k := rtw_macid_map_set (mc_if_g m ! k) i]"
  shows "rtw_macid_get_iface_bmp m' i = 2 ^ k"
proof (rule bit_word_eqI)
  fix n
  assume "n < LENGTH(8)"
  show "bit (rtw_macid_get_iface_bmp m' i) n \<longleftrightarrow> bit (2 ^ k :: u8) n"
    using assms bit_iface_bmp [of m' i n] nth_mem [of n "mc_if_g m"]
    by (cases "n = k") (auto simp: macid.set_set bit_exp_iff nth_list_update)
qed

text \<open>The state after a station, or the broadcast station of an access point, has taken id \<open>i\<close>.\<close>

definition macid_taken :: "macid_ctl \<Rightarrow> nat \<Rightarrow> nat \<Rightarrow> nat \<Rightarrow> macid_ctl" where
  "macid_taken m k i psta = m\<lparr>mc_used := rtw_macid_map_set (mc_used m) i,
     mc_if_g := (mc_if_g m)[k := rtw_macid_map_set (mc_if_g m ! k) i], mc_sta := (mc_sta m)[i := Some psta]\<rparr>"

lemma taken_simps [simp]: "mc_num (macid_taken m k i psta) = mc_num m" "mc_ch_g (macid_taken m k i psta) = mc_ch_g m"
  "mc_bmc (macid_taken m k i psta) = mc_bmc m" "mc_iface_bmc (macid_taken m k i psta) = mc_iface_bmc m"
  by (simp_all add: macid_taken_def)

lemma taken_used: "i < 32 \<Longrightarrow> rtw_macid_is_used (macid_taken m k i psta) i"
  by (simp add: rtw_macid_is_used_def macid_taken_def macid.set_set)

lemma taken_bmp:
  assumes "macid_ok m" and "i = first_from (\<lambda>i. \<not> macid_busy m d bc i) 0 (mc_num m)" and "i < mc_num m"
    and "k < length (mc_if_g m)" and "mc_if_g m' = mc_if_g (macid_taken m k i psta)"
  shows "rtw_macid_get_iface_bmp m' i = 2 ^ k"
proof (rule own_iface_bmp [OF _ assms(4)])
  show "mc_if_g m' = (mc_if_g m)[k := rtw_macid_map_set (mc_if_g m ! k) i]" using assms(5) by (simp add: macid_taken_def)
qed (use free_id [OF assms(1-3)] assms(1) in \<open>auto simp: macid_ok_def\<close>)

text \<open>What the release does to the maps.\<close>

lemma untake:
  assumes "macid_ok m" and "i = first_from (\<lambda>i. \<not> macid_busy m d bc i) 0 (mc_num m)" and "i < mc_num m"
    and "k < length (mc_if_g m)"
  shows "(mc_if_g (macid_taken m k i psta))[k := rtw_macid_map_clr (mc_if_g (macid_taken m k i psta) ! k) i] = mc_if_g m"
    and "rtw_macid_map_clr (mc_used (macid_taken m k i psta)) i = mc_used m"
    and "map (\<lambda>g. rtw_macid_map_clr g i) (mc_ch_g m) = mc_ch_g m"
    and "(mc_sta (macid_taken m k i psta))[i := None] = mc_sta m"
proof -
  note f = free_id [OF assms(1-3)]
  have g: "\<not> rtw_macid_is_set (mc_if_g m ! k) i" using f(4) assms(4) by (meson UnI1 nth_mem)
  have "(mc_sta m)[i := None] = mc_sta m" using f(5) by (metis list_update_id)
  then show "(mc_sta (macid_taken m k i psta))[i := None] = mc_sta m" by (simp add: macid_taken_def)
  show "map (\<lambda>g. rtw_macid_map_clr g i) (mc_ch_g m) = mc_ch_g m" using map_idle [of "mc_ch_g m" i] f(4) by simp
  show "(mc_if_g (macid_taken m k i psta))[k := rtw_macid_map_clr (mc_if_g (macid_taken m k i psta) ! k) i] = mc_if_g m"
    using map_clr_set [OF g f(1)] assms(4) by (simp add: macid_taken_def)
  show "rtw_macid_map_clr (mc_used (macid_taken m k i psta)) i = mc_used m"
    using map_clr_set [OF f(2) f(1)] by (simp add: macid_taken_def)
qed

text \<open>A station that takes an id of its own.\<close>

lemma fresh_macid_alloc_release:
  assumes "macid_ok m" and "if_id ifc < length (mc_if_g m)" and "mac \<noteq> if_mac ifc" and "mac = bc_addr \<longrightarrow> \<not> if_sta_mode ifc"
    and "mac = bc_addr \<longrightarrow> mc_num m \<le> cam_num d \<and> cam_num d < INVALID_SEC_MAC_CAM_ID"
  defines "m0 \<equiv> if mac = bc_addr then rtw_iface_bcmc_id_set m (if_id ifc) INVALID_SEC_MAC_CAM_ID else m"
  shows "case rtw_alloc_macid ifc m d mac psta of (m', d', i) \<Rightarrow>
      if i = mc_num m then m' = m0 \<and> d' = d \<and> (\<forall>j<mc_num m. macid_busy m d (mac = bc_addr) j)
      else i < mc_num m \<and> \<not> rtw_macid_is_used m i \<and> rtw_macid_is_used m' i \<and> mc_sta m' ! i = Some psta
        \<and> i \<noteq> RTW_DEFAULT_MGMT_MACID \<and> rtw_release_macid ifc m' d' mac i =
            (m0, if mac = bc_addr \<and> rtw_camctl_chk_cap d SEC_CAP_CHK_EXTRA_SEC then camid_map_clr d (i + 1) else d, mc_num m)"
proof -
  let ?bc = "mac = bc_addr"
  let ?i = "first_from (\<lambda>i. \<not> macid_busy m d ?bc i) 0 (mc_num m)"
  have busy: "macid_busy m0 d b = macid_busy m d b" for b
    by (intro ext) (simp add: m0_def macid_busy_def rtw_macid_is_used_def rtw_iface_bcmc_id_set_def)
  have num: "mc_num m0 = mc_num m" by (simp add: m0_def rtw_iface_bcmc_id_set_def)
  show ?thesis
  proof (cases "?i < mc_num m")
    case False
    then have "?i = mc_num m" using first_from_spec(2) [of 0 "mc_num m"] by (metis le0 le_neq_implies_less)
    then show ?thesis
      using assms(3,4) first_from_full [of 0 "mc_num m" "\<lambda>i. \<not> macid_busy m d ?bc i"]
      by (auto simp: rtw_alloc_macid_def Let_def busy num m0_def [symmetric])
  next
    case True
    obtain i where i: "i = ?i" by simp
    let ?k = "if_id ifc" and ?m = "macid_taken m (if_id ifc) i psta"
    have lt: "i < mc_num m" using True i by simp
    note f = free_id [OF assms(1) i lt] and bmp = taken_bmp [OF assms(1) i lt assms(2)] and un = untake [OF assms(1) i lt assms(2)]
    have lens: "?k < length (mc_iface_bmc m)" "?k < 8" "length (mc_sta m) = 32"
      using assms(1,2) by (auto simp: macid_ok_def)
    have pow: "(2 :: u8) ^ ?k \<noteq> 0" using lens(2) by (simp add: exp_eq_zero_iff)
    show ?thesis
    proof (cases ?bc)
      case False
      have alloc: "rtw_alloc_macid ifc m d mac psta = (?m, d, i)"
        using assms(3) False lt i by (simp add: rtw_alloc_macid_def Let_def macid_taken_def)
      have "rtw_release_macid ifc ?m d mac i = (m, d, mc_num m)"
        using assms(3) False lt f(6) taken_used [OF f(1)] bmp [OF refl] pow map_clr_idle [OF f(3)] un
        by (simp add: rtw_release_macid_def Let_def) (simp add: macid_taken_def)
      then show ?thesis
        using alloc taken_used [OF f(1)] f lens lt False by (simp add: m0_def rtw_macid_is_used_def) (simp add: macid_taken_def)
    next
      case bc: True
      let ?b = "?m\<lparr>mc_bmc := rtw_macid_map_set (mc_bmc m) i, mc_iface_bmc := (mc_iface_bmc m)[?k := i]\<rparr>"
      let ?x = "rtw_camctl_chk_cap d SEC_CAP_CHK_EXTRA_SEC"
      let ?d = "if ?x then camid_map_set (camid_map_set d i) (i + 1) else camid_map_set d i"
      have cam: "i < cam_num d" "i \<noteq> INVALID_SEC_MAC_CAM_ID" "cam_num ?d = cam_num d"
        using assms(5) bc lt by (auto simp: camid_map_set_def)
      have cap: "rtw_camctl_chk_cap (camid_map_set d j) = rtw_camctl_chk_cap d" "rtw_camctl_chk_cap (camid_map_clr d j) = rtw_camctl_chk_cap d" for d j
        by (auto simp: rtw_camctl_chk_cap_def camid_map_set_def camid_map_clr_def)
      have idle: "\<not> rtw_sec_camid_is_set (cam_used d) i" using f(7) cam(1) bc by (simp add: is_used_iff)
      have clr: "camid_map_clr (camid_map_set d i) i = d"
        "camid_map_clr (camid_map_clr (camid_map_set (camid_map_set d i) (i + 1)) i) (i + 1) = camid_map_clr d (i + 1)"
        using sec_map_clr_set [OF idle f(1)] sec_map_clr_set2 [OF idle f(1)] by (simp_all add: camid_map_clr_def camid_map_set_def)
      have alloc: "rtw_alloc_macid ifc m d mac psta = (?b, ?d, i)"
        using assms(3,4) bc lt i
        by (simp add: rtw_alloc_macid_def Let_def macid_taken_def rtw_iface_bcmc_id_set_def cap)
      have used: "rtw_macid_is_used ?b i" using taken_used [OF f(1)] by (simp add: rtw_macid_is_used_def)
      have "rtw_release_macid ifc ?b ?d mac i = (m0, if ?x then camid_map_clr d (i + 1) else d, mc_num m)"
        using assms(3,4) bc lt f(6) used bmp [of ?b] pow map_clr_set [OF f(3,1)] un lens cam clr
        by (simp add: cap rtw_release_macid_def Let_def rtw_iface_bcmc_id_get_def rtw_iface_bcmc_id_set_def m0_def)
          (simp add: macid_taken_def)
      then show ?thesis
        using alloc used f lens lt bc by (simp add: rtw_macid_is_used_def) (simp add: macid_taken_def)
    qed
  qed
qed

text \<open>C32: What an allocation of a MAC id takes and what its release gives back, for every kind of station. The
  own address gets no id. The broadcast station of an interface in station mode shares the management id, and
  nothing is marked. Any other station gets an id that is free in every map and is not the shared one, or
  \<open>num\<close> without any mark when all ids are busy; the release
  restores every map, for the broadcast station of an access point the CAM map too. Only on a chip with 256-bit keys
  (\<open>SEC_CAP_CHK_EXTRA_SEC\<close>) the CAM entry behind that of the broadcast station, which the allocation marks without a
  test, is free afterwards even when it was in use before.\<close>

theorem macid_alloc_release:
  assumes "macid_ok m" and "if_id ifc < length (mc_if_g m)"
    and "mac = bc_addr \<longrightarrow> mc_num m \<le> cam_num d \<and> cam_num d < INVALID_SEC_MAC_CAM_ID"
  defines "m0 \<equiv> if mac = bc_addr then rtw_iface_bcmc_id_set m (if_id ifc) INVALID_SEC_MAC_CAM_ID else m"
  shows "case rtw_alloc_macid ifc m d mac psta of (m', d', i) \<Rightarrow>
      if mac = if_mac ifc then (m', d', i) = (m, d, mc_num m)
      else if mac = bc_addr \<and> if_sta_mode ifc then
        (m', d', i) = (m0, d, RTW_DEFAULT_MGMT_MACID) \<and> rtw_release_macid ifc m' d' mac i = (m0, d, mc_num m)
      else if i = mc_num m then m' = m0 \<and> d' = d \<and> (\<forall>j<mc_num m. macid_busy m d (mac = bc_addr) j)
      else i < mc_num m \<and> \<not> rtw_macid_is_used m i \<and> rtw_macid_is_used m' i \<and> mc_sta m' ! i = Some psta
        \<and> i \<noteq> RTW_DEFAULT_MGMT_MACID \<and> rtw_release_macid ifc m' d' mac i =
            (m0, if mac = bc_addr \<and> rtw_camctl_chk_cap d SEC_CAP_CHK_EXTRA_SEC then camid_map_clr d (i + 1) else d, mc_num m)"
proof -
  consider (own) "mac = if_mac ifc" | (shared) "mac \<noteq> if_mac ifc" "mac = bc_addr" "if_sta_mode ifc"
    | (fresh) "mac \<noteq> if_mac ifc" "mac = bc_addr \<longrightarrow> \<not> if_sta_mode ifc" by blast
  then show ?thesis
  proof cases
    case own
    then show ?thesis by (simp add: rtw_alloc_macid_def)
  next
    case shared
    then show ?thesis by (auto simp: rtw_alloc_macid_def rtw_release_macid_def m0_def rtw_iface_bcmc_id_set_def)
  next
    case fresh
    obtain m' d' i where a: "rtw_alloc_macid ifc m d mac psta = (m', d', i)" by (rule prod_cases3)
    from fresh_macid_alloc_release [OF assms(1,2) fresh assms(3), of psta, folded m0_def, unfolded a] fresh show ?thesis
      unfolding a by auto
  qed
qed

definition macid_ctl0 :: macid_ctl where
  "macid_ctl0 = rtw_macid_ctl_init \<lparr>mc_num = 16, mc_used = 0, mc_bmc = 0, mc_if_g = [0], mc_ch_g = [0, 0],
     mc_iface_bmc = [0xFF], mc_h2c_msr = replicate 32 0, mc_bw = replicate 32 0, mc_vht_en = replicate 32 0,
     mc_rate_bmp0 = replicate 32 0, mc_rate_bmp1 = replicate 32 0, mc_op_num = replicate 8 0, mc_sta = replicate 32 None\<rparr>"

lemma macid_ctl0_ok: "macid_ok macid_ctl0"
proof -
  have "rtw_macid_is_set 2 i \<longleftrightarrow> i = 1" if "i < 32" for i
    using that bit_exp_iff [of 1 i, where 'a = u32] by (simp add: rtw_macid_is_set_def and_exp_iff)
  then show ?thesis
    by (auto simp: macid_ok_def macid_ctl0_def rtw_macid_ctl_init_def rtw_macid_is_used_def rtw_macid_is_bmc_def
        RTW_DEFAULT_MGMT_MACID_def rtw_macid_map_set_def rtw_macid_is_set_def nth_list_update)
qed

definition ifc0 :: mac_iface where
  "ifc0 = \<lparr>if_id = 0, if_mac = [2, 0, 0, 0, 0, 1], if_sta_mode = False\<rparr>"

text \<open>The broadcast station of an access point; CAM entries 0 and 2 are in use, MAC id 1 is the shared one.\<close>

definition cam_dev32 :: cam_dev where
  "cam_dev32 = cam_dev0\<lparr>cam_num := 32\<rparr>"

theorem macid_alloc_release_witness:
  "case rtw_alloc_macid ifc0 macid_ctl0 cam_dev32 bc_addr 3 of (m', d', i) \<Rightarrow>
      i = 3 \<and> rtw_macid_is_used m' i \<and> mc_sta m' ! i = Some 3
        \<and> rtw_release_macid ifc0 m' d' bc_addr i = (rtw_iface_bcmc_id_set macid_ctl0 0 INVALID_SEC_MAC_CAM_ID, cam_dev32, 16)"
proof -
  have conds: "if_id ifc0 < length (mc_if_g macid_ctl0)" "bc_addr = bc_addr \<longrightarrow> mc_num macid_ctl0 \<le> cam_num cam_dev32 \<and> cam_num cam_dev32 < INVALID_SEC_MAC_CAM_ID"
    by (simp_all add: ifc0_def macid_ctl0_def rtw_macid_ctl_init_def cam_dev32_def INVALID_SEC_MAC_CAM_ID_def)
  have at: "bc_addr \<noteq> if_mac ifc0" "\<not> if_sta_mode ifc0" "mc_num macid_ctl0 = 16" "if_id ifc0 = 0" "\<not> rtw_camctl_chk_cap cam_dev32 SEC_CAP_CHK_EXTRA_SEC"
    by (simp_all add: ifc0_def bc_addr_def macid_ctl0_def rtw_macid_ctl_init_def rtw_camctl_chk_cap_def cam_dev32_def cam_dev0_def)
  obtain m' d' i where a: "rtw_alloc_macid ifc0 macid_ctl0 cam_dev32 bc_addr 3 = (m', d', i)" by (rule prod_cases3)
  have "snd (snd (rtw_alloc_macid ifc0 macid_ctl0 cam_dev32 bc_addr 3)) = 3" by code_simp
  then have "i = 3" using a by simp
  then show ?thesis
    using macid_alloc_release [OF macid_ctl0_ok conds, of 3, unfolded a] at unfolding a by simp
qed

section \<open>Connected stations per role\<close>

definition msr_connected :: "macid_ctl \<Rightarrow> nat \<Rightarrow> nat set" where
  "msr_connected m role = {i. i < mc_num m \<and> GET_H2CCMD_MSRRPT_PARM_OPMODE (mc_h2c_msr m ! i)
     \<and> GET_H2CCMD_MSRRPT_PARM_ROLE (mc_h2c_msr m ! i) = role}"

definition op_num_ok :: "macid_ctl \<Rightarrow> bool" where
  "op_num_ok m \<longleftrightarrow> mc_num m \<le> 32 \<and> length (mc_h2c_msr m) = 32 \<and> length (mc_op_num m) = 8
     \<and> (\<forall>role<8. mc_op_num m ! role = word_of_nat (card (msr_connected m role)))"

lemma finite_msr_connected [simp]: "finite (msr_connected m role)"
  by (rule finite_subset [of _ "{..<mc_num m}"]) (auto simp: msr_connected_def)

lemma msr_connected_update:
  assumes "i < mc_num m" and "i < length (mc_h2c_msr m)" and "mc_num m' = mc_num m"
    and "mc_h2c_msr m' = (mc_h2c_msr m)[i := v]"
  shows "msr_connected m' role = (if GET_H2CCMD_MSRRPT_PARM_OPMODE v \<and> GET_H2CCMD_MSRRPT_PARM_ROLE v = role
      then insert i (msr_connected m role) else msr_connected m role - {i})"
  using assms by (auto simp: msr_connected_def nth_list_update)

text \<open>\<open>rtw_macid_ctl_set_h2c_msr\<close> keeps \<open>op_num\<close> equal to the number of MAC ids that are connected in
  each role, as long as a connected id does not change its role without disconnecting first.\<close>

theorem set_h2c_msr_counts:
  assumes "op_num_ok m"
    and "\<not> (i < mc_num m \<and> GET_H2CCMD_MSRRPT_PARM_OPMODE (mc_h2c_msr m ! i) \<and> GET_H2CCMD_MSRRPT_PARM_OPMODE v
      \<and> GET_H2CCMD_MSRRPT_PARM_ROLE (mc_h2c_msr m ! i) \<noteq> GET_H2CCMD_MSRRPT_PARM_ROLE v)"
  shows "op_num_ok (fst (rtw_macid_ctl_set_h2c_msr m i v))"
proof (cases "i < mc_num m")
  case True
  let ?old = "mc_h2c_msr m ! i" and ?m = "fst (rtw_macid_ctl_set_h2c_msr m i v)"
  have len: "i < length (mc_h2c_msr m)" "length (mc_op_num m) = 8" using assms(1) True by (auto simp: op_num_ok_def)
  have m: "mc_num ?m = mc_num m" "mc_h2c_msr ?m = (mc_h2c_msr m)[i := v]" "length (mc_op_num ?m) = 8"
    using True len by (simp_all add: rtw_macid_ctl_set_h2c_msr_def Let_def)
  note upd = msr_connected_update [OF True len(1) m(1,2)]
  have iin: "i \<in> msr_connected m role \<longleftrightarrow> GET_H2CCMD_MSRRPT_PARM_OPMODE ?old \<and> GET_H2CCMD_MSRRPT_PARM_ROLE ?old = role" for role
    using True by (auto simp: msr_connected_def)
  have op: "mc_op_num m ! role = word_of_nat (card (msr_connected m role))" if "role < 8" for role
    using assms(1) that by (simp add: op_num_ok_def)
  have "mc_op_num ?m ! role = word_of_nat (card (msr_connected ?m role))" if r: "role < 8" for role
  proof -
    have pos: "0 < card (msr_connected m role)" if "i \<in> msr_connected m role" using that by (auto simp: card_gt_0_iff)
    show ?thesis
      using True len r op [OF r] iin [of role] pos assms(2) unfolding upd
      by (auto simp: rtw_macid_ctl_set_h2c_msr_def Let_def nth_list_update H2C_MSR_ROLE_MAX_def card_insert_if insert_absorb
          of_nat_diff Suc_leI)
  qed
  then show ?thesis using assms(1) m by (simp add: op_num_ok_def)
qed (use assms(1) in \<open>simp add: rtw_macid_ctl_set_h2c_msr_def\<close>)

theorem set_h2c_msr_counts_witness: "op_num_ok (fst (rtw_macid_ctl_set_h2c_msr macid_ctl0 5 0x11))"
proof (rule set_h2c_msr_counts)
  have "msr_connected macid_ctl0 role = {}" for role
    by (auto simp: msr_connected_def macid_ctl0_def rtw_macid_ctl_init_def GET_H2CCMD_MSRRPT_PARM_OPMODE_def)
  then show "op_num_ok macid_ctl0" by (simp add: op_num_ok_def) (simp add: macid_ctl0_def rtw_macid_ctl_init_def)
qed (simp add: macid_ctl0_def rtw_macid_ctl_init_def GET_H2CCMD_MSRRPT_PARM_OPMODE_def)

text \<open>The exception is real: a connected id that goes from role 1 to role 2 is still counted for role 1.\<close>

definition macid_ctl1 :: macid_ctl where
  "macid_ctl1 = fst (rtw_macid_ctl_set_h2c_msr macid_ctl0 5 0x11)"

lemma role_change_not_counted:
  "mc_op_num (fst (rtw_macid_ctl_set_h2c_msr macid_ctl1 5 0x21)) ! 1 = 1
   \<and> msr_connected (fst (rtw_macid_ctl_set_h2c_msr macid_ctl1 5 0x21)) 1 = {}"
  by (auto simp: macid_ctl1_def macid_ctl0_def rtw_macid_ctl_init_def rtw_macid_ctl_set_h2c_msr_def msr_connected_def
      GET_H2CCMD_MSRRPT_PARM_OPMODE_def GET_H2CCMD_MSRRPT_PARM_ROLE_def H2C_MSR_ROLE_MAX_def nth_list_update split: if_splits)

end
