(* ===== verification/Sta_Table.thy ===== *)
theory Sta_Table
  imports Macid Tim Recv_Reorder Recv_Decache
begin

text \<open>
  The station table of \<open>core/rtw_sta_mgt.c\<close>: 32 station objects, a queue of the free ones, 32 hash
  lists of the ones in use and the table of association ids. Allocating a station also takes a MAC
  id and resets its receive state (\<open>Recv_Decache\<close>, \<open>Recv_Reorder\<close>); freeing it returns the frames it
  holds, its MAC id, its association id and its bits in the traffic indication map. The lemmas show
  that the hash lists implement a list of stations in order of allocation.
\<close>

section \<open>State\<close>

definition NUM_STA :: nat where "NUM_STA = 32"
definition WIFI_ASOC_STATE :: u32 where "WIFI_ASOC_STATE = 1"

text \<open>Transmit frames are named by numbers. \<open>sta_servq\<close> has the pending frames and \<open>qcnt\<close> of the voice,
  video, best effort, background and management queue.\<close>

record sta_info =
  sta_mac :: buf
  sta_mac_id :: nat
  sta_aid_no :: nat
  sta_state :: u32
  sta_recv :: sta_recv_priv
  sta_reorder :: "recv_reorder_ctrl list"
  sta_defrag_q :: "recv_frame list"
  sta_tx_queue :: "nat list"
  sta_sleep_q :: "nat list"
  sta_sleepq_len :: nat
  sta_mgmt_sleep_q :: "nat list"
  sta_mgmt_sleepq_len :: nat
  sta_servq :: "(nat list \<times> int) list"
  sta_auth_linked :: bool
  sta_expire_to :: nat
  sta_sleepq_ac_len :: nat
  sta_qos_info :: u8
  sta_max_sp_len :: u8
  sta_uapsd :: "u8 list"
  sta_has_legacy_ac :: u8
  sta_RxMgmtFrameSeqNum :: u16
  sta_rssi :: int

record sta_priv =
  sp_sta :: "sta_info list"
  sp_free_q :: "nat list"
  sp_hash :: "nat list list"
  sp_asoc_sta_count :: int
  sp_sta_aid :: "nat option list"
  sp_max_aid :: nat
  sp_rr_aid :: bool
  sp_started_aid :: nat
  sp_max_num_sta :: nat
  sp_tim_bitmap :: buf
  sp_dz_bitmap :: buf
  sp_auth_list_cnt :: int
  sp_accnt :: "int list"
  sp_free_recv :: "recv_frame list"
  sp_freed_tx :: "nat list"
  sp_macid :: macid_ctl
  sp_cam :: cam_dev
  sp_iface :: mac_iface
  sp_hw_ap :: bool

section \<open>Operations\<close>

definition wifi_mac_hash :: "buf \<Rightarrow> nat" where
  "wifi_mac_hash mac =
     (let x = foldl (\<lambda>x b. push_bit 2 x XOR ucast b) 0 (take 6 mac) :: u32;
          x = x XOR drop_bit 8 x in
      unat (x AND word_of_nat (NUM_STA - 1)))"

text \<open>\<open>IS_MCAST\<close> on an address that is present.\<close>

definition is_mcast_addr :: "buf \<Rightarrow> bool" where
  "is_mcast_addr da \<longleftrightarrow> da ! 0 AND 0x01 \<noteq> 0"

text \<open>\<open>_rtw_init_stainfo\<close>: everything zero, every queue empty.\<close>

definition sta_recv_zero :: sta_recv_priv where
  "sta_recv_zero = \<lparr>tid_rxseq = replicate 16 0, rxcache_iv = replicate 16 (replicate 8 0), last_tid = 0,
     bmc_tid_rxseq = replicate 16 0, nonqos_rxseq = 0, nonqos_bmc_rxseq = 0, duplicate_cnt = 0\<rparr>"

definition reorder_zero :: recv_reorder_ctrl where
  "reorder_zero = \<lparr>enable = False, indicate_seq = 0, wsize_b = 0, pending_recvframe_queue = [],
     reordering_ctrl_timer = False, bReorderWaiting = False, rec_abba_rsp_ack = False\<rparr>"

definition rtw_init_stainfo :: sta_info where
  "rtw_init_stainfo = \<lparr>sta_mac = replicate 6 0, sta_mac_id = 0, sta_aid_no = 0, sta_state = 0, sta_recv = sta_recv_zero,
     sta_reorder = replicate 16 reorder_zero, sta_defrag_q = [], sta_tx_queue = [], sta_sleep_q = [], sta_sleepq_len = 0,
     sta_mgmt_sleep_q = [], sta_mgmt_sleepq_len = 0, sta_servq = replicate 5 ([], 0), sta_auth_linked = False,
     sta_expire_to = 0, sta_sleepq_ac_len = 0, sta_qos_info = 0, sta_max_sp_len = 0, sta_uapsd = replicate 4 0,
     sta_has_legacy_ac = 0, sta_RxMgmtFrameSeqNum = 0, sta_rssi = 0\<rparr>"

definition rtw_init_sta_priv :: "sta_priv \<Rightarrow> sta_priv" where
  "rtw_init_sta_priv sp =
     (let bmp_len = (mc_num (sp_macid sp) + 1) div 8 + (if (mc_num (sp_macid sp) + 1) mod 8 \<noteq> 0 then 1 else 0) in
      sp\<lparr>sp_sta := replicate NUM_STA rtw_init_stainfo, sp_free_q := [0..<NUM_STA], sp_hash := replicate NUM_STA [],
         sp_asoc_sta_count := 0, sp_max_aid := mc_num (sp_macid sp), sp_rr_aid := False, sp_started_aid := 1,
         sp_sta_aid := replicate (mc_num (sp_macid sp)) None, sp_dz_bitmap := replicate bmp_len 0,
         sp_tim_bitmap := replicate bmp_len 0, sp_auth_list_cnt := 0, sp_max_num_sta := NUM_STA\<rparr>)"

text \<open>The receive state a new station starts with.\<close>

definition sta_recv_start :: "sta_recv_priv \<Rightarrow> sta_recv_priv" where
  "sta_recv_start r = r\<lparr>tid_rxseq := replicate 16 0xffff, bmc_tid_rxseq := replicate 16 0xffff,
     rxcache_iv := replicate 16 (replicate 8 0), nonqos_bmc_rxseq := 0xffff, nonqos_rxseq := 0xffff, duplicate_cnt := 0\<rparr>"

definition reorder_start :: "recv_reorder_ctrl \<Rightarrow> recv_reorder_ctrl" where
  "reorder_start c = c\<lparr>enable := False, indicate_seq := 0xffff, wsize_b := 64, pending_recvframe_queue := [],
     reordering_ctrl_timer := False, rec_abba_rsp_ack := False\<rparr>"

definition rtw_alloc_stainfo :: "sta_priv \<Rightarrow> buf \<Rightarrow> sta_priv \<times> nat option" where
  "rtw_alloc_stainfo sp hwaddr =
     (case sp_free_q sp of
        [] \<Rightarrow> (sp, None)
      | psta # rest \<Rightarrow>
          let sp = sp\<lparr>sp_free_q := rest\<rparr>;
              s = rtw_init_stainfo\<lparr>sta_mac := hwaddr\<rparr>;
              index = wifi_mac_hash hwaddr in
          if index \<ge> NUM_STA then (sp\<lparr>sp_sta := (sp_sta sp)[psta := s]\<rparr>, None)
          else
            let s = s\<lparr>sta_recv := sta_recv_start (sta_recv s), sta_reorder := map reorder_start (sta_reorder s),
                      sta_rssi := -1, sta_RxMgmtFrameSeqNum := 0xffff\<rparr>;
                (m, d, mac_id) = rtw_alloc_macid (sp_iface sp) (sp_macid sp) (sp_cam sp) hwaddr psta;
                s = s\<lparr>sta_mac_id := mac_id, sta_tx_queue := []\<rparr> in
            (sp\<lparr>sp_sta := (sp_sta sp)[psta := s], sp_hash := (sp_hash sp)[index := sp_hash sp ! index @ [psta]],
               sp_asoc_sta_count := sp_asoc_sta_count sp + 1, sp_macid := m, sp_cam := d\<rparr>, Some psta))"

text \<open>The parts of \<open>rtw_free_stainfo\<close>: unlinking, transmit queues, receive queues, MAC id,
  access-point state, and the return to the free queue. Pre-linked stations are not configured. Left
  out are the session tracker, the keep-alive flag, the timers that are not for reordering, and the
  notifications of other layers (radio measurement, interface status, rate adaptation, network
  queue).\<close>

definition sta_upd :: "sta_priv \<Rightarrow> nat \<Rightarrow> (sta_info \<Rightarrow> sta_info) \<Rightarrow> sta_priv" where
  "sta_upd sp i f = sp\<lparr>sp_sta := (sp_sta sp)[i := f (sp_sta sp ! i)]\<rparr>"

definition free_sta_unlink :: "sta_priv \<Rightarrow> nat \<Rightarrow> sta_priv" where
  "free_sta_unlink sp i =
     sta_upd (sp\<lparr>sp_hash := map (remove1 i) (sp_hash sp), sp_asoc_sta_count := sp_asoc_sta_count sp - 1\<rparr>) i
       (\<lambda>s. s\<lparr>sta_state := sta_state s AND NOT WIFI_ASOC_STATE\<rparr>)"

definition free_sta_xmit :: "sta_priv \<Rightarrow> nat \<Rightarrow> sta_priv" where
  "free_sta_xmit sp i =
     (let s = sp_sta sp ! i in
      sta_upd (sp\<lparr>sp_freed_tx := sp_freed_tx sp @ sta_tx_queue s @ sta_sleep_q s @ sta_mgmt_sleep_q s @ concat (map fst (sta_servq s)),
                  sp_accnt := map2 (\<lambda>a q. a - snd q) (sp_accnt sp) (sta_servq s)\<rparr>) i
        (\<lambda>s. s\<lparr>sta_tx_queue := [], sta_sleep_q := [], sta_sleepq_len := 0, sta_mgmt_sleep_q := [], sta_mgmt_sleepq_len := 0,
               sta_servq := map (\<lambda>_. ([], 0)) (sta_servq s)\<rparr>))"

definition free_sta_recv :: "sta_priv \<Rightarrow> nat \<Rightarrow> sta_priv" where
  "free_sta_recv sp i =
     (let s = sp_sta sp ! i in
      sta_upd (sp\<lparr>sp_free_recv := sp_free_recv sp @ concat (map pending_recvframe_queue (sta_reorder s)) @ sta_defrag_q s\<rparr>) i
        (\<lambda>s. s\<lparr>sta_reorder := map (\<lambda>c. c\<lparr>rec_abba_rsp_ack := False, reordering_ctrl_timer := False, pending_recvframe_queue := []\<rparr>) (sta_reorder s),
               sta_defrag_q := []\<rparr>))"

definition free_sta_macid :: "sta_priv \<Rightarrow> nat \<Rightarrow> sta_priv" where
  "free_sta_macid sp i =
     (let s = sp_sta sp ! i;
          (m, d, mac_id) = rtw_release_macid (sp_iface sp) (sp_macid sp) (sp_cam sp) (sta_mac s) (sta_mac_id s) in
      sta_upd (sp\<lparr>sp_macid := m, sp_cam := d\<rparr>) i (\<lambda>s. s\<lparr>sta_mac_id := mac_id\<rparr>))"

definition free_sta_ap :: "sta_priv \<Rightarrow> nat \<Rightarrow> sta_priv" where
  "free_sta_ap sp i =
     (let s = sp_sta sp ! i;
          sp = (if sta_auth_linked s then sta_upd (sp\<lparr>sp_auth_list_cnt := sp_auth_list_cnt sp - 1\<rparr>) i (\<lambda>s. s\<lparr>sta_auth_linked := False\<rparr>) else sp);
          sp = sta_upd sp i (\<lambda>s. s\<lparr>sta_expire_to := 0, sta_sleepq_ac_len := 0, sta_qos_info := 0, sta_max_sp_len := 0,
                 sta_uapsd := replicate 4 0, sta_has_legacy_ac := 0\<rparr>) in
      if sp_hw_ap sp then
        let aid = sta_aid_no s;
            sp = sp\<lparr>sp_dz_bitmap := rtw_tim_map_clear (sp_dz_bitmap sp) aid, sp_tim_bitmap := rtw_tim_map_clear (sp_tim_bitmap sp) aid\<rparr> in
        if aid > 0 \<and> sp_sta_aid sp ! (aid - 1) = Some i
        then sta_upd (sp\<lparr>sp_sta_aid := (sp_sta_aid sp)[aid - 1 := None]\<rparr>) i (\<lambda>s. s\<lparr>sta_aid_no := 0\<rparr>)
        else sp
      else sp)"

definition rtw_free_stainfo :: "sta_priv \<Rightarrow> nat option \<Rightarrow> sta_priv" where
  "rtw_free_stainfo sp psta =
     (case psta of
        None \<Rightarrow> sp
      | Some i \<Rightarrow>
          let sp = free_sta_ap (free_sta_macid (free_sta_recv (free_sta_xmit (free_sta_unlink sp i) i) i) i) i in
          sp\<lparr>sp_free_q := sp_free_q sp @ [i]\<rparr>)"

definition rtw_get_stainfo :: "sta_priv \<Rightarrow> buf option \<Rightarrow> nat option" where
  "rtw_get_stainfo sp hwaddr =
     (case hwaddr of
        None \<Rightarrow> None
      | Some hw \<Rightarrow>
          let addr = (if is_mcast_addr hw then bc_addr else hw) in
          find (\<lambda>i. sta_mac (sp_sta sp ! i) = addr) (sp_hash sp ! wifi_mac_hash addr))"

definition rtw_get_bcmc_stainfo :: "sta_priv \<Rightarrow> nat option" where
  "rtw_get_bcmc_stainfo sp = rtw_get_stainfo sp (Some bc_addr)"

text \<open>The code returns \<open>_SUCCESS\<close> (1) on both paths.\<close>

definition rtw_init_bcmc_stainfo :: "sta_priv \<Rightarrow> sta_priv \<times> nat" where
  "rtw_init_bcmc_stainfo sp = (fst (rtw_alloc_stainfo sp bc_addr), 1)"

text \<open>The first loop of \<open>rtw_free_all_stainfo\<close>: unlink every station but the broadcast one and note
  its slot.\<close>

fun free_all_collect :: "nat option \<Rightarrow> nat list list \<Rightarrow> nat list list \<times> nat list" where
  "free_all_collect bcmc [] = ([], [])"
| "free_all_collect bcmc (q # qs) =
     (let (qs', is) = free_all_collect bcmc qs in
      (filter (\<lambda>i. bcmc = Some i) q # qs', filter (\<lambda>i. bcmc \<noteq> Some i) q @ is))"

definition rtw_free_all_stainfo :: "sta_priv \<Rightarrow> sta_priv" where
  "rtw_free_all_stainfo sp =
     (let bcmc = rtw_get_bcmc_stainfo sp in
      if sp_asoc_sta_count sp = 1 then sp
      else let (qs, is) = free_all_collect bcmc (sp_hash sp) in
        foldl (\<lambda>sp i. rtw_free_stainfo sp (Some i)) (sp\<lparr>sp_hash := qs\<rparr>) is)"

text \<open>\<open>rtw_aid_alloc\<close>: the loop gives the index it stopped at, the candidate id and the number of ids
  seen in use.\<close>

function aid_loop :: "sta_priv \<Rightarrow> nat \<Rightarrow> nat \<Rightarrow> nat \<Rightarrow> nat \<times> nat \<times> nat" where
  "aid_loop sp i aid used_cnt =
     (if i < sp_max_aid sp then
        let aid = (i + sp_started_aid sp - 1) mod sp_max_aid sp + 1 in
        if sp_sta_aid sp ! (aid - 1) = None then (i, aid, used_cnt)
        else if used_cnt + 1 \<ge> sp_max_num_sta sp then (i, aid, used_cnt + 1)
        else aid_loop sp (i + 1) aid (used_cnt + 1)
      else (i, aid, used_cnt))"
  by pat_completeness auto

termination aid_loop
  by (relation "measure (\<lambda>(sp, i, _, _). sp_max_aid sp - i)") auto

declare aid_loop.simps [simp del]

definition rtw_aid_alloc :: "sta_priv \<Rightarrow> nat \<Rightarrow> sta_priv \<times> nat" where
  "rtw_aid_alloc sp psta =
     (let (i, aid, used_cnt) = aid_loop sp 0 0 0;
          aid = (if i \<ge> sp_max_aid sp \<or> used_cnt \<ge> sp_max_num_sta sp then 0 else aid);
          sp = sta_upd sp psta (\<lambda>s. s\<lparr>sta_aid_no := aid\<rparr>);
          sp = (if aid \<noteq> 0 then
                  let sp = sp\<lparr>sp_sta_aid := (sp_sta_aid sp)[aid - 1 := Some psta]\<rparr> in
                  if sp_rr_aid sp then sp\<lparr>sp_started_aid := aid mod sp_max_aid sp + 1\<rparr> else sp
                else sp) in
      (sp, aid))"

section \<open>The table as a list of stations\<close>

lemma wifi_mac_hash_less: "wifi_mac_hash mac < NUM_STA"
proof -
  have "x AND 31 \<le> (31 :: u32)" for x by (rule word_and_le1)
  then have "unat (x AND 31 :: u32) \<le> 31" for x by (simp add: word_le_nat_alt)
  then show ?thesis by (simp add: wifi_mac_hash_def NUM_STA_def Let_def less_Suc_eq_le [symmetric] numeral_eq_Suc)
qed

text \<open>\<open>used\<close> lists the slots in use in order of allocation, \<open>free\<close> the free ones in queue order.\<close>

definition sta_rel :: "sta_priv \<Rightarrow> nat list \<Rightarrow> nat list \<Rightarrow> bool" where
  "sta_rel sp used free \<longleftrightarrow> length (sp_sta sp) = NUM_STA \<and> sp_free_q sp = free
     \<and> distinct (used @ free) \<and> set (used @ free) = {..<NUM_STA}
     \<and> sp_hash sp = map (\<lambda>b. filter (\<lambda>i. wifi_mac_hash (sta_mac (sp_sta sp ! i)) = b) used) [0..<NUM_STA]
     \<and> sp_asoc_sta_count sp = int (length used)"

lemma sta_rel_init: "sta_rel (rtw_init_sta_priv sp) [] [0..<NUM_STA]"
  by (auto simp: sta_rel_def rtw_init_sta_priv_def Let_def NUM_STA_def map_replicate_const)

lemma hash_append:
  assumes "sta_rel sp used free" and "i \<notin> set used" and "\<And>j. j \<in> set used \<Longrightarrow> sta_mac (S ! j) = sta_mac (sp_sta sp ! j)"
  shows "(sp_hash sp)[wifi_mac_hash (sta_mac (S ! i)) := sp_hash sp ! wifi_mac_hash (sta_mac (S ! i)) @ [i]]
    = map (\<lambda>b. filter (\<lambda>j. wifi_mac_hash (sta_mac (S ! j)) = b) (used @ [i])) [0..<NUM_STA]"
proof (rule nth_equalityI)
  fix b
  assume "b < length ((sp_hash sp)[wifi_mac_hash (sta_mac (S ! i)) := sp_hash sp ! wifi_mac_hash (sta_mac (S ! i)) @ [i]])"
  then have b: "b < NUM_STA" using assms(1) by (simp add: sta_rel_def)
  have "filter (\<lambda>j. wifi_mac_hash (sta_mac (S ! j)) = c) used = filter (\<lambda>j. wifi_mac_hash (sta_mac (sp_sta sp ! j)) = c) used" for c
    using assms(3) by (intro filter_cong) auto
  then show "(sp_hash sp)[wifi_mac_hash (sta_mac (S ! i)) := sp_hash sp ! wifi_mac_hash (sta_mac (S ! i)) @ [i]] ! b
      = map (\<lambda>b. filter (\<lambda>j. wifi_mac_hash (sta_mac (S ! j)) = b) (used @ [i])) [0..<NUM_STA] ! b"
    using assms(1) b wifi_mac_hash_less [of "sta_mac (S ! i)"] by (auto simp: sta_rel_def nth_list_update)
qed (use assms(1) in \<open>simp add: sta_rel_def\<close>)

lemma sta_rel_alloc:
  assumes "sta_rel sp used (i # free)"
  obtains sp' where "rtw_alloc_stainfo sp a = (sp', Some i)" and "sta_rel sp' (used @ [i]) free"
    and "sta_mac (sp_sta sp' ! i) = a" and "\<And>j. j \<noteq> i \<Longrightarrow> sp_sta sp' ! j = sp_sta sp ! j"
    and "sta_recv (sp_sta sp' ! i) = sta_recv_start sta_recv_zero"
    and "sta_reorder (sp_sta sp' ! i) = replicate 16 (reorder_start reorder_zero)"
proof -
  obtain m d mid where mid: "rtw_alloc_macid (sp_iface sp) (sp_macid sp) (sp_cam sp) a i = (m, d, mid)"
    by (metis prod_cases3)
  let ?s = "rtw_init_stainfo\<lparr>sta_mac := a, sta_recv := sta_recv_start sta_recv_zero,
    sta_reorder := replicate 16 (reorder_start reorder_zero), sta_rssi := -1, sta_RxMgmtFrameSeqNum := 0xffff,
    sta_mac_id := mid, sta_tx_queue := []\<rparr>"
  let ?S = "(sp_sta sp)[i := ?s]" and ?h = "wifi_mac_hash a"
  let ?sp = "sp\<lparr>sp_free_q := free, sp_sta := ?S, sp_hash := (sp_hash sp)[?h := sp_hash sp ! ?h @ [i]],
    sp_asoc_sta_count := sp_asoc_sta_count sp + 1, sp_macid := m, sp_cam := d\<rparr>"
  have i: "i < length (sp_sta sp)" "i \<notin> set used" using assms by (auto simp: sta_rel_def)
  have si: "?S ! i = ?s" "j \<noteq> i \<Longrightarrow> ?S ! j = sp_sta sp ! j" for j using i(1) by simp_all
  have "rtw_alloc_stainfo sp a = (?sp, Some i)"
    using assms mid wifi_mac_hash_less [of a]
    by (simp add: rtw_alloc_stainfo_def sta_rel_def Let_def rtw_init_stainfo_def not_le [symmetric] map_replicate_const)
  moreover have "sta_mac (?S ! j) = sta_mac (sp_sta sp ! j)" if "j \<in> set used" for j using si(2) that i(2) by metis
  then have "sta_rel ?sp (used @ [i]) free"
    using assms hash_append [OF assms i(2), of ?S] si(1) by (auto simp: sta_rel_def)
  ultimately show ?thesis using that si by (simp add: i(1))
qed

text \<open>The parts of \<open>rtw_free_stainfo\<close> leave the addresses and the lists alone.\<close>

definition same_table :: "sta_priv \<Rightarrow> sta_priv \<Rightarrow> bool" where
  "same_table sp sp' \<longleftrightarrow> sp_hash sp' = sp_hash sp \<and> sp_free_q sp' = sp_free_q sp
     \<and> sp_asoc_sta_count sp' = sp_asoc_sta_count sp \<and> map sta_mac (sp_sta sp') = map sta_mac (sp_sta sp)"

lemma same_table_refl: "same_table sp sp"
  by (simp add: same_table_def)

lemma same_table_trans: "same_table a b \<Longrightarrow> same_table b c \<Longrightarrow> same_table a c"
  by (simp add: same_table_def)

lemma same_table_upd:
  assumes "\<And>s. sta_mac (f s) = sta_mac s" and "sp_sta sp' = sp_sta sp" and "sp_hash sp' = sp_hash sp"
    and "sp_free_q sp' = sp_free_q sp" and "sp_asoc_sta_count sp' = sp_asoc_sta_count sp"
  shows "same_table sp (sta_upd sp' i f)"
proof -
  have "map sta_mac ((sp_sta sp)[i := f (sp_sta sp ! i)]) = map sta_mac (sp_sta sp)"
    by (cases "i < length (sp_sta sp)") (simp_all add: map_update assms(1) list_update_beyond, simp add: list_update_same_conv)
  then show ?thesis using assms by (simp add: same_table_def sta_upd_def)
qed

lemma same_table_parts:
  "same_table sp (free_sta_xmit sp i)" "same_table sp (free_sta_recv sp i)" "same_table sp (free_sta_macid sp i)"
  by (auto simp: free_sta_xmit_def free_sta_recv_def free_sta_macid_def Let_def intro!: same_table_upd split: prod.splits)

lemma same_table_ap: "same_table sp (free_sta_ap sp i)"
proof -
  let ?s = "sp_sta sp ! i"
  define sp1 where "sp1 = (if sta_auth_linked ?s then sta_upd (sp\<lparr>sp_auth_list_cnt := sp_auth_list_cnt sp - 1\<rparr>) i (\<lambda>s. s\<lparr>sta_auth_linked := False\<rparr>) else sp)"
  define sp2 where "sp2 = sta_upd sp1 i (\<lambda>s. s\<lparr>sta_expire_to := 0, sta_sleepq_ac_len := 0, sta_qos_info := 0, sta_max_sp_len := 0,
                 sta_uapsd := replicate 4 0, sta_has_legacy_ac := 0\<rparr>)"
  define sp3 where "sp3 = sp2\<lparr>sp_dz_bitmap := rtw_tim_map_clear (sp_dz_bitmap sp2) (sta_aid_no ?s), sp_tim_bitmap := rtw_tim_map_clear (sp_tim_bitmap sp2) (sta_aid_no ?s)\<rparr>"
  have 1: "same_table sp sp1" unfolding sp1_def by (auto intro!: same_table_upd same_table_refl)
  have "same_table sp1 sp2" unfolding sp2_def by (auto intro!: same_table_upd)
  then have 2: "same_table sp sp2" by (rule same_table_trans [OF 1])
  have "same_table sp2 sp3" by (simp add: sp3_def same_table_def)
  then have 3: "same_table sp sp3" by (rule same_table_trans [OF 2])
  have "same_table sp3 (sta_upd (sp3\<lparr>sp_sta_aid := x\<rparr>) i (\<lambda>s. s\<lparr>sta_aid_no := 0\<rparr>))" for x
    by (auto intro!: same_table_upd)
  then have all: "same_table sp (sta_upd (sp3\<lparr>sp_sta_aid := x\<rparr>) i (\<lambda>s. s\<lparr>sta_aid_no := 0\<rparr>))" for x
    by (rule same_table_trans [OF 3])
  show ?thesis
    using all 2 3 unfolding free_sta_ap_def Let_def sp1_def [symmetric] sp2_def [symmetric] sp3_def [symmetric] by simp
qed

lemma filter_remove1: "distinct xs \<Longrightarrow> filter P (remove1 i xs) = remove1 i (filter P xs)"
  by (induction xs) (auto simp: filter_id_conv remove1_idem)

definition sta_freed :: "sta_priv \<Rightarrow> nat \<Rightarrow> sta_priv" where
  "sta_freed sp i = free_sta_ap (free_sta_macid (free_sta_recv (free_sta_xmit (free_sta_unlink sp i) i) i) i) i"

lemma sta_freed_table: "same_table (free_sta_unlink sp i) (sta_freed sp i)"
  unfolding sta_freed_def by (meson same_table_parts same_table_ap same_table_trans)

lemma free_unlink_table:
  "sp_hash (free_sta_unlink sp i) = map (remove1 i) (sp_hash sp)" "sp_free_q (free_sta_unlink sp i) = sp_free_q sp"
  "sp_asoc_sta_count (free_sta_unlink sp i) = sp_asoc_sta_count sp - 1"
  "map sta_mac (sp_sta (free_sta_unlink sp i)) = map sta_mac (sp_sta sp)"
proof -
  show "map sta_mac (sp_sta (free_sta_unlink sp i)) = map sta_mac (sp_sta sp)"
    by (cases "i < length (sp_sta sp)") (simp_all add: free_sta_unlink_def sta_upd_def map_update list_update_beyond,
        simp add: list_update_same_conv)
qed (simp_all add: free_sta_unlink_def sta_upd_def)

lemma free_table:
  "sp_hash (rtw_free_stainfo sp (Some i)) = map (remove1 i) (sp_hash sp)"
  "sp_free_q (rtw_free_stainfo sp (Some i)) = sp_free_q sp @ [i]"
  "sp_asoc_sta_count (rtw_free_stainfo sp (Some i)) = sp_asoc_sta_count sp - 1"
  "map sta_mac (sp_sta (rtw_free_stainfo sp (Some i))) = map sta_mac (sp_sta sp)"
  using sta_freed_table [of sp i] free_unlink_table [of sp i]
  by (simp_all add: rtw_free_stainfo_def sta_freed_def [symmetric] same_table_def)

lemma sta_mac_nth: "map sta_mac S = map sta_mac S' \<Longrightarrow> i < length S \<Longrightarrow> sta_mac (S ! i) = sta_mac (S' ! i)"
  by (metis length_map nth_map)

lemma sta_rel_free:
  assumes "sta_rel sp used free" and "i \<in> set used"
  shows "sta_rel (rtw_free_stainfo sp (Some i)) (remove1 i used) (free @ [i])"
proof -
  let ?sp = "rtw_free_stainfo sp (Some i)"
  note t = free_table [of sp i] and r = assms(1) [unfolded sta_rel_def]
  have len: "length (sp_sta ?sp) = NUM_STA" using t(4) r by (metis length_map)
  have used: "\<forall>j\<in>set used. j < NUM_STA" and d: "distinct used" using r by auto
  have mac: "sta_mac (sp_sta ?sp ! j) = sta_mac (sp_sta sp ! j)" if "j < NUM_STA" for j
    using sta_mac_nth [OF t(4)] len that by simp
  have "sp_hash ?sp = map (\<lambda>b. filter (\<lambda>j. wifi_mac_hash (sta_mac (sp_sta ?sp ! j)) = b) (remove1 i used)) [0..<NUM_STA]"
    using r used mac t(1) notin_set_remove1 [of _ used i]
    by (auto simp: filter_remove1 [OF d] intro!: arg_cong [where f = "remove1 i"] filter_cong)
  moreover have "int (length (remove1 i used)) = int (length used) - 1"
    using assms(2) length_pos_if_in_set [OF assms(2)] by (simp add: length_remove1 of_nat_diff Suc_leI)
  moreover have "set (remove1 i used) = set used - {i}" using d by simp
  ultimately show ?thesis
    using r t(2,3) len assms(2) d by (auto simp: sta_rel_def distinct_remove1)
qed

text \<open>\<open>rtw_get_stainfo\<close> finds the oldest station with the address.\<close>

lemma find_filter: "(\<And>x. x \<in> set xs \<Longrightarrow> P x \<Longrightarrow> Q x) \<Longrightarrow> find P (filter Q xs) = find P xs"
  by (induction xs) auto

lemma sta_rel_get:
  assumes "sta_rel sp used free"
  shows "rtw_get_stainfo sp (Some a) = find (\<lambda>i. sta_mac (sp_sta sp ! i) = (if is_mcast_addr a then bc_addr else a)) used"
proof -
  let ?a = "if is_mcast_addr a then bc_addr else a"
  have "sp_hash sp ! wifi_mac_hash ?a = filter (\<lambda>i. wifi_mac_hash (sta_mac (sp_sta sp ! i)) = wifi_mac_hash ?a) used"
    using assms wifi_mac_hash_less [of ?a] by (auto simp: sta_rel_def)
  then show ?thesis unfolding rtw_get_stainfo_def option.case Let_def by (simp only:) (rule find_filter, simp)
qed

section \<open>Freeing all stations\<close>

definition buckets :: "sta_info list \<Rightarrow> nat list \<Rightarrow> nat list list" where
  "buckets S xs = map (\<lambda>b. filter (\<lambda>i. wifi_mac_hash (sta_mac (S ! i)) = b) xs) [0..<NUM_STA]"

lemma free_all_collect_eq:
  "free_all_collect bcmc qs = (map (filter (\<lambda>i. bcmc = Some i)) qs, concat (map (filter (\<lambda>i. bcmc \<noteq> Some i)) qs))"
  by (induction qs) simp_all

lemma concat_classes:
  fixes h :: "nat \<Rightarrow> nat"
  assumes "distinct xs"
  shows "distinct (concat (map (\<lambda>b. filter (\<lambda>i. h i = b) xs) [0..<n]))
    \<and> set (concat (map (\<lambda>b. filter (\<lambda>i. h i = b) xs) [0..<n])) = {i \<in> set xs. h i < n}"
  using assms by (induction n) (auto simp: less_Suc_eq)

lemma buckets_filter: "map (filter P) (buckets S xs) = buckets S (filter P xs)"
  by (auto simp: buckets_def filter_filter conj_commute intro!: map_cong)

lemma concat_buckets:
  assumes "distinct xs"
  shows "distinct (concat (buckets S xs))" and "set (concat (buckets S xs)) = set xs"
  using concat_classes [OF assms, of "\<lambda>i. wifi_mac_hash (sta_mac (S ! i))" NUM_STA] wifi_mac_hash_less
  by (auto simp: buckets_def)

text \<open>The state while the noted stations \<open>is\<close> wait to be freed.\<close>

definition sta_pend :: "sta_priv \<Rightarrow> nat list \<Rightarrow> nat list \<Rightarrow> nat list \<Rightarrow> bool" where
  "sta_pend sp keep free is \<longleftrightarrow> length (sp_sta sp) = NUM_STA \<and> sp_free_q sp = free \<and> distinct (keep @ is @ free)
     \<and> set (keep @ is @ free) = {..<NUM_STA} \<and> sp_hash sp = buckets (sp_sta sp) keep
     \<and> sp_asoc_sta_count sp = int (length keep + length is)"

lemma sta_pend_done: "sta_pend sp keep free [] = sta_rel sp keep free"
  by (simp add: sta_pend_def sta_rel_def buckets_def)

lemma buckets_cong: "(\<And>i. i \<in> set xs \<Longrightarrow> sta_mac (S ! i) = sta_mac (S' ! i)) \<Longrightarrow> buckets S xs = buckets S' xs"
  by (auto simp: buckets_def intro!: map_cong filter_cong)

lemma buckets_remove_idle: "i \<notin> set xs \<Longrightarrow> map (remove1 i) (buckets S xs) = buckets S xs"
  by (auto simp: buckets_def remove1_idem)

lemma sta_pend_step:
  assumes "sta_pend sp keep free (i # is)"
  shows "sta_pend (rtw_free_stainfo sp (Some i)) keep (free @ [i]) is"
proof -
  let ?sp = "rtw_free_stainfo sp (Some i)"
  note t = free_table [of sp i] and p = assms [unfolded sta_pend_def]
  have len: "length (sp_sta ?sp) = NUM_STA" using t(4) p by (metis length_map)
  have "\<And>j. j \<in> set keep \<Longrightarrow> j < NUM_STA" using p by auto
  then have "buckets (sp_sta ?sp) keep = buckets (sp_sta sp) keep"
    using sta_mac_nth [OF t(4)] len by (intro buckets_cong) simp
  moreover have "i \<notin> set keep" using p by auto
  ultimately have "sp_hash ?sp = buckets (sp_sta ?sp) keep" using t(1) p by (simp add: buckets_remove_idle)
  then show ?thesis using p t(2,3) len by (auto simp: sta_pend_def)
qed

lemma sta_pend_all:
  "sta_pend sp keep free is \<Longrightarrow> sta_rel (foldl (\<lambda>sp i. rtw_free_stainfo sp (Some i)) sp is) keep (free @ is)
    \<and> map sta_mac (sp_sta (foldl (\<lambda>sp i. rtw_free_stainfo sp (Some i)) sp is)) = map sta_mac (sp_sta sp)"
proof (induction "is" arbitrary: sp free)
  case (Cons i "is")
  then show ?case using sta_pend_step [OF Cons.prems] Cons.IH free_table(4) [of sp i] by fastforce
qed (simp add: sta_pend_done)

lemma sta_rel_free_all:
  assumes "sta_rel sp used free" and "length used \<noteq> 1"
  shows "\<exists>free'. sta_rel (rtw_free_all_stainfo sp) (filter (\<lambda>i. rtw_get_bcmc_stainfo sp = Some i) used) free'
    \<and> map sta_mac (sp_sta (rtw_free_all_stainfo sp)) = map sta_mac (sp_sta sp)"
proof -
  let ?bc = "rtw_get_bcmc_stainfo sp" and ?S = "sp_sta sp"
  let ?keep = "filter (\<lambda>i. ?bc = Some i) used" and ?go = "filter (\<lambda>i. ?bc \<noteq> Some i) used"
  have cnt: "sp_asoc_sta_count sp \<noteq> 1" using assms by (simp add: sta_rel_def)
  have h: "sp_hash sp = buckets ?S used" "distinct used" using assms(1) by (auto simp: sta_rel_def buckets_def)
  let ?is = "concat (buckets ?S ?go)" and ?sp = "sp\<lparr>sp_hash := buckets ?S ?keep\<rparr>"
  have go: "distinct ?is" "set ?is = set ?go" using concat_buckets [of ?go ?S] h(2) by auto
  have "length ?is = length ?go" using go h(2) by (metis distinct_card distinct_filter)
  then have "length used = length ?keep + length ?is" using sum_length_filter_compl [of "\<lambda>i. ?bc = Some i" used] by simp
  then have "sta_pend ?sp ?keep free ?is"
    using assms(1) go h(2) unfolding sta_pend_def by (auto simp: sta_rel_def)
  then have "sta_rel (foldl (\<lambda>sp i. rtw_free_stainfo sp (Some i)) ?sp ?is) ?keep (free @ ?is)
      \<and> map sta_mac (sp_sta (foldl (\<lambda>sp i. rtw_free_stainfo sp (Some i)) ?sp ?is)) = map sta_mac (sp_sta sp)"
    using sta_pend_all by fastforce
  moreover have "rtw_free_all_stainfo sp = foldl (\<lambda>sp i. rtw_free_stainfo sp (Some i)) ?sp ?is"
    using cnt h(1) by (simp add: rtw_free_all_stainfo_def Let_def free_all_collect_eq buckets_filter)
  ultimately show ?thesis by auto
qed

section \<open>Histories of the table\<close>

text \<open>Runs of the table beside the list of stations it stands for: \<open>(slot, address)\<close> in order of
  allocation. A step of other code may change anything but the lists and the addresses.\<close>

inductive sta_run :: "sta_priv \<Rightarrow> (nat \<times> buf) list \<Rightarrow> bool" where
  init: "sta_run (rtw_init_sta_priv sp) []"
| alloc: "sta_run sp L \<Longrightarrow> rtw_alloc_stainfo sp a = (sp', Some i) \<Longrightarrow> sta_run sp' (L @ [(i, a)])"
| full: "sta_run sp L \<Longrightarrow> rtw_alloc_stainfo sp a = (sp', None) \<Longrightarrow> sta_run sp' L"
| free: "sta_run sp L \<Longrightarrow> i \<in> fst ` set L \<Longrightarrow> sta_run (rtw_free_stainfo sp (Some i)) (filter (\<lambda>x. fst x \<noteq> i) L)"
| free_all: "sta_run sp L \<Longrightarrow> length L \<noteq> 1 \<Longrightarrow>
    sta_run (rtw_free_all_stainfo sp) (filter (\<lambda>x. find (\<lambda>y. snd y = bc_addr) L = Some x) L)"
| other: "sta_run sp L \<Longrightarrow> same_table sp sp' \<Longrightarrow> sta_run sp' L"

definition sta_list :: "sta_priv \<Rightarrow> (nat \<times> buf) list \<Rightarrow> bool" where
  "sta_list sp L \<longleftrightarrow> (\<exists>free. sta_rel sp (map fst L) free) \<and> (\<forall>(i, a)\<in>set L. sta_mac (sp_sta sp ! i) = a)"

lemma sta_listI: "sta_rel sp (map fst L) free \<Longrightarrow> (\<And>x. x \<in> set L \<Longrightarrow> sta_mac (sp_sta sp ! fst x) = snd x) \<Longrightarrow> sta_list sp L"
  by (auto simp: sta_list_def)

lemma sta_list_mac: "sta_list sp L \<Longrightarrow> x \<in> set L \<Longrightarrow> sta_mac (sp_sta sp ! fst x) = snd x"
  by (cases x) (auto simp: sta_list_def)

lemma find_map_fst:
  "\<forall>(i, b)\<in>set L. f i = b \<Longrightarrow> find (\<lambda>i. f i = a) (map fst L) = map_option fst (find (\<lambda>x. snd x = a) L)"
  by (induction L) auto

lemma sta_list_get:
  "sta_list sp L \<Longrightarrow> rtw_get_stainfo sp (Some a) = map_option fst (find (\<lambda>x. snd x = (if is_mcast_addr a then bc_addr else a)) L)"
  using sta_rel_get find_map_fst [of L "\<lambda>i. sta_mac (sp_sta sp ! i)"] by (fastforce simp: sta_list_def)

lemma same_table_rel:
  assumes "same_table sp sp'" and "sta_rel sp used free"
  shows "sta_rel sp' used free" and "i \<in> set used \<Longrightarrow> sta_mac (sp_sta sp' ! i) = sta_mac (sp_sta sp ! i)"
proof -
  have len: "length (sp_sta sp') = NUM_STA" using assms by (metis length_map same_table_def sta_rel_def)
  have "\<And>i. i \<in> set used \<Longrightarrow> i < NUM_STA" using assms(2) by (auto simp: sta_rel_def)
  then show mac: "sta_mac (sp_sta sp' ! i) = sta_mac (sp_sta sp ! i)" if "i \<in> set used" for i
    using assms(1) len that sta_mac_nth [of "sp_sta sp'" "sp_sta sp" i] by (simp add: same_table_def)
  have "buckets (sp_sta sp') used = buckets (sp_sta sp) used" by (rule buckets_cong) (rule mac)
  then show "sta_rel sp' used free" using assms len by (simp add: sta_rel_def same_table_def buckets_def)
qed

lemma sta_list_alloc:
  assumes "sta_list sp L"
  shows "length L < NUM_STA \<Longrightarrow> \<exists>sp' i. rtw_alloc_stainfo sp a = (sp', Some i)"
    and "rtw_alloc_stainfo sp a = (sp', Some i) \<Longrightarrow> sta_list sp' (L @ [(i, a)]) \<and> i \<notin> fst ` set L"
    and "rtw_alloc_stainfo sp a = (sp', None) \<Longrightarrow> sp' = sp \<and> length L = NUM_STA"
proof -
  obtain free where rel: "sta_rel sp (map fst L) free" and mac: "\<forall>(i, a)\<in>set L. sta_mac (sp_sta sp ! i) = a"
    using assms by (auto simp: sta_list_def)
  have "length (map fst L @ free) = card (set (map fst L @ free))"
    using rel distinct_card [of "map fst L @ free"] by (simp add: sta_rel_def)
  then have len: "length L + length free = NUM_STA" using rel by (simp add: sta_rel_def)
  show "\<exists>sp' i. rtw_alloc_stainfo sp a = (sp', Some i)" if "length L < NUM_STA"
  proof (cases free)
    case (Cons j js)
    then show ?thesis using sta_rel_alloc [of sp "map fst L" j js a] rel by metis
  qed (use len that in simp)
  show "sp' = sp \<and> length L = NUM_STA" if "rtw_alloc_stainfo sp a = (sp', None)"
  proof (cases free)
    case Nil
    then show ?thesis using rel that len by (simp add: rtw_alloc_stainfo_def sta_rel_def)
  next
    case (Cons j js)
    then show ?thesis using sta_rel_alloc [of sp "map fst L" j js a] rel that by (metis option.distinct(1) prod.inject)
  qed
  show "sta_list sp' (L @ [(i, a)]) \<and> i \<notin> fst ` set L" if al: "rtw_alloc_stainfo sp a = (sp', Some i)"
  proof (cases free)
    case Nil
    then show ?thesis using rel al by (simp add: rtw_alloc_stainfo_def sta_rel_def)
  next
    case (Cons j js)
    have rel': "sta_rel sp (map fst L) (j # js)" using rel Cons by simp
    obtain sp1 where 1: "rtw_alloc_stainfo sp a = (sp1, Some j)" "sta_rel sp1 (map fst L @ [j]) js" "sta_mac (sp_sta sp1 ! j) = a"
        "\<And>k. k \<noteq> j \<Longrightarrow> sp_sta sp1 ! k = sp_sta sp ! k"
      by (rule sta_rel_alloc [OF rel', of a]) blast
    have j: "j \<notin> fst ` set L" using rel' by (auto simp: sta_rel_def)
    have "sta_list sp1 (L @ [(j, a)])"
    proof (rule sta_listI)
      show "sta_rel sp1 (map fst (L @ [(j, a)])) js" using 1(2) by simp
      show "sta_mac (sp_sta sp1 ! fst x) = snd x" if "x \<in> set (L @ [(j, a)])" for x
      proof (cases "x \<in> set L")
        case True
        then have "fst x \<noteq> j" using j by blast
        then show ?thesis using 1(4) [of "fst x"] sta_list_mac [OF assms True] by simp
      qed (use that 1(3) in auto)
    qed
    then show ?thesis using 1(1) al j by simp
  qed
qed

lemma filter_fst_remove1: "distinct (map fst L) \<Longrightarrow> map fst (filter (\<lambda>x. fst x \<noteq> i) L) = remove1 i (map fst L)"
  by (induction L) (auto simp: filter_id_conv remove1_idem image_iff)

lemma sta_list_free:
  assumes "sta_list sp L" and "i \<in> fst ` set L"
  shows "sta_list (rtw_free_stainfo sp (Some i)) (filter (\<lambda>x. fst x \<noteq> i) L)"
proof -
  obtain free where rel: "sta_rel sp (map fst L) free" using assms(1) by (auto simp: sta_list_def)
  have d: "distinct (map fst L)" and less: "\<And>j. j \<in> fst ` set L \<Longrightarrow> j < NUM_STA" using rel by (auto simp: sta_rel_def)
  have "sta_rel (rtw_free_stainfo sp (Some i)) (map fst (filter (\<lambda>x. fst x \<noteq> i) L)) (free @ [i])"
    using sta_rel_free [OF rel, of i] assms(2) filter_fst_remove1 [OF d, of i] by simp
  then show ?thesis
  proof (rule sta_listI)
    fix x
    assume x: "x \<in> set (filter (\<lambda>x. fst x \<noteq> i) L)"
    then have "fst x < length (sp_sta sp)" using less rel by (simp add: sta_rel_def)
    then show "sta_mac (sp_sta (rtw_free_stainfo sp (Some i)) ! fst x) = snd x"
      using sta_mac_nth [OF free_table(4) [symmetric]] sta_list_mac [OF assms(1), of x] x by simp
  qed
qed

lemma sta_list_free_all:
  assumes "sta_list sp L" and "length L \<noteq> 1"
  shows "sta_list (rtw_free_all_stainfo sp) (filter (\<lambda>x. find (\<lambda>y. snd y = bc_addr) L = Some x) L)"
proof -
  let ?bc = "find (\<lambda>y. snd y = bc_addr) L"
  obtain free where rel: "sta_rel sp (map fst L) free" using assms(1) by (auto simp: sta_list_def)
  have d: "distinct (map fst L)" and less: "\<And>j. j \<in> fst ` set L \<Longrightarrow> j < NUM_STA" using rel by (auto simp: sta_rel_def)
  have bc: "rtw_get_bcmc_stainfo sp = map_option fst ?bc"
    using sta_list_get [OF assms(1), of bc_addr] by (simp add: rtw_get_bcmc_stainfo_def)
  have "map_option fst ?bc = Some (fst x) \<longleftrightarrow> ?bc = Some x" if "x \<in> set L" for x
  proof
    assume "map_option fst ?bc = Some (fst x)"
    then obtain y where y: "?bc = Some y" "fst y = fst x" by auto
    then have "y \<in> set L" by (auto simp: find_Some_iff)
    then show "?bc = Some x" using y d that by (simp add: distinct_map inj_on_def)
  qed simp
  then have keep: "filter (\<lambda>i. rtw_get_bcmc_stainfo sp = Some i) (map fst L) = map fst (filter (\<lambda>x. ?bc = Some x) L)"
    unfolding bc filter_map comp_def by (intro arg_cong [where f = "map fst"] filter_cong) simp_all
  obtain free' where f: "sta_rel (rtw_free_all_stainfo sp) (map fst (filter (\<lambda>x. ?bc = Some x) L)) free'"
      "map sta_mac (sp_sta (rtw_free_all_stainfo sp)) = map sta_mac (sp_sta sp)"
    using sta_rel_free_all [OF rel] assms(2) keep by auto
  show ?thesis
  proof (rule sta_listI [OF f(1)])
    fix x
    assume x: "x \<in> set (filter (\<lambda>x. ?bc = Some x) L)"
    then have "fst x < length (sp_sta sp)" using less rel by (simp add: sta_rel_def)
    then show "sta_mac (sp_sta (rtw_free_all_stainfo sp) ! fst x) = snd x"
      using sta_mac_nth [OF f(2) [symmetric]] sta_list_mac [OF assms(1), of x] x by simp
  qed
qed

lemma sta_run_list: "sta_run sp L \<Longrightarrow> sta_list sp L"
proof (induction rule: sta_run.induct)
  case (init sp)
  show ?case using sta_rel_init [of sp] by (auto simp: sta_list_def)
next
  case (alloc sp L a sp' i)
  then show ?case using sta_list_alloc(2) by blast
next
  case (full sp L a sp')
  then show ?case using sta_list_alloc(3) by blast
next
  case (free sp L i)
  then show ?case by (intro sta_list_free)
next
  case (free_all sp L)
  then show ?case by (intro sta_list_free_all)
next
  case (other sp L sp')
  then obtain fr where rel: "sta_rel sp (map fst L) fr" by (auto simp: sta_list_def)
  show ?case
    using sta_list_mac [OF other.IH] same_table_rel(2) [OF other.hyps(2) rel]
    by (intro sta_listI [OF same_table_rel(1) [OF other.hyps(2) rel]]) simp
qed

text \<open>C8: after any sequence of allocations, frees and other work, the 32 hash lists behave as the list
  of stations in order of allocation: a lookup finds the oldest station with the address (every
  group address stands for the broadcast station), an allocation succeeds exactly while fewer than
  32 stations are in use and returns a slot not in use, and \<open>asoc_sta_count\<close> is their number.\<close>

theorem station_table_refines:
  assumes "sta_run sp L"
  shows "rtw_get_stainfo sp (Some a) = map_option fst (find (\<lambda>x. snd x = (if is_mcast_addr a then bc_addr else a)) L)
    \<and> sp_asoc_sta_count sp = int (length L) \<and> distinct (map fst L)
    \<and> (case rtw_alloc_stainfo sp b of
         (sp', None) \<Rightarrow> length L = NUM_STA \<and> sp' = sp
       | (sp', Some i) \<Rightarrow> length L < NUM_STA \<and> i < NUM_STA \<and> i \<notin> fst ` set L)"
proof -
  note l = sta_run_list [OF assms]
  then obtain free where rel: "sta_rel sp (map fst L) free" by (auto simp: sta_list_def)
  have le: "length L' \<le> NUM_STA \<and> fst ` set L' \<subseteq> {..<NUM_STA}" if sl: "sta_list sp' L'" for sp' L'
  proof -
    obtain fr where "sta_rel sp' (map fst L') fr" using sl by (auto simp: sta_list_def)
    then have "distinct (map fst L')" "set (map fst L') \<subseteq> {..<NUM_STA}" by (auto simp: sta_rel_def)
    then show ?thesis using card_mono [of "{..<NUM_STA}" "set (map fst L')"] distinct_card [of "map fst L'"] by auto
  qed
  show ?thesis
    using sta_list_get [OF l, of a] rel sta_list_alloc(2,3) [OF l, of b] le
    by (auto simp: sta_rel_def split: prod.splits option.splits) (fastforce dest!: le)+
qed

definition sp0 :: sta_priv where
  "sp0 = rtw_init_sta_priv \<lparr>sp_sta = [], sp_free_q = [], sp_hash = [], sp_asoc_sta_count = 0, sp_sta_aid = [], sp_max_aid = 0,
     sp_rr_aid = False, sp_started_aid = 0, sp_max_num_sta = 0, sp_tim_bitmap = [], sp_dz_bitmap = [], sp_auth_list_cnt = 0,
     sp_accnt = replicate 5 0, sp_free_recv = [], sp_freed_tx = [], sp_macid = macid_ctl0, sp_cam = cam_dev0, sp_iface = ifc0,
     sp_hw_ap = True\<rparr>"

theorem station_table_refines_witness:
  "\<exists>sp L. sta_run sp L \<and> length L = 2 \<and>
    rtw_get_stainfo sp (Some [2, 0, 0, 0, 0, 7]) = map_option fst (find (\<lambda>x. snd x = (if is_mcast_addr [2, 0, 0, 0, 0, 7] then bc_addr else [2, 0, 0, 0, 0, 7])) L)
    \<and> sp_asoc_sta_count sp = int (length L) \<and> distinct (map fst L)
    \<and> (case rtw_alloc_stainfo sp [2, 0, 0, 0, 0, 8] of
         (sp', None) \<Rightarrow> length L = NUM_STA \<and> sp' = sp
       | (sp', Some i) \<Rightarrow> length L < NUM_STA \<and> i < NUM_STA \<and> i \<notin> fst ` set L)"
proof -
  have r0: "sta_run sp0 []" unfolding sp0_def by (rule sta_run.init)
  obtain sp1 i where 1: "rtw_alloc_stainfo sp0 bc_addr = (sp1, Some i)"
    using sta_list_alloc(1) [OF sta_run_list [OF r0], of bc_addr] by (auto simp: NUM_STA_def)
  then have r1: "sta_run sp1 [(i, bc_addr)]" using sta_run.alloc [OF r0 1] by simp
  obtain sp2 j where 2: "rtw_alloc_stainfo sp1 [2, 0, 0, 0, 0, 7] = (sp2, Some j)"
    using sta_list_alloc(1) [OF sta_run_list [OF r1], of "[2, 0, 0, 0, 0, 7]"] by (auto simp: NUM_STA_def)
  have r2: "sta_run sp2 [(i, bc_addr), (j, [2, 0, 0, 0, 0, 7])]" using sta_run.alloc [OF r1 2] by simp
  show ?thesis
    using station_table_refines [OF r2, of "[2, 0, 0, 0, 0, 7]" "[2, 0, 0, 0, 0, 8]"] r2
    by (intro exI [of _ sp2] exI [of _ "[(i, bc_addr), (j, [2, 0, 0, 0, 0, 7])]"]) simp
qed

section \<open>What a freed station gives back\<close>

lemma sta_upd_simps [simp]:
  "sp_tim_bitmap (sta_upd sp i f) = sp_tim_bitmap sp" "sp_dz_bitmap (sta_upd sp i f) = sp_dz_bitmap sp"
  "sp_sta_aid (sta_upd sp i f) = sp_sta_aid sp" "sp_hw_ap (sta_upd sp i f) = sp_hw_ap sp"
  "sp_free_recv (sta_upd sp i f) = sp_free_recv sp" "sp_freed_tx (sta_upd sp i f) = sp_freed_tx sp"
  "sp_sta (sta_upd sp i f) = (sp_sta sp)[i := f (sp_sta sp ! i)]"
  by (simp_all add: sta_upd_def)

definition sta_queues :: "sta_info \<Rightarrow> recv_reorder_ctrl list \<times> recv_frame list \<times> nat list \<times> nat list \<times> nat list \<times> (nat list \<times> int) list" where
  "sta_queues s = (sta_reorder s, sta_defrag_q s, sta_tx_queue s, sta_sleep_q s, sta_mgmt_sleep_q s, sta_servq s)"

text \<open>Unlinking, the MAC id and the access-point part leave the queues alone.\<close>

definition same_q :: "nat \<Rightarrow> sta_priv \<Rightarrow> sta_priv \<Rightarrow> bool" where
  "same_q i sp sp' \<longleftrightarrow> sp_free_recv sp' = sp_free_recv sp \<and> sp_freed_tx sp' = sp_freed_tx sp
     \<and> length (sp_sta sp') = length (sp_sta sp) \<and> sta_queues (sp_sta sp' ! i) = sta_queues (sp_sta sp ! i)"

lemma same_q_trans: "same_q i a b \<Longrightarrow> same_q i b c \<Longrightarrow> same_q i a c"
  by (simp add: same_q_def)

lemma same_q_upd:
  assumes "\<And>s. sta_queues (f s) = sta_queues s" and "sp_sta sp' = sp_sta sp" and "sp_free_recv sp' = sp_free_recv sp"
    and "sp_freed_tx sp' = sp_freed_tx sp"
  shows "same_q i sp (sta_upd sp' i f)"
  using assms by (cases "i < length (sp_sta sp)") (simp_all add: same_q_def list_update_beyond)

lemma same_q_unlink: "same_q i sp (free_sta_unlink sp i)"
  unfolding free_sta_unlink_def by (rule same_q_upd) (simp_all add: sta_queues_def)

lemma same_q_macid: "same_q i sp (free_sta_macid sp i)"
  unfolding free_sta_macid_def Let_def by (auto simp: sta_queues_def intro!: same_q_upd split: prod.splits)

lemma same_q_ap: "same_q i sp (free_sta_ap sp i)"
proof -
  let ?s = "sp_sta sp ! i"
  define sp1 where "sp1 = (if sta_auth_linked ?s then sta_upd (sp\<lparr>sp_auth_list_cnt := sp_auth_list_cnt sp - 1\<rparr>) i (\<lambda>s. s\<lparr>sta_auth_linked := False\<rparr>) else sp)"
  define sp2 where "sp2 = sta_upd sp1 i (\<lambda>s. s\<lparr>sta_expire_to := 0, sta_sleepq_ac_len := 0, sta_qos_info := 0, sta_max_sp_len := 0,
                 sta_uapsd := replicate 4 0, sta_has_legacy_ac := 0\<rparr>)"
  define sp3 where "sp3 = sp2\<lparr>sp_dz_bitmap := rtw_tim_map_clear (sp_dz_bitmap sp2) (sta_aid_no ?s), sp_tim_bitmap := rtw_tim_map_clear (sp_tim_bitmap sp2) (sta_aid_no ?s)\<rparr>"
  have 1: "same_q i sp sp1" unfolding sp1_def by (auto simp: sta_queues_def intro!: same_q_upd) (simp add: same_q_def)
  have "same_q i sp1 sp2" unfolding sp2_def by (auto simp: sta_queues_def intro!: same_q_upd)
  then have 2: "same_q i sp sp2" by (rule same_q_trans [OF 1])
  have "same_q i sp2 sp3" by (simp add: sp3_def same_q_def)
  then have 3: "same_q i sp sp3" by (rule same_q_trans [OF 2])
  have "same_q i sp3 (sta_upd (sp3\<lparr>sp_sta_aid := x\<rparr>) i (\<lambda>s. s\<lparr>sta_aid_no := 0\<rparr>))" for x
    by (auto simp: sta_queues_def intro!: same_q_upd)
  then have all: "same_q i sp (sta_upd (sp3\<lparr>sp_sta_aid := x\<rparr>) i (\<lambda>s. s\<lparr>sta_aid_no := 0\<rparr>))" for x
    by (rule same_q_trans [OF 3])
  show ?thesis
    using all 2 3 unfolding free_sta_ap_def Let_def sp1_def [symmetric] sp2_def [symmetric] sp3_def [symmetric] by simp
qed

lemma freed_rx:
  assumes "i < length (sp_sta sp)"
  defines "sp' \<equiv> rtw_free_stainfo sp (Some i)" and "s \<equiv> sp_sta sp ! i"
  shows "sp_free_recv sp' = sp_free_recv sp @ concat (map pending_recvframe_queue (sta_reorder s)) @ sta_defrag_q s"
    and "sp_freed_tx sp' = sp_freed_tx sp @ sta_tx_queue s @ sta_sleep_q s @ sta_mgmt_sleep_q s @ concat (map fst (sta_servq s))"
    and "\<forall>c\<in>set (sta_reorder (sp_sta sp' ! i)). pending_recvframe_queue c = [] \<and> \<not> reordering_ctrl_timer c"
proof -
  define u where "u = free_sta_unlink sp i"
  define r where "r = free_sta_recv (free_sta_xmit u i) i"
  have u: "same_q i sp u" unfolding u_def by (rule same_q_unlink)
  then have us: "i < length (sp_sta u)" using assms(1) by (simp add: same_q_def)
  have r: "sp_free_recv r = sp_free_recv u @ concat (map pending_recvframe_queue (sta_reorder (sp_sta u ! i))) @ sta_defrag_q (sp_sta u ! i)"
    "sp_freed_tx r = sp_freed_tx u @ sta_tx_queue (sp_sta u ! i) @ sta_sleep_q (sp_sta u ! i) @ sta_mgmt_sleep_q (sp_sta u ! i) @ concat (map fst (sta_servq (sp_sta u ! i)))"
    "\<forall>c\<in>set (sta_reorder (sp_sta r ! i)). pending_recvframe_queue c = [] \<and> \<not> reordering_ctrl_timer c"
    using us by (simp_all add: r_def free_sta_recv_def free_sta_xmit_def Let_def)
  have "same_q i r (free_sta_ap (free_sta_macid r i) i)" by (meson same_q_macid same_q_ap same_q_trans)
  then have fin: "same_q i r sp'" by (simp add: sp'_def rtw_free_stainfo_def Let_def r_def u_def same_q_def)
  show "sp_free_recv sp' = sp_free_recv sp @ concat (map pending_recvframe_queue (sta_reorder s)) @ sta_defrag_q s"
    "sp_freed_tx sp' = sp_freed_tx sp @ sta_tx_queue s @ sta_sleep_q s @ sta_mgmt_sleep_q s @ concat (map fst (sta_servq s))"
    "\<forall>c\<in>set (sta_reorder (sp_sta sp' ! i)). pending_recvframe_queue c = [] \<and> \<not> reordering_ctrl_timer c"
    using u r fin by (simp_all add: same_q_def sta_queues_def s_def)
qed

text \<open>The parts before \<open>free_sta_ap\<close> leave the access-point state alone.\<close>

definition same_ap :: "nat \<Rightarrow> sta_priv \<Rightarrow> sta_priv \<Rightarrow> bool" where
  "same_ap i sp sp' \<longleftrightarrow> sp_tim_bitmap sp' = sp_tim_bitmap sp \<and> sp_dz_bitmap sp' = sp_dz_bitmap sp \<and> sp_sta_aid sp' = sp_sta_aid sp
     \<and> sp_hw_ap sp' = sp_hw_ap sp \<and> length (sp_sta sp') = length (sp_sta sp)
     \<and> (i < length (sp_sta sp) \<longrightarrow> sta_aid_no (sp_sta sp' ! i) = sta_aid_no (sp_sta sp ! i))"

lemma same_ap_trans: "same_ap i a b \<Longrightarrow> same_ap i b c \<Longrightarrow> same_ap i a c"
  by (simp add: same_ap_def)

lemma same_ap_parts:
  "same_ap i sp (free_sta_unlink sp i)" "same_ap i sp (free_sta_xmit sp i)" "same_ap i sp (free_sta_recv sp i)"
  "same_ap i sp (free_sta_macid sp i)"
  by (simp_all add: same_ap_def free_sta_unlink_def free_sta_xmit_def free_sta_recv_def free_sta_macid_def Let_def split: prod.splits)

lemma same_ap_before: "same_ap i sp (free_sta_macid (free_sta_recv (free_sta_xmit (free_sta_unlink sp i) i) i) i)"
  by (meson same_ap_parts same_ap_trans)

lemma free_sta_ap_bits:
  assumes "i < length (sp_sta sp)" and "sp_hw_ap sp"
  defines "aid \<equiv> sta_aid_no (sp_sta sp ! i)"
  shows "sp_tim_bitmap (free_sta_ap sp i) = rtw_tim_map_clear (sp_tim_bitmap sp) aid"
    and "sp_dz_bitmap (free_sta_ap sp i) = rtw_tim_map_clear (sp_dz_bitmap sp) aid"
    and "sp_sta_aid (free_sta_ap sp i) = (if aid > 0 \<and> sp_sta_aid sp ! (aid - 1) = Some i then (sp_sta_aid sp)[aid - 1 := None] else sp_sta_aid sp)"
  using assms(2) by (simp_all add: free_sta_ap_def aid_def Let_def)

lemma freed_ap:
  assumes "i < length (sp_sta sp)" and "sp_hw_ap sp"
  defines "sp' \<equiv> rtw_free_stainfo sp (Some i)" and "aid \<equiv> sta_aid_no (sp_sta sp ! i)"
  shows "sp_tim_bitmap sp' = rtw_tim_map_clear (sp_tim_bitmap sp) aid"
    and "sp_dz_bitmap sp' = rtw_tim_map_clear (sp_dz_bitmap sp) aid"
    and "sp_sta_aid sp' = (if aid > 0 \<and> sp_sta_aid sp ! (aid - 1) = Some i then (sp_sta_aid sp)[aid - 1 := None] else sp_sta_aid sp)"
proof -
  let ?b = "free_sta_macid (free_sta_recv (free_sta_xmit (free_sta_unlink sp i) i) i) i"
  have same: "same_ap i sp ?b" by (rule same_ap_before)
  then have "i < length (sp_sta ?b)" "sp_hw_ap ?b" "sta_aid_no (sp_sta ?b ! i) = aid"
    using assms by (simp_all add: same_ap_def)
  then show "sp_tim_bitmap sp' = rtw_tim_map_clear (sp_tim_bitmap sp) aid"
    "sp_dz_bitmap sp' = rtw_tim_map_clear (sp_dz_bitmap sp) aid"
    "sp_sta_aid sp' = (if aid > 0 \<and> sp_sta_aid sp ! (aid - 1) = Some i then (sp_sta_aid sp)[aid - 1 := None] else sp_sta_aid sp)"
    using free_sta_ap_bits [of i ?b] same by (simp_all add: sp'_def rtw_free_stainfo_def Let_def same_ap_def)
qed

text \<open>C21: freeing a station gives back all it holds: every received frame in its reordering and
  defragmentation queues goes to the free queue, its reordering timers are off, every transmit
  frame is released, its association id is free again, and a station that decodes the traffic
  indication map sees no more traffic for that id and the same as before for every other.\<close>

theorem rtw_free_stainfo_releases:
  assumes "i < length (sp_sta sp)" and "sp_hw_ap sp" and "0 < sta_aid_no (sp_sta sp ! i)"
    and "sp_sta_aid sp ! (sta_aid_no (sp_sta sp ! i) - 1) = Some i" and "sta_aid_no (sp_sta sp ! i) \<le> length (sp_sta_aid sp)"
    and "sp_tim_bitmap sp \<noteq> []" and "length (sp_tim_bitmap sp) \<le> 250"
  shows "let sp' = rtw_free_stainfo sp (Some i); s = sp_sta sp ! i; aid = sta_aid_no s in
      sp_free_recv sp' = sp_free_recv sp @ concat (map pending_recvframe_queue (sta_reorder s)) @ sta_defrag_q s
    \<and> sp_freed_tx sp' = sp_freed_tx sp @ sta_tx_queue s @ sta_sleep_q s @ sta_mgmt_sleep_q s @ concat (map fst (sta_servq s))
    \<and> (\<forall>c\<in>set (sta_reorder (sp_sta sp' ! i)). pending_recvframe_queue c = [] \<and> \<not> reordering_ctrl_timer c)
    \<and> sp_sta_aid sp' ! (aid - 1) = None
    \<and> (\<forall>k. tim_traffic (tim_content 0 1 (sp_tim_bitmap sp')) k \<longleftrightarrow> k \<noteq> aid \<and> tim_traffic (tim_content 0 1 (sp_tim_bitmap sp)) k)"
proof -
  let ?sp = "rtw_free_stainfo sp (Some i)" and ?aid = "sta_aid_no (sp_sta sp ! i)"
  note ap = freed_ap [OF assms(1,2)]
  have len: "length (sp_tim_bitmap ?sp) = length (sp_tim_bitmap sp)"
    unfolding ap(1) by (simp add: rtw_tim_map_clear_def rtw_bmp_clear_def)
  then have ne: "sp_tim_bitmap ?sp \<noteq> []" using assms(6) by auto
  have "tim_traffic (tim_content 0 1 (sp_tim_bitmap ?sp)) k \<longleftrightarrow> k \<noteq> ?aid \<and> tim_traffic (tim_content 0 1 (sp_tim_bitmap sp)) k" for k
    using tim_traffic_content [OF ne] tim_traffic_content [OF assms(6,7)] len assms(7)
    by (auto simp: ap(1) rtw_tim_map_clear_def bmp.set_clr)
  moreover have "sp_sta_aid ?sp ! (?aid - 1) = None" using ap(3) assms(3-5) by simp
  ultimately show ?thesis using freed_rx [OF assms(1)] by (simp add: Let_def)
qed

text \<open>A station that has no association id is freed with id 0, and that clears the bit of the map that
  announces buffered group traffic.\<close>

lemma free_unassociated_clears_group_bit:
  assumes "i < length (sp_sta sp)" and "sp_hw_ap sp" and "sta_aid_no (sp_sta sp ! i) = 0"
  shows "\<not> rtw_tim_map_is_set (sp_tim_bitmap (rtw_free_stainfo sp (Some i))) 0"
  using freed_ap(1) [OF assms(1,2)] assms(3) by (simp add: rtw_tim_map_is_set_def rtw_tim_map_clear_def bmp.set_clr)

section \<open>Association ids\<close>

definition aid_cand :: "sta_priv \<Rightarrow> nat \<Rightarrow> nat" where
  "aid_cand sp k = (k + sp_started_aid sp - 1) mod sp_max_aid sp + 1"

definition aid_taken :: "sta_priv \<Rightarrow> nat \<Rightarrow> bool" where
  "aid_taken sp aid \<longleftrightarrow> sp_sta_aid sp ! (aid - 1) \<noteq> None"

definition aid_limit :: "sta_priv \<Rightarrow> nat" where
  "aid_limit sp = min (sp_max_aid sp) (sp_max_num_sta sp)"

lemma aid_loop_first:
  assumes "i < sp_max_num_sta sp"
  shows "case aid_loop sp i aid i of (k, aid', u) \<Rightarrow>
      let f = first_from (\<lambda>n. \<not> aid_taken sp (aid_cand sp n)) i (aid_limit sp) in
      if f < aid_limit sp then k = f \<and> aid' = aid_cand sp f \<and> u = f
      else k \<ge> sp_max_aid sp \<or> u \<ge> sp_max_num_sta sp"
  using assms
proof (induction "sp_max_aid sp - i" arbitrary: i aid)
  case 0
  then show ?case by (auto simp: aid_loop.simps [of _ i] first_from.simps [of _ i] aid_limit_def Let_def)
next
  case (Suc x)
  let ?c = "aid_cand sp i" and ?P = "\<lambda>n. \<not> aid_taken sp (aid_cand sp n)"
  have lt: "i < sp_max_aid sp" and lim: "i < aid_limit sp" using Suc.hyps(2) Suc.prems by (auto simp: aid_limit_def)
  have step: "aid_loop sp i aid i = (if \<not> aid_taken sp ?c then (i, ?c, i) else if i + 1 \<ge> sp_max_num_sta sp then (i, ?c, i + 1)
      else aid_loop sp (i + 1) ?c (i + 1))"
    using lt by (simp add: aid_loop.simps [of sp i] aid_cand_def aid_taken_def Let_def)
  have ff: "first_from ?P i (aid_limit sp) = (if \<not> aid_taken sp ?c then i else first_from ?P (i + 1) (aid_limit sp))"
    using lim by (simp add: first_from.simps [of ?P i])
  show ?case
  proof (cases "aid_taken sp ?c")
    case False
    then show ?thesis using step ff lim by (simp add: Let_def)
  next
    case taken: True
    show ?thesis
    proof (cases "i + 1 \<ge> sp_max_num_sta sp")
      case True
      then have "aid_limit sp \<le> i + 1" by (simp add: aid_limit_def)
      then have "\<not> first_from ?P (i + 1) (aid_limit sp) < aid_limit sp" by (simp add: first_from.simps [of ?P "Suc i"])
      then show ?thesis using True step ff taken by (simp add: Let_def)
    next
      case False
      then have "x = sp_max_aid sp - (i + 1)" "i + 1 < sp_max_num_sta sp" using Suc.hyps(2) by auto
      from Suc.hyps(1) [OF this, of ?c] show ?thesis using step ff taken False by simp
    qed
  qed
qed

text \<open>\<open>rtw_aid_alloc\<close> gives the station the first association id, counted from \<open>started_aid\<close> and
  wrapping, that no station has, looking at no more than the allowed number of stations; it
  returns 0 and changes no assignment exactly when there is none.\<close>

theorem rtw_aid_alloc_first_free:
  assumes "0 < sp_max_aid sp" and "0 < sp_max_num_sta sp" and "length (sp_sta_aid sp) = sp_max_aid sp"
  shows "case rtw_aid_alloc sp psta of (sp', aid) \<Rightarrow>
      if \<exists>n<aid_limit sp. \<not> aid_taken sp (aid_cand sp n)
      then 1 \<le> aid \<and> aid \<le> sp_max_aid sp \<and> \<not> aid_taken sp aid
        \<and> aid = aid_cand sp (LEAST n. \<not> aid_taken sp (aid_cand sp n))
        \<and> sp_sta_aid sp' = (sp_sta_aid sp)[aid - 1 := Some psta]
      else aid = 0 \<and> sp_sta_aid sp' = sp_sta_aid sp"
proof -
  let ?P = "\<lambda>n. \<not> aid_taken sp (aid_cand sp n)" and ?f = "first_from (\<lambda>n. \<not> aid_taken sp (aid_cand sp n)) 0 (aid_limit sp)"
  obtain k aid u where l: "aid_loop sp 0 0 0 = (k, aid, u)" by (metis prod_cases3)
  note spec = aid_loop_first [OF assms(2), of 0, unfolded l, simplified] and ff = first_from_spec [where P = ?P and start = 0 and num = "aid_limit sp"]
  have "?f < aid_limit sp \<longleftrightarrow> ?f \<noteq> aid_limit sp" using ff(2) by linarith
  then have ex: "(\<exists>n<aid_limit sp. ?P n) \<longleftrightarrow> ?f < aid_limit sp"
    using first_from_full [of 0 "aid_limit sp" ?P] by blast
  show ?thesis
  proof (cases "?f < aid_limit sp")
    case True
    then have k: "k = ?f" "aid = aid_cand sp ?f" "u = ?f" using spec by (simp_all add: Let_def)
    have "(LEAST n. ?P n) = ?f"
    proof (rule Least_equality)
      show "?P ?f" using ff(3) True by blast
      show "?f \<le> y" if "?P y" for y using ff(4) [of y] that by (meson le0 not_le)
    qed
    moreover have "1 \<le> aid" "aid \<le> sp_max_aid sp" using k(2) assms(1) by (simp_all add: aid_cand_def Suc_leI)
    moreover have "?f < sp_max_aid sp" "?f < sp_max_num_sta sp" "?P ?f" using True ff(3) by (simp_all add: aid_limit_def)
    ultimately show ?thesis using True k l unfolding ex by (simp add: rtw_aid_alloc_def Let_def)
  next
    case False
    then have "k \<ge> sp_max_aid sp \<or> u \<ge> sp_max_num_sta sp" using spec by (simp add: Let_def)
    then show ?thesis using False l unfolding ex by (simp add: rtw_aid_alloc_def Let_def)
  qed
qed

theorem rtw_aid_alloc_first_free_witness:
  "case rtw_aid_alloc sp0 3 of (sp', aid) \<Rightarrow>
      if \<exists>n<aid_limit sp0. \<not> aid_taken sp0 (aid_cand sp0 n)
      then 1 \<le> aid \<and> aid \<le> sp_max_aid sp0 \<and> \<not> aid_taken sp0 aid
        \<and> aid = aid_cand sp0 (LEAST n. \<not> aid_taken sp0 (aid_cand sp0 n))
        \<and> sp_sta_aid sp' = (sp_sta_aid sp0)[aid - 1 := Some 3]
      else aid = 0 \<and> sp_sta_aid sp' = sp_sta_aid sp0"
  by (rule rtw_aid_alloc_first_free)
    (simp_all add: sp0_def rtw_init_sta_priv_def Let_def macid_ctl0_def rtw_macid_ctl_init_def NUM_STA_def)

definition sp_ex :: sta_priv where
  "sp_ex = sta_upd (sp0\<lparr>sp_sta_aid := (sp_sta_aid sp0)[0 := Some 3]\<rparr>) 3 (\<lambda>s. s\<lparr>sta_aid_no := 1\<rparr>)"

lemma sp_ex_facts: "3 < length (sp_sta sp_ex)" "sp_hw_ap sp_ex" "sta_aid_no (sp_sta sp_ex ! 3) = 1" "sp_sta_aid sp_ex ! 0 = Some 3"
  "Suc 0 \<le> length (sp_sta_aid sp_ex)" "sp_tim_bitmap sp_ex = replicate 3 0"
  by (simp_all add: sp_ex_def sp0_def rtw_init_sta_priv_def Let_def macid_ctl0_def rtw_macid_ctl_init_def NUM_STA_def)

theorem rtw_free_stainfo_releases_witness:
  "let sp' = rtw_free_stainfo sp_ex (Some 3); s = sp_sta sp_ex ! 3; aid = sta_aid_no s in
      sp_free_recv sp' = sp_free_recv sp_ex @ concat (map pending_recvframe_queue (sta_reorder s)) @ sta_defrag_q s
    \<and> sp_freed_tx sp' = sp_freed_tx sp_ex @ sta_tx_queue s @ sta_sleep_q s @ sta_mgmt_sleep_q s @ concat (map fst (sta_servq s))
    \<and> (\<forall>c\<in>set (sta_reorder (sp_sta sp' ! 3)). pending_recvframe_queue c = [] \<and> \<not> reordering_ctrl_timer c)
    \<and> sp_sta_aid sp' ! (aid - 1) = None
    \<and> (\<forall>k. tim_traffic (tim_content 0 1 (sp_tim_bitmap sp')) k \<longleftrightarrow> k \<noteq> aid \<and> tim_traffic (tim_content 0 1 (sp_tim_bitmap sp_ex)) k)"
  by (rule rtw_free_stainfo_releases) (simp_all add: sp_ex_facts)

end
