(* ===== verification/Defrag.thy ===== *)
theory Defrag
  imports Recv_Decache Michael "HOL-Library.Multiset"
begin

text \<open>
  Reassembly of fragmented frames in \<open>core/rtw_recv.c\<close>: the buffer operations of
  \<open>include/rtw_recv.h\<close>, \<open>recvframe_defrag\<close>, \<open>recvframe_chkmic\<close> and \<open>recvframe_chk_defrag\<close>. The locale
  \<open>frame_window\<close> is the contract of the buffer operations; over it the lemmas show which queues, also
  of fragments under different ciphers, are accepted, that an accepted one gives the header of the first fragment followed by all payloads,
  and that no frame is lost or freed twice.
\<close>

section \<open>Frames\<close>

text \<open>\<open>fr_buf\<close> is the object from \<open>rx_head\<close> to \<open>rx_end\<close>; \<open>fr_data\<close> and \<open>fr_tail\<close> are offsets of
  \<open>rx_data\<close> and \<open>rx_tail\<close>. \<open>fr_no\<close> names the frame. \<open>fa_psta\<close> is the index of the transmitter in the
  station table, \<open>fa_preorder\<close> the TID of the reordering window the frame belongs to.\<close>

record rx_frame =
  fr_no :: nat
  fr_buf :: buf
  fr_data :: nat
  fr_tail :: nat
  fr_len :: nat
  fr_keytrack :: int
  fa_encrypt :: u8
  fa_hdrlen :: nat
  fa_iv_len :: nat
  fa_icv_len :: nat
  fa_frag_num :: nat
  fa_mfrag :: bool
  fa_ra :: buf
  fa_ta :: buf
  fa_dst :: buf
  fa_src :: buf
  fa_to_fr_ds :: nat
  fa_qos :: bool
  fa_amsdu :: bool
  fa_seq_num :: u16
  fa_bssid :: buf
  fa_order :: bool
  fa_ack_policy :: u8
  fa_psta :: "nat option"
  fa_preorder :: "nat option"
  fa_privacy :: bool
  fa_bdecrypted :: bool
  fa_key_index :: nat
  fa_priority :: u8

definition recvframe_pull :: "rx_frame \<Rightarrow> nat \<Rightarrow> rx_frame" where
  "recvframe_pull f sz =
     (if fr_data f + sz > fr_tail f then f else f\<lparr>fr_data := fr_data f + sz, fr_len := usub32 (fr_len f) sz\<rparr>)"

definition recvframe_put :: "rx_frame \<Rightarrow> nat \<Rightarrow> rx_frame" where
  "recvframe_put f sz =
     (if fr_tail f + sz > length (fr_buf f) then f else f\<lparr>fr_tail := fr_tail f + sz, fr_len := uadd32 (fr_len f) sz\<rparr>)"

definition recvframe_pull_tail :: "rx_frame \<Rightarrow> nat \<Rightarrow> rx_frame" where
  "recvframe_pull_tail f sz =
     (if fr_tail f < fr_data f + sz then f else f\<lparr>fr_tail := fr_tail f - sz, fr_len := usub32 (fr_len f) sz\<rparr>)"

section \<open>Reassembly\<close>

text \<open>\<open>_AES_\<close>, \<open>_CCMP_256_\<close>, \<open>_GCMP_\<close>, \<open>_GCMP_256_\<close>.\<close>

definition pn_cipher :: "u8 \<Rightarrow> bool" where
  "pn_cipher e \<longleftrightarrow> e = 0x04 \<or> e = 0x14 \<or> e = 0x07 \<or> e = 0x17"

definition frame_pn :: "rx_frame \<Rightarrow> u64 option" where
  "frame_pn f = do { hdr \<leftarrow> rd_n (fr_buf f) (fr_data f + fa_hdrlen f) 8; Some (CCMPH_2_PN (le64 hdr)) }"

text \<open>The loop over the second and later fragments. \<open>Some None\<close> is the result \<open>NULL\<close>, after which all
  fragments are freed.\<close>

fun defrag_loop :: "rx_frame \<Rightarrow> nat \<Rightarrow> u64 \<Rightarrow> rx_frame list \<Rightarrow> rx_frame option option" where
  "defrag_loop f curfragnum cur_pn [] = Some (Some f)"
| "defrag_loop f curfragnum cur_pn (g # gs) = do {
     pkt_pn \<leftarrow> (if pn_cipher (fa_encrypt g) then frame_pn g else Some 0);
     if pn_cipher (fa_encrypt g) \<and> pkt_pn \<noteq> cur_pn + 1 then Some None
     else if fr_keytrack f \<noteq> fr_keytrack g then Some None
     else if curfragnum \<noteq> fa_frag_num g then Some None
     else do {
       let cur_pn = (if pn_cipher (fa_encrypt g) then pkt_pn else cur_pn);
       let g' = recvframe_pull g ((fa_hdrlen g + fa_iv_len g) mod 2 ^ 8);
       if int (length (fr_buf f)) - int (fr_tail f) < int (fr_len g') then Some None
       else do {
         let f = recvframe_pull_tail f (fa_icv_len f);
         xs \<leftarrow> rd_n (fr_buf g') (fr_data g') (fr_len g');
         b \<leftarrow> wr_n (fr_buf f) (fr_tail f) xs;
         let f = recvframe_put (f\<lparr>fr_buf := b\<rparr>) (fr_len g');
         defrag_loop (f\<lparr>fa_icv_len := fa_icv_len g\<rparr>) ((curfragnum + 1) mod 2 ^ 8) cur_pn gs } } }"

text \<open>The result and the frames given to \<open>rtw_free_recvframe\<close>. The caller has just enqueued a frame, so
  the queue is not empty.\<close>

fun recvframe_defrag :: "rx_frame list \<Rightarrow> (rx_frame option \<times> nat list) option" where
  "recvframe_defrag [] = None"
| "recvframe_defrag (f # gs) = do {
     cur_pn \<leftarrow> (if pn_cipher (fa_encrypt f) then frame_pn f else Some 0);
     if fa_frag_num f \<noteq> 0 then Some (None, map fr_no (f # gs))
     else do {
       r \<leftarrow> defrag_loop f 1 cur_pn gs;
       Some (r, if r = None then map fr_no (f # gs) else map fr_no gs) } }"

section \<open>The check after reassembly\<close>

text \<open>What the code reads of the security state and of the transmitter. \<open>rx_mlme_key_index\<close> is
  \<open>pmlmeinfo->key_index\<close>; \<open>rx_mic_reports\<close> counts the calls of \<open>rtw_handle_tkip_mic_err\<close>.\<close>

record rx_sec =
  rx_grprxmickey :: "buf list"
  rx_binstallGrpkey :: bool
  rx_bcheck_grpkey :: bool
  rx_mlme_key_index :: nat
  rx_mic_reports :: nat

record rx_sta =
  rs_keytrack :: int
  rs_tkiprxmickey :: buf
  rs_defrag_q :: "rx_frame list"

definition rx_mcast :: "buf \<Rightarrow> bool" where
  "rx_mcast ra \<longleftrightarrow> ra ! 0 AND 1 \<noteq> 0"

text \<open>\<open>True\<close> is \<open>_SUCCESS\<close>.\<close>

definition recvframe_chkmic :: "rx_sec \<Rightarrow> rx_sta option \<Rightarrow> rx_frame \<Rightarrow> (bool \<times> rx_sec \<times> rx_frame) option" where
  "recvframe_chkmic sec stainfo f =
     (if fa_encrypt f \<noteq> 2 then Some (True, sec, f)
      else case stainfo of
          None \<Rightarrow> Some (True, sec, recvframe_pull_tail f 8)
        | Some sta \<Rightarrow>
            let mc = rx_mcast (fa_ra f) in
            if mc \<and> \<not> rx_binstallGrpkey sec then Some (False, sec, f)
            else do {
              mickey \<leftarrow> (if mc then (if fa_key_index f < length (rx_grprxmickey sec) then Some (rx_grprxmickey sec ! fa_key_index f) else None)
                       else Some (rs_tkiprxmickey sta));
              let datalen = usub32 (usub32 (usub32 (usub32 (fr_len f) (fa_hdrlen f)) (fa_iv_len f)) (fa_icv_len f)) 8;
              let payload = fr_data f + fa_hdrlen f + fa_iv_len f;
              miccode \<leftarrow> rtw_seccalctkipmic mickey (drop (fr_data f) (fr_buf f)) (drop payload (fr_buf f)) datalen (replicate 8 0) (fa_priority f);
              framemic \<leftarrow> rd_n (fr_buf f) (payload + datalen) 8;
              let f' = recvframe_pull_tail f 8;
              if miccode \<noteq> framemic then
                let brpt_micerror = \<not> (mc \<and> fa_key_index f \<noteq> rx_mlme_key_index sec) in
                Some (False, (if fa_bdecrypted f \<and> brpt_micerror then sec\<lparr>rx_mic_reports := rx_mic_reports sec + 1\<rparr> else sec), f')
              else Some (True, (if \<not> rx_bcheck_grpkey sec \<and> mc then sec\<lparr>rx_bcheck_grpkey := True\<rparr> else sec), f') })"

text \<open>\<open>psta\<close> is the station \<open>rtw_get_stainfo\<close> finds for the transmitter address, \<open>bcmc\<close> the broadcast
  station. The results are the frame to pass on, the two stations, the security state and the
  freed frames.\<close>

definition frame_is_data :: "rx_frame \<Rightarrow> bool option" where
  "frame_is_data f = do { fc \<leftarrow> RTW_GET_LE16 (fr_buf f) (fr_data f); Some (fc AND 0xC = 0x8) }"

record defrag_out =
  do_frame :: "rx_frame option"
  do_q :: "rx_frame list"
  do_sec :: rx_sec
  do_freed :: "nat list"

text \<open>The part of the function once the queue is known (\<open>None\<close> when there is none).\<close>

definition chk_defrag_q :: "rx_sec \<Rightarrow> rx_sta option \<Rightarrow> rx_sta option \<Rightarrow> rx_frame \<Rightarrow> defrag_out option" where
  "chk_defrag_q sec psta qsta f =
     (let q = (case qsta of None \<Rightarrow> [] | Some s \<Rightarrow> rs_defrag_q s);
          out = \<lparr>do_frame = None, do_q = q, do_sec = sec, do_freed = []\<rparr> in
      if (fa_mfrag f \<or> fa_frag_num f \<noteq> 0) \<and> rx_mcast (fa_ra f) then Some (out\<lparr>do_freed := [fr_no f]\<rparr>)
      else do {
        let f = (if fa_mfrag f \<or> fa_frag_num f \<noteq> 0 then (case qsta of None \<Rightarrow> f | Some s \<Rightarrow> f\<lparr>fr_keytrack := rs_keytrack s\<rparr>) else f);
        out \<leftarrow>
          (if fa_mfrag f then
             (if qsta = None then Some (out\<lparr>do_freed := [fr_no f]\<rparr>)
              else if fa_frag_num f = 0 then Some (out\<lparr>do_q := [f], do_freed := map fr_no q\<rparr>)
              else Some (out\<lparr>do_q := q @ [f]\<rparr>))
           else if fa_frag_num f \<noteq> 0 then
             (if qsta = None then Some (out\<lparr>do_freed := [fr_no f]\<rparr>)
              else do { (r, freed) \<leftarrow> recvframe_defrag (q @ [f]); Some (out\<lparr>do_frame := r, do_q := [], do_freed := freed\<rparr>) })
           else Some (out\<lparr>do_frame := Some f\<rparr>));
        (case do_frame out of
           None \<Rightarrow> Some out
         | Some p \<Rightarrow>
             if fa_privacy p then do {
               (ok, sec, p) \<leftarrow> recvframe_chkmic sec psta p;
               Some (out\<lparr>do_sec := sec, do_frame := (if ok then Some p else None),
                      do_freed := do_freed out @ (if ok then [] else [fr_no p])\<rparr>) }
             else Some out) })"

definition recvframe_chk_defrag :: "rx_sec \<Rightarrow> rx_sta option \<Rightarrow> rx_sta option \<Rightarrow> rx_frame \<Rightarrow> defrag_out option" where
  "recvframe_chk_defrag sec psta bcmc f =
     (case psta of
        Some s \<Rightarrow> chk_defrag_q sec psta (Some s) f
      | None \<Rightarrow> do { is_data \<leftarrow> frame_is_data f; chk_defrag_q sec psta (if is_data then None else bcmc) f })"

section \<open>Windows into a buffer\<close>

text \<open>The contract: \<open>body\<close> is the part of the buffer in use, \<open>room\<close> what is free behind it.\<close>

locale frame_window =
  fixes body :: "'f \<Rightarrow> buf" and room :: "'f \<Rightarrow> nat" and ok :: "'f \<Rightarrow> bool"
    and pull :: "'f \<Rightarrow> nat \<Rightarrow> 'f" and pull_tail :: "'f \<Rightarrow> nat \<Rightarrow> 'f" and append_to :: "'f \<Rightarrow> buf \<Rightarrow> 'f option"
  assumes pull_ok: "ok f \<Longrightarrow> ok (pull f n)"
    and pull_body: "ok f \<Longrightarrow> n \<le> length (body f) \<Longrightarrow> body (pull f n) = drop n (body f)"
    and pull_tail_ok: "ok f \<Longrightarrow> ok (pull_tail f n)"
    and pull_tail_body: "ok f \<Longrightarrow> n \<le> length (body f) \<Longrightarrow> body (pull_tail f n) = take (length (body f) - n) (body f)"
    and pull_tail_room: "ok f \<Longrightarrow> n \<le> length (body f) \<Longrightarrow> room (pull_tail f n) = room f + n"
    and append_to: "ok f \<Longrightarrow> length xs \<le> room f \<Longrightarrow>
      \<exists>f'. append_to f xs = Some f' \<and> ok f' \<and> body f' = body f @ xs \<and> room f' = room f - length xs"
begin

lemma strip_and_append:
  assumes "ok f" and "ok g" and "icv \<le> length (body f)" and "off \<le> length (body g)" and "length (body g) - off \<le> room f"
  shows "\<exists>f'. append_to (pull_tail f icv) (body (pull g off)) = Some f' \<and> ok f'
    \<and> body f' = take (length (body f) - icv) (body f) @ drop off (body g)
    \<and> room f' = room f + icv - (length (body g) - off)"
proof -
  have "length (body (pull g off)) \<le> room (pull_tail f icv)"
    using pull_body [OF assms(2,4)] pull_tail_room [OF assms(1,3)] assms(5) by simp
  from append_to [OF pull_tail_ok [OF assms(1)] this] show ?thesis
    using pull_body [OF assms(2,4)] pull_tail_body [OF assms(1,3)] pull_tail_room [OF assms(1,3)] by simp
qed

end

definition frame_body :: "rx_frame \<Rightarrow> buf" where
  "frame_body f = take (fr_tail f - fr_data f) (drop (fr_data f) (fr_buf f))"

definition frame_room :: "rx_frame \<Rightarrow> nat" where
  "frame_room f = length (fr_buf f) - fr_tail f"

definition frame_ok :: "rx_frame \<Rightarrow> bool" where
  "frame_ok f \<longleftrightarrow> fr_data f \<le> fr_tail f \<and> fr_tail f \<le> length (fr_buf f) \<and> fr_len f = fr_tail f - fr_data f
     \<and> length (fr_buf f) < 2 ^ 31"

text \<open>\<open>_rtw_memcpy\<close> to \<open>rx_tail\<close> and \<open>recvframe_put\<close>.\<close>

definition frame_append :: "rx_frame \<Rightarrow> buf \<Rightarrow> rx_frame option" where
  "frame_append f xs = do { b \<leftarrow> wr_n (fr_buf f) (fr_tail f) xs; Some (recvframe_put (f\<lparr>fr_buf := b\<rparr>) (length xs)) }"

lemma length_frame_body: "frame_ok f \<Longrightarrow> length (frame_body f) = fr_len f"
  by (auto simp: frame_body_def frame_ok_def)

interpretation fw: frame_window frame_body frame_room frame_ok recvframe_pull recvframe_pull_tail frame_append
proof
  fix f :: rx_frame and n :: nat and xs :: buf
  assume f: "frame_ok f"
  note len = length_frame_body [OF f]
  show "frame_ok (recvframe_pull f n)" "frame_ok (recvframe_pull_tail f n)"
    using f by (auto simp: frame_ok_def recvframe_pull_def recvframe_pull_tail_def usub32_le)
  show "frame_body (recvframe_pull f n) = drop n (frame_body f)" if "n \<le> length (frame_body f)"
    using that f len by (auto simp: frame_ok_def frame_body_def recvframe_pull_def drop_take add.commute)
  show "frame_body (recvframe_pull_tail f n) = take (length (frame_body f) - n) (frame_body f)"
    "frame_room (recvframe_pull_tail f n) = frame_room f + n" if "n \<le> length (frame_body f)"
    using that f unfolding len by (auto simp: frame_ok_def frame_body_def frame_room_def recvframe_pull_tail_def add.commute)
  show "\<exists>f'. frame_append f xs = Some f' \<and> frame_ok f' \<and> frame_body f' = frame_body f @ xs \<and> frame_room f' = frame_room f - length xs"
    if "length xs \<le> frame_room f"
  proof -
    have fit: "fr_tail f + length xs \<le> length (fr_buf f)" using that f by (auto simp: frame_ok_def frame_room_def)
    then have "frame_append f xs = Some (f\<lparr>fr_buf := take (fr_tail f) (fr_buf f) @ xs @ drop (fr_tail f + length xs) (fr_buf f),
        fr_tail := fr_tail f + length xs, fr_len := fr_len f + length xs\<rparr>)"
      using f uadd32_small [of "fr_len f" "length xs"] by (auto simp: frame_append_def wr_n_def recvframe_put_def frame_ok_def)
    then show ?thesis using fit f by (auto simp: frame_ok_def frame_body_def frame_room_def drop_take)
  qed
qed

section \<open>What reassembly computes\<close>

text \<open>A received frame is sound when its window lies in the buffer and holds the header, the IV and
  the ICV, and when the IV of the ciphers with a packet number has its eight bytes.\<close>

definition hdr_off :: "rx_frame \<Rightarrow> nat" where
  "hdr_off f = fa_hdrlen f + fa_iv_len f"

definition frame_wf :: "rx_frame \<Rightarrow> bool" where
  "frame_wf f \<longleftrightarrow> frame_ok f \<and> hdr_off f < 2 ^ 8 \<and> hdr_off f + fa_icv_len f \<le> fr_len f
     \<and> (pn_cipher (fa_encrypt f) \<longrightarrow> 8 \<le> fa_iv_len f)"

definition payload :: "rx_frame \<Rightarrow> buf" where
  "payload f = drop (hdr_off f) (frame_body f)"

definition hdr_pn :: "rx_frame \<Rightarrow> u64" where
  "hdr_pn f = CCMPH_2_PN (le64 (take 8 (drop (fa_hdrlen f) (frame_body f))))"

text \<open>The fragments that may follow: numbered on from \<open>k\<close>, received while the key of the first was in use, and those
  under CCMP or GCMP carry the packet numbers that follow \<open>pn\<close>. Fragments under another cipher or none may
  stand between them.\<close>

definition pns_of :: "rx_frame list \<Rightarrow> u64 list" where
  "pns_of gs = map hdr_pn (filter (\<lambda>g. pn_cipher (fa_encrypt g)) gs)"

definition follows_from :: "nat \<Rightarrow> u64 \<Rightarrow> int \<Rightarrow> rx_frame list \<Rightarrow> bool" where
  "follows_from k pn kt gs \<longleftrightarrow> (\<forall>i < length gs. fa_frag_num (gs ! i) = (k + i) mod 2 ^ 8 \<and> fr_keytrack (gs ! i) = kt)
     \<and> (\<forall>j < length (pns_of gs). pns_of gs ! j = pn + of_nat (Suc j))"

lemma follows_from_Cons:
  "follows_from k pn kt (g # gs) \<longleftrightarrow> fa_frag_num g = k mod 2 ^ 8 \<and> fr_keytrack g = kt \<and> (pn_cipher (fa_encrypt g) \<longrightarrow> hdr_pn g = pn + 1)
     \<and> follows_from (Suc k) (if pn_cipher (fa_encrypt g) then pn + 1 else pn) kt gs"
proof -
  have pns: "pns_of (g # gs) = (if pn_cipher (fa_encrypt g) then hdr_pn g # pns_of gs else pns_of gs)" by (simp add: pns_of_def)
  show ?thesis unfolding follows_from_def pns by (auto simp: nth_Cons less_Suc_eq_0_disj add.assoc)
qed

text \<open>The text of the reassembled frame: every fragment but the last loses its ICV. \<open>fits\<close> says that each
  payload has room behind the text, ICV included, gathered before it.\<close>

fun joined :: "buf \<Rightarrow> nat \<Rightarrow> rx_frame list \<Rightarrow> buf" where
  "joined b icv [] = b"
| "joined b icv (g # gs) = take (length b - icv) b @ joined (payload g) (fa_icv_len g) gs"

fun fits :: "nat \<Rightarrow> nat \<Rightarrow> rx_frame list \<Rightarrow> bool" where
  "fits space icv [] = True"
| "fits space icv (g # gs) \<longleftrightarrow> length (payload g) \<le> space \<and> fits (space + icv - length (payload g)) (fa_icv_len g) gs"

lemma frame_pn_wf: "frame_wf f \<Longrightarrow> pn_cipher (fa_encrypt f) \<Longrightarrow> frame_pn f = Some (hdr_pn f)"
  by (auto simp: frame_wf_def frame_ok_def frame_pn_def hdr_pn_def hdr_off_def rd_n_def frame_body_def drop_take min_def
      add.commute)

lemma joined_append:
  "icv \<le> length p \<Longrightarrow> joined (b @ p) icv gs = b @ joined p icv gs"
  by (cases gs) simp_all

lemma length_payload: "frame_wf g \<Longrightarrow> length (payload g) = fr_len g - hdr_off g"
  by (simp add: payload_def frame_wf_def length_frame_body)

lemma icv_in_payload: "frame_wf g \<Longrightarrow> fa_icv_len g \<le> length (payload g)"
  unfolding length_payload by (auto simp: frame_wf_def)

lemma rd_frame_body: "frame_ok f \<Longrightarrow> rd_n (fr_buf f) (fr_data f) (fr_len f) = Some (frame_body f)"
  by (simp add: frame_ok_def frame_body_def rd_n_Some)

lemma frame_append_frame:
  assumes "frame_append f xs = Some f'"
  shows "fr_no f' = fr_no f" and "fr_keytrack f' = fr_keytrack f" and "fa_privacy f' = fa_privacy f"
    and "fa_encrypt f' = fa_encrypt f" and "fa_hdrlen f' = fa_hdrlen f" and "fa_iv_len f' = fa_iv_len f"
  using assms by (auto simp: frame_append_def recvframe_put_def split: bind_splits if_splits)

lemma pull_tail_frame [simp]:
  "fr_no (recvframe_pull_tail f n) = fr_no f" "fr_keytrack (recvframe_pull_tail f n) = fr_keytrack f"
  "fa_privacy (recvframe_pull_tail f n) = fa_privacy f" "fa_encrypt (recvframe_pull_tail f n) = fa_encrypt f"
  by (simp_all add: recvframe_pull_tail_def)

definition joins :: "rx_frame \<Rightarrow> rx_frame \<Rightarrow> rx_frame \<Rightarrow> bool" where
  "joins f g f' \<longleftrightarrow> frame_ok f' \<and> frame_body f' = take (length (frame_body f) - fa_icv_len f) (frame_body f) @ payload g
     \<and> frame_room f' = frame_room f + fa_icv_len f - length (payload g) \<and> fa_icv_len f' = fa_icv_len g
     \<and> fr_keytrack f' = fr_keytrack f \<and> fr_no f' = fr_no f \<and> fa_privacy f' = fa_privacy f \<and> fa_encrypt f' = fa_encrypt f"

lemma pull_payload:
  assumes "frame_wf g"
  shows "frame_ok (recvframe_pull g (hdr_off g mod 2 ^ 8))" and "frame_body (recvframe_pull g (hdr_off g mod 2 ^ 8)) = payload g"
    and "fr_len (recvframe_pull g (hdr_off g mod 2 ^ 8)) = length (payload g)"
proof -
  have ok: "frame_ok g" and le: "hdr_off g \<le> length (frame_body g)" and m: "hdr_off g mod 2 ^ 8 = hdr_off g"
    using assms by (auto simp: frame_wf_def length_frame_body)
  show ok': "frame_ok (recvframe_pull g (hdr_off g mod 2 ^ 8))" by (rule fw.pull_ok [OF ok])
  show b: "frame_body (recvframe_pull g (hdr_off g mod 2 ^ 8)) = payload g"
    unfolding m payload_def by (rule fw.pull_body [OF ok le])
  show "fr_len (recvframe_pull g (hdr_off g mod 2 ^ 8)) = length (payload g)"
    using length_frame_body [OF ok'] b by simp
qed

lemma room_check: "frame_ok f \<Longrightarrow> int (length (fr_buf f)) - int (fr_tail f) < int n \<longleftrightarrow> \<not> n \<le> frame_room f"
  by (auto simp: frame_ok_def frame_room_def)

lemma defrag_loop_join:
  assumes f: "frame_ok f" "fa_icv_len f \<le> length (frame_body f)" and g: "frame_wf g"
    and "fa_frag_num g = k mod 2 ^ 8" "fr_keytrack g = fr_keytrack f" "pn_cipher (fa_encrypt g) \<longrightarrow> hdr_pn g = pn + 1"
    and room: "length (payload g) \<le> frame_room f"
  shows "\<exists>f'. joins f g f' \<and> defrag_loop f (k mod 2 ^ 8) pn (g # gs)
    = defrag_loop f' (Suc k mod 2 ^ 8) (if pn_cipher (fa_encrypt g) then pn + 1 else pn) gs"
proof -
  let ?g = "recvframe_pull g (hdr_off g mod 2 ^ 8)"
  note p = pull_payload [OF g]
  have gw: "frame_ok g" "hdr_off g \<le> length (frame_body g)" "length (frame_body g) - hdr_off g \<le> frame_room f"
    "hdr_off g mod 2 ^ 8 = hdr_off g"
    using g room by (auto simp: frame_wf_def length_frame_body payload_def)
  from fw.strip_and_append [OF f(1) gw(1) f(2) gw(2,3)] p(2) gw(4) obtain f1 where
    app: "frame_append (recvframe_pull_tail f (fa_icv_len f)) (payload g) = Some f1" and ok: "frame_ok f1"
    and body: "frame_body f1 = take (length (frame_body f) - fa_icv_len f) (frame_body f) @ payload g"
    and rm: "frame_room f1 = frame_room f + fa_icv_len f - length (payload g)" by (auto simp: payload_def)
  let ?f' = "f1\<lparr>fa_icv_len := fa_icv_len g\<rparr>"
  have "joins f g ?f'"
    using ok body rm frame_append_frame [OF app] by (simp add: joins_def frame_ok_def frame_body_def frame_room_def)
  moreover have "defrag_loop f (k mod 2 ^ 8) pn (g # gs)
    = defrag_loop ?f' (Suc k mod 2 ^ 8) (if pn_cipher (fa_encrypt g) then pn + 1 else pn) gs"
    using assms(4-6) room app frame_pn_wf [OF g] rd_frame_body [OF p(1)] p(2,3)
    by (auto simp: Let_def hdr_off_def [symmetric] room_check [OF f(1)] frame_append_def mod_Suc_eq split: bind_splits)
  ultimately show ?thesis by blast
qed

lemma defrag_loop_reject:
  assumes "frame_ok f" and g: "frame_wf g"
    and "\<not> (fa_frag_num g = k mod 2 ^ 8 \<and> fr_keytrack g = fr_keytrack f \<and> (pn_cipher (fa_encrypt g) \<longrightarrow> hdr_pn g = pn + 1)
        \<and> length (payload g) \<le> frame_room f)"
  shows "defrag_loop f (k mod 2 ^ 8) pn (g # gs) = Some None"
  using assms(3) frame_pn_wf [OF g] pull_payload(3) [OF g]
  by (auto simp: Let_def hdr_off_def [symmetric] room_check [OF assms(1)])

lemma defrag_loop_accepts:
  assumes "frame_ok f" "fa_icv_len f \<le> length (frame_body f)" "\<forall>g\<in>set gs. frame_wf g"
    and "follows_from k pn (fr_keytrack f) gs" "fits (frame_room f) (fa_icv_len f) gs"
  shows "\<exists>r. defrag_loop f (k mod 2 ^ 8) pn gs = Some (Some r) \<and> frame_ok r \<and> fr_no r = fr_no f
    \<and> frame_body r = joined (frame_body f) (fa_icv_len f) gs \<and> fa_privacy r = fa_privacy f \<and> fa_encrypt r = fa_encrypt f"
  using assms
proof (induction gs arbitrary: f k pn)
  case (Cons g gs)
  let ?pn = "if pn_cipher (fa_encrypt g) then pn + 1 else pn"
  have g: "frame_wf g" and ff: "fa_frag_num g = k mod 2 ^ 8" "fr_keytrack g = fr_keytrack f" "pn_cipher (fa_encrypt g) \<longrightarrow> hdr_pn g = pn + 1"
    and fo: "follows_from (Suc k) ?pn (fr_keytrack f) gs" and room: "length (payload g) \<le> frame_room f"
    using Cons.prems by (auto simp: follows_from_Cons)
  from defrag_loop_join [OF Cons.prems(1,2) g ff room] obtain f' where j: "joins f g f'"
    and l: "defrag_loop f (k mod 2 ^ 8) pn (g # gs) = defrag_loop f' (Suc k mod 2 ^ 8) ?pn gs" by blast
  have icv: "fa_icv_len g \<le> length (payload g)" by (rule icv_in_payload [OF g])
  have f': "frame_ok f'" "fa_icv_len f' \<le> length (frame_body f')" "follows_from (Suc k) ?pn (fr_keytrack f') gs"
    "fits (frame_room f') (fa_icv_len f') gs"
    using j icv fo Cons.prems(5) by (auto simp: joins_def)
  from Cons.IH [OF f'(1,2) _ f'(3,4)] Cons.prems(3) obtain r where
    r: "defrag_loop f' (Suc k mod 2 ^ 8) ?pn gs = Some (Some r)" "frame_ok r"
    "fr_no r = fr_no f'" "frame_body r = joined (frame_body f') (fa_icv_len f') gs" "fa_privacy r = fa_privacy f'" "fa_encrypt r = fa_encrypt f'"
    by auto
  then show ?case unfolding l using j icv by (auto simp: joins_def joined_append)
qed simp

lemma defrag_loop_refuses:
  assumes "frame_ok f" "fa_icv_len f \<le> length (frame_body f)" "\<forall>g\<in>set gs. frame_wf g"
    and "\<not> (follows_from k pn (fr_keytrack f) gs \<and> fits (frame_room f) (fa_icv_len f) gs)"
  shows "defrag_loop f (k mod 2 ^ 8) pn gs = Some None"
  using assms
proof (induction gs arbitrary: f k pn)
  case Nil
  then show ?case by (simp add: follows_from_def pns_of_def)
next
  case (Cons g gs)
  let ?here = "fa_frag_num g = k mod 2 ^ 8 \<and> fr_keytrack g = fr_keytrack f \<and> (pn_cipher (fa_encrypt g) \<longrightarrow> hdr_pn g = pn + 1)
        \<and> length (payload g) \<le> frame_room f"
  let ?pn = "if pn_cipher (fa_encrypt g) then pn + 1 else pn"
  have g: "frame_wf g" using Cons.prems by simp
  show ?case
  proof (cases ?here)
    case True
    then obtain f' where j: "joins f g f'" and l: "defrag_loop f (k mod 2 ^ 8) pn (g # gs) = defrag_loop f' (Suc k mod 2 ^ 8) ?pn gs"
      using defrag_loop_join [OF Cons.prems(1,2) g] by blast
    have icv: "fa_icv_len g \<le> length (payload g)" by (rule icv_in_payload [OF g])
    have rest: "\<not> (follows_from (Suc k) ?pn (fr_keytrack f') gs \<and> fits (frame_room f') (fa_icv_len f') gs)"
      using Cons.prems(4) True j by (auto simp: follows_from_Cons joins_def)
    have f': "frame_ok f'" "fa_icv_len f' \<le> length (frame_body f')" using j icv by (auto simp: joins_def)
    show ?thesis unfolding l using Cons.IH [OF f' _ rest] Cons.prems(3) by simp
  qed (rule defrag_loop_reject [OF Cons.prems(1) g])
qed

text \<open>C16: Reassembly is exact. For sound fragments, whatever their ciphers, \<open>recvframe_defrag\<close> succeeds just when
  the first is number 0, the others are numbered on from it and were received while the same key was in
  use, those under CCMP or GCMP carry consecutive packet numbers (from that of the first fragment, or from 1
  when the first has none), and all fit into the buffer of the first. Then
  the result is the first frame, its text is the header and payload of the first fragment followed
  by all later payloads, each ICV but the last removed, and just the other fragments are freed;
  otherwise there is no result and all fragments are freed. So fragments under other ciphers, or unencrypted ones, may
  be mixed with encrypted ones as far as this function goes.\<close>

theorem recvframe_defrag_exact:
  assumes "\<forall>g\<in>set (f # gs). frame_wf g"
  shows "if fa_frag_num f = 0 \<and> follows_from 1 (if pn_cipher (fa_encrypt f) then hdr_pn f else 0) (fr_keytrack f) gs
        \<and> fits (frame_room f) (fa_icv_len f) gs
    then \<exists>r. recvframe_defrag (f # gs) = Some (Some r, map fr_no gs) \<and> fr_no r = fr_no f
        \<and> frame_body r = joined (frame_body f) (fa_icv_len f) gs
    else recvframe_defrag (f # gs) = Some (None, map fr_no (f # gs))"
proof -
  let ?pn = "if pn_cipher (fa_encrypt f) then hdr_pn f else 0"
  have f: "frame_ok f" "fa_icv_len f \<le> length (frame_body f)" and gs: "\<forall>g\<in>set gs. frame_wf g"
    using assms by (auto simp: frame_wf_def length_frame_body)
  have pn: "(if pn_cipher (fa_encrypt f) then frame_pn f else Some 0) = Some ?pn"
    using assms frame_pn_wf [of f] by simp
  show ?thesis
    using defrag_loop_accepts [OF f gs, of 1 ?pn] defrag_loop_refuses [OF f gs, of 1 ?pn] pn by auto
qed

text \<open>A two-fragment example: 24 bytes of header, 8 of IV, the ICV of the first fragment removed.\<close>

definition ex_frag :: "nat \<Rightarrow> bool \<Rightarrow> u8 \<Rightarrow> buf \<Rightarrow> rx_frame" where
  "ex_frag n mf pn xs = \<lparr>fr_no = n, fr_buf = replicate 24 0 @ [pn, 0, 0, 0, 0, 0, 0, 0] @ xs @ replicate 16 0,
     fr_data = 0, fr_tail = 32 + length xs, fr_len = 32 + length xs, fr_keytrack = 0, fa_encrypt = 0x04, fa_hdrlen = 24,
     fa_iv_len = 8, fa_icv_len = 2, fa_frag_num = n, fa_mfrag = mf, fa_ra = replicate 6 0, fa_ta = replicate 6 2,
     fa_dst = replicate 6 0, fa_src = replicate 6 2, fa_to_fr_ds = 2, fa_qos = True, fa_amsdu = False, fa_seq_num = 5,
     fa_bssid = replicate 6 2, fa_order = False, fa_ack_policy = 0, fa_psta = None, fa_preorder = None, fa_privacy = True,
     fa_bdecrypted = True, fa_key_index = 0, fa_priority = 0\<rparr>"

lemma le64_small: "le64 [x, 0, 0, 0, 0, 0, 0, 0] = ucast x"
  by (simp add: le64_def)

theorem recvframe_defrag_exact_witness:
  "\<exists>r. recvframe_defrag [ex_frag 0 True 7 [1, 2, 9, 9], ex_frag 1 False 8 [3, 4, 8, 8]] = Some (Some r, [1]) \<and> fr_no r = 0
     \<and> drop 32 (frame_body r) = [1, 2, 3, 4, 8, 8]"
proof -
  define f g where fd: "f = ex_frag 0 True 7 [1, 2, 9, 9]" and gd: "g = ex_frag 1 False 8 [3, 4, 8, 8]"
  have wf: "\<forall>h\<in>set [f, g]. frame_wf h" by (simp add: fd gd frame_wf_def frame_ok_def ex_frag_def hdr_off_def)
  have kind: "pn_cipher (fa_encrypt f)" "pn_cipher (fa_encrypt g)" by (simp_all add: fd gd ex_frag_def pn_cipher_def)
  have pns: "hdr_pn f = 7" "hdr_pn g = 8"
    by (simp_all add: fd gd hdr_pn_def frame_body_def ex_frag_def le64_small CCMPH_2_PN_def)
  have p: "payload g = [3, 4, 8, 8]" by (simp add: gd payload_def frame_body_def ex_frag_def hdr_off_def)
  have at: "fa_frag_num f = 0" "fa_frag_num g = 1" "fr_keytrack f = fr_keytrack g" "frame_room f = 16" "fr_no f = 0" "fr_no g = 1"
    by (simp_all add: fd gd ex_frag_def frame_room_def)
  have "follows_from 1 (if pn_cipher (fa_encrypt f) then hdr_pn f else 0) (fr_keytrack f) [g]" "fits (frame_room f) (fa_icv_len f) [g]"
    by (simp_all add: follows_from_def pns_of_def kind pns p at)
  moreover have "drop 32 (joined (frame_body f) (fa_icv_len f) [g]) = [1, 2, 3, 4, 8, 8]"
    by (simp add: p) (simp add: frame_body_def fd ex_frag_def)
  ultimately show ?thesis
    using recvframe_defrag_exact [OF wf] at unfolding fd [symmetric] gd [symmetric]
    by (auto simp del: recvframe_defrag.simps joined.simps)
qed

section \<open>No fragment is lost\<close>

lemma defrag_loop_no: "defrag_loop f k pn gs = Some (Some r) \<Longrightarrow> fr_no r = fr_no f"
proof (induction gs arbitrary: f k pn)
  case (Cons g gs)
  then obtain f' k' pn' where "defrag_loop f' k' pn' gs = Some (Some r)" "fr_no f' = fr_no f"
    by (fastforce simp: Let_def recvframe_put_def split: bind_splits if_splits)
  with Cons.IH show ?case by simp
qed simp

lemma recvframe_defrag_frees:
  assumes "recvframe_defrag q = Some (r, freed)"
  shows "mset freed + (case r of None \<Rightarrow> {#} | Some p \<Rightarrow> {#fr_no p#}) = mset (map fr_no q)"
  using assms by (cases q) (auto split: bind_splits if_splits option.splits dest: defrag_loop_no)

lemma recvframe_chkmic_no: "recvframe_chkmic sec sta f = Some (ok, sec', f') \<Longrightarrow> fr_no f' = fr_no f"
  by (auto simp: recvframe_chkmic_def Let_def split: bind_splits if_splits option.splits)

definition out_frames :: "defrag_out \<Rightarrow> nat multiset" where
  "out_frames out = mset (map fr_no (do_q out)) + mset (do_freed out)
     + (case do_frame out of None \<Rightarrow> {#} | Some p \<Rightarrow> {#fr_no p#})"

text \<open>The station whose queue the frame belongs to.\<close>

definition queue_sta :: "rx_sta option \<Rightarrow> rx_sta option \<Rightarrow> rx_frame \<Rightarrow> rx_sta option" where
  "queue_sta psta bcmc f = (if psta \<noteq> None then psta else if frame_is_data f = Some True then None else bcmc)"

definition sta_q :: "rx_sta option \<Rightarrow> rx_frame list" where
  "sta_q s = (case s of None \<Rightarrow> [] | Some s \<Rightarrow> rs_defrag_q s)"

lemma recvframe_chk_defrag_queue:
  "recvframe_chk_defrag sec psta bcmc f = Some out \<Longrightarrow> chk_defrag_q sec psta (queue_sta psta bcmc f) f = Some out"
  by (auto simp: recvframe_chk_defrag_def queue_sta_def split: option.splits bind_splits if_splits)

text \<open>The function in two steps: what happens to the queue, and the MIC check of a returned frame.\<close>

definition mic_step :: "rx_sec \<Rightarrow> rx_sta option \<Rightarrow> defrag_out \<Rightarrow> defrag_out option" where
  "mic_step sec psta out =
     (case do_frame out of
        None \<Rightarrow> Some out
      | Some p \<Rightarrow>
          if fa_privacy p then do {
            (ok, sec, p) \<leftarrow> recvframe_chkmic sec psta p;
            Some (out\<lparr>do_sec := sec, do_frame := (if ok then Some p else None),
                   do_freed := do_freed out @ (if ok then [] else [fr_no p])\<rparr>) }
          else Some out)"

lemma mic_step_frames: "mic_step sec psta out = Some out' \<Longrightarrow> out_frames out' = out_frames out \<and> do_q out' = do_q out"
  by (auto simp: mic_step_def out_frames_def split: option.splits if_splits bind_splits dest!: recvframe_chkmic_no)

lemma recvframe_chk_defrag_frames:
  assumes "recvframe_chk_defrag sec psta bcmc f = Some out"
  shows "out_frames out = mset (map fr_no (sta_q (queue_sta psta bcmc f))) + {#fr_no f#}
    \<and> (fa_mfrag f \<or> fa_frag_num f \<noteq> 0 \<longrightarrow> rx_mcast (fa_ra f) \<longrightarrow>
        do_frame out = None \<and> do_q out = sta_q (queue_sta psta bcmc f) \<and> do_freed out = [fr_no f])
    \<and> (\<not> fa_mfrag f \<longrightarrow> fa_frag_num f \<noteq> 0 \<longrightarrow> \<not> rx_mcast (fa_ra f) \<longrightarrow> do_q out = [])"
proof -
  let ?qs = "queue_sta psta bcmc f"
  note q = recvframe_chk_defrag_queue [OF assms, unfolded chk_defrag_q_def Let_def, folded mic_step_def sta_q_def]
  consider (mc) "fa_mfrag f \<or> fa_frag_num f \<noteq> 0" "rx_mcast (fa_ra f)"
    | (whole) "\<not> fa_mfrag f" "fa_frag_num f = 0" | (more) "fa_mfrag f" "\<not> rx_mcast (fa_ra f)"
    | (last) "\<not> fa_mfrag f" "fa_frag_num f \<noteq> 0" "\<not> rx_mcast (fa_ra f)" by blast
  then show ?thesis
  proof cases
    case mc
    with q show ?thesis by (auto simp: out_frames_def)
  next
    case whole
    with q show ?thesis by (auto simp: out_frames_def dest!: mic_step_frames)
  next
    case more
    with q show ?thesis
      by (auto simp: mic_step_def out_frames_def sta_q_def split: option.splits if_splits)
  next
    case last
    show ?thesis
    proof (cases ?qs)
      case None
      with q last show ?thesis by (auto simp: mic_step_def out_frames_def sta_q_def)
    next
      case (Some s)
      with q last obtain r freed where
        d: "recvframe_defrag (sta_q ?qs @ [f\<lparr>fr_keytrack := rs_keytrack s\<rparr>]) = Some (r, freed)"
        and m: "mic_step sec psta \<lparr>do_frame = r, do_q = [], do_sec = sec, do_freed = freed\<rparr> = Some out"
        by (auto split: bind_splits)
      from mic_step_frames [OF m] recvframe_defrag_frees [OF d] last show ?thesis
        by (auto simp: out_frames_def)
    qed
  qed
qed

text \<open>C26: No fragment is lost and none is freed twice: the frames waiting in the queue afterwards, the
  frame passed on and the freed frames are together just the frames that were waiting and the
  received one. A fragment addressed to a group is freed and leaves the queue as it was
  (CVE-2020-26145), and after the last fragment of a frame the queue is empty.\<close>

theorem recvframe_chk_defrag_conserves:
  assumes "recvframe_chk_defrag sec psta bcmc f = Some out"
  shows "out_frames out = mset (map fr_no (sta_q (queue_sta psta bcmc f))) + {#fr_no f#}
    \<and> (fa_mfrag f \<or> fa_frag_num f \<noteq> 0 \<longrightarrow> rx_mcast (fa_ra f) \<longrightarrow>
        do_frame out = None \<and> do_q out = sta_q (queue_sta psta bcmc f) \<and> do_freed out = [fr_no f])
    \<and> (\<not> fa_mfrag f \<longrightarrow> fa_frag_num f \<noteq> 0 \<longrightarrow> \<not> rx_mcast (fa_ra f) \<longrightarrow> do_q out = [])"
  by (rule recvframe_chk_defrag_frames [OF assms])

text \<open>The first fragment of a frame with an empty queue waits there.\<close>

theorem recvframe_chk_defrag_conserves_witness:
  "\<exists>out. recvframe_chk_defrag \<lparr>rx_grprxmickey = [], rx_binstallGrpkey = False, rx_bcheck_grpkey = False,
        rx_mlme_key_index = 0, rx_mic_reports = 0\<rparr>
      (Some \<lparr>rs_keytrack = 3, rs_tkiprxmickey = [], rs_defrag_q = []\<rparr>) None (ex_frag 0 True 7 [1, 2]) = Some out
    \<and> out_frames out = {#0#} \<and> do_frame out = None \<and> map fr_keytrack (do_q out) = [3]"
proof -
  define f where f: "f = ex_frag 0 True 7 [1, 2]"
  let ?s = "\<lparr>rs_keytrack = 3, rs_tkiprxmickey = [], rs_defrag_q = []\<rparr>"
  let ?sec = "\<lparr>rx_grprxmickey = [], rx_binstallGrpkey = False, rx_bcheck_grpkey = False, rx_mlme_key_index = 0, rx_mic_reports = 0\<rparr>"
  have at: "fa_mfrag f" "fa_frag_num f = 0" "\<not> rx_mcast (fa_ra f)" "fr_no f = 0"
    by (simp_all add: f ex_frag_def rx_mcast_def)
  then have o: "recvframe_chk_defrag ?sec (Some ?s) None f
    = Some \<lparr>do_frame = None, do_q = [f\<lparr>fr_keytrack := 3\<rparr>], do_sec = ?sec, do_freed = []\<rparr>"
    by (simp add: recvframe_chk_defrag_def chk_defrag_q_def)
  show ?thesis
    using o recvframe_chk_defrag_conserves [OF o] at unfolding f [symmetric] by (simp add: queue_sta_def sta_q_def)
qed

end
