(* ===== verification/Recv_Msdu.thy ===== *)
theory Recv_Msdu
  imports Defrag Sta_Table
begin

text \<open>
  From a decrypted frame to network packets, in \<open>core/rtw_recv.c\<close>: \<open>rtw_recv_llc_parse\<close>,
  \<open>wlanhdr_to_ethhdr\<close>, \<open>amsdu_to_msdu\<close> with \<open>validate_amsdu_content\<close>, and \<open>recv_process_mpdu\<close>; the
  forwarding decision of an access point (\<open>rtw_ap_rx_msdu_act_check\<close> of \<open>core/rtw_ap.c\<close>) and the
  packet builder \<open>rtw_os_alloc_msdu_pkt\<close> of \<open>os_dep/linux/recv_linux.c\<close>. The lemmas show that splitting
  an A-MSDU stays inside the frame for every content and passes nothing the A-MSDU checks forbid,
  what happens to each subframe of an encoded A-MSDU on a station and on an access point, and which packet
  a frame becomes.
\<close>

section \<open>LLC headers\<close>

definition rtw_rfc1042_header :: buf where "rtw_rfc1042_header = [0xaa, 0xaa, 0x03, 0x00, 0x00, 0x00]"
definition rtw_bridge_tunnel_header :: buf where "rtw_bridge_tunnel_header = [0xaa, 0xaa, 0x03, 0x00, 0x00, 0xf8]"
definition ETH_P_AARP :: u16 where "ETH_P_AARP = 0x80F3"
definition ETH_P_IPX :: u16 where "ETH_P_IPX = 0x8137"
definition ETH_HLEN :: nat where "ETH_HLEN = 14"
definition MAX_SUBFRAME_COUNT :: nat where "MAX_SUBFRAME_COUNT = 64"

text \<open>\<open>True\<close> is \<open>RTW_RX_LLC_REMOVE\<close>, \<open>False\<close> is \<open>RTW_RX_LLC_KEEP\<close>.\<close>

definition rtw_recv_llc_parse :: "buf \<Rightarrow> nat \<Rightarrow> nat \<Rightarrow> bool option" where
  "rtw_recv_llc_parse b msdu msdu_len =
     (if msdu_len < 8 then Some False
      else do {
        eth_type \<leftarrow> RTW_GET_BE16 b (msdu + 6);
        hdr \<leftarrow> rd_n b msdu 6;
        Some ((hdr = rtw_rfc1042_header \<and> eth_type \<noteq> ETH_P_AARP \<and> eth_type \<noteq> ETH_P_IPX)
              \<or> hdr = rtw_bridge_tunnel_header) })"

section \<open>Frames without A-MSDU\<close>

text \<open>A header has at least 24 bytes, so the number of bytes to pull is not negative. \<open>False\<close> is \<open>_FAIL\<close>.\<close>

definition wlanhdr_to_ethhdr :: "rx_frame \<Rightarrow> bool \<Rightarrow> (bool \<times> rx_frame) option" where
  "wlanhdr_to_ethhdr f llc_hdl =
     (let f = (if fa_encrypt f \<noteq> 0 then recvframe_pull_tail f (fa_icv_len f) else f);
          rmv_len = fa_hdrlen f + fa_iv_len f + (if llc_hdl then 6 else 0);
          len = usub32 (fr_len f) rmv_len mod 2 ^ 16;
          sz = rmv_len - ETH_HLEN + (if llc_hdl then 2 else 0) in
      if fr_data f + sz > fr_tail f then Some (False, f)
      else do {
        let f = recvframe_pull f sz;
        let ptr = fr_data f;
        b \<leftarrow> wr_n (fr_buf f) ptr (take 6 (fa_dst f));
        b \<leftarrow> wr_n b (ptr + 6) (take 6 (fa_src f));
        b \<leftarrow> (if \<not> llc_hdl then wr_n b (ptr + 12) (be16_bytes (word_of_nat len)) else Some b);
        Some (True, f\<lparr>fr_buf := b\<rparr>) })"

section \<open>What is done with a packet\<close>

text \<open>What the code reads besides the frame. \<open>me_tx_ok i\<close> is whether the transmit side takes the
  \<open>i\<close>-th packet for forwarding (a unicast conversion or a transmit frame is found), \<open>me_skb_ok i\<close>
  whether the kernel gives a packet buffer.\<close>

record msdu_env =
  me_ap :: bool
  me_mac :: buf
  me_ap_isolate :: bool
  me_asoc_list_cnt :: nat
  me_stas :: sta_priv
  me_amsdu_mode :: nat
  me_dot11PrivacyAlgrthm :: nat
  me_tx_ok :: "nat \<Rightarrow> bool"
  me_skb_ok :: "nat \<Rightarrow> bool"
  me_cannot_run :: bool

text \<open>The two bits of the result are \<open>RTW_RX_MSDU_ACT_INDICATE\<close> and \<open>RTW_RX_MSDU_ACT_FORWARD\<close>.\<close>

definition msdu_fwd_chk :: "msdu_env \<Rightarrow> nat \<Rightarrow> bool \<Rightarrow> bool \<times> bool" where
  "msdu_fwd_chk e i ind = (if me_asoc_list_cnt e \<le> 1 then (ind, False) else (ind, me_tx_ok e i))"

definition rtw_ap_rx_msdu_act_check :: "msdu_env \<Rightarrow> nat \<Rightarrow> buf \<Rightarrow> buf \<Rightarrow> bool \<times> bool" where
  "rtw_ap_rx_msdu_act_check e i da sa =
     (if sa = me_mac e then (False, False)
      else if rx_mcast da then (if me_ap_isolate e then (True, False) else msdu_fwd_chk e i True)
      else if da = me_mac e then (True, False)
      else if rtw_get_stainfo (me_stas e) (Some da) \<noteq> None then
        (if me_ap_isolate e then (False, False) else msdu_fwd_chk e i False)
      else (True, False))"

definition msdu_act :: "msdu_env \<Rightarrow> nat \<Rightarrow> buf \<Rightarrow> buf \<Rightarrow> bool \<times> bool" where
  "msdu_act e i da sa = (if me_ap e then rtw_ap_rx_msdu_act_check e i da sa else (True, False))"

section \<open>A-MSDU\<close>

text \<open>\<open>True\<close> is \<open>_SUCCESS\<close>; mode 0 is \<open>RTW_AMSDU_MODE_NON_SPP\<close>.\<close>

definition validate_amsdu_content :: "msdu_env \<Rightarrow> rx_frame \<Rightarrow> buf \<Rightarrow> buf \<Rightarrow> bool" where
  "validate_amsdu_content e f da sa =
     (if me_amsdu_mode e = 0 \<and> me_dot11PrivacyAlgrthm e \<noteq> 0 then
        \<not> (fa_to_fr_ds f = 2 \<and> da \<noteq> fa_ra f) \<and> \<not> (fa_to_fr_ds f = 1 \<and> sa \<noteq> fa_ta f) \<and> da \<noteq> rtw_rfc1042_header
      else True)"

text \<open>The packet: \<open>skb_pull\<close> of the LLC header and \<open>skb_push\<close> of the addresses, or of the length and the
  addresses.\<close>

definition rtw_os_alloc_msdu_pkt :: "buf \<Rightarrow> buf \<Rightarrow> buf \<Rightarrow> bool \<Rightarrow> buf" where
  "rtw_os_alloc_msdu_pkt da sa msdu llc_hdl =
     (if llc_hdl then da @ sa @ drop 6 msdu else da @ sa @ be16_bytes (word_of_nat (length msdu)) @ msdu)"

text \<open>The body of the loop up to \<open>move_to_next\<close>. The first result is \<open>None\<close> when the loop is left, and
  the length of the subframe otherwise; then come the packets to indicate and the packets handed to
  \<open>recv_fwd_pkt_hdl\<close>. \<open>rtw_recv_indicatepkt_check\<close> succeeds in this configuration.\<close>

definition amsdu_sub :: "msdu_env \<Rightarrow> rx_frame \<Rightarrow> nat \<Rightarrow> nat \<Rightarrow> nat \<Rightarrow> buf list \<times> buf list
    \<Rightarrow> (nat option \<times> buf list \<times> buf list) option" where
  "amsdu_sub e f i pdata a_len out = do {
     n \<leftarrow> RTW_GET_BE16 (fr_buf f) (pdata + 12);
     let nSubframe_Length = unat n;
     if a_len < ETH_HLEN + nSubframe_Length then Some (None, out)
     else do {
       da \<leftarrow> rd_n (fr_buf f) pdata 6;
       sa \<leftarrow> rd_n (fr_buf f) (pdata + 6) 6;
       if \<not> validate_amsdu_content e f da sa then Some (None, out)
       else do {
         llc_hdl \<leftarrow> rtw_recv_llc_parse (fr_buf f) (pdata + ETH_HLEN) nSubframe_Length;
         let (indicate, forward) = msdu_act e i da sa;
         if \<not> indicate \<and> \<not> forward then Some (Some nSubframe_Length, out)
         else if \<not> me_skb_ok e i then Some (None, out)
         else do {
           msdu \<leftarrow> rd_n (fr_buf f) (pdata + ETH_HLEN) nSubframe_Length;
           let pkt = rtw_os_alloc_msdu_pkt da sa msdu llc_hdl;
           Some (Some nSubframe_Length, if indicate then fst out @ [pkt] else fst out,
                 if forward then snd out @ [pkt] else snd out) } } } }"

definition amsdu_pad :: "nat \<Rightarrow> nat" where
  "amsdu_pad n = (let padding_len = 4 - (n + ETH_HLEN) mod 4 in if padding_len = 4 then 0 else padding_len)"

function amsdu_loop :: "msdu_env \<Rightarrow> rx_frame \<Rightarrow> nat \<Rightarrow> nat \<Rightarrow> nat \<Rightarrow> buf list \<times> buf list
    \<Rightarrow> (buf list \<times> buf list) option" where
  "amsdu_loop e f i pdata a_len out =
     (if a_len > ETH_HLEN then
        (case amsdu_sub e f i pdata a_len out of
           None \<Rightarrow> None
         | Some (None, out) \<Rightarrow> Some out
         | Some (Some n, out) \<Rightarrow>
             if length (fst out) \<ge> MAX_SUBFRAME_COUNT then Some out
             else
               let rest = a_len - ETH_HLEN - n; pad = (if rest \<noteq> 0 then amsdu_pad n else 0) in
               if rest < pad then Some out
               else amsdu_loop e f (Suc i) (pdata + ETH_HLEN + n + pad) (rest - pad) out)
      else Some out)"
  by pat_completeness auto
termination
  by (relation "measure (\<lambda>(e, f, i, pdata, a_len, out). a_len)") (auto simp: ETH_HLEN_def)

declare amsdu_loop.simps [simp del]

definition amsdu_to_msdu :: "msdu_env \<Rightarrow> rx_frame \<Rightarrow> (buf list \<times> buf list) option" where
  "amsdu_to_msdu e f =
     (let f = recvframe_pull f (fa_hdrlen f);
          f = (if fa_iv_len f > 0 then recvframe_pull f (fa_iv_len f) else f);
          f = (if fa_encrypt f \<noteq> 0 then recvframe_pull_tail f (fa_icv_len f) else f) in
      amsdu_loop e f 0 (fr_data f) (fr_len f) ([], []))"

section \<open>One frame\<close>

text \<open>The result (\<open>True\<close> is \<open>_SUCCESS\<close>), the packets given to the network stack and those given to the
  transmit side. On every path the frame itself goes back to the free queue, once.\<close>

definition recv_process_mpdu :: "msdu_env \<Rightarrow> rx_frame \<Rightarrow> (bool \<times> buf list \<times> buf list) option" where
  "recv_process_mpdu e f =
     (if fa_amsdu f then do { (ind, fwd) \<leftarrow> amsdu_to_msdu e f; Some (True, ind, fwd) }
      else do {
        let msdu = fr_data f + fa_hdrlen f + fa_iv_len f;
        let msdu_len = usub32 (usub32 (usub32 (fr_len f) (fa_hdrlen f)) (fa_iv_len f))
             (if fa_encrypt f \<noteq> 0 then fa_icv_len f else 0) mod 2 ^ 16;
        llc_hdl \<leftarrow> rtw_recv_llc_parse (fr_buf f) msdu msdu_len;
        let (indicate, forward) = msdu_act e 0 (fa_dst f) (fa_src f);
        if \<not> indicate \<and> \<not> forward then Some (False, [], [])
        else do {
          (ok, f) \<leftarrow> wlanhdr_to_ethhdr f llc_hdl;
          if \<not> ok then Some (False, [], [])
          else do {
            pkt \<leftarrow> rd_n (fr_buf f) (fr_data f) (fr_len f);
            Some (True, if indicate \<and> \<not> me_cannot_run e then [pkt] else [], if forward then [pkt] else []) } } })"

section \<open>Splitting stays inside the frame\<close>

lemma rtw_recv_llc_parse_total: "p + n \<le> length b \<Longrightarrow> \<exists>v. rtw_recv_llc_parse b p n = Some v"
  using BE16_Some [of "p + 6" b] by (auto simp: rtw_recv_llc_parse_def rd_n_def)

lemma amsdu_sub_total:
  assumes "pdata + a_len \<le> length (fr_buf f)" and "ETH_HLEN < a_len"
  shows "\<exists>r. amsdu_sub e f i pdata a_len out = Some r"
proof -
  obtain n where n: "RTW_GET_BE16 (fr_buf f) (pdata + 12) = Some n"
    using BE16_Some [of "pdata + 12" "fr_buf f"] assms by (auto simp: ETH_HLEN_def)
  have ad: "rd_n (fr_buf f) pdata 6 = Some (take 6 (drop pdata (fr_buf f)))"
    "rd_n (fr_buf f) (pdata + 6) 6 = Some (take 6 (drop (pdata + 6) (fr_buf f)))"
    using assms by (simp_all add: ETH_HLEN_def rd_n_Some)
  have fit: "pdata + ETH_HLEN + unat n \<le> length (fr_buf f)" if "\<not> a_len < ETH_HLEN + unat n" using that assms by simp
  show ?thesis
    using rtw_recv_llc_parse_total [OF fit] rd_n_Some [OF fit]
    by (auto simp: amsdu_sub_def n ad Let_def split: prod.split)
qed

lemma amsdu_sub_out:
  assumes "amsdu_sub e f i pdata a_len out = Some (r, out')"
  shows "out' = out \<or> (\<exists>pkt. validate_amsdu_content e f (take 6 pkt) (take 6 (drop 6 pkt))
       \<and> fst out' \<in> {fst out, fst out @ [pkt]} \<and> snd out' \<in> {snd out, snd out @ [pkt]}
       \<and> (me_ap_isolate e \<or> \<not> me_ap e \<longrightarrow> snd out' = snd out))"
    and "r = Some n \<Longrightarrow> ETH_HLEN + n \<le> a_len"
proof -
  show "out' = out \<or> (\<exists>pkt. validate_amsdu_content e f (take 6 pkt) (take 6 (drop 6 pkt))
       \<and> fst out' \<in> {fst out, fst out @ [pkt]} \<and> snd out' \<in> {snd out, snd out @ [pkt]}
       \<and> (me_ap_isolate e \<or> \<not> me_ap e \<longrightarrow> snd out' = snd out))"
  proof (cases "out' = out")
    case False
    with assms obtain n da sa llc where eqs: "RTW_GET_BE16 (fr_buf f) (pdata + 12) = Some n" "\<not> a_len < ETH_HLEN + unat n"
        "rd_n (fr_buf f) pdata 6 = Some da" "rd_n (fr_buf f) (pdata + 6) 6 = Some sa"
        "rtw_recv_llc_parse (fr_buf f) (pdata + ETH_HLEN) (unat n) = Some llc" and v: "validate_amsdu_content e f da sa"
      by (auto simp: amsdu_sub_def Let_def split: bind_splits if_splits)
    from eqs assms v False obtain m where
      out: "out' = (if fst (msdu_act e i da sa) then fst out @ [rtw_os_alloc_msdu_pkt da sa m llc] else fst out,
        if snd (msdu_act e i da sa) then snd out @ [rtw_os_alloc_msdu_pkt da sa m llc] else snd out)"
      by (auto simp: amsdu_sub_def Let_def split: bind_splits if_splits prod.splits)
    have len: "length da = 6" "length sa = 6" using eqs rd_n_length by blast+
    have "take 6 (rtw_os_alloc_msdu_pkt da sa m llc) = da" "take 6 (drop 6 (rtw_os_alloc_msdu_pkt da sa m llc)) = sa"
      using len by (simp_all add: rtw_os_alloc_msdu_pkt_def)
    moreover have "\<not> snd (msdu_act e i da sa)" if "me_ap_isolate e \<or> \<not> me_ap e"
      using that by (auto simp: msdu_act_def rtw_ap_rx_msdu_act_check_def msdu_fwd_chk_def)
    ultimately show ?thesis using v out by auto
  qed simp
  show "ETH_HLEN + n \<le> a_len" if "r = Some n"
    using assms that by (auto simp: amsdu_sub_def Let_def split: bind_splits if_splits prod.splits)
qed

definition amsdu_out_ok :: "msdu_env \<Rightarrow> rx_frame \<Rightarrow> buf list \<times> buf list \<Rightarrow> bool" where
  "amsdu_out_ok e f out \<longleftrightarrow>
     (\<forall>pkt\<in>set (fst out) \<union> set (snd out). validate_amsdu_content e f (take 6 pkt) (take 6 (drop 6 pkt)))
     \<and> (me_ap_isolate e \<or> \<not> me_ap e \<longrightarrow> snd out = [])"

lemma amsdu_sub_ok:
  assumes "amsdu_sub e f i pdata a_len out = Some (r, out')" and "amsdu_out_ok e f out"
  shows "amsdu_out_ok e f out' \<and> length (fst out') \<le> Suc (length (fst out))"
  using amsdu_sub_out(1) [OF assms(1)] assms(2) by (cases out; cases out') (auto simp: amsdu_out_ok_def)

lemma amsdu_loop_safe:
  assumes "pdata + a_len \<le> length (fr_buf f)" and "amsdu_out_ok e f out" and "length (fst out) < MAX_SUBFRAME_COUNT"
  shows "\<exists>out'. amsdu_loop e f i pdata a_len out = Some out' \<and> amsdu_out_ok e f out' \<and> length (fst out') \<le> MAX_SUBFRAME_COUNT"
  using assms
proof (induction e f i pdata a_len out rule: amsdu_loop.induct)
  case (1 e f i pdata a_len out)
  show ?case
  proof (cases "ETH_HLEN < a_len")
    case True
    from amsdu_sub_total [OF 1(2) True] obtain r out1 where s: "amsdu_sub e f i pdata a_len out = Some (r, out1)" by fast
    note ok = amsdu_sub_ok [OF s 1(3)] and fit = amsdu_sub_out(2) [OF s]
    let ?rest = "\<lambda>n. a_len - ETH_HLEN - n" and ?pad = "\<lambda>n. if a_len - ETH_HLEN - n \<noteq> 0 then amsdu_pad n else 0"
    show ?thesis
    proof (cases "\<exists>n. r = Some n \<and> length (fst out1) < MAX_SUBFRAME_COUNT \<and> ?pad n \<le> ?rest n")
      case more: True
      then obtain n where n: "r = Some n" "\<not> MAX_SUBFRAME_COUNT \<le> length (fst out1)" "\<not> ?rest n < ?pad n"
        "length (fst out1) < MAX_SUBFRAME_COUNT" by fastforce
      have "pdata + ETH_HLEN + n + ?pad n + (?rest n - ?pad n) \<le> length (fr_buf f)"
        using fit [OF n(1)] n(3) 1(2) by simp
      from 1(1) [OF True s refl n(1,2) refl refl n(3) this conjunct1 [OF ok] n(4)]
      show ?thesis using True s n by (subst amsdu_loop.simps) (simp add: Let_def split: if_splits)
    next
      case False
      then have "amsdu_loop e f i pdata a_len out = Some out1"
        using True s by (subst amsdu_loop.simps) (auto simp: Let_def split: option.splits)
      then show ?thesis using ok 1(4) by simp
    qed
  next
    case False
    then show ?thesis using 1(3,4) by (subst amsdu_loop.simps) simp
  qed
qed

lemma amsdu_start:
  assumes "frame_ok f"
  shows "\<exists>f'. amsdu_to_msdu e f = amsdu_loop e f' 0 (fr_data f') (fr_len f') ([], []) \<and> frame_ok f'
    \<and> fa_to_fr_ds f' = fa_to_fr_ds f \<and> fa_ra f' = fa_ra f \<and> fa_ta f' = fa_ta f
    \<and> (hdr_off f + fa_icv_len f \<le> fr_len f \<longrightarrow>
        frame_body f' = (let m = payload f in take (length m - (if fa_encrypt f \<noteq> 0 then fa_icv_len f else 0)) m))"
proof -
  define f1 where "f1 = recvframe_pull f (fa_hdrlen f)"
  define f2 where "f2 = (if fa_iv_len f1 > 0 then recvframe_pull f1 (fa_iv_len f1) else f1)"
  define f3 where "f3 = (if fa_encrypt f2 \<noteq> 0 then recvframe_pull_tail f2 (fa_icv_len f2) else f2)"
  have at: "fa_iv_len f1 = fa_iv_len f" "fa_encrypt f2 = fa_encrypt f" "fa_icv_len f2 = fa_icv_len f"
    "fa_to_fr_ds f3 = fa_to_fr_ds f" "fa_ra f3 = fa_ra f" "fa_ta f3 = fa_ta f"
    by (simp_all add: f1_def f2_def f3_def recvframe_pull_def recvframe_pull_tail_def)
  have ok: "frame_ok f1" "frame_ok f2" "frame_ok f3"
    using assms fw.pull_ok fw.pull_tail_ok by (simp_all add: f1_def f2_def f3_def)
  have "frame_body f3 = (let m = payload f in take (length m - (if fa_encrypt f \<noteq> 0 then fa_icv_len f else 0)) m)"
    if le: "hdr_off f + fa_icv_len f \<le> fr_len f"
  proof -
    have len: "length (frame_body f) = fr_len f" by (rule length_frame_body [OF assms])
    have b1: "frame_body f1 = drop (fa_hdrlen f) (frame_body f)"
      unfolding f1_def using le len by (intro fw.pull_body [OF assms]) (simp add: hdr_off_def)
    have b2: "frame_body f2 = payload f"
      using fw.pull_body [OF ok(1), of "fa_iv_len f"] le len at(1)
      by (simp add: f2_def b1 payload_def hdr_off_def add.commute)
    show ?thesis
      using fw.pull_tail_body [OF ok(2), of "fa_icv_len f"] le len at(2,3)
      by (simp add: f3_def b2 Let_def) (simp add: payload_def)
  qed
  moreover have "amsdu_to_msdu e f = amsdu_loop e f3 0 (fr_data f3) (fr_len f3) ([], [])"
    using at(1) by (simp add: amsdu_to_msdu_def Let_def f1_def f2_def f3_def)
  ultimately show ?thesis using ok(3) at(4-6) by blast
qed

text \<open>C5: Whatever an A-MSDU contains, splitting it reads nothing outside the frame, gives at most 64
  packets to the network stack, and, in a protected network with the non-SPP mode, passes on no
  packet whose destination is not the receiver (from the distribution system), whose source is not
  the transmitter (to the distribution system), or whose destination is an LLC header
  (CVE-2020-24588). A station, and an access point that isolates its clients, forwards nothing.\<close>

theorem amsdu_to_msdu_safe:
  assumes "frame_ok f"
  shows "\<exists>ind fwd. amsdu_to_msdu e f = Some (ind, fwd) \<and> length ind \<le> 64
    \<and> (me_amsdu_mode e = 0 \<and> me_dot11PrivacyAlgrthm e \<noteq> 0 \<longrightarrow> (\<forall>pkt\<in>set ind \<union> set fwd.
        take 6 pkt \<noteq> rtw_rfc1042_header \<and> (fa_to_fr_ds f = 2 \<longrightarrow> take 6 pkt = fa_ra f)
        \<and> (fa_to_fr_ds f = 1 \<longrightarrow> take 6 (drop 6 pkt) = fa_ta f)))
    \<and> (me_ap_isolate e \<or> \<not> me_ap e \<longrightarrow> fwd = [])"
proof -
  from amsdu_start [OF assms] obtain f' where f': "amsdu_to_msdu e f = amsdu_loop e f' 0 (fr_data f') (fr_len f') ([], [])"
    "frame_ok f'" "fa_to_fr_ds f' = fa_to_fr_ds f" "fa_ra f' = fa_ra f" "fa_ta f' = fa_ta f" by blast
  have "fr_data f' + fr_len f' \<le> length (fr_buf f')" using f'(2) by (simp add: frame_ok_def)
  from amsdu_loop_safe [OF this, of e "([], [])" 0] obtain out where
    o: "amsdu_loop e f' 0 (fr_data f') (fr_len f') ([], []) = Some out" "amsdu_out_ok e f' out" "length (fst out) \<le> 64"
    by (auto simp: amsdu_out_ok_def MAX_SUBFRAME_COUNT_def)
  show ?thesis
    using o f' by (cases out) (auto simp: amsdu_out_ok_def validate_amsdu_content_def)
qed

text \<open>One subframe and no packet buffer trouble: a protected frame of 24 header bytes, 8 bytes of IV.\<close>

definition ex_amsdu :: "buf \<Rightarrow> rx_frame" where
  "ex_amsdu xs = (ex_frag 0 False 7 xs)\<lparr>fa_icv_len := 0, fa_ra := replicate 6 4, fa_amsdu := True\<rparr>"

definition ex_env :: msdu_env where
  "ex_env = \<lparr>me_ap = False, me_mac = replicate 6 4, me_ap_isolate = False, me_asoc_list_cnt = 1,
     me_stas = undefined, me_amsdu_mode = 0, me_dot11PrivacyAlgrthm = 4,
     me_tx_ok = (\<lambda>_. True), me_skb_ok = (\<lambda>_. True), me_cannot_run = False\<rparr>"

theorem amsdu_to_msdu_safe_witness:
  "\<exists>ind fwd. amsdu_to_msdu ex_env (ex_amsdu (rtw_rfc1042_header @ replicate 6 2 @ [0, 1, 7])) = Some (ind, fwd)
    \<and> (\<forall>pkt\<in>set ind. take 6 pkt \<noteq> rtw_rfc1042_header) \<and> fwd = []"
proof -
  let ?f = "ex_amsdu (rtw_rfc1042_header @ replicate 6 2 @ [0, 1, 7])"
  have "frame_ok ?f" by (simp add: frame_ok_def ex_amsdu_def ex_frag_def rtw_rfc1042_header_def)
  from amsdu_to_msdu_safe [OF this, of ex_env] show ?thesis by (auto simp: ex_env_def)
qed

section \<open>Splitting an encoded A-MSDU\<close>

text \<open>A subframe: destination, source, MSDU and padding.\<close>

type_synonym subframe = "buf \<times> buf \<times> buf \<times> buf"

fun enc_sub :: "subframe \<Rightarrow> buf" where
  "enc_sub (da, sa, m, pad) = da @ sa @ be16_bytes (word_of_nat (length m)) @ m @ pad"

fun sub_ok :: "subframe \<Rightarrow> bool" where
  "sub_ok (da, sa, m, pad) \<longleftrightarrow> length da = 6 \<and> length sa = 6 \<and> length m < 2 ^ 16"

text \<open>Every subframe but the last is padded to four bytes; the last is not empty and may be padded.\<close>

definition padded :: "nat \<Rightarrow> nat \<Rightarrow> bool" where
  "padded n p \<longleftrightarrow> p < 4 \<and> 4 dvd ETH_HLEN + n + p"

lemma amsdu_pad_padded: "padded n p \<longleftrightarrow> p = amsdu_pad n"
  by (simp add: padded_def amsdu_pad_def ETH_HLEN_def Let_def) presburger

fun subs_ok :: "subframe list \<Rightarrow> bool" where
  "subs_ok [] = True"
| "subs_ok [(da, sa, m, pad)] \<longleftrightarrow> sub_ok (da, sa, m, pad) \<and> m \<noteq> [] \<and> (pad = [] \<or> padded (length m) (length pad))"
| "subs_ok ((da, sa, m, pad) # s # ss) \<longleftrightarrow> sub_ok (da, sa, m, pad) \<and> padded (length m) (length pad) \<and> subs_ok (s # ss)"

definition llc_strip :: "buf \<Rightarrow> bool" where
  "llc_strip m \<longleftrightarrow> 8 \<le> length m \<and> (take 6 m = rtw_rfc1042_header \<and> RTW_GET_BE16 m 6 \<noteq> Some ETH_P_AARP \<and> RTW_GET_BE16 m 6 \<noteq> Some ETH_P_IPX
     \<or> take 6 m = rtw_bridge_tunnel_header)"

definition msdu_pkt :: "buf \<Rightarrow> buf \<Rightarrow> buf \<Rightarrow> buf" where
  "msdu_pkt da sa m = da @ sa @ (if llc_strip m then drop 6 m else be16_bytes (word_of_nat (length m)) @ m)"

lemma alloc_msdu_pkt: "rtw_os_alloc_msdu_pkt da sa m (llc_strip m) = msdu_pkt da sa m"
  by (simp add: rtw_os_alloc_msdu_pkt_def msdu_pkt_def)

fun sub_pkt :: "subframe \<Rightarrow> buf" where
  "sub_pkt (da, sa, m, pad) = msdu_pkt da sa m"

lemma BE16_prefix: "i + 2 \<le> length m \<Longrightarrow> RTW_GET_BE16 (m @ ys) i = RTW_GET_BE16 m i"
  by (simp add: RTW_GET_BE16_def rd_def nth_append)

lemma llc_parse_at: "rtw_recv_llc_parse (xs @ m @ ys) (length xs) (length m) = Some (llc_strip m)"
proof (cases "length m < 8")
  case False
  then obtain v where v: "RTW_GET_BE16 m 6 = Some v" using BE16_Some [of 6 m] by auto
  have "rd_n (xs @ m @ ys) (length xs) 6 = Some (take 6 m)" using False by (simp add: rd_n_def)
  then show ?thesis
    using False v by (auto simp: rtw_recv_llc_parse_def llc_strip_def BE16_shift BE16_prefix)
qed (simp add: rtw_recv_llc_parse_def llc_strip_def)

text \<open>What becomes of the subframes, numbered from \<open>i\<close>. The splitting goes on as long as the addresses are
  allowed and a packet buffer is found for each subframe that is passed on, and ends with the 64th
  packet for the network stack.\<close>

definition sub_valid :: "msdu_env \<Rightarrow> rx_frame \<Rightarrow> subframe \<Rightarrow> bool" where
  "sub_valid e f s \<longleftrightarrow> validate_amsdu_content e f (fst s) (fst (snd s))"

definition sub_act :: "msdu_env \<Rightarrow> nat \<times> subframe \<Rightarrow> bool \<times> bool" where
  "sub_act e x = msdu_act e (fst x) (fst (snd x)) (fst (snd (snd x)))"

definition sub_served :: "msdu_env \<Rightarrow> rx_frame \<Rightarrow> nat \<times> subframe \<Rightarrow> bool" where
  "sub_served e f x \<longleftrightarrow> sub_valid e f (snd x) \<and> (sub_act e x \<noteq> (False, False) \<longrightarrow> me_skb_ok e (fst x))"

fun cut_after :: "nat \<Rightarrow> ('a \<Rightarrow> bool) \<Rightarrow> 'a list \<Rightarrow> 'a list" where
  "cut_after k P [] = []"
| "cut_after k P (x # xs) = (if k = 0 then [] else x # cut_after (if P x then k - 1 else k) P xs)"

definition amsdu_result :: "msdu_env \<Rightarrow> rx_frame \<Rightarrow> nat \<Rightarrow> nat \<Rightarrow> subframe list \<Rightarrow> buf list \<times> buf list" where
  "amsdu_result e f k i ss =
     (let xs = cut_after k (fst \<circ> sub_act e) (takeWhile (sub_served e f) (enumerate i ss)) in
      (map (sub_pkt \<circ> snd) (filter (fst \<circ> sub_act e) xs), map (sub_pkt \<circ> snd) (filter (snd \<circ> sub_act e) xs)))"

lemma amsdu_result_Nil [simp]: "amsdu_result e f k i [] = ([], [])"
  by (simp add: amsdu_result_def)

lemma amsdu_result_full: "amsdu_result e f 0 i ss = ([], [])"
proof -
  have "cut_after 0 P xs = []" for P and xs :: "(nat \<times> subframe) list" by (cases xs) simp_all
  then show ?thesis by (simp add: amsdu_result_def)
qed

lemma amsdu_result_Cons:
  assumes "0 < k"
  shows "amsdu_result e f k i (s # ss) =
    (if \<not> sub_served e f (i, s) then ([], [])
     else let (ind, fwd) = sub_act e (i, s); (xs, ys) = amsdu_result e f (if ind then k - 1 else k) (Suc i) ss in
       (if ind then sub_pkt s # xs else xs, if fwd then sub_pkt s # ys else ys))"
  using assms by (simp add: amsdu_result_def Let_def split: prod.split)

lemma amsdu_sub_enc:
  assumes "fr_buf f = xs @ enc_sub (da, sa, m, pad) @ ys" and "sub_ok (da, sa, m, pad)" and "14 + length m \<le> a_len"
  shows "amsdu_sub e f i (length xs) a_len out =
    Some (if sub_served e f (i, da, sa, m, pad) then
        (Some (length m), if fst (sub_act e (i, da, sa, m, pad)) then fst out @ [msdu_pkt da sa m] else fst out,
         if snd (sub_act e (i, da, sa, m, pad)) then snd out @ [msdu_pkt da sa m] else snd out)
      else (None, out))"
proof -
  have len: "length da = 6" "length sa = 6" "length m < 2 ^ 16" using assms(2) by auto
  let ?n = "word_of_nat (length m) :: u16"
  have n: "unat ?n = length m" using len(3) by (simp add: unat_of_nat)
  have b: "fr_buf f = (xs @ da @ sa) @ be16_bytes ?n @ m @ pad @ ys" "fr_buf f = (xs @ da @ sa @ be16_bytes ?n) @ m @ (pad @ ys)"
    "fr_buf f = xs @ da @ (sa @ be16_bytes ?n @ m @ pad @ ys)" "fr_buf f = (xs @ da) @ sa @ (be16_bytes ?n @ m @ pad @ ys)"
    using assms(1) by simp_all
  have "RTW_GET_BE16 (fr_buf f) (length xs + 12) = Some ?n"
    unfolding b(1) using BE16_shift [of "xs @ da @ sa" "be16_bytes ?n @ m @ pad @ ys" 0] len by (simp add: BE16_be16_bytes add.assoc)
  moreover have "rd_n (fr_buf f) (length xs) 6 = Some da"
    unfolding b(3) using rd_n_mid [of xs da] len by simp
  moreover have "rd_n (fr_buf f) (length xs + 6) 6 = Some sa"
    unfolding b(4) using rd_n_mid [of "xs @ da" sa] len by simp
  moreover have "rtw_recv_llc_parse (fr_buf f) (length xs + 14) (length m) = Some (llc_strip m)"
    unfolding b(2) using llc_parse_at [of "xs @ da @ sa @ be16_bytes ?n" m "pad @ ys"] len by (simp add: add.assoc)
  moreover have "rd_n (fr_buf f) (length xs + 14) (length m) = Some m"
    unfolding b(2) using rd_n_mid [of "xs @ da @ sa @ be16_bytes ?n" m "pad @ ys"] len by (simp add: add.assoc)
  ultimately show ?thesis
    using assms(3) n by (cases "msdu_act e i da sa")
      (auto simp: amsdu_sub_def alloc_msdu_pkt sub_served_def sub_valid_def sub_act_def ETH_HLEN_def Let_def)
qed

lemma amsdu_loop_stop: "amsdu_sub e f i pdata a_len out = Some (None, out1) \<Longrightarrow> 14 < a_len \<Longrightarrow> amsdu_loop e f i pdata a_len out = Some out1"
  by (subst amsdu_loop.simps) (simp add: ETH_HLEN_def)

lemma amsdu_loop_step:
  assumes "amsdu_sub e f i pdata a_len out = Some (Some n, out1)" and "a_len = 14 + n + rest" and "0 < n \<or> 0 < rest"
    and "rest = 0 \<or> amsdu_pad n \<le> rest"
  shows "amsdu_loop e f i pdata a_len out = (if 64 \<le> length (fst out1) then Some out1
    else amsdu_loop e f (Suc i) (pdata + 14 + n + (if rest = 0 then 0 else amsdu_pad n)) (rest - (if rest = 0 then 0 else amsdu_pad n)) out1)"
  using assms by (subst amsdu_loop.simps) (auto simp: ETH_HLEN_def MAX_SUBFRAME_COUNT_def Let_def)

lemma amsdu_loop_end: "amsdu_loop e f i p 0 out = Some out"
  by (subst amsdu_loop.simps) simp

lemma length_enc_sub: "sub_ok (da, sa, m, pad) \<Longrightarrow> length (enc_sub (da, sa, m, pad)) = 14 + length m + length pad"
  by simp

text \<open>One subframe: the loop ends, or goes on with the rest.\<close>

lemma amsdu_loop_sub:
  fixes e :: msdu_env and i :: nat
  assumes "fr_buf f = xs @ enc_sub (da, sa, m, pad) @ ys" and "sub_ok (da, sa, m, pad)"
    and "m \<noteq> [] \<or> 0 < rest" and "rest = 0 \<or> amsdu_pad (length m) \<le> rest" and "length (fst out) < 64"
  defines "p \<equiv> if rest = 0 then 0 else amsdu_pad (length m)" and "s \<equiv> (da, sa, m, pad)"
  defines "out' \<equiv> (if fst (sub_act e (i, s)) then fst out @ [sub_pkt s] else fst out, if snd (sub_act e (i, s)) then snd out @ [sub_pkt s] else snd out)"
  shows "amsdu_loop e f i (length xs) (14 + length m + rest) out =
    (if \<not> sub_served e f (i, s) then Some out else if 64 \<le> length (fst out') then Some out'
     else amsdu_loop e f (Suc i) (length xs + 14 + length m + p) (rest - p) out')"
proof -
  have "14 + length m \<le> 14 + length m + rest" by simp
  note sub = amsdu_sub_enc [OF assms(1,2) this, of e i out, folded s_def]
  show ?thesis
  proof (cases "sub_served e f (i, s)")
    case True
    then have "amsdu_sub e f i (length xs) (14 + length m + rest) out = Some (Some (length m), out')"
      using sub by (simp add: out'_def s_def)
    from amsdu_loop_step [OF this refl _ assms(4)] assms(3) True show ?thesis by (simp add: p_def)
  next
    case False
    then have "amsdu_sub e f i (length xs) (14 + length m + rest) out = Some (None, out)" using sub by simp
    from amsdu_loop_stop [OF this] assms(3) False show ?thesis by simp
  qed
qed

lemma amsdu_loop_enc:
  assumes "fr_buf f = xs @ concat (map enc_sub ss) @ ys" and "subs_ok ss" and "length (fst out) < 64"
  shows "amsdu_loop e f i (length xs) (length (concat (map enc_sub ss))) out =
    (let (ind, fwd) = amsdu_result e f (64 - length (fst out)) i ss in Some (fst out @ ind, snd out @ fwd))"
  using assms
proof (induction ss arbitrary: xs i out rule: subs_ok.induct)
  case (1 xs i out)
  then show ?case by (simp add: amsdu_loop_end)
next
  case (2 da sa m pad xs i out)
  have ok: "sub_ok (da, sa, m, pad)" "m \<noteq> []" "pad = [] \<or> length pad = amsdu_pad (length m)" using "2.prems" by (auto simp: amsdu_pad_padded)
  have b: "fr_buf f = xs @ enc_sub (da, sa, m, pad) @ ys" using "2.prems" by simp
  have l: "length (concat (map enc_sub [(da, sa, m, pad)])) = 14 + length m + length pad" using length_enc_sub [OF ok(1)] by simp
  have pos: "0 < 64 - length (fst out)" using "2.prems" by simp
  have "(if length pad = 0 then 0 else amsdu_pad (length m)) = length pad" using ok(3) by auto
  with amsdu_loop_sub [OF b ok(1) _ _ "2.prems"(3), of "length pad" e i] ok(2,3) show ?case
    unfolding l amsdu_result_Cons [OF pos] by (auto simp: amsdu_loop_end Let_def split: prod.split)
next
  case (3 da sa m pad s ss xs i out)
  let ?s = "(da, sa, m, pad)"
  have ok: "sub_ok ?s" "length pad = amsdu_pad (length m)" using "3.prems" by (auto simp: amsdu_pad_padded)
  have b: "fr_buf f = xs @ enc_sub ?s @ (concat (map enc_sub (s # ss)) @ ys)" using "3.prems" by simp
  have "0 < length (enc_sub s)" by (cases s) (simp add: be16_bytes_def)
  then have len: "length da = 6" "length sa = 6" "0 < length (concat (map enc_sub (s # ss)))" using ok by simp_all
  obtain L where L: "L = length (concat (map enc_sub (s # ss)))" by blast
  have l: "length (concat (map enc_sub (?s # s # ss))) = 14 + length m + (length pad + L)"
    using length_enc_sub [OF ok(1)] L by simp
  have pos: "0 < 64 - length (fst out)" using "3.prems" by simp
  have IH: "amsdu_loop e f (Suc i) (length xs + 14 + length m + length pad) L out'
      = (let (ind, fwd) = amsdu_result e f (64 - length (fst out')) (Suc i) (s # ss) in Some (fst out' @ ind, snd out' @ fwd))"
    if "length (fst out') < 64" for out'
    using "3.IH" [of "xs @ enc_sub ?s" out' "Suc i"] "3.prems" b that len ok(2) L by (simp add: add.assoc)
  have full: "64 - length (fst out) = 1" if "64 \<le> Suc (length (fst out))" using that "3.prems"(3) by simp
  have "0 < length pad + L" "length pad + L = 0 \<or> amsdu_pad (length m) \<le> length pad + L" using len(3) L ok(2) by simp_all
  from amsdu_loop_sub [OF b ok(1) disjI2 [OF this(1)] this(2) "3.prems"(3), of e i] len(3) ok(2)
  have st: "amsdu_loop e f i (length xs) (14 + length m + (length pad + L)) out =
      (let out' = (if fst (sub_act e (i, ?s)) then fst out @ [sub_pkt ?s] else fst out, if snd (sub_act e (i, ?s)) then snd out @ [sub_pkt ?s] else snd out) in
       if \<not> sub_served e f (i, ?s) then Some out else if 64 \<le> length (fst out') then Some out'
       else amsdu_loop e f (Suc i) (length xs + 14 + length m + length pad) L out')"
    unfolding L [symmetric] Let_def by simp
  show ?case
    unfolding l st amsdu_result_Cons [OF pos]
    using "3.prems"(3) full by (cases "sub_act e (i, ?s)") (auto simp: IH Let_def amsdu_result_full split: prod.split)
qed

text \<open>The MSDU part of a frame: the payload without the ICV of an encrypted frame.\<close>

definition frame_msdu :: "rx_frame \<Rightarrow> buf" where
  "frame_msdu f = take (length (payload f) - (if fa_encrypt f \<noteq> 0 then fa_icv_len f else 0)) (payload f)"

lemma frame_body_at:
  assumes "frame_ok f"
  shows "fr_buf f = take (fr_data f) (fr_buf f) @ frame_body f @ drop (fr_tail f) (fr_buf f)"
proof -
  have "drop (fr_data f) (fr_buf f) = frame_body f @ drop (fr_tail f) (fr_buf f)"
    using assms append_take_drop_id [of "fr_tail f - fr_data f" "drop (fr_data f) (fr_buf f)"]
    by (simp add: frame_ok_def frame_body_def)
  then show ?thesis using append_take_drop_id [of "fr_data f" "fr_buf f"] by simp
qed

text \<open>C15: A station or an access point splits an encoded A-MSDU exactly. Each subframe becomes the packet of its
  destination, source and MSDU, with an RFC 1042 or bridge-tunnel header removed or the length put
  in front. In order, the packets go up or to the transmit side as \<open>msdu_act\<close> decides; the
  splitting ends before the first subframe whose addresses are not allowed or for which there is no packet buffer, and
  after the 64th packet for the network stack. On a station where no address and no buffer is refused,
  these are the first 64 subframes.\<close>

theorem amsdu_to_msdu_splits:
  assumes "frame_wf f" and "frame_msdu f = concat (map enc_sub ss)" and "subs_ok ss"
  shows "amsdu_to_msdu e f = Some (amsdu_result e f 64 0 ss)
    \<and> (\<not> me_ap e \<and> (\<forall>i. me_skb_ok e i) \<and> list_all (sub_valid e f) ss \<longrightarrow> amsdu_result e f 64 0 ss = (take 64 (map sub_pkt ss), []))"
proof -
  have f: "frame_ok f" "hdr_off f + fa_icv_len f \<le> fr_len f" using assms(1) by (auto simp: frame_wf_def)
  from amsdu_start [OF f(1)] f(2) assms(2) obtain f' where
    f': "amsdu_to_msdu e f = amsdu_loop e f' 0 (fr_data f') (fr_len f') ([], [])" "frame_ok f'"
    "fa_to_fr_ds f' = fa_to_fr_ds f" "fa_ra f' = fa_ra f" "fa_ta f' = fa_ta f" "frame_body f' = concat (map enc_sub ss)"
    by (fastforce simp: frame_msdu_def Let_def)
  have b: "fr_buf f' = take (fr_data f') (fr_buf f') @ concat (map enc_sub ss) @ drop (fr_tail f') (fr_buf f')"
    using frame_body_at [OF f'(2)] f'(6) by simp
  have "sub_served e f' = sub_served e f"
    using f'(3-5) by (simp add: fun_eq_iff sub_served_def sub_valid_def validate_amsdu_content_def)
  then have same: "amsdu_result e f' 64 0 ss = amsdu_result e f 64 0 ss" by (simp add: amsdu_result_def)
  have at: "length (take (fr_data f') (fr_buf f')) = fr_data f'" "length (concat (map enc_sub ss)) = fr_len f'"
    using f'(2) length_frame_body [OF f'(2)] f'(6) by (auto simp: frame_ok_def)
  have "amsdu_to_msdu e f = Some (amsdu_result e f 64 0 ss)"
    using amsdu_loop_enc [OF b assms(3), of "([], [])" e 0] f'(1) unfolding at by (simp add: same case_prod_beta)
  moreover have "amsdu_result e f k i ss = (take k (map sub_pkt ss), [])"
    if "\<not> me_ap e" "\<forall>i. me_skb_ok e i" "list_all (sub_valid e f) ss" for k i
    using that(3)
  proof (induction ss arbitrary: k i)
    case (Cons s ss)
    have "sub_act e (i, s) = (True, False)" "sub_served e f (i, s)" using that(1,2) Cons.prems by (simp_all add: sub_act_def msdu_act_def sub_served_def)
    then show ?case using Cons by (cases k) (simp_all add: amsdu_result_full amsdu_result_Cons)
  qed simp
  ultimately show ?thesis by blast
qed

theorem amsdu_to_msdu_splits_witness:
  "amsdu_to_msdu ex_env (ex_amsdu (enc_sub (replicate 6 4, replicate 6 2, rtw_rfc1042_header @ [8, 0, 1], [0])
       @ enc_sub (replicate 6 4, replicate 6 3, [5], [])))
    = Some ([replicate 6 4 @ replicate 6 2 @ [8, 0, 1], replicate 6 4 @ replicate 6 3 @ [0, 1, 5]], [])"
proof -
  let ?s = "(replicate 6 4, replicate 6 2, rtw_rfc1042_header @ [8, 0, 1], [0]) :: subframe"
  let ?t = "(replicate 6 4, replicate 6 3, [5], []) :: subframe"
  have len: "length (enc_sub ?s @ enc_sub ?t) = 39" by (simp add: rtw_rfc1042_header_def)
  obtain xs where xs: "xs = enc_sub ?s @ enc_sub ?t" by blast
  have lx: "length xs = 39" using len unfolding xs .
  have wf: "frame_wf (ex_amsdu xs)"
    using lx by (simp add: frame_wf_def frame_ok_def ex_amsdu_def ex_frag_def hdr_off_def)
  have m: "frame_msdu (ex_amsdu xs) = concat (map enc_sub [?s, ?t])"
    using lx xs by (simp add: frame_msdu_def payload_def frame_body_def ex_amsdu_def ex_frag_def hdr_off_def del: enc_sub.simps)
  have ok: "subs_ok [?s, ?t]" by (simp add: rtw_rfc1042_header_def padded_def ETH_HLEN_def)
  have v: "list_all (sub_valid ex_env (ex_amsdu xs)) [?s, ?t]"
    by (simp add: sub_valid_def validate_amsdu_content_def ex_amsdu_def ex_frag_def ex_env_def rtw_rfc1042_header_def numeral_eq_Suc)
  have e: "\<not> me_ap ex_env" "\<forall>i. me_skb_ok ex_env i" by (simp_all add: ex_env_def)
  have strip: "llc_strip (rtw_rfc1042_header @ [8, 0, 1])" "\<not> llc_strip [5]"
    by (simp_all add: llc_strip_def rtw_rfc1042_header_def RTW_GET_BE16_def mem_simps ETH_P_AARP_def ETH_P_IPX_def)
  show ?thesis
    using amsdu_to_msdu_splits [OF wf m ok, of ex_env] v e strip unfolding xs [symmetric]
    by (simp add: msdu_pkt_def rtw_os_alloc_msdu_pkt_def be16_bytes_def rtw_rfc1042_header_def)
qed

section \<open>The packet of one frame\<close>

lemma wr_n_window:
  "off + length xs \<le> length w \<Longrightarrow>
     wr_n (p @ w @ s) (length p + off) xs = Some (p @ (take off w @ xs @ drop (off + length xs) w) @ s)"
  by (simp add: wr_n_def)

lemma window_of: "length p = a \<Longrightarrow> length w = b \<Longrightarrow> take b (drop a (p @ w @ s)) = w"
  by auto

lemma wr_frame_body:
  assumes "frame_ok f" and "off + length xs \<le> length (frame_body f)"
  shows "\<exists>b. wr_n (fr_buf f) (fr_data f + off) xs = Some b \<and> frame_ok (f\<lparr>fr_buf := b\<rparr>)
    \<and> frame_body (f\<lparr>fr_buf := b\<rparr>) = take off (frame_body f) @ xs @ drop (off + length xs) (frame_body f)"
proof -
  let ?p = "take (fr_data f) (fr_buf f)" and ?s = "drop (fr_tail f) (fr_buf f)" and ?w = "frame_body f"
  let ?w' = "take off ?w @ xs @ drop (off + length xs) ?w"
  have l: "length ?p = fr_data f" "length ?w = fr_tail f - fr_data f" "fr_data f \<le> fr_tail f"
    using assms(1) length_frame_body [OF assms(1)] by (auto simp: frame_ok_def)
  have w': "length ?w' = length ?w" using assms(2) by simp
  have wr: "wr_n (fr_buf f) (fr_data f + off) xs = Some (?p @ ?w' @ ?s)"
    using wr_n_window [OF assms(2), of ?p ?s] unfolding frame_body_at [OF assms(1), symmetric] l(1) .
  have len: "length (?p @ ?w' @ ?s) = length (fr_buf f)"
    using arg_cong [OF frame_body_at [OF assms(1)], of length] w' by simp
  have "frame_body (f\<lparr>fr_buf := ?p @ ?w' @ ?s\<rparr>) = take (fr_tail f - fr_data f) (drop (fr_data f) (?p @ ?w' @ ?s))"
    by (simp add: frame_body_def)
  also have "\<dots> = ?w'" by (rule window_of) (use w' l in \<open>simp_all only:\<close>)
  finally show ?thesis using wr assms(1) len by (auto simp: frame_ok_def)
qed

lemma wlanhdr_to_ethhdr_frame:
  assumes "frame_wf f" and "24 \<le> fa_hdrlen f" and "length (fa_dst f) = 6" "length (fa_src f) = 6"
    and "length (frame_msdu f) < 2 ^ 16" and "llc \<longrightarrow> 8 \<le> length (frame_msdu f)"
  shows "\<exists>f'. wlanhdr_to_ethhdr f llc = Some (True, f') \<and> frame_ok f'
    \<and> frame_body f' = rtw_os_alloc_msdu_pkt (fa_dst f) (fa_src f) (frame_msdu f) llc"
proof -
  have f: "frame_ok f" and le: "hdr_off f + fa_icv_len f \<le> length (frame_body f)"
    using assms(1) length_frame_body by (auto simp: frame_wf_def)
  define f1 where "f1 = (if fa_encrypt f \<noteq> 0 then recvframe_pull_tail f (fa_icv_len f) else f)"
  define sz where "sz = hdr_off f + (if llc then 6 else 0) - ETH_HLEN + (if llc then 2 else 0)"
  define f2 where "f2 = recvframe_pull f1 sz"
  have ok1: "frame_ok f1" using f fw.pull_tail_ok by (simp add: f1_def)
  have b1: "drop (hdr_off f) (frame_body f1) = frame_msdu f" "hdr_off f \<le> length (frame_body f1)"
    using fw.pull_tail_body [OF f, of "fa_icv_len f"] le by (auto simp: f1_def frame_msdu_def payload_def drop_take add.commute)
  have lm: "length (frame_body f1) = hdr_off f + length (frame_msdu f)"
    using arg_cong [OF b1(1), of length] b1(2) by simp
  have sz: "sz \<le> length (frame_body f1)" "hdr_off f \<ge> 24" "llc \<Longrightarrow> sz = hdr_off f - 6" "\<not> llc \<Longrightarrow> sz = hdr_off f - 14"
    using lm assms(2,6) by (auto simp: sz_def ETH_HLEN_def hdr_off_def)
  have ok2: "frame_ok f2" and b2: "frame_body f2 = drop sz (frame_body f1)"
    using fw.pull_ok [OF ok1] fw.pull_body [OF ok1 sz(1)] by (simp_all add: f2_def)
  have l1: "fr_len f1 = hdr_off f + length (frame_msdu f)" "fr_len f1 < 2 ^ 32"
    using length_frame_body [OF ok1] lm ok1 by (auto simp: frame_ok_def)
  have "\<not> fr_data f1 + sz > fr_tail f1" using length_frame_body [OF ok1] sz(1) ok1 by (auto simp: frame_ok_def)
  moreover have "usub32 (fr_len f1) (hdr_off f) = length (frame_msdu f)" using usub32_le [of "hdr_off f" "fr_len f1"] l1 by simp
  moreover have "fa_dst f2 = fa_dst f" "fa_src f2 = fa_src f" "fa_hdrlen f1 = fa_hdrlen f" "fa_iv_len f1 = fa_iv_len f"
    by (simp_all add: f2_def f1_def recvframe_pull_def recvframe_pull_tail_def)
  ultimately have conv: "wlanhdr_to_ethhdr f llc = do {
        b \<leftarrow> wr_n (fr_buf f2) (fr_data f2) (fa_dst f);
        b \<leftarrow> wr_n b (fr_data f2 + 6) (fa_src f);
        b \<leftarrow> (if \<not> llc then wr_n b (fr_data f2 + 12) (be16_bytes (word_of_nat (length (frame_msdu f)))) else Some b);
        Some (True, f2\<lparr>fr_buf := b\<rparr>) }"
    using assms(2-5) sz(2) unfolding wlanhdr_to_ethhdr_def Let_def f1_def [symmetric] f2_def sz_def hdr_off_def ETH_HLEN_def
    by (cases llc) (simp_all add: usub32_def)
  have "14 \<le> length (frame_body f2)" using b2 lm sz assms(6) by (cases llc) auto
  then obtain b where b: "wr_n (fr_buf f2) (fr_data f2 + 0) (fa_dst f) = Some b" "frame_ok (f2\<lparr>fr_buf := b\<rparr>)"
    "frame_body (f2\<lparr>fr_buf := b\<rparr>) = fa_dst f @ drop 6 (frame_body f2)"
    using wr_frame_body [OF ok2, of 0 "fa_dst f"] assms(3) by auto
  then obtain c where c: "wr_n b (fr_data f2 + 6) (fa_src f) = Some c" "frame_ok (f2\<lparr>fr_buf := c\<rparr>)"
    "frame_body (f2\<lparr>fr_buf := c\<rparr>) = fa_dst f @ fa_src f @ drop 12 (frame_body f2)"
    using wr_frame_body [OF b(2), of 6 "fa_src f"] assms(3,4) \<open>14 \<le> length (frame_body f2)\<close> by auto
  show ?thesis
  proof (cases llc)
    case True
    then have "wlanhdr_to_ethhdr f llc = Some (True, f2\<lparr>fr_buf := c\<rparr>)" using conv b(1) c(1) by simp
    moreover have "drop 12 (frame_body f2) = drop 6 (frame_msdu f)"
      using b2 b1(1) sz(2,3) True by (simp add: drop_drop flip: b1(1))
    ultimately show ?thesis using c True by (simp add: rtw_os_alloc_msdu_pkt_def)
  next
    case False
    let ?n = "be16_bytes (word_of_nat (length (frame_msdu f)))"
    from wr_frame_body [OF c(2), of 12 ?n] assms(3,4) \<open>14 \<le> length (frame_body f2)\<close> c(3) obtain d where
      d: "wr_n c (fr_data f2 + 12) ?n = Some d" "frame_ok (f2\<lparr>fr_buf := d\<rparr>)"
      "frame_body (f2\<lparr>fr_buf := d\<rparr>) = fa_dst f @ fa_src f @ ?n @ drop 14 (frame_body f2)" by auto
    have "wlanhdr_to_ethhdr f llc = Some (True, f2\<lparr>fr_buf := d\<rparr>)" using conv b(1) c(1) d(1) False by simp
    moreover have "drop 14 (frame_body f2) = frame_msdu f"
      using b2 b1(1) sz(2,4) False by (simp add: drop_drop)
    ultimately show ?thesis using d False by (simp add: rtw_os_alloc_msdu_pkt_def)
  qed
qed

lemma llc_parse_msdu:
  assumes "frame_wf f" and "length (frame_msdu f) < 2 ^ 16"
  shows "usub32 (usub32 (usub32 (fr_len f) (fa_hdrlen f)) (fa_iv_len f)) (if fa_encrypt f \<noteq> 0 then fa_icv_len f else 0) mod 2 ^ 16
      = length (frame_msdu f)"
    and "rtw_recv_llc_parse (fr_buf f) (fr_data f + fa_hdrlen f + fa_iv_len f) (length (frame_msdu f)) = Some (llc_strip (frame_msdu f))"
proof -
  have f: "frame_ok f" "hdr_off f + fa_icv_len f \<le> fr_len f" "fr_len f < 2 ^ 32" "length (frame_body f) = fr_len f"
    using assms(1) length_frame_body by (auto simp: frame_wf_def frame_ok_def)
  have m: "length (frame_msdu f) = fr_len f - hdr_off f - (if fa_encrypt f \<noteq> 0 then fa_icv_len f else 0)"
    using f by (simp add: frame_msdu_def payload_def)
  show "usub32 (usub32 (usub32 (fr_len f) (fa_hdrlen f)) (fa_iv_len f)) (if fa_encrypt f \<noteq> 0 then fa_icv_len f else 0) mod 2 ^ 16
      = length (frame_msdu f)"
    using f m assms(2) by (auto simp: hdr_off_def usub32_le split: if_splits)
  let ?p = "take (fr_data f) (fr_buf f) @ take (hdr_off f) (frame_body f)"
  have "length ?p = fr_data f + fa_hdrlen f + fa_iv_len f" using f by (auto simp: frame_ok_def hdr_off_def)
  moreover have "payload f = frame_msdu f @ drop (length (frame_msdu f)) (payload f)"
    by (simp add: frame_msdu_def)
  then have "frame_body f = take (hdr_off f) (frame_body f) @ frame_msdu f @ drop (length (frame_msdu f)) (payload f)"
    using append_take_drop_id [of "hdr_off f" "frame_body f"] by (simp add: payload_def)
  then have "fr_buf f = ?p @ frame_msdu f @ (drop (length (frame_msdu f)) (payload f) @ drop (fr_tail f) (fr_buf f))"
    using frame_body_at [OF f(1)] by (metis append.assoc)
  ultimately show "rtw_recv_llc_parse (fr_buf f) (fr_data f + fa_hdrlen f + fa_iv_len f) (length (frame_msdu f)) = Some (llc_strip (frame_msdu f))"
    using llc_parse_at [of ?p "frame_msdu f"] by metis
qed

text \<open>C22: A frame that is not an A-MSDU becomes exactly one Ethernet packet: destination, source, and the
  MSDU, of which an RFC 1042 or bridge-tunnel header is removed and before which otherwise its
  length is put; IV, ICV and wireless header are gone. It goes to the network stack and to the
  transmit side as \<open>rtw_ap_rx_msdu_act_check\<close> decides (to the stack, for a station), and nowhere
  when the decision is neither.\<close>

theorem recv_process_mpdu_delivers:
  assumes "frame_wf f" and "24 \<le> fa_hdrlen f" and "\<not> fa_amsdu f" and "length (fa_dst f) = 6" "length (fa_src f) = 6"
    and "length (frame_msdu f) < 2 ^ 16"
  shows "recv_process_mpdu e f = (let (indicate, forward) = msdu_act e 0 (fa_dst f) (fa_src f);
       pkt = msdu_pkt (fa_dst f) (fa_src f) (frame_msdu f) in
     Some (indicate \<or> forward, if indicate \<and> \<not> me_cannot_run e then [pkt] else [], if forward then [pkt] else []))"
proof -
  let ?llc = "llc_strip (frame_msdu f)"
  have "?llc \<longrightarrow> 8 \<le> length (frame_msdu f)" by (simp add: llc_strip_def)
  from wlanhdr_to_ethhdr_frame [OF assms(1,2,4,5,6) this] obtain f' where
    w: "wlanhdr_to_ethhdr f ?llc = Some (True, f')" "frame_ok f'"
    "frame_body f' = msdu_pkt (fa_dst f) (fa_src f) (frame_msdu f)" by (auto simp: alloc_msdu_pkt)
  have "rd_n (fr_buf f') (fr_data f') (fr_len f') = Some (msdu_pkt (fa_dst f) (fa_src f) (frame_msdu f))"
    using rd_frame_body [OF w(2)] w(3) by simp
  then show ?thesis
    unfolding recv_process_mpdu_def Let_def llc_parse_msdu(1) [OF assms(1,6)]
    using llc_parse_msdu(2) [OF assms(1,6)] w(1) assms(3) by (simp split: prod.split)
qed

theorem recv_process_mpdu_delivers_witness:
  "recv_process_mpdu ex_env ((ex_frag 0 False 7 (rtw_bridge_tunnel_header @ [8, 0, 1, 2, 3]))\<lparr>fa_dst := replicate 6 4, fa_src := replicate 6 2\<rparr>)
    = Some (True, [replicate 6 4 @ replicate 6 2 @ [8, 0, 1]], [])"
proof -
  let ?xs = "rtw_bridge_tunnel_header @ [8, 0, 1, 2, 3]"
  let ?f = "(ex_frag 0 False 7 ?xs)\<lparr>fa_dst := replicate 6 4, fa_src := replicate 6 2\<rparr>"
  have wf: "frame_wf ?f" by (simp add: frame_wf_def frame_ok_def ex_frag_def hdr_off_def rtw_bridge_tunnel_header_def)
  have m: "frame_msdu ?f = rtw_bridge_tunnel_header @ [8, 0, 1]"
    by (simp add: frame_msdu_def payload_def frame_body_def ex_frag_def hdr_off_def rtw_bridge_tunnel_header_def)
  have a: "24 \<le> fa_hdrlen ?f" "\<not> fa_amsdu ?f" "length (fa_dst ?f) = 6" "length (fa_src ?f) = 6"
    "fa_dst ?f = replicate 6 4" "fa_src ?f = replicate 6 2"
    by (simp_all add: ex_frag_def)
  have l: "length (frame_msdu ?f) < 2 ^ 16" and "llc_strip (frame_msdu ?f)"
    unfolding m by (simp_all add: llc_strip_def rtw_bridge_tunnel_header_def)
  with recv_process_mpdu_delivers [OF wf a(1-4) l, of ex_env] show ?thesis
    unfolding a(5,6) m by (simp add: ex_env_def msdu_act_def msdu_pkt_def rtw_os_alloc_msdu_pkt_def rtw_bridge_tunnel_header_def)
qed

end
