(* ===== verification/Recv_Data.thy ===== *)
theory Recv_Data
  imports Defrag Sta_Table Bits
begin

text \<open>
  The validation of received data frames in \<open>core/rtw_recv.c\<close>: the header fields, the direction of the
  frame and the addresses it gives (\<open>rtw_sta_rx_data_validate_hdr\<close>, \<open>rtw_ap_rx_data_validate_hdr\<close> of
  \<open>core/rtw_ap.c\<close>, and \<open>sta2sta_data_frame\<close>, \<open>ap2sta_data_frame\<close>, \<open>sta2ap_data_frame\<close> in the other modes), the
  duplicate and replay filters of \<open>Recv_Decache\<close>, the cipher of the frame and the rules for frames
  without protection. The main lemmas say what an unprotected frame must be to pass in a protected
  network, and how many bytes must be readable behind the frame's start.
\<close>

section \<open>State\<close>

definition WIFI_STATION_STATE :: u32 where "WIFI_STATION_STATE = 0x8"
definition WIFI_AP_STATE :: u32 where "WIFI_AP_STATE = 0x10"
definition WIFI_ADHOC_STATE :: u32 where "WIFI_ADHOC_STATE = 0x20"
definition WIFI_ADHOC_MASTER_STATE :: u32 where "WIFI_ADHOC_MASTER_STATE = 0x40"
definition WIFI_UNDER_LINKING :: u32 where "WIFI_UNDER_LINKING = 0x80"
definition WIFI_MP_STATE :: u32 where "WIFI_MP_STATE = 0x10000"
definition WLAN_STA_AMSDU_DISABLE :: u32 where "WLAN_STA_AMSDU_DISABLE = 0x20000"
definition dot11AuthAlgrthm_8021X :: nat where "dot11AuthAlgrthm_8021X = 2"
definition dot11AuthAlgrthm_WAPI :: nat where "dot11AuthAlgrthm_WAPI = 4"
definition WLAN_HDR_A3_LEN :: nat where "WLAN_HDR_A3_LEN = 24"
definition WLAN_HDR_A3_QOS_LEN :: nat where "WLAN_HDR_A3_QOS_LEN = 26"
definition LLC_HEADER_SIZE :: nat where "LLC_HEADER_SIZE = 6"

text \<open>What the code reads and writes of the adapter. \<open>ad_flags\<close> and \<open>ad_sta_privacy\<close> are \<open>flags\<close> and
  \<open>dot118021XPrivacy\<close> of the stations, by index. \<open>ad_deauth\<close> collects the addresses deauthentication
  frames are sent to; \<open>ad_deauth_due\<close> is whether the last was more than ten seconds ago.\<close>

record rx_adapter =
  ad_fw_state :: u32
  ad_mac :: buf
  ad_bssid :: buf
  ad_PrivacyAlgrthm :: u8
  ad_AuthAlgrthm :: nat
  ad_GrpPrivacy :: u8
  ad_iv_seq :: "buf list"
  ad_stas :: sta_priv
  ad_flags :: "u32 list"
  ad_sta_privacy :: "u8 list"
  ad_any_non_be :: bool
  ad_radar_detected :: bool
  ad_deauth_due :: bool
  ad_deauth :: "buf list"

definition check_fwstate :: "rx_adapter \<Rightarrow> u32 \<Rightarrow> bool" where
  "check_fwstate ad state \<longleftrightarrow> (state = 0 \<and> ad_fw_state ad = 0) \<or> ad_fw_state ad AND state \<noteq> 0"

definition issue_deauth :: "rx_adapter \<Rightarrow> buf \<Rightarrow> rx_adapter" where
  "issue_deauth ad a = ad\<lparr>ad_deauth := ad_deauth ad @ [a]\<rparr>"

section \<open>Header fields\<close>

definition hdr_addr :: "rx_frame \<Rightarrow> nat \<Rightarrow> buf option" where
  "hdr_addr f off = rd_n (fr_buf f) (fr_data f + off) 6"

definition frame_ctl :: "rx_frame \<Rightarrow> u16 option" where
  "frame_ctl f = RTW_GET_LE16 (fr_buf f) (fr_data f)"

definition get_tofr_ds :: "u16 \<Rightarrow> nat" where
  "get_tofr_ds fc = (if bit fc 9 then 2 else 0) + (if bit fc 8 then 1 else 0)"

definition GetSequence :: "rx_frame \<Rightarrow> u16 option" where
  "GetSequence f = map_option (drop_bit 4) (RTW_GET_LE16 (fr_buf f) (fr_data f + 22))"

definition GetFragNum :: "rx_frame \<Rightarrow> nat option" where
  "GetFragNum f = map_option (\<lambda>v. unat (v AND 0x0f)) (RTW_GET_LE16 (fr_buf f) (fr_data f + 22))"

definition qos_ctl :: "rx_frame \<Rightarrow> nat \<Rightarrow> nat \<Rightarrow> nat \<Rightarrow> u16 option" where
  "qos_ctl f a4_shift off n = LE_BITS_TO_2BYTE (fr_buf f) (fr_data f + WLAN_HDR_A3_LEN + a4_shift) off n"

section \<open>Direction and addresses\<close>

definition rtw_sta_rx_data_validate_hdr ::
  "rx_adapter \<Rightarrow> rx_frame \<Rightarrow> (rx_result \<times> rx_frame \<times> rx_adapter \<times> nat option) option" where
  "rtw_sta_rx_data_validate_hdr ad f = do {
     a1 \<leftarrow> hdr_addr f 4;
     if fa_to_fr_ds f = 0 then do {
       a2 \<leftarrow> hdr_addr f 10;
       a3 \<leftarrow> hdr_addr f 16;
       let f = f\<lparr>fa_ra := a1, fa_ta := a2, fa_dst := a1, fa_src := a2, fa_bssid := a3\<rparr>;
       if fa_bssid f \<noteq> fa_src f then Some (RX_FAIL, f, ad, None)
       else (let sta = rtw_get_stainfo (ad_stas ad) (Some a2) in
         Some (if sta \<noteq> None then RX_SUCCESS else RX_FAIL, f, ad, sta)) }
     else if \<not> check_fwstate ad (WIFI_ASOC_STATE OR WIFI_UNDER_LINKING) then do {
       a2 \<leftarrow> hdr_addr f 10;
       Some (RX_FAIL, f, if \<not> rx_mcast a1 \<and> ad_deauth_due ad then issue_deauth ad a2 else ad, None) }
     else do {
       a2 \<leftarrow> hdr_addr f 10;
       let f = f\<lparr>fa_ra := a1, fa_ta := a2\<rparr>;
       if fa_to_fr_ds f \<noteq> 2 \<and> fa_to_fr_ds f \<noteq> 3 then Some (RTW_RX_HANDLED, f, ad, None)
       else do {
         a3 \<leftarrow> hdr_addr f 16;
         a4 \<leftarrow> (if fa_to_fr_ds f = 3 then hdr_addr f 24 else Some []);
         let f = (if fa_to_fr_ds f = 2 then f\<lparr>fa_dst := a1, fa_src := a3, fa_bssid := a2\<rparr>
                  else f\<lparr>fa_dst := a3, fa_src := a4, fa_bssid := a2\<rparr>);
         if \<not> fa_amsdu f \<and> ad_mac ad = fa_src f then Some (RX_FAIL, f, ad, None)
         else (case rtw_get_stainfo (ad_stas ad) (Some (fa_ta f)) of
             None \<Rightarrow> Some (RX_FAIL, f, if \<not> rx_mcast a1 \<and> \<not> ad_radar_detected ad then issue_deauth ad (fa_ta f) else ad, None)
           | Some sta \<Rightarrow> do {
               fc \<leftarrow> frame_ctl f;
               Some (if bit fc 6 then RTW_RX_HANDLED else RX_SUCCESS, f, ad, Some sta) }) } } }"

text \<open>\<open>process_pwrbit_data\<close> and \<open>process_wmmps_data\<close> act on the transmit queues of a sleeping station; they
  are left out.\<close>

definition rtw_ap_rx_data_validate_hdr ::
  "rx_adapter \<Rightarrow> rx_frame \<Rightarrow> (rx_result \<times> rx_frame \<times> rx_adapter \<times> nat option) option" where
  "rtw_ap_rx_data_validate_hdr ad f =
     (if \<not> check_fwstate ad WIFI_ASOC_STATE then Some (RX_FAIL, f, ad, None)
      else if fa_to_fr_ds f \<noteq> 1 \<and> fa_to_fr_ds f \<noteq> 3 then Some (RTW_RX_HANDLED, f, ad, None)
      else do {
        a1 \<leftarrow> hdr_addr f 4;
        if fa_to_fr_ds f = 1 \<and> rx_mcast a1 then Some (RX_FAIL, f, ad, None)
        else do {
          a2 \<leftarrow> hdr_addr f 10;
          a3 \<leftarrow> hdr_addr f 16;
          a4 \<leftarrow> (if fa_to_fr_ds f = 3 then hdr_addr f 24 else Some []);
          let f = (if fa_to_fr_ds f = 1 then f\<lparr>fa_ra := a1, fa_ta := a2, fa_dst := a3, fa_src := a2, fa_bssid := a1\<rparr>
                   else f\<lparr>fa_ra := a1, fa_ta := a2, fa_dst := a3, fa_src := a4,
                          fa_bssid := if rx_mcast a1 then fa_bssid f else a1\<rparr>);
          (case rtw_get_stainfo (ad_stas ad) (Some (fa_ta f)) of
             None \<Rightarrow> Some (RTW_RX_HANDLED, f,
               if \<not> (fa_to_fr_ds f = 3 \<and> rx_mcast a1) \<and> \<not> ad_radar_detected ad then issue_deauth ad (fa_ta f) else ad, None)
           | Some sta \<Rightarrow> do {
               fc \<leftarrow> frame_ctl f;
               Some (if bit fc 6 then RTW_RX_HANDLED else RX_SUCCESS, f, ad, Some sta) }) } })"

text \<open>The addresses in production test mode.\<close>

definition mp_addrs :: "rx_frame \<Rightarrow> rx_frame option" where
  "mp_addrs f = do { a1 \<leftarrow> hdr_addr f 4; a2 \<leftarrow> hdr_addr f 10; a3 \<leftarrow> hdr_addr f 16;
     Some (f\<lparr>fa_dst := a1, fa_src := a2, fa_bssid := a3, fa_ra := a1, fa_ta := a2\<rparr>) }"

definition sta2sta_data_frame ::
  "rx_adapter \<Rightarrow> rx_frame \<Rightarrow> (rx_result \<times> rx_frame \<times> rx_adapter \<times> nat option) option" where
  "sta2sta_data_frame ad f =
     (if check_fwstate ad WIFI_ADHOC_STATE \<or> check_fwstate ad WIFI_ADHOC_MASTER_STATE then
        (if ad_mac ad = fa_src f then Some (RX_FAIL, f, ad, None)
         else if ad_mac ad \<noteq> fa_dst f \<and> \<not> rx_mcast (fa_dst f) then Some (RX_FAIL, f, ad, None)
         else if fa_bssid f = replicate 6 0 \<or> ad_bssid ad = replicate 6 0 \<or> fa_bssid f \<noteq> ad_bssid ad
           then Some (RX_FAIL, f, ad, None)
         else (let sta = rtw_get_stainfo (ad_stas ad) (Some (fa_ta f)) in
           Some (if sta = None then RX_FAIL else RX_SUCCESS, f, ad, sta)))
      else if check_fwstate ad WIFI_MP_STATE then do {
        f \<leftarrow> mp_addrs f;
        let sta = rtw_get_stainfo (ad_stas ad) (Some (ad_bssid ad));
        Some (if sta = None then RX_FAIL else RX_SUCCESS, f, ad, sta) }
      else Some (RX_FAIL, f, ad, rtw_get_stainfo (ad_stas ad) (Some (fa_ta f))))"

definition ap2sta_data_frame ::
  "rx_adapter \<Rightarrow> rx_frame \<Rightarrow> (rx_result \<times> rx_frame \<times> rx_adapter \<times> nat option) option" where
  "ap2sta_data_frame ad f =
     (if check_fwstate ad WIFI_MP_STATE \<and> check_fwstate ad WIFI_ASOC_STATE then do {
        f \<leftarrow> mp_addrs f;
        let sta = rtw_get_stainfo (ad_stas ad) (Some (fa_bssid f));
        Some (if sta = None then RX_FAIL else RX_SUCCESS, f, ad, sta) }
      else if ad_mac ad = fa_dst f \<and> \<not> rx_mcast (fa_dst f) then
        (let sta = rtw_get_stainfo (ad_stas ad) (Some (fa_ta f)) in
         Some (RX_FAIL, f, if sta = None \<and> ad_deauth_due ad then issue_deauth ad (fa_bssid f) else ad, sta))
      else Some (RX_FAIL, f, ad, None))"

definition sta2ap_data_frame ::
  "rx_adapter \<Rightarrow> rx_frame \<Rightarrow> (rx_result \<times> rx_frame \<times> rx_adapter \<times> nat option) option" where
  "sta2ap_data_frame ad f =
     (if check_fwstate ad WIFI_MP_STATE \<and> check_fwstate ad WIFI_ASOC_STATE then do {
        f \<leftarrow> mp_addrs f;
        let sta = rtw_get_stainfo (ad_stas ad) (Some (fa_bssid f));
        Some (if sta = None then RX_FAIL else RX_SUCCESS, f, ad, sta) }
      else if fa_ra f \<noteq> ad_mac ad then Some (RTW_RX_HANDLED, f, ad, None)
      else Some (RTW_RX_HANDLED, f, issue_deauth ad (fa_src f), None))"

text \<open>The \<open>switch\<close> over the direction in the remaining modes.\<close>

definition other_validate_hdr ::
  "rx_adapter \<Rightarrow> rx_frame \<Rightarrow> (rx_result \<times> rx_frame \<times> rx_adapter \<times> nat option) option" where
  "other_validate_hdr ad f =
     (if fa_to_fr_ds f \<ge> 3 then Some (RX_FAIL, f, ad, None)
      else do {
        a1 \<leftarrow> hdr_addr f 4; a2 \<leftarrow> hdr_addr f 10; a3 \<leftarrow> hdr_addr f 16;
        let f = f\<lparr>fa_ra := a1, fa_ta := a2\<rparr>;
        if fa_to_fr_ds f = 0 then sta2sta_data_frame ad (f\<lparr>fa_dst := a1, fa_src := a2, fa_bssid := a3\<rparr>)
        else if fa_to_fr_ds f = 1 then sta2ap_data_frame ad (f\<lparr>fa_dst := a3, fa_src := a2, fa_bssid := a1\<rparr>)
        else ap2sta_data_frame ad (f\<lparr>fa_dst := a1, fa_src := a3, fa_bssid := a2\<rparr>) })"

definition validate_hdr ::
  "rx_adapter \<Rightarrow> rx_frame \<Rightarrow> (rx_result \<times> rx_frame \<times> rx_adapter \<times> nat option) option" where
  "validate_hdr ad f =
     (if check_fwstate ad WIFI_AP_STATE then rtw_ap_rx_data_validate_hdr ad f
      else if check_fwstate ad WIFI_STATION_STATE then rtw_sta_rx_data_validate_hdr ad f
      else other_validate_hdr ad f)"

section \<open>The cipher of a frame\<close>

text \<open>\<open>GET_ENCRY_ALGO\<close>; another algorithm leaves \<open>old\<close>.\<close>

definition GET_ENCRY_ALGO :: "rx_adapter \<Rightarrow> u8 \<Rightarrow> u8 \<Rightarrow> bool \<Rightarrow> u8" where
  "GET_ENCRY_ALGO ad sta_privacy old bmcst =
     (if ad_AuthAlgrthm ad = dot11AuthAlgrthm_8021X then (if bmcst then ad_GrpPrivacy ad else sta_privacy)
      else if ad_AuthAlgrthm ad \<le> dot11AuthAlgrthm_WAPI then ad_PrivacyAlgrthm ad
      else old)"

text \<open>\<open>SET_ICE_IV_LEN\<close>: the lengths of IV and ICV.\<close>

definition SET_ICE_IV_LEN :: "u8 \<Rightarrow> nat \<times> nat" where
  "SET_ICE_IV_LEN e =
     (if e = 0x01 \<or> e = 0x05 then (4, 4) else if e = 0x02 then (8, 4) else if e = 0x04 then (8, 8)
      else if e = 0x07 \<or> e = 0x17 then (8, 16) else if e = 0x14 then (8, 16)
      else if e = 0x06 then (18, 16) else (0, 0))"

section \<open>Unprotected frames in a protected network\<close>

text \<open>\<open>True\<close> means that the frame is dropped.\<close>

definition drop_unprotected :: "rx_adapter \<Rightarrow> u8 \<Rightarrow> rx_frame \<Rightarrow> bool option" where
  "drop_unprotected ad sta_privacy f =
     (if ad_PrivacyAlgrthm ad \<noteq> 0 then
        (if rx_mcast (fa_ra f) then Some (\<not> fa_privacy f)
         else do {
           ether_type \<leftarrow> RTW_GET_BE16 (fr_buf f) (fr_data f + fa_hdrlen f + fa_iv_len f + LLC_HEADER_SIZE);
           if ad_AuthAlgrthm ad = dot11AuthAlgrthm_8021X then
             Some ((\<not> fa_privacy f \<and> ether_type \<noteq> 0x888e) \<or> (\<not> fa_privacy f \<and> fa_amsdu f)
               \<or> (ether_type = 0x888e \<and> check_fwstate ad WIFI_AP_STATE \<and> sta_privacy = 0 \<and> ad_mac ad \<noteq> fa_dst f))
           else Some (\<not> fa_privacy f) })
      else Some False)"

section \<open>Data frames\<close>

text \<open>The fields the filters of \<open>Recv_Decache\<close> read.\<close>

definition decache_view :: "rx_frame \<Rightarrow> data_frame" where
  "decache_view f = \<lparr>df_encrypt = fa_encrypt f, df_hdrlen = fa_hdrlen f, df_qos = fa_qos f,
     df_priority = unat (fa_priority f), df_ra = fa_ra f, df_seq_num = fa_seq_num f,
     df_frag_num = word_of_nat (fa_frag_num f), df_data = drop (fr_data f) (fr_buf f)\<rparr>"

text \<open>The QoS control field and the length of the header.\<close>

definition parse_qc :: "rx_adapter \<Rightarrow> rx_frame \<Rightarrow> nat \<Rightarrow> (rx_frame \<times> rx_adapter) option" where
  "parse_qc ad f a4_shift = do {
     (f, ad) \<leftarrow> (if fa_qos f then do {
         prio \<leftarrow> qos_ctl f a4_shift 0 4;
         ack \<leftarrow> qos_ctl f a4_shift 5 2;
         Some (f\<lparr>fa_priority := ucast prio, fa_ack_policy := ucast ack, fa_hdrlen := WLAN_HDR_A3_QOS_LEN + a4_shift\<rparr>,
               ad\<lparr>ad_any_non_be := prio \<noteq> 0 \<and> prio \<noteq> 3\<rparr>) }
       else Some (f\<lparr>fa_priority := 0, fa_hdrlen := WLAN_HDR_A3_LEN + a4_shift\<rparr>, ad));
     Some (if fa_order f then f\<lparr>fa_hdrlen := fa_hdrlen f + 4\<rparr> else f, ad) }"

text \<open>The duplicate filter and the packet-number check of the station \<open>i\<close>; \<open>True\<close> is \<open>_SUCCESS\<close>.\<close>

definition rx_filters :: "rx_adapter \<Rightarrow> nat \<Rightarrow> rx_frame \<Rightarrow> (bool \<times> rx_frame \<times> rx_adapter) option" where
  "rx_filters ad i f = do {
     (ok, st) \<leftarrow> recv_decache (decache_view f) (sta_recv (sp_sta (ad_stas ad) ! i));
     let ad = ad\<lparr>ad_stas := sta_upd (ad_stas ad) i (\<lambda>s. s\<lparr>sta_recv := st\<rparr>)\<rparr>;
     if \<not> ok then Some (False, f, ad)
     else if \<not> rx_mcast (fa_ra f) then do {
       let f = (if fa_qos f then f\<lparr>fa_preorder := Some (unat (fa_priority f))\<rparr> else f);
       (ok, st) \<leftarrow> recv_ucast_pn_decache (decache_view f) st;
       Some (ok, f, ad\<lparr>ad_stas := sta_upd (ad_stas ad) i (\<lambda>s. s\<lparr>sta_recv := st\<rparr>)\<rparr>) }
     else do {
       (ok, iv_seq) \<leftarrow> recv_bcast_pn_decache (check_fwstate ad WIFI_STATION_STATE) (decache_view f) (ad_iv_seq ad);
       Some (ok, f, ad\<lparr>ad_iv_seq := iv_seq\<rparr>) } }"

definition set_cipher :: "rx_adapter \<Rightarrow> u8 \<Rightarrow> rx_frame \<Rightarrow> rx_frame" where
  "set_cipher ad sta_privacy f =
     (if fa_privacy f then
        let e = GET_ENCRY_ALGO ad sta_privacy (fa_encrypt f) (rx_mcast (fa_ra f)); (iv, icv) = SET_ICE_IV_LEN e in
        f\<lparr>fa_encrypt := e, fa_iv_len := iv, fa_icv_len := icv\<rparr>
      else f\<lparr>fa_encrypt := 0, fa_iv_len := 0, fa_icv_len := 0\<rparr>)"

definition validate_recv_data_frame :: "rx_adapter \<Rightarrow> rx_frame \<Rightarrow> (rx_result \<times> rx_frame \<times> rx_adapter) option" where
  "validate_recv_data_frame ad f = do {
     let a4_shift = (if fa_to_fr_ds f = 3 then 6 else 0);
     amsdu \<leftarrow> (if fa_qos f then map_option (\<lambda>v. v \<noteq> 0) (qos_ctl f a4_shift 7 1) else Some False);
     (ret, f, ad, psta) \<leftarrow> validate_hdr ad (f\<lparr>fa_amsdu := amsdu\<rparr>);
     if ret \<noteq> RX_SUCCESS then Some (ret, f, ad)
     else (case psta of
         None \<Rightarrow> Some (RX_FAIL, f, ad)
       | Some i \<Rightarrow>
           if ad_flags ad ! i AND WLAN_STA_AMSDU_DISABLE \<noteq> 0 \<and> fa_amsdu f then Some (RX_FAIL, f, ad)
           else do {
             (f, ad) \<leftarrow> parse_qc ad (f\<lparr>fa_psta := Some i, fa_preorder := None, fa_ack_policy := 0\<rparr>) a4_shift;
             (ok, f, ad) \<leftarrow> rx_filters ad i f;
             if \<not> ok then Some (RX_FAIL, f, ad)
             else do {
               let f = set_cipher ad (ad_sta_privacy ad ! i) f;
               drop \<leftarrow> drop_unprotected ad (ad_sta_privacy ad ! i) f;
               Some (if drop then RX_FAIL else RX_SUCCESS, f, ad) } }) }"

text \<open>Management and control frames are handled by other functions; the result for them is \<open>_FAIL\<close>.\<close>

definition validate_recv_frame :: "rx_adapter \<Rightarrow> rx_frame \<Rightarrow> (rx_result \<times> rx_frame \<times> rx_adapter) option" where
  "validate_recv_frame ad f = do {
     b0 \<leftarrow> rd (fr_buf f) (fr_data f);
     if b0 AND 0x3 \<noteq> 0 then Some (RX_FAIL, f, ad)
     else do {
       fc \<leftarrow> frame_ctl f;
       frag \<leftarrow> GetFragNum f;
       seq \<leftarrow> GetSequence f;
       let f = f\<lparr>fa_to_fr_ds := get_tofr_ds fc, fa_frag_num := frag, fa_seq_num := seq, fa_mfrag := bit fc 10,
                 fa_privacy := bit fc 14, fa_order := bit fc 15\<rparr>;
       if fc AND 0xC = 0x8 then validate_recv_data_frame ad (f\<lparr>fa_qos := bit fc 7\<rparr>)
       else Some (RX_FAIL, f, ad) } }"

section \<open>What passes\<close>

text \<open>The part of the adapter that validation does not change.\<close>

definition ad_config :: "rx_adapter \<Rightarrow> u32 \<times> buf \<times> u8 \<times> nat \<times> u8 \<times> u8 list" where
  "ad_config ad = (ad_fw_state ad, ad_mac ad, ad_PrivacyAlgrthm ad, ad_AuthAlgrthm ad, ad_GrpPrivacy ad, ad_sta_privacy ad)"

lemma ad_config_simps [simp]:
  "ad_config (issue_deauth ad a) = ad_config ad" "ad_config (ad\<lparr>ad_stas := sp\<rparr>) = ad_config ad"
  "ad_config (ad\<lparr>ad_iv_seq := iv\<rparr>) = ad_config ad" "ad_config (ad\<lparr>ad_any_non_be := b\<rparr>) = ad_config ad"
  by (simp_all add: ad_config_def issue_deauth_def)

lemma rtw_sta_rx_data_validate_hdr_config:
  "rtw_sta_rx_data_validate_hdr ad f = Some (ret, f', ad', sta) \<Longrightarrow> ad_config ad' = ad_config ad"
  unfolding rtw_sta_rx_data_validate_hdr_def Let_def by (auto split: bind_splits if_splits option.splits)

lemma rtw_ap_rx_data_validate_hdr_config:
  "rtw_ap_rx_data_validate_hdr ad f = Some (ret, f', ad', sta) \<Longrightarrow> ad_config ad' = ad_config ad"
  unfolding rtw_ap_rx_data_validate_hdr_def Let_def by (auto split: bind_splits if_splits option.splits)

lemma other_validate_hdr_config:
  "other_validate_hdr ad f = Some (ret, f', ad', sta) \<Longrightarrow> ad_config ad' = ad_config ad"
  unfolding other_validate_hdr_def sta2sta_data_frame_def ap2sta_data_frame_def sta2ap_data_frame_def Let_def
  by (auto split: bind_splits if_splits)

lemma validate_hdr_config: "validate_hdr ad f = Some (ret, f', ad', sta) \<Longrightarrow> ad_config ad' = ad_config ad"
  by (auto simp: validate_hdr_def split: if_splits dest: rtw_sta_rx_data_validate_hdr_config
      rtw_ap_rx_data_validate_hdr_config other_validate_hdr_config)

lemma mp_addrs_privacy: "mp_addrs f = Some f' \<Longrightarrow> fa_privacy f' = fa_privacy f \<and> fa_amsdu f' = fa_amsdu f
    \<and> fa_qos f' = fa_qos f \<and> fr_buf f' = fr_buf f \<and> fr_data f' = fr_data f \<and> fa_to_fr_ds f' = fa_to_fr_ds f"
  by (auto simp: mp_addrs_def split: bind_splits)

lemma parse_qc_config: "parse_qc ad f k = Some (f', ad') \<Longrightarrow> ad_config ad' = ad_config ad"
  by (auto simp: parse_qc_def split: bind_splits if_splits)

lemma rx_filters_config: "rx_filters ad i f = Some (ok, f', ad') \<Longrightarrow> ad_config ad' = ad_config ad"
  by (auto simp: rx_filters_def Let_def split: bind_splits if_splits)

lemma validate_recv_data_frame_passes:
  assumes "validate_recv_data_frame ad f = Some (RX_SUCCESS, f', ad')"
  shows "ad_config ad' = ad_config ad" and "\<exists>i f1. drop_unprotected ad' (ad_sta_privacy ad' ! i) f' = Some False
      \<and> f' = set_cipher ad' (ad_sta_privacy ad' ! i) f1 \<and> fa_psta f1 = Some i"
proof -
  from assms obtain amsdu f1 ad1 i f2 ad2 f3 where
    h: "validate_hdr ad (f\<lparr>fa_amsdu := amsdu\<rparr>) = Some (RX_SUCCESS, f1, ad1, Some i)"
    and q: "parse_qc ad1 (f1\<lparr>fa_psta := Some i, fa_preorder := None, fa_ack_policy := 0\<rparr>) (if fa_to_fr_ds f = 3 then 6 else 0) = Some (f2, ad2)"
    and r: "rx_filters ad2 i f2 = Some (True, f3, ad')" and f': "f' = set_cipher ad' (ad_sta_privacy ad' ! i) f3"
    and d: "drop_unprotected ad' (ad_sta_privacy ad' ! i) f' = Some False"
    unfolding validate_recv_data_frame_def Let_def by (auto split: bind_splits if_splits option.splits prod.splits)
  show "ad_config ad' = ad_config ad"
    using validate_hdr_config [OF h] parse_qc_config [OF q] rx_filters_config [OF r] by simp
  have "fa_psta f3 = Some i"
    using q r by (auto simp: parse_qc_def rx_filters_def Let_def split: bind_splits if_splits)
  with d f' show "\<exists>i f1. drop_unprotected ad' (ad_sta_privacy ad' ! i) f' = Some False
      \<and> f' = set_cipher ad' (ad_sta_privacy ad' ! i) f1 \<and> fa_psta f1 = Some i" by blast
qed

lemma set_cipher_frame [simp]:
  "fa_psta (set_cipher ad p f) = fa_psta f" "fa_privacy (set_cipher ad p f) = fa_privacy f" "fa_ra (set_cipher ad p f) = fa_ra f"
  "fa_qos (set_cipher ad p f) = fa_qos f" "fa_preorder (set_cipher ad p f) = fa_preorder f" "fa_hdrlen (set_cipher ad p f) = fa_hdrlen f"
  "fa_priority (set_cipher ad p f) = fa_priority f"
  by (simp_all add: set_cipher_def Let_def split: prod.split)

text \<open>C3: What passes in a protected network. When \<open>validate_recv_frame\<close> accepts a frame although the
  network uses encryption, then either the frame is protected, and is treated with the group
  cipher or the cipher of its transmitter, with the IV and ICV lengths of that cipher; or it is an
  unprotected unicast EAPOL frame that is no A-MSDU, in a network with 802.1X (CVE-2020-26140, 26143,
  26144, 26147). An access point accepts EAPOL frames of a station without pairwise key only when
  they are addressed to itself (CVE-2020-26139).\<close>

theorem validate_recv_frame_protects:
  assumes "validate_recv_frame ad f = Some (RX_SUCCESS, f', ad')" and "ad_PrivacyAlgrthm ad \<noteq> 0"
  shows "\<exists>i. fa_psta f' = Some i \<and>
    (let eapol = (RTW_GET_BE16 (fr_buf f') (fr_data f' + fa_hdrlen f' + fa_iv_len f' + 6) = Some 0x888e) in
     (if fa_privacy f' then
        (ad_AuthAlgrthm ad = 2 \<longrightarrow> fa_encrypt f' = (if rx_mcast (fa_ra f') then ad_GrpPrivacy ad else ad_sta_privacy ad ! i))
        \<and> (ad_AuthAlgrthm ad \<in> {0, 1, 3, 4} \<longrightarrow> fa_encrypt f' = ad_PrivacyAlgrthm ad)
        \<and> SET_ICE_IV_LEN (fa_encrypt f') = (fa_iv_len f', fa_icv_len f')
      else \<not> rx_mcast (fa_ra f') \<and> ad_AuthAlgrthm ad = 2 \<and> eapol \<and> \<not> fa_amsdu f' \<and> fa_encrypt f' = 0)
     \<and> (ad_AuthAlgrthm ad = 2 \<and> \<not> rx_mcast (fa_ra f') \<and> eapol \<and> check_fwstate ad WIFI_AP_STATE \<and> ad_sta_privacy ad ! i = 0
        \<longrightarrow> fa_dst f' = ad_mac ad))"
proof -
  from assms(1) obtain f0 where "validate_recv_data_frame ad f0 = Some (RX_SUCCESS, f', ad')"
    by (auto simp: validate_recv_frame_def Let_def split: bind_splits if_splits)
  note p = validate_recv_data_frame_passes [OF this]
  from p(2) obtain i f1 where d: "drop_unprotected ad' (ad_sta_privacy ad' ! i) f' = Some False"
    and f': "f' = set_cipher ad' (ad_sta_privacy ad' ! i) f1" and i: "fa_psta f' = Some i" by auto
  have c: "ad_fw_state ad' = ad_fw_state ad" "ad_mac ad' = ad_mac ad" "ad_PrivacyAlgrthm ad' = ad_PrivacyAlgrthm ad"
    "ad_AuthAlgrthm ad' = ad_AuthAlgrthm ad" "ad_GrpPrivacy ad' = ad_GrpPrivacy ad" "ad_sta_privacy ad' = ad_sta_privacy ad"
    using p(1) by (auto simp: ad_config_def)
  let ?eapol = "RTW_GET_BE16 (fr_buf f') (fr_data f' + fa_hdrlen f' + fa_iv_len f' + 6) = Some 0x888e"
  have plain: "\<not> rx_mcast (fa_ra f') \<and> ad_AuthAlgrthm ad = 2 \<and> ?eapol \<and> \<not> fa_amsdu f'" if "\<not> fa_privacy f'"
    using d that assms(2)
    by (auto simp: drop_unprotected_def c LLC_HEADER_SIZE_def dot11AuthAlgrthm_8021X_def split: if_splits bind_splits)
  have fwd: "fa_dst f' = ad_mac ad" if "ad_AuthAlgrthm ad = 2 \<and> \<not> rx_mcast (fa_ra f') \<and> ?eapol \<and> check_fwstate ad WIFI_AP_STATE \<and> ad_sta_privacy ad ! i = 0"
    using d that assms(2)
    by (auto simp: drop_unprotected_def c LLC_HEADER_SIZE_def dot11AuthAlgrthm_8021X_def check_fwstate_def split: if_splits bind_splits)
  have cipher: "fa_encrypt f' = GET_ENCRY_ALGO ad (ad_sta_privacy ad ! i) (fa_encrypt f1) (rx_mcast (fa_ra f'))
      \<and> SET_ICE_IV_LEN (fa_encrypt f') = (fa_iv_len f', fa_icv_len f')" if "fa_privacy f'"
    using that c by (auto simp: f' set_cipher_def Let_def GET_ENCRY_ALGO_def split: prod.splits)
  have none: "fa_encrypt f' = 0" if "\<not> fa_privacy f'"
  proof -
    have "\<not> fa_privacy f1" using that f' by simp
    then show ?thesis by (simp add: f' set_cipher_def)
  qed
  show ?thesis
    using i plain fwd cipher none
    by (auto simp: Let_def GET_ENCRY_ALGO_def dot11AuthAlgrthm_8021X_def dot11AuthAlgrthm_WAPI_def)
qed

section \<open>Validation is safe\<close>

definition rx_room :: "rx_frame \<Rightarrow> bool" where
  "rx_room f \<longleftrightarrow> fr_data f + 62 \<le> length (fr_buf f)"

lemma hdr_addr_Some: "rx_room f \<Longrightarrow> off \<le> 24 \<Longrightarrow> \<exists>a. hdr_addr f off = Some a"
  by (simp add: rx_room_def hdr_addr_def rd_n_def)

lemma hdr_addr_length: "hdr_addr f off = Some a \<Longrightarrow> length a = 6"
  by (auto simp: hdr_addr_def dest: rd_n_length)

lemma frame_ctl_Some: "rx_room f \<Longrightarrow> \<exists>c. frame_ctl f = Some c"
  by (simp add: rx_room_def frame_ctl_def RTW_GET_LE16_def rd_def)

definition same_rx :: "rx_frame \<Rightarrow> rx_frame \<Rightarrow> bool" where
  "same_rx f g \<longleftrightarrow> fr_buf g = fr_buf f \<and> fr_data g = fr_data f \<and> fa_to_fr_ds g = fa_to_fr_ds f \<and> fa_qos g = fa_qos f"

lemma rx_room_cong: "fr_buf g = fr_buf f \<Longrightarrow> fr_data g = fr_data f \<Longrightarrow> rx_room g = rx_room f"
  by (simp add: rx_room_def)

lemma hdr_addr_cong: "fr_buf g = fr_buf f \<Longrightarrow> fr_data g = fr_data f \<Longrightarrow> hdr_addr g off = hdr_addr f off"
  by (simp add: hdr_addr_def)

lemma frame_ctl_cong: "fr_buf g = fr_buf f \<Longrightarrow> fr_data g = fr_data f \<Longrightarrow> frame_ctl g = frame_ctl f"
  by (simp add: frame_ctl_def)

text \<open>The result of a header check: the frame keeps its text, and a frame that passes has addresses and a
  known transmitter.\<close>

definition known_sta :: "sta_priv \<Rightarrow> nat option \<Rightarrow> bool" where
  "known_sta sp sta \<longleftrightarrow> sta \<noteq> None \<and> (\<exists>a. sta = rtw_get_stainfo sp (Some a))"

lemma known_staI: "rtw_get_stainfo sp (Some a) = Some i \<Longrightarrow> known_sta sp (Some i)"
  by (auto simp: known_sta_def) metis

definition hdr_result :: "rx_adapter \<Rightarrow> rx_frame \<Rightarrow> (rx_result \<times> rx_frame \<times> rx_adapter \<times> nat option) option \<Rightarrow> bool" where
  "hdr_result ad f r \<longleftrightarrow> (\<exists>ret f' ad' sta. r = Some (ret, f', ad', sta) \<and> same_rx f f' \<and> ad_stas ad' = ad_stas ad
     \<and> (ret = RX_SUCCESS \<longrightarrow> length (fa_ra f') = 6 \<and> known_sta (ad_stas ad) sta))"

lemma hdr_result_Some [simp]:
  "hdr_result ad f (Some (ret, f', ad', sta)) \<longleftrightarrow> same_rx f f' \<and> ad_stas ad' = ad_stas ad
     \<and> (ret = RX_SUCCESS \<longrightarrow> length (fa_ra f') = 6 \<and> known_sta (ad_stas ad) sta)"
  by (simp add: hdr_result_def)

lemma issue_deauth_stas [simp]: "ad_stas (issue_deauth ad a) = ad_stas ad"
  by (simp add: issue_deauth_def)

lemma rx_header:
  assumes "rx_room f"
  obtains a1 a2 a3 a4 c where "hdr_addr f 4 = Some a1" "hdr_addr f 10 = Some a2" "hdr_addr f 16 = Some a3"
    "hdr_addr f 24 = Some a4" "frame_ctl f = Some c" "length a1 = 6"
  using hdr_addr_Some [OF assms, of 4] hdr_addr_Some [OF assms, of 10] hdr_addr_Some [OF assms, of 16]
    hdr_addr_Some [OF assms, of 24] frame_ctl_Some [OF assms] hdr_addr_length [of f 4] by auto

lemma rtw_sta_rx_data_validate_hdr_result:
  assumes "rx_room f"
  shows "hdr_result ad f (rtw_sta_rx_data_validate_hdr ad f)"
proof -
  from rx_header [OF assms] obtain a1 a2 a3 a4 c where a: "hdr_addr f 4 = Some a1" "hdr_addr f 10 = Some a2"
    "hdr_addr f 16 = Some a3" "hdr_addr f 24 = Some a4" "frame_ctl f = Some c" "length a1 = 6" by blast
  note a = a [unfolded hdr_addr_def frame_ctl_def]
  have s: "rtw_get_stainfo (ad_stas ad) (Some a2) = None \<or> (\<exists>i. rtw_get_stainfo (ad_stas ad) (Some a2) = Some i \<and> known_sta (ad_stas ad) (Some i))"
    using known_staI [of "ad_stas ad" a2] by (cases "rtw_get_stainfo (ad_stas ad) (Some a2)") auto
  consider (ibss) "fa_to_fr_ds f = 0" | (down) "fa_to_fr_ds f = 2" | (wds) "fa_to_fr_ds f = 3"
    | (up) "fa_to_fr_ds f \<noteq> 0" "fa_to_fr_ds f \<noteq> 2" "fa_to_fr_ds f \<noteq> 3" by blast
  then show ?thesis
    unfolding rtw_sta_rx_data_validate_hdr_def Let_def hdr_addr_def frame_ctl_def
    by cases (use s in \<open>auto simp: a same_rx_def\<close>)
qed

lemma rtw_ap_rx_data_validate_hdr_result:
  assumes "rx_room f"
  shows "hdr_result ad f (rtw_ap_rx_data_validate_hdr ad f)"
proof -
  from rx_header [OF assms] obtain a1 a2 a3 a4 c where a: "hdr_addr f 4 = Some a1" "hdr_addr f 10 = Some a2"
    "hdr_addr f 16 = Some a3" "hdr_addr f 24 = Some a4" "frame_ctl f = Some c" "length a1 = 6" by blast
  note a = a [unfolded hdr_addr_def frame_ctl_def]
  have s: "rtw_get_stainfo (ad_stas ad) (Some a2) = None \<or> (\<exists>i. rtw_get_stainfo (ad_stas ad) (Some a2) = Some i \<and> known_sta (ad_stas ad) (Some i))"
    using known_staI [of "ad_stas ad" a2] by (cases "rtw_get_stainfo (ad_stas ad) (Some a2)") auto
  consider (up) "fa_to_fr_ds f = 1" | (wds) "fa_to_fr_ds f = 3" | (else) "fa_to_fr_ds f \<noteq> 1" "fa_to_fr_ds f \<noteq> 3" by blast
  then show ?thesis
    unfolding rtw_ap_rx_data_validate_hdr_def Let_def hdr_addr_def frame_ctl_def
    by cases (use s in \<open>auto simp: a same_rx_def\<close>)
qed

lemma other_validate_hdr_result:
  assumes "rx_room f"
  shows "hdr_result ad f (other_validate_hdr ad f)"
proof -
  from rx_header [OF assms] obtain a1 a2 a3 a4 c where a: "hdr_addr f 4 = Some a1" "hdr_addr f 10 = Some a2"
    "hdr_addr f 16 = Some a3" "hdr_addr f 24 = Some a4" "frame_ctl f = Some c" "length a1 = 6" by blast
  note a = a [unfolded hdr_addr_def]
  have s: "rtw_get_stainfo (ad_stas ad) (Some b) = None \<or> known_sta (ad_stas ad) (rtw_get_stainfo (ad_stas ad) (Some b))" for b
    using known_staI [of "ad_stas ad" b] by (cases "rtw_get_stainfo (ad_stas ad) (Some b)") auto
  consider (ibss) "fa_to_fr_ds f = 0" | (up) "fa_to_fr_ds f = 1" | (down) "fa_to_fr_ds f = 2" | (wds) "3 \<le> fa_to_fr_ds f" by linarith
  then show ?thesis
  proof cases
    case ibss
    consider (adhoc) "check_fwstate ad WIFI_ADHOC_STATE \<or> check_fwstate ad WIFI_ADHOC_MASTER_STATE"
      | (mp) "\<not> (check_fwstate ad WIFI_ADHOC_STATE \<or> check_fwstate ad WIFI_ADHOC_MASTER_STATE)" "check_fwstate ad WIFI_MP_STATE"
      | (none) "\<not> (check_fwstate ad WIFI_ADHOC_STATE \<or> check_fwstate ad WIFI_ADHOC_MASTER_STATE)" "\<not> check_fwstate ad WIFI_MP_STATE"
      by blast
    then show ?thesis unfolding other_validate_hdr_def Let_def hdr_addr_def sta2sta_data_frame_def mp_addrs_def
      by cases (use s [of a2] s [of "ad_bssid ad"] ibss in \<open>auto simp: a same_rx_def if_split [where P = "hdr_result ad f"]\<close>)
  next
    case up
    then show ?thesis unfolding other_validate_hdr_def Let_def hdr_addr_def
      using s [of a3] by (auto simp: a same_rx_def sta2ap_data_frame_def mp_addrs_def hdr_addr_def Let_def)
  next
    case down
    then show ?thesis unfolding other_validate_hdr_def Let_def hdr_addr_def
      using s [of a3] by (auto simp: a same_rx_def ap2sta_data_frame_def mp_addrs_def hdr_addr_def Let_def)
  next
    case wds
    then show ?thesis by (simp add: other_validate_hdr_def same_rx_def)
  qed
qed

lemma validate_hdr_result: "rx_room f \<Longrightarrow> hdr_result ad f (validate_hdr ad f)"
  by (simp add: validate_hdr_def rtw_sta_rx_data_validate_hdr_result rtw_ap_rx_data_validate_hdr_result other_validate_hdr_result)

lemma le16_Some: "i + 2 \<le> length b \<Longrightarrow> \<exists>v. RTW_GET_LE16 b i = Some v"
  by (simp add: RTW_GET_LE16_def rd_def)

lemma qos_ctl_Some: "rx_room f \<Longrightarrow> k \<le> 6 \<Longrightarrow> \<exists>v. qos_ctl f k off n = Some v"
  using le16_Some [of "fr_data f + WLAN_HDR_A3_LEN + k" "fr_buf f"]
  by (auto simp: rx_room_def qos_ctl_def LE_BITS_TO_2BYTE_def ReadLE2Byte_def WLAN_HDR_A3_LEN_def)

lemma qos_tid:
  assumes "qos_ctl f k 0 4 = Some v"
  shows "unat v < 16"
proof -
  from assms obtain w where "v = take_bit 4 w"
    by (auto simp: qos_ctl_def LE_BITS_TO_2BYTE_def BIT_LEN_MASK_mask take_bit_eq_mask)
  then show ?thesis using take_bit_nat_less_exp [of 4 "unat w"] by (simp add: unsigned_take_bit_eq)
qed

lemma SET_ICE_IV_LEN_le: "SET_ICE_IV_LEN e = (iv, icv) \<Longrightarrow> iv \<le> 18 \<and> icv \<le> 16"
  by (auto simp: SET_ICE_IV_LEN_def split: if_splits)

lemma set_cipher_lens: "fa_iv_len (set_cipher ad p f) \<le> 18 \<and> fa_icv_len (set_cipher ad p f) \<le> 16"
  using SET_ICE_IV_LEN_le by (auto simp: set_cipher_def Let_def split: prod.split)

lemma set_cipher_buf [simp]: "fr_buf (set_cipher ad p f) = fr_buf f" "fr_data (set_cipher ad p f) = fr_data f"
  by (simp_all add: set_cipher_def Let_def split: prod.split)

lemma parse_qc_Some:
  assumes "rx_room f" and "k \<le> 6"
  shows "\<exists>f' ad'. parse_qc ad f k = Some (f', ad') \<and> fr_buf f' = fr_buf f \<and> fr_data f' = fr_data f \<and> fa_hdrlen f' \<le> 36
    \<and> 24 \<le> fa_hdrlen f' \<and> unat (fa_priority f') < 16 \<and> fa_ra f' = fa_ra f \<and> fa_psta f' = fa_psta f \<and> fa_preorder f' = fa_preorder f \<and> fa_qos f' = fa_qos f"
proof (cases "fa_qos f")
  case True
  from qos_ctl_Some [OF assms] obtain v w where v: "qos_ctl f k 0 4 = Some v" "qos_ctl f k 5 2 = Some w" by blast
  have "unat (ucast v :: u8) \<le> unat v" by (simp add: unsigned_ucast_eq take_bit_eq_mod)
  then show ?thesis using True v qos_tid [OF v(1)] assms(2) by (auto simp: parse_qc_def WLAN_HDR_A3_QOS_LEN_def)
next
  case False
  then show ?thesis using assms(2) by (auto simp: parse_qc_def WLAN_HDR_A3_LEN_def)
qed

lemma rx_filters_Some:
  assumes "rx_room f" and "fa_hdrlen f \<le> 36" and "length (fa_ra f) = 6"
  shows "\<exists>ok f' ad'. rx_filters ad i f = Some (ok, f', ad') \<and> fr_buf f' = fr_buf f \<and> fr_data f' = fr_data f
    \<and> fa_hdrlen f' = fa_hdrlen f \<and> fa_priority f' = fa_priority f \<and> fa_psta f' = fa_psta f \<and> fa_ra f' = fa_ra f
    \<and> (fa_preorder f' = fa_preorder f \<or> fa_preorder f' = Some (unat (fa_priority f)))"
proof -
  have mc: "IS_MCAST (fa_ra f) = Some (rx_mcast (fa_ra f))" using assms(3) by (simp add: IS_MCAST_def rx_mcast_def rd_def)
  have hdr: "\<exists>xs. rd_n (drop (fr_data f) (fr_buf f)) (fa_hdrlen f) 8 = Some xs" using assms(1,2) by (simp add: rx_room_def rd_n_def)
  have dv: "df_ra (decache_view f) = fa_ra f" "df_data (decache_view f) = drop (fr_data f) (fr_buf f)" "df_hdrlen (decache_view f) = fa_hdrlen f"
    by (simp_all add: decache_view_def)
  have "recv_decache (decache_view f) (sta_recv (sp_sta (ad_stas ad) ! i)) \<noteq> None"
    using mc by (auto simp: recv_decache_def dv Let_def)
  then obtain ok st where d: "recv_decache (decache_view f) (sta_recv (sp_sta (ad_stas ad) ! i)) = Some (ok, st)" by auto
  have "recv_ucast_pn_decache (decache_view f) st \<noteq> None"
    using hdr by (auto simp: recv_ucast_pn_decache_def dv Let_def)
  then have u: "\<exists>r st'. recv_ucast_pn_decache (decache_view f) st = Some (r, st')" by auto
  have "recv_bcast_pn_decache s (decache_view f) ivs \<noteq> None" for s ivs
    using hdr by (auto simp: recv_bcast_pn_decache_def dv Let_def)
  then have b: "\<exists>r iv. recv_bcast_pn_decache s (decache_view f) ivs = Some (r, iv)" for s ivs by auto
  have v: "decache_view (f\<lparr>fa_preorder := p\<rparr>) = decache_view f" for p by (simp add: decache_view_def)
  show ?thesis
  proof (cases "ok \<and> rx_mcast (fa_ra f)")
    case True
    from b obtain r iv where "recv_bcast_pn_decache (check_fwstate ad WIFI_STATION_STATE) (decache_view f) (ad_iv_seq ad) = Some (r, iv)" by blast
    with True d show ?thesis by (simp add: rx_filters_def check_fwstate_def)
  next
    case False
    with u d v show ?thesis by (auto simp: rx_filters_def Let_def)
  qed
qed

definition rx_good :: "rx_adapter \<Rightarrow> rx_frame \<Rightarrow> (rx_result \<times> rx_frame \<times> rx_adapter) option \<Rightarrow> bool" where
  "rx_good ad f r \<longleftrightarrow> (\<exists>ret f' ad'. r = Some (ret, f', ad') \<and> fr_buf f' = fr_buf f \<and> fr_data f' = fr_data f
     \<and> (ret = RX_SUCCESS \<longrightarrow> known_sta (ad_stas ad) (fa_psta f') \<and> unat (fa_priority f') < 16
         \<and> (\<forall>t. fa_preorder f' = Some t \<longrightarrow> t < 16)
         \<and> 24 \<le> fa_hdrlen f' \<and> fa_hdrlen f' \<le> 36 \<and> fa_iv_len f' \<le> 18 \<and> fa_icv_len f' \<le> 16))"

lemma drop_unprotected_Some:
  assumes "fr_data f + fa_hdrlen f + fa_iv_len f + LLC_HEADER_SIZE + 1 < length (fr_buf f)"
  shows "\<exists>drop. drop_unprotected ad p f = Some drop"
proof -
  from BE16_Some [OF assms] have "drop_unprotected ad p f \<noteq> None" by (auto simp: drop_unprotected_def)
  then show ?thesis by blast
qed

text \<open>The part of the function after the header check.\<close>

lemma validate_tail_good:
  assumes "rx_room f0" and "k \<le> 6" and "fr_buf f1 = fr_buf f0" "fr_data f1 = fr_data f0" "length (fa_ra f1) = 6"
    and "known_sta (ad_stas ad) (Some i)"
  shows "rx_good ad f0 (do {
             (f, ad) \<leftarrow> parse_qc ad1 (f1\<lparr>fa_psta := Some i, fa_preorder := None, fa_ack_policy := 0\<rparr>) k;
             (ok, f, ad) \<leftarrow> rx_filters ad i f;
             if \<not> ok then Some (RX_FAIL, f, ad)
             else do {
               let f = set_cipher ad (ad_sta_privacy ad ! i) f;
               drop \<leftarrow> drop_unprotected ad (ad_sta_privacy ad ! i) f;
               Some (if drop then RX_FAIL else RX_SUCCESS, f, ad) } })"
proof -
  have "rx_room (f1\<lparr>fa_psta := Some i, fa_preorder := None, fa_ack_policy := 0\<rparr>)" using assms by (simp add: rx_room_def)
  from parse_qc_Some [OF this assms(2), of ad1] obtain f2 ad2 where
    q: "parse_qc ad1 (f1\<lparr>fa_psta := Some i, fa_preorder := None, fa_ack_policy := 0\<rparr>) k = Some (f2, ad2)" "fr_buf f2 = fr_buf f0"
    "fr_data f2 = fr_data f0" "fa_hdrlen f2 \<le> 36" "24 \<le> fa_hdrlen f2"
    "unat (fa_priority f2) < 16" "length (fa_ra f2) = 6" "fa_psta f2 = Some i" "fa_preorder f2 = None" using assms(3-5) by auto
  have room2: "rx_room f2" using assms(1) q by (simp add: rx_room_def)
  from rx_filters_Some [OF room2 q(4,7), of ad2 i] obtain ok f3 ad3 where
    r: "rx_filters ad2 i f2 = Some (ok, f3, ad3)" "fr_buf f3 = fr_buf f0" "fr_data f3 = fr_data f0" "fa_hdrlen f3 = fa_hdrlen f2"
    "fa_priority f3 = fa_priority f2" "fa_psta f3 = Some i" "fa_preorder f3 = None \<or> fa_preorder f3 = Some (unat (fa_priority f2))"
    using q by auto
  let ?g = "set_cipher ad3 (ad_sta_privacy ad3 ! i) f3"
  note lens = set_cipher_lens [of ad3 "ad_sta_privacy ad3 ! i" f3]
  have "fr_data ?g + fa_hdrlen ?g + fa_iv_len ?g + LLC_HEADER_SIZE + 1 < length (fr_buf ?g)"
    using assms(1) lens q(4) r by (simp add: rx_room_def LLC_HEADER_SIZE_def)
  from drop_unprotected_Some [OF this] obtain drop where "drop_unprotected ad3 (ad_sta_privacy ad3 ! i) ?g = Some drop" by blast
  then show ?thesis using q r lens assms(6) by (auto simp: rx_good_def Let_def)
qed

lemma validate_recv_data_frame_good:
  assumes "rx_room f"
  shows "rx_good ad f (validate_recv_data_frame ad f)"
proof -
  obtain k where k: "k = (if fa_to_fr_ds f = 3 then 6 else 0 :: nat)" "k \<le> 6" by simp
  obtain am where am: "(if fa_qos f then map_option (\<lambda>v. v \<noteq> 0) (qos_ctl f k 7 1) else Some False) = Some am"
    using qos_ctl_Some [OF assms k(2), of 7 1] by (cases "fa_qos f") (auto simp del: One_nat_def)
  have "rx_room (f\<lparr>fa_amsdu := am\<rparr>)" using assms by (simp add: rx_room_def)
  from validate_hdr_result [OF this, of ad] obtain ret f1 ad1 sta where
    h: "validate_hdr ad (f\<lparr>fa_amsdu := am\<rparr>) = Some (ret, f1, ad1, sta)" "same_rx (f\<lparr>fa_amsdu := am\<rparr>) f1"
    "ret = RX_SUCCESS \<longrightarrow> length (fa_ra f1) = 6 \<and> known_sta (ad_stas ad) sta" by (auto simp: hdr_result_def)
  have b1: "fr_buf f1 = fr_buf f" "fr_data f1 = fr_data f" using h(2) by (simp_all add: same_rx_def)
  note unf = validate_recv_data_frame_def Let_def k(1) [symmetric] am Option.bind_lunit h(1)
  show ?thesis
  proof (cases "ret = RX_SUCCESS")
    case True
    then obtain i where i: "sta = Some i" "known_sta (ad_stas ad) (Some i)" "length (fa_ra f1) = 6"
      using h(3) by (auto simp: known_sta_def)
    have fail: "rx_good ad f (Some (RX_FAIL, f1, ad1))" using b1 by (simp add: rx_good_def)
    show ?thesis
      using True fail validate_tail_good [OF assms k(2) b1 i(3,2), of ad1] unfolding unf by (simp add: i(1) Let_def)
  next
    case False
    then show ?thesis using b1 unfolding unf by (simp add: rx_good_def)
  qed
qed

text \<open>C17: How many bytes \<open>validate_recv_frame\<close> relies on. It compares nothing with the length of the frame. When
  62 bytes can be read behind \<open>rx_data\<close> (a header of 36 bytes, an IV of 18 and an LLC header of 8) it
  returns and leaves the frame's text alone, and a frame it accepts comes from a station of the
  table, has a TID below 16 (the size of the arrays indexed by it, the reordering windows
  included), a header of 24 to 36 bytes, and an IV and ICV of at most 18 and 16 bytes. When the buffer ends before
  24 bytes, every frame of protocol version 0 is read outside its buffer.\<close>

theorem validate_recv_frame_bounds:
  shows "(fr_data f + 62 \<le> length (fr_buf f) \<longrightarrow>
      (\<exists>ret f' ad'. validate_recv_frame ad f = Some (ret, f', ad') \<and> fr_buf f' = fr_buf f \<and> fr_data f' = fr_data f
        \<and> (ret = RX_SUCCESS \<longrightarrow> (\<exists>i a. fa_psta f' = Some i \<and> rtw_get_stainfo (ad_stas ad) (Some a) = Some i)
          \<and> unat (fa_priority f') < 16 \<and> (\<forall>t. fa_preorder f' = Some t \<longrightarrow> t < 16)
          \<and> 24 \<le> fa_hdrlen f' \<and> fa_hdrlen f' \<le> 36 \<and> fa_iv_len f' \<le> 18 \<and> fa_icv_len f' \<le> 16)))
    \<and> (length (fr_buf f) < fr_data f + 24 \<and> (\<forall>b. rd (fr_buf f) (fr_data f) = Some b \<longrightarrow> b AND 3 = 0) \<longrightarrow> validate_recv_frame ad f = None)"
proof (intro conjI impI)
  assume short: "length (fr_buf f) < fr_data f + 24 \<and> (\<forall>b. rd (fr_buf f) (fr_data f) = Some b \<longrightarrow> b AND 3 = 0)"
  then have "GetFragNum f = None" by (simp add: GetFragNum_def RTW_GET_LE16_def rd_def split: bind_splits)
  then show "validate_recv_frame ad f = None" using short
    by (cases "rd (fr_buf f) (fr_data f)") (auto simp: validate_recv_frame_def bind_eq_None_conv)
next
  assume room: "fr_data f + 62 \<le> length (fr_buf f)"
  obtain b0 fc s where r: "rd (fr_buf f) (fr_data f) = Some b0" "frame_ctl f = Some fc" "RTW_GET_LE16 (fr_buf f) (fr_data f + 22) = Some s"
    using room le16_Some [of "fr_data f" "fr_buf f"] le16_Some [of "fr_data f + 22" "fr_buf f"] by (auto simp: rd_def frame_ctl_def)
  let ?f = "f\<lparr>fa_to_fr_ds := get_tofr_ds fc, fa_frag_num := unat (s AND 0x0f), fa_seq_num := drop_bit 4 s, fa_mfrag := bit fc 10,
                 fa_privacy := bit fc 14, fa_order := bit fc 15, fa_qos := bit fc 7\<rparr>"
  have "rx_room ?f" using room by (simp add: rx_room_def)
  from validate_recv_data_frame_good [OF this, of ad] have "rx_good ad f (validate_recv_frame ad f)"
    using r by (auto simp: validate_recv_frame_def GetFragNum_def GetSequence_def Let_def rx_good_def)
  then show "\<exists>ret f' ad'. validate_recv_frame ad f = Some (ret, f', ad') \<and> fr_buf f' = fr_buf f \<and> fr_data f' = fr_data f
        \<and> (ret = RX_SUCCESS \<longrightarrow> (\<exists>i a. fa_psta f' = Some i \<and> rtw_get_stainfo (ad_stas ad) (Some a) = Some i)
          \<and> unat (fa_priority f') < 16 \<and> (\<forall>t. fa_preorder f' = Some t \<longrightarrow> t < 16)
          \<and> 24 \<le> fa_hdrlen f' \<and> fa_hdrlen f' \<le> 36 \<and> fa_iv_len f' \<le> 18 \<and> fa_icv_len f' \<le> 16)"
    by (auto simp: rx_good_def known_sta_def)
qed

text \<open>Examples: an unprotected EAPOL frame from the access point to a station of the network.\<close>

definition ex_stas :: sta_priv where
  "ex_stas = sp0\<lparr>sp_sta := replicate 32 (rtw_init_stainfo\<lparr>sta_mac := [2, 0, 0, 0, 0, 7]\<rparr>), sp_hash := replicate 32 [5]\<rparr>"

definition ex_adapter :: rx_adapter where
  "ex_adapter = \<lparr>ad_fw_state = 0x9, ad_mac = [2, 0, 0, 0, 0, 4], ad_bssid = [2, 0, 0, 0, 0, 7], ad_PrivacyAlgrthm = 4,
     ad_AuthAlgrthm = 2, ad_GrpPrivacy = 4, ad_iv_seq = replicate 4 (replicate 8 0), ad_stas = ex_stas,
     ad_flags = replicate 32 0, ad_sta_privacy = replicate 32 4, ad_any_non_be = False, ad_radar_detected = False,
     ad_deauth_due = False, ad_deauth = []\<rparr>"

definition ex_eapol :: rx_frame where
  "ex_eapol = (ex_frag 0 False 0 [])\<lparr>fr_buf := [0x08, 0x02, 0, 0, 2, 0, 0, 0, 0, 4, 2, 0, 0, 0, 0, 7, 2, 0, 0, 0, 0, 9, 0x10, 0,
     0xaa, 0xaa, 3, 0, 0, 0, 0x88, 0x8e] @ replicate 40 0, fa_encrypt := 0\<rparr>"

lemma ex_known: "rtw_get_stainfo ex_stas (Some [2, 0, 0, 0, 0, 7]) = Some 5"
  using wifi_mac_hash_less [of "[2, 0, 0, 0, 0, 7]"] by (simp add: rtw_get_stainfo_def ex_stas_def is_mcast_addr_def NUM_STA_def)

text \<open>The same frame cut off after 23 bytes.\<close>

definition ex_short :: rx_frame where
  "ex_short = ex_eapol\<lparr>fr_buf := take 23 (fr_buf ex_eapol)\<rparr>"

theorem validate_recv_frame_bounds_witness:
  "(\<exists>ret f' ad'. validate_recv_frame ex_adapter ex_eapol = Some (ret, f', ad') \<and> fr_buf f' = fr_buf ex_eapol)
    \<and> validate_recv_frame ex_adapter ex_short = None"
proof
  have "fr_data ex_eapol + 62 \<le> length (fr_buf ex_eapol)" by (simp add: ex_eapol_def ex_frag_def)
  then show "\<exists>ret f' ad'. validate_recv_frame ex_adapter ex_eapol = Some (ret, f', ad') \<and> fr_buf f' = fr_buf ex_eapol"
    using validate_recv_frame_bounds [of ex_eapol ex_adapter] by blast
  have "length (fr_buf ex_short) < fr_data ex_short + 24 \<and> (\<forall>b. rd (fr_buf ex_short) (fr_data ex_short) = Some b \<longrightarrow> b AND 3 = 0)"
    by (simp add: ex_short_def ex_eapol_def ex_frag_def rd_def)
  then show "validate_recv_frame ex_adapter ex_short = None" using validate_recv_frame_bounds [of ex_short ex_adapter] by blast
qed

lemma ex_eapol_hdr:
  "rd (fr_buf ex_eapol) (fr_data ex_eapol) = Some 0x08" "frame_ctl ex_eapol = Some 0x0208"
  "GetFragNum ex_eapol = Some 0" "GetSequence ex_eapol = Some 1"
  "hdr_addr ex_eapol 4 = Some [2, 0, 0, 0, 0, 4]" "hdr_addr ex_eapol 10 = Some [2, 0, 0, 0, 0, 7]" "hdr_addr ex_eapol 16 = Some [2, 0, 0, 0, 0, 9]"
  "RTW_GET_BE16 (fr_buf ex_eapol) (fr_data ex_eapol + 30) = Some 0x888e"
  by (simp_all add: ex_eapol_def ex_frag_def rd_def frame_ctl_def GetFragNum_def GetSequence_def hdr_addr_def RTW_GET_LE16_def
      RTW_GET_BE16_def rd_n_def)

definition ex_eapol1 :: rx_frame where
  "ex_eapol1 = ex_eapol\<lparr>fa_to_fr_ds := 2, fa_frag_num := 0, fa_seq_num := 1, fa_mfrag := False, fa_privacy := False,
     fa_order := False, fa_qos := False, fa_amsdu := False\<rparr>"

lemma ex_eapol_validate_hdr:
  "validate_hdr ex_adapter ex_eapol1 = Some (RX_SUCCESS, ex_eapol1\<lparr>fa_ra := [2, 0, 0, 0, 0, 4], fa_ta := [2, 0, 0, 0, 0, 7],
     fa_dst := [2, 0, 0, 0, 0, 4], fa_src := [2, 0, 0, 0, 0, 9], fa_bssid := [2, 0, 0, 0, 0, 7]\<rparr>, ex_adapter, Some 5)"
proof -
  have st: "\<not> check_fwstate ex_adapter WIFI_AP_STATE" "check_fwstate ex_adapter WIFI_STATION_STATE"
    "check_fwstate ex_adapter (WIFI_ASOC_STATE OR WIFI_UNDER_LINKING)" "ad_mac ex_adapter = [2, 0, 0, 0, 0, 4]" "ad_stas ex_adapter = ex_stas"
    by (simp_all add: check_fwstate_def ex_adapter_def WIFI_AP_STATE_def WIFI_STATION_STATE_def WIFI_ASOC_STATE_def WIFI_UNDER_LINKING_def)
  note h = ex_eapol_hdr [unfolded hdr_addr_def frame_ctl_def]
  show ?thesis
    unfolding validate_hdr_def rtw_sta_rx_data_validate_hdr_def hdr_addr_def frame_ctl_def Let_def
    using ex_known by (simp add: st ex_eapol1_def h bit_numeral_rec)
qed

lemma ex_eapol_accepted:
  "\<exists>f' ad'. validate_recv_frame ex_adapter ex_eapol = Some (RX_SUCCESS, f', ad') \<and> \<not> fa_privacy f'"
proof -
  let ?f1 = "ex_eapol1\<lparr>fa_ra := [2, 0, 0, 0, 0, 4], fa_ta := [2, 0, 0, 0, 0, 7], fa_dst := [2, 0, 0, 0, 0, 4],
     fa_src := [2, 0, 0, 0, 0, 9], fa_bssid := [2, 0, 0, 0, 0, 7], fa_psta := Some 5, fa_preorder := None, fa_ack_policy := 0,
     fa_priority := 0, fa_hdrlen := 24\<rparr>"
  have at: "fa_qos ex_eapol1 = False" "fa_order ex_eapol1 = False" "fa_to_fr_ds ex_eapol1 = 2" "fa_privacy ex_eapol1 = False"
    "fa_amsdu ex_eapol1 = False" "fr_buf ex_eapol1 = fr_buf ex_eapol" "fr_data ex_eapol1 = fr_data ex_eapol" "fa_encrypt ex_eapol1 = 0"
    "fa_seq_num ex_eapol1 = 1" "fa_frag_num ex_eapol1 = 0"
    by (simp_all add: ex_eapol1_def ex_eapol_def)
  have ad: "ad_flags ex_adapter ! 5 = 0" "ad_sta_privacy ex_adapter ! 5 = 4" "ad_PrivacyAlgrthm ex_adapter = 4" "ad_AuthAlgrthm ex_adapter = 2"
    "check_fwstate ex_adapter WIFI_AP_STATE = False"
    by (simp_all add: ex_adapter_def check_fwstate_def WIFI_AP_STATE_def)
  have q: "parse_qc ex_adapter (ex_eapol1\<lparr>fa_ra := [2, 0, 0, 0, 0, 4], fa_ta := [2, 0, 0, 0, 0, 7], fa_dst := [2, 0, 0, 0, 0, 4],
     fa_src := [2, 0, 0, 0, 0, 9], fa_bssid := [2, 0, 0, 0, 0, 7], fa_psta := Some 5, fa_preorder := None, fa_ack_policy := 0\<rparr>) 0
     = Some (?f1, ex_adapter)"
    by (simp add: parse_qc_def at WLAN_HDR_A3_LEN_def)
  have "sta_recv (sp_sta ex_stas ! 5) = sta_recv_zero" by (simp add: ex_stas_def rtw_init_stainfo_def)
  moreover have "frame_seq_ctrl (decache_view ?f1) = 16" by (simp add: frame_seq_ctrl_def decache_view_def at)
  ultimately have d: "\<exists>st. recv_decache (decache_view ?f1) (sta_recv (sp_sta (ad_stas ex_adapter) ! 5)) = Some (True, st)"
    by (simp add: recv_decache_def IS_MCAST_def rd_def prxseq_def at Let_def ex_adapter_def sta_recv_zero_def)
      (simp add: decache_view_def IS_MCAST_def rd_def prxseq_def at)
  have u: "recv_ucast_pn_decache (decache_view ?f1) st = Some (True, st)" for st
    by (simp add: recv_ucast_pn_decache_def decache_view_def at)
  from d u have "\<exists>ad'. rx_filters ex_adapter 5 ?f1 = Some (True, ?f1, ad') \<and> ad_config ad' = ad_config ex_adapter"
    by (auto simp: rx_filters_def Let_def rx_mcast_def at)
  then obtain ad' where r: "rx_filters ex_adapter 5 ?f1 = Some (True, ?f1, ad')" and c: "ad_config ad' = ad_config ex_adapter" by blast
  have ad': "ad_sta_privacy ad' ! 5 = 4" "ad_PrivacyAlgrthm ad' = 4" "ad_AuthAlgrthm ad' = 2" "check_fwstate ad' WIFI_AP_STATE = False"
    using c ad by (auto simp: ad_config_def check_fwstate_def)
  let ?f2 = "?f1\<lparr>fa_encrypt := 0, fa_iv_len := 0, fa_icv_len := 0\<rparr>"
  have s: "set_cipher ad' 4 ?f1 = ?f2" by (simp add: set_cipher_def at)
  have d: "drop_unprotected ad' 4 ?f2 = Some False"
    using ex_eapol_hdr(8) by (simp add: drop_unprotected_def ad' at rx_mcast_def dot11AuthAlgrthm_8021X_def LLC_HEADER_SIZE_def add.commute)
  have "validate_recv_frame ex_adapter ex_eapol = Some (RX_SUCCESS, ?f2, ad')"
    unfolding validate_recv_frame_def ex_eapol_hdr Let_def
    using ex_eapol_validate_hdr q r s d
    by (simp add: validate_recv_data_frame_def get_tofr_ds_def bit_numeral_rec at ad ad' flip: ex_eapol1_def)
  then show ?thesis by (simp add: at)
qed

theorem validate_recv_frame_protects_witness:
  "\<exists>f' ad'. validate_recv_frame ex_adapter ex_eapol = Some (RX_SUCCESS, f', ad') \<and> \<not> fa_privacy f' \<and> \<not> fa_amsdu f'
    \<and> RTW_GET_BE16 (fr_buf f') (fr_data f' + fa_hdrlen f' + fa_iv_len f' + 6) = Some 0x888e"
proof -
  from ex_eapol_accepted obtain f' ad' where
    v: "validate_recv_frame ex_adapter ex_eapol = Some (RX_SUCCESS, f', ad')" and p: "\<not> fa_privacy f'" by blast
  have "ad_PrivacyAlgrthm ex_adapter \<noteq> 0" by (simp add: ex_adapter_def)
  from validate_recv_frame_protects [OF v this] p v show ?thesis by (auto simp: Let_def)
qed

end
