(* ===== verification/Recv_Func.thy ===== *)
theory Recv_Func
  imports Recv_Msdu Recv_Data Wep
begin

text \<open>
  The stages of a received data frame put together (\<open>core/rtw_recv.c\<close>): \<open>decryptor\<close> and
  \<open>recv_func_posthandle\<close>, which pass the frame through decryption, reassembly, the 802.1X port, the
  reordering window and delivery, over the definitions of \<open>Wep\<close>, \<open>Tkip\<close>, \<open>Defrag\<close>, \<open>Recv_Decache\<close>,
  \<open>Recv_Reorder\<close> and \<open>Recv_Msdu\<close>. The lemmas keep account of the frames: which go back to the free
  queue, which wait for other fragments and which the reordering window takes over.
\<close>

section \<open>State\<close>

text \<open>\<open>fx_keys\<close> are the keys of \<open>struct security_priv\<close>, \<open>fx_uncst_key\<close> gives the pairwise key of a
  transmitter, \<open>fx_mpdu_ok\<close> says whether \<open>recv_process_mpdu\<close> succeeds for a frame the window releases,
  \<open>fx_psta\<close> and \<open>fx_bcmc\<close> the receive state of the transmitter and of the broadcast
  station, \<open>fx_blocked\<close> \<open>ieee8021x_blocked\<close> of the transmitter, if it is known, \<open>fx_windows\<close> its
  reordering windows. \<open>fx_aead\<close> is the software decryption with CCMP and GCMP.\<close>

record rx_func =
  fx_keys :: security_priv
  fx_uncst_key :: "buf \<Rightarrow> buf option"
  fx_aead :: "rx_frame \<Rightarrow> (bool \<times> buf) option"
  fx_hw_decrypted :: bool
  fx_busetkipkey :: bool
  fx_sec :: rx_sec
  fx_psta :: "rx_sta option"
  fx_bcmc :: "rx_sta option"
  fx_8021X :: bool
  fx_blocked :: "bool option"
  fx_windows :: "recv_reorder_ctrl list"
  fx_priv :: recv_priv
  fx_env :: msdu_env
  fx_mpdu_ok :: "recv_frame \<Rightarrow> bool"

section \<open>Decryption\<close>

definition rx_view :: "rx_frame \<Rightarrow> rx_pkt_attrib" where
  "rx_view f = \<lparr>rx_encrypt = fa_encrypt f, rx_hdrlen = fa_hdrlen f, rx_iv_len = fa_iv_len f, rx_key_index = fa_key_index f,
     rx_ra = fa_ra f, rx_ta = fa_ta f, rx_len = fr_len f\<rparr>"

definition put_data :: "rx_frame \<Rightarrow> buf \<Rightarrow> rx_frame" where
  "put_data f xs = f\<lparr>fr_buf := take (fr_data f) (fr_buf f) @ xs\<rparr>"

text \<open>The key index of an encrypted frame. It has two bits, so it never exceeds \<open>WEP_KEYS\<close>.\<close>

definition set_key_index :: "rx_func \<Rightarrow> rx_frame \<Rightarrow> rx_frame option" where
  "set_key_index x f =
     (if fa_encrypt f > 0 then do {
        b \<leftarrow> rd (fr_buf f) (fr_data f + fa_hdrlen f + 3);
        let k = unat (drop_bit 6 b AND 0x3);
        Some (f\<lparr>fa_key_index := (if k > 4 then
            (if fa_encrypt f = 1 \<or> fa_encrypt f = 5 then dot11PrivacyKeyIndex (fx_keys x) else dot118021XGrpKeyid (fx_keys x))
          else k)\<rparr>) }
      else Some f)"

text \<open>The software decryption: success and the frame.\<close>

definition sw_decrypt :: "rx_func \<Rightarrow> rx_frame \<Rightarrow> (bool \<times> rx_frame) option" where
  "sw_decrypt x f =
     (if fa_encrypt f = 1 \<or> fa_encrypt f = 5 then do {
        d \<leftarrow> rtw_wep_decrypt (fx_keys x) (rx_view f) (drop (fr_data f) (fr_buf f));
        Some (True, put_data f d) }
      else if fa_encrypt f = 2 then do {
        (ok, d) \<leftarrow> rtw_tkip_decrypt (fx_keys x) (fx_uncst_key x) (rx_view f) (drop (fr_data f) (fr_buf f));
        Some (ok, put_data f d) }
      else if fa_encrypt f = 4 \<or> fa_encrypt f = 0x14 \<or> fa_encrypt f = 7 \<or> fa_encrypt f = 0x17 then do {
        (ok, d) \<leftarrow> fx_aead x f;
        Some (ok, put_data f d) }
      else Some (True, f))"

text \<open>\<open>None\<close> in the result means that the frame was given to \<open>rtw_free_recvframe\<close>.\<close>

definition decryptor :: "rx_func \<Rightarrow> rx_frame \<Rightarrow> (rx_frame option \<times> rx_func) option" where
  "decryptor x f = do {
     f \<leftarrow> set_key_index x f;
     (ok, f, x) \<leftarrow>
       (if fa_encrypt f \<noteq> 0 \<and> \<not> fa_bdecrypted f then do {
          is_data \<leftarrow> frame_is_data f;
          (ok, f) \<leftarrow> sw_decrypt x f;
          Some (ok, f, if is_data then x\<lparr>fx_hw_decrypted := False\<rparr> else x) }
        else if fa_bdecrypted f \<and> fa_encrypt f > 0 \<and> (fx_busetkipkey x \<or> fa_encrypt f \<noteq> 2) then
          Some (True, f, x\<lparr>fx_hw_decrypted := True\<rparr>)
        else Some (True, f, x));
     Some (if ok then Some (f\<lparr>fa_bdecrypted := True\<rparr>) else None, x) }"

section \<open>All stages\<close>

text \<open>What the reordering code reads of a frame.\<close>

definition reorder_view :: "rx_frame \<Rightarrow> recv_frame" where
  "reorder_view f = \<lparr>seq_num = fa_seq_num f, qos = fa_qos f, rx_data = frame_body f\<rparr>"

text \<open>The result: return value, state, queue of fragments, packets for the network stack and for the
  transmit side, the frames given to \<open>rtw_free_recvframe\<close> and the frames the reordering window took.\<close>

record posthandle_out =
  po_ret :: rx_result
  po_state :: rx_func
  po_q :: "rx_frame list"
  po_ind :: "buf list"
  po_fwd :: "buf list"
  po_freed :: "nat list"
  po_taken :: "nat list"

text \<open>The exit \<open>_recv_data_drop\<close>, which a frame that waits for its other fragments takes as well.\<close>

definition recv_data_drop :: "posthandle_out \<Rightarrow> posthandle_out" where
  "recv_data_drop out = out\<lparr>po_state := (po_state out)\<lparr>fx_priv := (fx_priv (po_state out))\<lparr>dbg_rx_drop_count :=
     dbg_rx_drop_count (fx_priv (po_state out)) + 1\<rparr>\<rparr>\<rparr>"

text \<open>The frame after reassembly. \<open>orig\<close> is the received frame: its attributes give the sequence
  number, and it is what an error of the reordering code frees.\<close>

definition posthandle_deliver :: "rx_func \<Rightarrow> posthandle_out \<Rightarrow> rx_frame \<Rightarrow> rx_frame \<Rightarrow> posthandle_out option" where
  "posthandle_deliver x out orig p = do {
     pass \<leftarrow> portctrl (fx_8021X x) (fx_blocked x) (fa_hdrlen p) (fa_iv_len p) (drop (fr_data p) (fr_buf p));
     if \<not> pass then Some (recv_data_drop (out\<lparr>po_ret := RX_FAIL, po_freed := po_freed out @ [fr_no p]\<rparr>))
     else do {
       let window = map_option (\<lambda>t. fx_windows x ! t) (fa_preorder p);
       let put = (\<lambda>w. (case (fa_preorder p, w) of (Some t, Some c) \<Rightarrow> (fx_windows x)[t := c] | _ \<Rightarrow> fx_windows x));
       (case recv_indicatepkt_reorder (fx_mpdu_ok x) window (fx_priv x) (reorder_view p) of
          (RX_FAIL, w, priv) \<Rightarrow>
            Some (recv_data_drop (out\<lparr>po_ret := RX_FAIL, po_state := x\<lparr>fx_windows := put w, fx_priv := priv\<rparr>,
              po_freed := po_freed out @ [fr_no orig]\<rparr>))
        | (RTW_RX_HANDLED, w, priv) \<Rightarrow>
            Some (out\<lparr>po_ret := RTW_RX_HANDLED, po_state := x\<lparr>fx_windows := put w, fx_priv := priv\<rparr>, po_taken := [fr_no p]\<rparr>)
        | (RX_SUCCESS, w, priv) \<Rightarrow> do {
            let w = recv_set_iseq_before_mpdu_process w (fa_seq_num orig);
            (ok, ind, fwd) \<leftarrow> recv_process_mpdu (fx_env x) p;
            let w = recv_set_iseq_after_mpdu_process w (fa_seq_num orig);
            Some ((if ok then id else recv_data_drop)
              (out\<lparr>po_ret := (if ok then RX_SUCCESS else RX_FAIL), po_state := x\<lparr>fx_windows := put w, fx_priv := priv\<rparr>,
                po_ind := ind, po_fwd := fwd, po_freed := po_freed out @ [fr_no p]\<rparr>)) }) } }"

definition recv_func_posthandle :: "rx_func \<Rightarrow> rx_frame \<Rightarrow> posthandle_out option" where
  "recv_func_posthandle x f = do {
     let out = \<lparr>po_ret = RX_SUCCESS, po_state = x, po_q = sta_q (queue_sta (fx_psta x) (fx_bcmc x) f),
                po_ind = [], po_fwd = [], po_freed = [], po_taken = []\<rparr>;
     (d, x) \<leftarrow> decryptor x f;
     (case d of
        None \<Rightarrow> Some (recv_data_drop (out\<lparr>po_ret := RX_FAIL, po_state := x, po_freed := [fr_no f]\<rparr>))
      | Some g \<Rightarrow> do {
          r \<leftarrow> recvframe_chk_defrag (fx_sec x) (fx_psta x) (fx_bcmc x) g;
          let x = x\<lparr>fx_sec := do_sec r\<rparr>;
          let out = out\<lparr>po_state := x, po_q := do_q r, po_freed := do_freed r\<rparr>;
          (case do_frame r of
             None \<Rightarrow> Some (recv_data_drop out)
           | Some p \<Rightarrow> posthandle_deliver x out g p) }) }"

section \<open>The account of frames\<close>

definition same_frag :: "rx_frame \<Rightarrow> rx_frame \<Rightarrow> bool" where
  "same_frag f g \<longleftrightarrow> fr_no g = fr_no f \<and> fa_mfrag g = fa_mfrag f \<and> fa_frag_num g = fa_frag_num f \<and> fa_ra g = fa_ra f"

lemma set_key_index_same: "set_key_index x f = Some g \<Longrightarrow> same_frag f g"
  by (auto simp: set_key_index_def Let_def same_frag_def split: bind_splits if_splits)

lemma sw_decrypt_same: "sw_decrypt x f = Some (ok, g) \<Longrightarrow> same_frag f g"
  by (auto simp: sw_decrypt_def same_frag_def put_data_def split: bind_splits if_splits)

lemma same_frag_trans: "same_frag f g \<Longrightarrow> same_frag g h \<Longrightarrow> same_frag f h"
  by (simp add: same_frag_def)

lemma decryptor_same:
  assumes "decryptor x f = Some (Some g, x')"
  shows "same_frag f g" and "fx_psta x' = fx_psta x" and "fx_bcmc x' = fx_bcmc x" and "fx_sec x' = fx_sec x"
proof -
  from assms obtain f1 where k: "set_key_index x f = Some f1" by (auto simp: decryptor_def split: bind_splits)
  show "same_frag f g"
  proof (cases "fa_encrypt f1 \<noteq> 0 \<and> \<not> fa_bdecrypted f1")
    case True
    with assms k obtain f2 where "sw_decrypt x f1 = Some (True, f2)" "g = f2\<lparr>fa_bdecrypted := True\<rparr>"
      by (auto simp: decryptor_def split: bind_splits if_splits)
    then show ?thesis using set_key_index_same [OF k] sw_decrypt_same [of x f1 True f2] by (auto simp: same_frag_def)
  next
    case False
    with assms k have "g = f1\<lparr>fa_bdecrypted := True\<rparr>" by (auto simp: decryptor_def split: if_splits)
    then show ?thesis using set_key_index_same [OF k] by (simp add: same_frag_def)
  qed
  have "x' = x\<lparr>fx_hw_decrypted := fx_hw_decrypted x'\<rparr>"
    using assms by (auto simp: decryptor_def split: bind_splits if_splits)
  then show "fx_psta x' = fx_psta x" "fx_bcmc x' = fx_bcmc x" "fx_sec x' = fx_sec x"
    by (metis rx_func.ext_inject rx_func.surjective rx_func.update_convs(4))+
qed

lemma recv_data_drop_sel [simp]:
  "po_ret (recv_data_drop out) = po_ret out" "po_q (recv_data_drop out) = po_q out" "po_ind (recv_data_drop out) = po_ind out"
  "po_fwd (recv_data_drop out) = po_fwd out" "po_freed (recv_data_drop out) = po_freed out"
  "po_taken (recv_data_drop out) = po_taken out"
  by (simp_all add: recv_data_drop_def)

definition account :: "posthandle_out \<Rightarrow> nat multiset" where
  "account out = mset (po_freed out) + mset (po_taken out) + mset (map fr_no (po_q out))"

lemma account_drop [simp]: "account (recv_data_drop out) = account out"
  by (simp add: account_def)

text \<open>The reordering code refuses a frame that the port has passed.\<close>

definition reorder_refuses :: "rx_func \<Rightarrow> rx_frame \<Rightarrow> bool" where
  "reorder_refuses x p \<longleftrightarrow>
     portctrl (fx_8021X x) (fx_blocked x) (fa_hdrlen p) (fa_iv_len p) (drop (fr_data p) (fr_buf p)) = Some True
     \<and> fst (recv_indicatepkt_reorder (fx_mpdu_ok x) (map_option (\<lambda>t. fx_windows x ! t) (fa_preorder p)) (fx_priv x) (reorder_view p)) = RX_FAIL"

text \<open>The stages after reassembly take over exactly one frame: the reassembled one, except that a frame
  the reordering code refuses is not freed; the received one is freed in its place.\<close>

lemma posthandle_deliver_account:
  assumes "posthandle_deliver x out orig p = Some out'" and "po_taken out = []"
  shows "po_q out' = po_q out" and "account out' = account out + {#fr_no (if reorder_refuses x p then orig else p)#}"
    and "reorder_refuses x p \<Longrightarrow> po_ret out' = RX_FAIL"
  using assms by (auto simp: posthandle_deliver_def account_def Let_def reorder_refuses_def split: bind_splits if_splits rx_result.splits prod.splits)

text \<open>A frame that leaves reassembly and is not the last of several fragments is the received frame.\<close>

lemma chk_defrag_whole:
  assumes "recvframe_chk_defrag sec psta bcmc f = Some r" and "do_frame r = Some p" and "fa_mfrag f \<or> fa_frag_num f = 0"
  shows "fr_no p = fr_no f"
proof -
  note q = recvframe_chk_defrag_queue [OF assms(1), unfolded chk_defrag_q_def Let_def, folded mic_step_def sta_q_def]
  show ?thesis
  proof (cases "fa_mfrag f")
    case True
    with q assms(2) show ?thesis by (auto simp: mic_step_def split: option.splits if_splits)
  next
    case False
    then have "fa_frag_num f = 0" using assms(3) by simp
    with False q assms(2) show ?thesis
      by (auto simp: mic_step_def split: if_splits bind_splits dest!: recvframe_chkmic_no)
  qed
qed

lemma account_out_frames: "account (out\<lparr>po_q := do_q r, po_freed := do_freed r\<rparr>) + (case do_frame r of None \<Rightarrow> {#} | Some p \<Rightarrow> {#fr_no p#})
    = out_frames r + mset (po_taken out)"
  by (simp add: account_def out_frames_def)

text \<open>The one frame the stages lose: put together from fragments, and refused by the reordering code.\<close>

definition reassembled_refused :: "rx_func \<Rightarrow> rx_frame \<Rightarrow> rx_frame option" where
  "reassembled_refused x f =
     (case decryptor x f of
        Some (Some g, x1) \<Rightarrow>
          (case recvframe_chk_defrag (fx_sec x1) (fx_psta x1) (fx_bcmc x1) g of
             Some r \<Rightarrow>
               (case do_frame r of
                  Some p \<Rightarrow> if fr_no p \<noteq> fr_no f \<and> reorder_refuses x1 p then Some p else None
                | None \<Rightarrow> None)
           | None \<Rightarrow> None)
      | _ \<Rightarrow> None)"

text \<open>C6: The account of frames of a known station is exact. The frames freed, taken by the reordering window and left
  waiting for fragments are just the frames that were waiting and the received one, with one
  exception: when the reordering code refuses a frame put together from fragments, that frame is
  missing from the account and the received last fragment is in it once more. Then the result is \<open>_FAIL\<close>, and a
  frame that is not the last of several fragments is never concerned.\<close>

theorem recv_func_posthandle_conserves:
  assumes "recv_func_posthandle x f = Some out" and "fx_psta x = Some s"
  shows "(case reassembled_refused x f of
      None \<Rightarrow> account out = mset (map fr_no (rs_defrag_q s)) + {#fr_no f#}
    | Some p \<Rightarrow> account out + {#fr_no p#} = mset (map fr_no (rs_defrag_q s)) + {#fr_no f, fr_no f#}
        \<and> fr_no p \<noteq> fr_no f \<and> po_ret out = RX_FAIL \<and> \<not> fa_mfrag f \<and> fa_frag_num f \<noteq> 0)"
proof -
  let ?out = "\<lparr>po_ret = RX_SUCCESS, po_state = x, po_q = sta_q (queue_sta (fx_psta x) (fx_bcmc x) f),
                po_ind = [], po_fwd = [], po_freed = [], po_taken = []\<rparr>"
  obtain d x1 where d: "decryptor x f = Some (d, x1)"
    using assms(1) by (auto simp: recv_func_posthandle_def Let_def split: bind_splits)
  show ?thesis
  proof (cases d)
    case None
    then show ?thesis using assms(1,2) d
      by (auto simp: recv_func_posthandle_def reassembled_refused_def account_def queue_sta_def sta_q_def)
  next
    case (Some g)
    note same = decryptor_same [OF d [unfolded Some]]
    then obtain r where r: "recvframe_chk_defrag (fx_sec x1) (fx_psta x1) (fx_bcmc x1) g = Some r"
      using assms(1) d Some by (auto simp: recv_func_posthandle_def Let_def split: bind_splits)
    let ?x = "x1\<lparr>fx_sec := do_sec r\<rparr>" and ?mid = "?out\<lparr>po_state := x1\<lparr>fx_sec := do_sec r\<rparr>, po_q := do_q r, po_freed := do_freed r\<rparr>"
    have total: "account ?mid + (case do_frame r of None \<Rightarrow> {#} | Some p \<Rightarrow> {#fr_no p#}) = mset (map fr_no (rs_defrag_q s)) + {#fr_no f#}"
      using recvframe_chk_defrag_frames [OF r, THEN conjunct1] same assms(2)
      by (simp add: account_def out_frames_def queue_sta_def sta_q_def same_frag_def add_ac)
    show ?thesis
    proof (cases "do_frame r")
      case None
      then show ?thesis using assms(1) d Some r total
        by (auto simp: recv_func_posthandle_def reassembled_refused_def Let_def same)
    next
      case (Some p)
      then have p: "posthandle_deliver ?x ?mid g p = Some out"
        using assms(1) d \<open>d = _\<close> r by (simp add: recv_func_posthandle_def Let_def same)
      note a = posthandle_deliver_account(2,3) [OF p, simplified]
      have ref: "reassembled_refused x f = (if fr_no p \<noteq> fr_no f \<and> reorder_refuses ?x p then Some p else None)"
        using d \<open>d = _\<close> r Some by (simp add: reassembled_refused_def reorder_refuses_def)
      have "fr_no p = fr_no f" if "fa_mfrag f \<or> fa_frag_num f = 0"
        using chk_defrag_whole [OF r Some] that same(1) by (simp add: same_frag_def)
      then show ?thesis using a total Some same(1) unfolding ref by (auto simp: same_frag_def)
    qed
  qed
qed

text \<open>Examples: two fragments of a frame of TID 0, whose sequence number 5 lies before the reordering window.\<close>

definition ex_window :: recv_reorder_ctrl where
  "ex_window = \<lparr>enable = True, indicate_seq = 10, wsize_b = 64, pending_recvframe_queue = [], reordering_ctrl_timer = False,
     bReorderWaiting = False, rec_abba_rsp_ack = False\<rparr>"

definition ex_part :: "nat \<Rightarrow> bool \<Rightarrow> u8 \<Rightarrow> rx_frame" where
  "ex_part n mf x = (ex_frag n mf x [])\<lparr>fa_preorder := Some 0, fa_encrypt := 0, fa_privacy := False, fa_iv_len := 0, fa_icv_len := 0\<rparr>"

definition ex_priv :: recv_priv where
  "ex_priv = \<lparr>rx_drop = 0, dbg_rx_drop_count = 0, dbg_rx_ampdu_drop_count = 0, dbg_rx_ampdu_forced_indicate_count = 0,
     dbg_rx_ampdu_loss_count = 0, dbg_rx_ampdu_window_shift_cnt = 0, indicated = []\<rparr>"

definition ex_sec :: rx_sec where
  "ex_sec = \<lparr>rx_grprxmickey = [], rx_binstallGrpkey = False, rx_bcheck_grpkey = False, rx_mlme_key_index = 0, rx_mic_reports = 0\<rparr>"

definition ex_func :: "rx_frame list \<Rightarrow> rx_func" where
  "ex_func q = \<lparr>fx_keys = \<lparr>dot11PrivacyKeyIndex = 0, dot11DefKey = [], dot11DefKeylen = [], dot118021XGrpKeyid = 0,
       dot118021XGrpKey = [], binstallGrpkey = False\<rparr>,
     fx_uncst_key = (\<lambda>_. None), fx_aead = (\<lambda>_. None), fx_hw_decrypted = True, fx_busetkipkey = True,
     fx_sec = ex_sec, fx_psta = Some \<lparr>rs_keytrack = 0, rs_tkiprxmickey = [], rs_defrag_q = q\<rparr>, fx_bcmc = None,
     fx_8021X = False, fx_blocked = None, fx_windows = [ex_window], fx_priv = ex_priv, fx_env = ex_env, fx_mpdu_ok = (\<lambda>_. True)\<rparr>"

lemma ex_part_decrypted:
  "decryptor (ex_func q) (ex_part n mf x) = Some (Some (ex_part n mf x), ex_func q)"
  by (simp add: decryptor_def set_key_index_def ex_part_def ex_frag_def)

text \<open>The first fragment arrives and waits.\<close>

theorem recv_func_posthandle_conserves_witness:
  "\<exists>out. recv_func_posthandle (ex_func []) (ex_part 0 True 7) = Some out \<and> account out = {#0#} \<and> map fr_no (po_q out) = [0]"
proof -
  let ?f = "ex_part 0 True 7"
  have at: "fa_mfrag ?f" "fa_frag_num ?f = 0" "\<not> rx_mcast (fa_ra ?f)" "fr_no ?f = 0"
    by (simp_all add: ex_part_def ex_frag_def rx_mcast_def)
  have "\<exists>r. recvframe_chk_defrag ex_sec (fx_psta (ex_func [])) None ?f = Some r \<and> do_frame r = None \<and> map fr_no (do_q r) = [0]"
    using at by (simp add: recvframe_chk_defrag_def chk_defrag_q_def ex_func_def)
  then obtain out where o: "recv_func_posthandle (ex_func []) ?f = Some out" and q: "map fr_no (po_q out) = [0]"
    by (auto simp: recv_func_posthandle_def ex_part_decrypted Let_def) (simp add: ex_func_def)
  have p: "fx_psta (ex_func []) = Some \<lparr>rs_keytrack = 0, rs_tkiprxmickey = [], rs_defrag_q = []\<rparr>" by (simp add: ex_func_def)
  show ?thesis using recv_func_posthandle_conserves [OF o p] at o q by (auto split: option.splits)
qed

text \<open>C9: When the reordering code refuses a frame that was put together from fragments, the error path
  frees the received fragment, which reassembly has already freed, a second time, and the
  reassembled frame is never freed: it is neither on the free queue nor in any other.\<close>

theorem reassembled_reject_frees_twice:
  assumes "decryptor x f = Some (Some g, x1)" and "recvframe_chk_defrag (fx_sec x1) (fx_psta x1) (fx_bcmc x1) g = Some r"
    and "do_frame r = Some p" and "fr_no p \<noteq> fr_no f" and "fx_psta x = Some s" and "distinct (map fr_no (rs_defrag_q s) @ [fr_no f])"
    and "portctrl (fx_8021X x1) (fx_blocked x1) (fa_hdrlen p) (fa_iv_len p) (drop (fr_data p) (fr_buf p)) = Some True"
    and "recv_indicatepkt_reorder (fx_mpdu_ok x1) (map_option (\<lambda>t. fx_windows x1 ! t) (fa_preorder p)) (fx_priv x1) (reorder_view p)
      = (RX_FAIL, w, priv)"
  shows "\<exists>out. recv_func_posthandle x f = Some out \<and> po_ret out = RX_FAIL \<and> count (mset (po_freed out)) (fr_no f) = 2
    \<and> fr_no p \<notin># account out"
proof -
  note same = decryptor_same [OF assms(1)]
  have frag: "fa_frag_num g \<noteq> 0" "\<not> fa_mfrag g" using chk_defrag_whole [OF assms(2,3)] assms(4) same(1) by (auto simp: same_frag_def)
  have mc: "\<not> rx_mcast (fa_ra g)" using recvframe_chk_defrag_frames [OF assms(2)] frag assms(3) by auto
  have q: "do_q r = []" using recvframe_chk_defrag_frames [OF assms(2)] frag mc by blast
  have tot: "mset (do_freed r) + {#fr_no p#} = mset (map fr_no (rs_defrag_q s) @ [fr_no f])"
    using recvframe_chk_defrag_frames [OF assms(2), THEN conjunct1] same assms(3,5) q
    by (simp add: out_frames_def queue_sta_def sta_q_def same_frag_def)
  have one: "count (mset (do_freed r) + {#fr_no p#}) i \<le> 1" for i
    unfolding tot using assms(6) by (metis count_mset_0_iff distinct_count_atmost_1 le_numeral_extra(4) zero_le_one)
  have "fr_no f \<in># mset (do_freed r) + {#fr_no p#}" unfolding tot by simp
  then have f: "count (mset (do_freed r)) (fr_no f) = 1" and p: "count (mset (do_freed r)) (fr_no p) = 0"
    using one [of "fr_no f"] one [of "fr_no p"] assms(4) by (auto simp: count_eq_zero_iff le_Suc_eq)
  obtain out where "recv_func_posthandle x f = Some out" "po_ret out = RX_FAIL" "po_freed out = do_freed r @ [fr_no f]"
      "po_taken out = []" "po_q out = []"
    using assms(1,2,3,7,8) same(1) q by (auto simp: recv_func_posthandle_def posthandle_deliver_def Let_def same_frag_def)
  then show ?thesis using f p assms(4) by (auto simp: account_def count_eq_zero_iff)
qed

theorem reassembled_reject_frees_twice_witness:
  "\<exists>out. recv_func_posthandle (ex_func [ex_part 0 True 7]) (ex_part 1 False 8) = Some out \<and> po_ret out = RX_FAIL
     \<and> count (mset (po_freed out)) 1 = 2 \<and> 0 \<notin># account out"
proof -
  let ?x = "ex_func [ex_part 0 True 7]" and ?f = "ex_part 1 False 8"
  have frags: "fr_no ?f = 1" "\<not> rx_mcast (fa_ra ?f)" "\<not> fa_mfrag ?f" "fa_frag_num ?f = 1"
    by (simp_all add: ex_part_def ex_frag_def rx_mcast_def)
  have d: "\<exists>p. recvframe_defrag [ex_part 0 True 7, ?f] = Some (Some p, [1]) \<and> fr_no p = 0
      \<and> \<not> fa_privacy p \<and> fa_preorder p = Some 0 \<and> fa_seq_num p = 5 \<and> fa_qos p"
    by (simp add: ex_part_def ex_frag_def pn_cipher_def recvframe_pull_def recvframe_pull_tail_def recvframe_put_def rd_n_def wr_n_def
        usub32_le Let_def)
  then obtain p where p: "recvframe_defrag [ex_part 0 True 7, ?f] = Some (Some p, [1])" "fr_no p = 0" "\<not> fa_privacy p"
      "fa_preorder p = Some 0" "fa_seq_num p = 5" "fa_qos p" by blast
  have k: "?f\<lparr>fr_keytrack := 0\<rparr> = ?f" by (simp add: ex_part_def ex_frag_def)
  have r: "recvframe_chk_defrag (fx_sec ?x) (fx_psta ?x) (fx_bcmc ?x) ?f
      = Some \<lparr>do_frame = Some p, do_q = [], do_sec = ex_sec, do_freed = [1]\<rparr>"
    using frags p k by (simp add: recvframe_chk_defrag_def chk_defrag_q_def ex_func_def del: recvframe_defrag.simps)
  have "\<exists>w priv. recv_indicatepkt_reorder (fx_mpdu_ok ?x) (map_option (\<lambda>t. fx_windows ?x ! t) (fa_preorder p)) (fx_priv ?x) (reorder_view p)
      = (RX_FAIL, w, priv)"
    using p(4-6) by (simp add: recv_indicatepkt_reorder_def ex_func_def ex_window_def reorder_view_def check_indicate_seq_def
        SN_LESS_def Let_def)
  then obtain w priv where w: "recv_indicatepkt_reorder (fx_mpdu_ok ?x) (map_option (\<lambda>t. fx_windows ?x ! t) (fa_preorder p)) (fx_priv ?x) (reorder_view p)
      = (RX_FAIL, w, priv)" by blast
  have s: "fx_psta ?x = Some \<lparr>rs_keytrack = 0, rs_tkiprxmickey = [], rs_defrag_q = [ex_part 0 True 7]\<rparr>"
    by (simp add: ex_func_def)
  have no: "fr_no (ex_part 0 True 7) = 0" by (simp add: ex_part_def ex_frag_def)
  show ?thesis
    using reassembled_reject_frees_twice [OF ex_part_decrypted r _ _ s _ _ w] p(2) frags(1) no
    by (auto simp: portctrl_def ex_func_def)
qed

end
