(* ===== verification/Ap_Sta_Ie.thy ===== *)
theory Ap_Sta_Ie
  imports Elems Sec_Ie Vendor_Attr Sta_Table
begin

text \<open>
  What an access point takes from the elements of an association request: the functions
  \<open>rtw_ap_parse_sta_*\<close> of \<open>core/rtw_ap.c\<close> with \<open>rtw_ies_get_supported_rate\<close> of
  \<open>core/rtw_wlan_util.c\<close>. \<open>Ap_Sec\<close> has the conditions under which a station passes the security check.
\<close>

section \<open>State\<close>

definition WLAN_STA_SHORT_PREAMBLE :: u32 where "WLAN_STA_SHORT_PREAMBLE = 0x80"
definition WLAN_STA_WME :: u32 where "WLAN_STA_WME = 0x200"
definition WLAN_STA_MFP :: u32 where "WLAN_STA_MFP = 0x400"
definition WLAN_STA_HT :: u32 where "WLAN_STA_HT = 0x800"
definition WLAN_STA_WPS :: u32 where "WLAN_STA_WPS = 0x1000"
definition WLAN_STA_MAYBE_WPS :: u32 where "WLAN_STA_MAYBE_WPS = 0x2000"
definition WLAN_STA_VHT :: u32 where "WLAN_STA_VHT = 0x4000"
definition WLAN_STA_MULTI_AP :: u32 where "WLAN_STA_MULTI_AP = 0x10000"
definition STA_AMSDU_DISABLE :: u32 where "STA_AMSDU_DISABLE = 0x20000"
definition WLAN_STA_NONERP :: u32 where "WLAN_STA_NONERP = 0x80000000"

lemmas wlan_sta_defs = WLAN_STA_SHORT_PREAMBLE_def WLAN_STA_WME_def WLAN_STA_MFP_def WLAN_STA_HT_def WLAN_STA_WPS_def
  WLAN_STA_MAYBE_WPS_def WLAN_STA_VHT_def WLAN_STA_MULTI_AP_def STA_AMSDU_DISABLE_def WLAN_STA_NONERP_def

text \<open>The members of \<open>struct sta_info\<close> that serve the access point and are not in \<open>Sta_Table.sta_info\<close>.
  \<open>as_bssrateset\<close> has the first \<open>bssratelen\<close> entries of the array.\<close>

record ap_sta =
  as_flags :: u32
  as_capability :: u16
  as_auth_seq :: u32
  as_authalg :: u32
  as_chg_txt :: buf
  as_pairwise_key_installed :: bool
  as_bssrateset :: buf
  as_dot8021xalg :: nat
  as_wpa_psk :: u32
  as_wpa_group_cipher :: u32
  as_wpa2_group_cipher :: u32
  as_wpa_pairwise_cipher :: u32
  as_wpa2_pairwise_cipher :: u32
  as_akm_suite_type :: u32
  as_wpa_ie :: buf
  as_qos_option :: nat
  as_ht_cap :: buf
  as_ht_op :: "buf option"
  as_nonerp_set :: bool
  as_no_short_slot_time_set :: bool
  as_no_short_preamble_set :: bool
  as_no_ht_gf_set :: bool
  as_no_ht_set :: bool
  as_ht_20mhz_set :: bool
  as_ht_40mhz_intolerant :: bool
  as_passoc_req :: "buf option"
  as_ieee8021x_blocked :: bool

text \<open>A station object after \<open>_rtw_init_stainfo\<close>.\<close>

definition ap_sta_zero :: ap_sta where
  "ap_sta_zero = \<lparr>as_flags = 0, as_capability = 0, as_auth_seq = 0, as_authalg = 0, as_chg_txt = replicate 128 0,
     as_pairwise_key_installed = False, as_bssrateset = [], as_dot8021xalg = 0, as_wpa_psk = 0, as_wpa_group_cipher = 0,
     as_wpa2_group_cipher = 0, as_wpa_pairwise_cipher = 0, as_wpa2_pairwise_cipher = 0, as_akm_suite_type = 0,
     as_wpa_ie = replicate 32 0, as_qos_option = 0, as_ht_cap = replicate 26 0, as_ht_op = None, as_nonerp_set = False,
     as_no_short_slot_time_set = False, as_no_short_preamble_set = False, as_no_ht_gf_set = False, as_no_ht_set = False,
     as_ht_20mhz_set = False, as_ht_40mhz_intolerant = False, as_passoc_req = None, as_ieee8021x_blocked = False\<rparr>"

text \<open>The configuration of the access point: \<open>struct security_priv\<close>, and the options of
  \<open>struct mlme_priv\<close> and \<open>struct registry_priv\<close>. \<open>ac_wps_beacon_ie\<close> is the WPS element of the beacon.\<close>

record ap_conf =
  ac_wpa_psk :: u32
  ac_wpa_group_cipher :: u32
  ac_wpa2_group_cipher :: u32
  ac_wpa_pairwise_cipher :: u32
  ac_wpa2_pairwise_cipher :: u32
  ac_akmp :: u32
  ac_mfp_opt :: u8
  ac_dot11wCipher :: nat
  ac_dot11PrivacyAlgrthm :: nat
  ac_dot11AuthAlgrthm :: nat
  ac_auth_type :: nat
  ac_PMKIDList :: "(bool \<times> buf) list"
  ac_amsdu_mode :: u8
  ac_wps_beacon_ie :: "buf option"
  ac_qos_option :: bool
  ac_ht_option :: bool
  ac_ssid :: buf

section \<open>Capability and rates\<close>

definition rtw_ap_parse_sta_capability :: "ap_sta \<Rightarrow> buf \<Rightarrow> nat \<Rightarrow> ap_sta option" where
  "rtw_ap_parse_sta_capability sta b cap = do {
     c \<leftarrow> RTW_GET_LE16 b cap;
     Some (sta\<lparr>as_capability := c, as_flags := (if c AND 0x20 \<noteq> 0 then as_flags sta OR WLAN_STA_SHORT_PREAMBLE
       else as_flags sta AND NOT WLAN_STA_SHORT_PREAMBLE)\<rparr>) }"

text \<open>The twelve rates of the table, each with its flags \<open>existence\<close> and \<open>basic\<close>.\<close>

definition support_rate_tbl :: "u8 list" where
  "support_rate_tbl = [0x02, 0x04, 0x0B, 0x16, 0x0C, 0x12, 0x18, 0x24, 0x30, 0x48, 0x60, 0x6C]"

definition mark_rates :: "buf \<Rightarrow> (u8 \<times> bool \<times> bool) list \<Rightarrow> (u8 \<times> bool \<times> bool) list" where
  "mark_rates xs tbl = map (\<lambda>(rate, existence, basic).
     (rate, existence \<or> (\<exists>x\<in>set xs. x AND NOT 0x80 = rate), basic \<or> (\<exists>x\<in>set xs. x AND NOT 0x80 = rate \<and> x AND 0x80 \<noteq> 0))) tbl"

definition rates_of_ie :: "buf \<Rightarrow> nat \<Rightarrow> u8 \<Rightarrow> nat \<Rightarrow> (u8 \<times> bool \<times> bool) list \<Rightarrow> (u8 \<times> bool \<times> bool) list option" where
  "rates_of_ie b ies eid ies_len tbl = do {
     (ie, ie_len) \<leftarrow> rtw_get_ie b ies (uint eid) 0 (int ies_len);
     (case ie of None \<Rightarrow> Some tbl
      | Some p \<Rightarrow> do { xs \<leftarrow> rd_n b (p + 2) ie_len; Some (mark_rates xs tbl) }) }"

definition rtw_ies_get_supported_rate :: "buf \<Rightarrow> nat \<Rightarrow> nat \<Rightarrow> buf option" where
  "rtw_ies_get_supported_rate b ies ies_len = do {
     tbl \<leftarrow> rates_of_ie b ies 1 ies_len (map (\<lambda>r. (r, False, False)) support_rate_tbl);
     tbl \<leftarrow> rates_of_ie b ies 50 ies_len tbl;
     Some (map (\<lambda>(rate, existence, basic). if basic then rate OR 0x80 else rate) (filter (fst \<circ> snd) tbl)) }"

definition UpdateBrateTblForSoftAP :: "buf \<Rightarrow> buf" where
  "UpdateBrateTblForSoftAP bssrateset = map (\<lambda>r. if r AND 0x7f \<in> {0x02, 0x04, 0x0B, 0x16} then r OR 0x80 else r) bssrateset"

text \<open>The status code and the station.\<close>

definition rtw_ap_parse_sta_supported_rates :: "ap_sta \<Rightarrow> buf \<Rightarrow> nat \<Rightarrow> nat \<Rightarrow> (nat \<times> ap_sta) option" where
  "rtw_ap_parse_sta_supported_rates sta b tlv_ies tlv_ies_len = do {
     rate_set \<leftarrow> rtw_ies_get_supported_rate b tlv_ies tlv_ies_len;
     if rate_set = [] then Some (1, sta)
     else do {
       let rates = UpdateBrateTblForSoftAP rate_set;
       Some (0, sta\<lparr>as_bssrateset := rates,
         as_flags := (if list_ex (\<lambda>r. r AND 0x7f > 22) rates then (as_flags sta OR WLAN_STA_NONERP) AND NOT WLAN_STA_NONERP
                      else as_flags sta OR WLAN_STA_NONERP)\<rparr>) } }"

section \<open>Security elements\<close>

definition MFP_OPTIONAL :: u8 where "MFP_OPTIONAL = 2"
definition MFP_REQUIRED :: u8 where "MFP_REQUIRED = 3"
definition WLAN_AKM_TYPE_SAE :: u32 where "WLAN_AKM_TYPE_SAE = 0x80"
definition MLME_AUTHTYPE_SAE :: nat where "MLME_AUTHTYPE_SAE = 4"

definition security_type_bip_to_gmcs :: "nat \<Rightarrow> u32" where
  "security_type_bip_to_gmcs type =
     (if type = 0x20 then WPA_CIPHER_BIP_CMAC_128 else if type = 0x21 then WPA_CIPHER_BIP_GMAC_128
      else if type = 0x22 then WPA_CIPHER_BIP_GMAC_256 else if type = 0x23 then WPA_CIPHER_BIP_CMAC_256 else 0)"

definition rtw_cached_pmkid :: "(bool \<times> buf) list \<Rightarrow> buf \<Rightarrow> int" where
  "rtw_cached_pmkid l bssid =
     (case find (\<lambda>i. fst (l ! i) \<and> snd (l ! i) = bssid) [0..<length l] of None \<Rightarrow> -1 | Some i \<Rightarrow> int i)"

text \<open>What the first part of \<open>rtw_ap_parse_sta_security_ie\<close> leaves in the local variables: the element
  that was parsed, if any, \<open>gmcs\<close>, \<open>mfp_opt\<close> and \<open>spp_opt\<close>.\<close>

record sec_locals =
  sl_wpa_ie :: "(nat \<times> nat) option"
  sl_gmcs :: u32
  sl_mfp_opt :: u8
  sl_spp_opt :: u8

text \<open>The results are a status to leave with or the variables, and the station. An RSN element:\<close>

definition sta_rsn_ie :: "ap_conf \<Rightarrow> ap_sta \<Rightarrow> buf \<Rightarrow> nat \<Rightarrow> nat \<Rightarrow> ((nat + sec_locals) \<times> ap_sta) option" where
  "sta_rsn_ie ac sta b wpa_ie wpa_ie_len = do {
     (ok, out) \<leftarrow> rtw_parse_wpa2_ie b (wpa_ie - 2) (wpa_ie_len + 2)
       \<lparr>o_group_cipher = Some 0, o_pairwise_cipher = Some 0, o_gmcs = Some 0, o_akm = Some 0, o_mfp_opt = Some MFP_NO, o_spp_opt = Some 0\<rparr>;
     if \<not> ok then Some (Inl 40, sta)
     else do {
       let akm = the (o_akm out);
       let mfp_opt = the (o_mfp_opt out);
       let sta = sta\<lparr>as_dot8021xalg := 1, as_wpa_psk := as_wpa_psk sta OR 2,
         as_wpa2_group_cipher := the (o_group_cipher out) AND ac_wpa2_group_cipher ac,
         as_wpa2_pairwise_cipher := the (o_pairwise_cipher out) AND ac_wpa2_pairwise_cipher ac, as_akm_suite_type := akm\<rparr>;
       Some (if WLAN_AKM_TYPE_SAE AND akm \<noteq> 0 \<and> mfp_opt = MFP_NO then Inl 31
         else if ac_akmp ac AND akm = 0 then Inl 43
         else if as_wpa2_group_cipher sta = 0 then Inl 41
         else if as_wpa2_pairwise_cipher sta = 0 then Inl 42
         else Inr \<lparr>sl_wpa_ie = Some (wpa_ie, wpa_ie_len), sl_gmcs = the (o_gmcs out), sl_mfp_opt = mfp_opt, sl_spp_opt = the (o_spp_opt out)\<rparr>, sta) } }"

text \<open>A WPA element:\<close>

definition sta_wpa_ie :: "ap_conf \<Rightarrow> ap_sta \<Rightarrow> buf \<Rightarrow> nat \<Rightarrow> nat \<Rightarrow> ((nat + sec_locals) \<times> ap_sta) option" where
  "sta_wpa_ie ac sta b wpa_ie wpa_ie_len = do {
     (ok, group_cipher, pairwise_cipher, _) \<leftarrow> rtw_parse_wpa_ie b (wpa_ie - 2) (int wpa_ie_len + 2) 0 0 None;
     if \<not> ok then Some (Inl 40, sta)
     else do {
       let sta = sta\<lparr>as_dot8021xalg := 1, as_wpa_psk := as_wpa_psk sta OR 1,
         as_wpa_group_cipher := group_cipher AND ac_wpa_group_cipher ac,
         as_wpa_pairwise_cipher := pairwise_cipher AND ac_wpa_pairwise_cipher ac\<rparr>;
       Some (if as_wpa_group_cipher sta = 0 then Inl 41
         else if as_wpa_pairwise_cipher sta = 0 then Inl 42
         else Inr \<lparr>sl_wpa_ie = Some (wpa_ie, wpa_ie_len), sl_gmcs = 0, sl_mfp_opt = MFP_NO, sl_spp_opt = 0\<rparr>, sta) } }"

definition sta_sec_ie :: "ap_conf \<Rightarrow> ap_sta \<Rightarrow> buf \<Rightarrow> elems \<Rightarrow> ((nat + sec_locals) \<times> ap_sta) option" where
  "sta_sec_ie ac sta b es =
     (let sta = sta\<lparr>as_dot8021xalg := 0, as_wpa_psk := 0, as_wpa_group_cipher := 0, as_wpa2_group_cipher := 0,
        as_wpa_pairwise_cipher := 0, as_wpa2_pairwise_cipher := 0, as_wpa_ie := replicate 32 0\<rparr> in
      case (if ac_wpa_psk ac AND 2 \<noteq> 0 then es Rsn_ie else None) of
        Some (p, l) \<Rightarrow> sta_rsn_ie ac sta b p (unat l)
      | None \<Rightarrow>
          (case (if ac_wpa_psk ac AND 1 \<noteq> 0 then es Wpa_ie else None) of
             Some (p, l) \<Rightarrow> sta_wpa_ie ac sta b p (unat l)
           | None \<Rightarrow> Some (Inr \<lparr>sl_wpa_ie = None, sl_gmcs = 0, sl_mfp_opt = MFP_NO, sl_spp_opt = 0\<rparr>, sta)))"

text \<open>A-MSDU is disabled for the station when the SPP setting demands it.\<close>

definition sta_amsdu_check :: "ap_conf \<Rightarrow> sec_locals \<Rightarrow> ap_sta \<Rightarrow> ap_sta" where
  "sta_amsdu_check ac sl sta =
     (if ac_dot11PrivacyAlgrthm ac \<noteq> 0 \<and> rtw_check_amsdu_disable (ac_amsdu_mode ac) (sl_spp_opt sl)
      then sta\<lparr>as_flags := as_flags sta OR STA_AMSDU_DISABLE\<rparr> else sta)"

text \<open>Frame protection, and a cached key of SAE. \<open>0\<close> lets the station pass.\<close>

definition sta_mfp_check :: "ap_conf \<Rightarrow> buf \<Rightarrow> sec_locals \<Rightarrow> ap_sta \<Rightarrow> nat \<times> ap_sta" where
  "sta_mfp_check ac addr sl sta =
     (if (ac_mfp_opt ac = MFP_REQUIRED \<and> sl_mfp_opt sl < MFP_OPTIONAL) \<or> (sl_mfp_opt sl = MFP_REQUIRED \<and> ac_mfp_opt ac < MFP_OPTIONAL)
      then (31, sta)
      else
        let both = ac_mfp_opt ac \<ge> MFP_OPTIONAL \<and> sl_mfp_opt sl \<ge> MFP_OPTIONAL;
            sta = (if both then sta\<lparr>as_flags := as_flags sta OR WLAN_STA_MFP\<rparr> else sta) in
        if as_flags sta AND WLAN_STA_MFP \<noteq> 0 \<and> both \<and> security_type_bip_to_gmcs (ac_dot11wCipher ac) \<noteq> sl_gmcs sl then (46, sta)
        else if ac_auth_type ac = MLME_AUTHTYPE_SAE \<and> WLAN_AKM_TYPE_SAE AND as_akm_suite_type sta \<noteq> 0 \<and> as_authalg sta = 0
          \<and> rtw_cached_pmkid (ac_PMKIDList ac) addr = -1 then (53, sta)
        else (0, sta))"

text \<open>WPS, and the copy of the element. \<open>selected_registrar\<close> is one byte and cannot take a longer attribute.\<close>

definition sta_wps_check :: "ap_conf \<Rightarrow> buf \<Rightarrow> elems \<Rightarrow> sec_locals \<Rightarrow> ap_sta \<Rightarrow> (nat \<times> ap_sta) option" where
  "sta_wps_check ac b es sl sta =
     (let sta = sta\<lparr>as_flags := as_flags sta AND NOT (WLAN_STA_WPS OR WLAN_STA_MAYBE_WPS)\<rparr> in
      case sl_wpa_ie sl of
        None \<Rightarrow> do {
          let sta = sta\<lparr>as_flags := as_flags sta OR (if es Wps_ie \<noteq> None then WLAN_STA_WPS else WLAN_STA_MAYBE_WPS)\<rparr>;
          if ac_wpa_psk ac > 0 \<and> as_flags sta AND (WLAN_STA_WPS OR WLAN_STA_MAYBE_WPS) \<noteq> 0 then
            (case ac_wps_beacon_ie ac of
               None \<Rightarrow> Some (0, sta)
             | Some w \<Rightarrow> do {
                 (_, c, _) \<leftarrow> rtw_get_wps_attr_content w 0 (length w) 0x1041 True None;
                 let selected = (case c of None \<Rightarrow> [] | Some xs \<Rightarrow> xs);
                 if length selected > 1 then None
                 else Some (if selected = [] \<or> selected = [0] then 17 else 0, sta) })
          else Some (0, sta) }
      | Some (p, l) \<Rightarrow>
          if ac_wpa_psk ac = 0 then Some (40, sta)
          else if es Wps_ie \<noteq> None then Some (0, sta\<lparr>as_flags := as_flags sta OR WLAN_STA_WPS\<rparr>)
          else do {
            xs \<leftarrow> rd_n b (p - 2) (min 32 (l + 2));
            Some (0, sta\<lparr>as_wpa_ie := xs @ drop (length xs) (as_wpa_ie sta)\<rparr>) })"

definition rtw_ap_parse_sta_security_ie :: "ap_conf \<Rightarrow> buf \<Rightarrow> ap_sta \<Rightarrow> buf \<Rightarrow> elems \<Rightarrow> (nat \<times> ap_sta) option" where
  "rtw_ap_parse_sta_security_ie ac addr sta b es = do {
     (r, sta) \<leftarrow> sta_sec_ie ac sta b es;
     (case r of
        Inl status \<Rightarrow> Some (status, sta)
      | Inr sl \<Rightarrow>
          (case sta_mfp_check ac addr sl (sta_amsdu_check ac sl sta) of
             (status, sta) \<Rightarrow> if status \<noteq> 0 then Some (status, sta) else sta_wps_check ac b es sl sta)) }"

section \<open>QoS and high throughput\<close>

definition rtw_ap_parse_sta_wmm_ie :: "ap_conf \<Rightarrow> sta_info \<times> ap_sta \<Rightarrow> buf \<Rightarrow> nat \<Rightarrow> nat \<Rightarrow> (sta_info \<times> ap_sta) option" where
  "rtw_ap_parse_sta_wmm_ie ac st b tlv_ies tlv_ies_len = (case st of (si, sta) \<Rightarrow> do {
     let sta = sta\<lparr>as_flags := as_flags sta AND NOT WLAN_STA_WME, as_qos_option := 0\<rparr>;
     let si = si\<lparr>sta_qos_info := 0, sta_has_legacy_ac := 1, sta_uapsd := replicate 4 0\<rparr>;
     if \<not> ac_qos_option ac then Some (si, sta)
     else do {
       (p, _, _) \<leftarrow> rtw_get_ie_ex b (Some tlv_ies) tlv_ies_len WLAN_EID_VENDOR_SPECIFIC (Some [0x00, 0x50, 0xf2, 0x02, 0x00, 0x01]) 6 False;
       (case p of None \<Rightarrow> Some (si, sta)
        | Some p \<Rightarrow> do {
            qos_info \<leftarrow> rd b (p + 8);
            let up = (\<lambda>n. if bit qos_info n then 3 else 0);
            Some (si\<lparr>sta_qos_info := qos_info, sta_max_sp_len := drop_bit 5 qos_info AND 0x3,
                     sta_has_legacy_ac := (if qos_info AND 0xf \<noteq> 0xf then 1 else 0),
                     sta_uapsd := (if qos_info AND 0xf \<noteq> 0 then [up 2, up 3, up 1, up 0] else sta_uapsd si)\<rparr>,
                  sta\<lparr>as_flags := as_flags sta OR WLAN_STA_WME, as_qos_option := 1\<rparr>) }) } })"

definition rtw_ap_parse_sta_ht_ie :: "ap_conf \<Rightarrow> ap_sta \<Rightarrow> buf \<Rightarrow> elems \<Rightarrow> ap_sta option" where
  "rtw_ap_parse_sta_ht_ie ac sta b es = do {
     let sta = sta\<lparr>as_flags := as_flags sta AND NOT WLAN_STA_HT\<rparr>;
     if \<not> ac_ht_option ac then Some sta
     else do {
       let sta = sta\<lparr>as_ht_cap := replicate 26 0\<rparr>;
       (case es Ht_capabilities of
          Some (p, l) \<Rightarrow>
            if unat l \<ge> 26 then do {
              cap \<leftarrow> rd_n b p 26;
              let sta = sta\<lparr>as_flags := as_flags sta OR WLAN_STA_HT OR WLAN_STA_WME, as_ht_cap := cap\<rparr>;
              (case es Ht_operation of
                 Some (q, m) \<Rightarrow> if unat m = 22 then do { op \<leftarrow> rd_n b q 22; Some (sta\<lparr>as_ht_op := Some op\<rparr>) } else Some sta
               | None \<Rightarrow> Some sta) }
            else Some sta
        | None \<Rightarrow> Some sta) } }"

text \<open>Without 802.11ac and Multi-AP in the build only the flags are cleared.\<close>

definition rtw_ap_parse_sta_vht_ie :: "ap_sta \<Rightarrow> ap_sta" where
  "rtw_ap_parse_sta_vht_ie sta = sta\<lparr>as_flags := as_flags sta AND NOT WLAN_STA_VHT\<rparr>"

definition rtw_ap_parse_sta_multi_ap_ie :: "ap_sta \<Rightarrow> ap_sta" where
  "rtw_ap_parse_sta_multi_ap_ie sta = sta\<lparr>as_flags := as_flags sta AND NOT WLAN_STA_MULTI_AP\<rparr>"

end
