(* ===== verification/Ap_Sec.thy ===== *)
theory Ap_Sec
  imports Ap_Sta_Ie
begin

text \<open>
  Which stations pass the security check of an association request
  (\<open>rtw_ap_parse_sta_security_ie\<close>): a reference definition of what a station asks for and of what the
  cell admits, and the proof that the check decides by it.
\<close>

section \<open>Specification\<close>

text \<open>What a station asks for: the element that counts, RSN before WPA, and only one the cell offers. An RSN element
  gives group and pairwise ciphers, key management, group management cipher and frame protection; of a WPA
  element the check reads the ciphers only.\<close>

datatype sec_offer =
  Bad_offer
| No_offer
| Rsn_offer (of_group: u32) (of_pairwise: u32) (of_akm: u32) (of_gm: u32) (of_mfp: u8)
| Wpa_offer (of_group: u32) (of_pairwise: u32)

definition rsn_offer :: "buf \<Rightarrow> nat \<Rightarrow> nat \<Rightarrow> sec_offer option" where
  "rsn_offer b p l = do {
     (ok, out) \<leftarrow> rtw_parse_wpa2_ie b (p - 2) (l + 2)
       \<lparr>o_group_cipher = Some 0, o_pairwise_cipher = Some 0, o_gmcs = Some 0, o_akm = Some 0, o_mfp_opt = Some MFP_NO, o_spp_opt = Some 0\<rparr>;
     Some (if ok then Rsn_offer (the (o_group_cipher out)) (the (o_pairwise_cipher out)) (the (o_akm out)) (the (o_gmcs out)) (the (o_mfp_opt out))
       else Bad_offer) }"

definition wpa_offer :: "buf \<Rightarrow> nat \<Rightarrow> nat \<Rightarrow> sec_offer option" where
  "wpa_offer b p l = do {
     (ok, g, pw, _) \<leftarrow> rtw_parse_wpa_ie b (p - 2) (int l + 2) 0 0 None;
     Some (if ok then Wpa_offer g pw else Bad_offer) }"

definition sta_offer :: "ap_conf \<Rightarrow> buf \<Rightarrow> elems \<Rightarrow> sec_offer option" where
  "sta_offer cnf b es =
     (case (if ac_wpa_psk cnf AND 2 \<noteq> 0 then es Rsn_ie else None) of
        Some (p, l) \<Rightarrow> rsn_offer b p (unat l)
      | None \<Rightarrow>
          (case (if ac_wpa_psk cnf AND 1 \<noteq> 0 then es Wpa_ie else None) of
             Some (p, l) \<Rightarrow> wpa_offer b p (unat l)
           | None \<Rightarrow> Some No_offer))"

fun offer_mfp :: "sec_offer \<Rightarrow> u8" where
  "offer_mfp (Rsn_offer g pw akm gm mfp) = mfp"
| "offer_mfp off = MFP_NO"

fun offer_gm :: "sec_offer \<Rightarrow> u32" where
  "offer_gm (Rsn_offer g pw akm gm mfp) = gm"
| "offer_gm off = 0"

text \<open>The key management of the station: that of its RSN element, otherwise what an earlier request has left.\<close>

fun offer_akm :: "ap_sta \<Rightarrow> sec_offer \<Rightarrow> u32" where
  "offer_akm a (Rsn_offer g pw akm gm mfp) = akm"
| "offer_akm a off = as_akm_suite_type a"

text \<open>Ciphers and key management have something in common with those of the cell; SAE demands frame protection.\<close>

fun suites_ok :: "ap_conf \<Rightarrow> sec_offer \<Rightarrow> bool" where
  "suites_ok cnf Bad_offer = False"
| "suites_ok cnf No_offer = True"
| "suites_ok cnf (Rsn_offer g pw akm gm mfp) \<longleftrightarrow> g AND ac_wpa2_group_cipher cnf \<noteq> 0 \<and> pw AND ac_wpa2_pairwise_cipher cnf \<noteq> 0
     \<and> ac_akmp cnf AND akm \<noteq> 0 \<and> (WLAN_AKM_TYPE_SAE AND akm \<noteq> 0 \<longrightarrow> mfp \<noteq> MFP_NO)"
| "suites_ok cnf (Wpa_offer g pw) \<longleftrightarrow> g AND ac_wpa_group_cipher cnf \<noteq> 0 \<and> pw AND ac_wpa_pairwise_cipher cnf \<noteq> 0"

text \<open>Neither side requires frame protection that the other lacks, and where both have it they agree on the group
  management cipher.\<close>

definition mfp_both :: "ap_conf \<Rightarrow> sec_offer \<Rightarrow> bool" where
  "mfp_both cnf off \<longleftrightarrow> MFP_OPTIONAL \<le> ac_mfp_opt cnf \<and> MFP_OPTIONAL \<le> offer_mfp off"

definition mfp_ok :: "ap_conf \<Rightarrow> sec_offer \<Rightarrow> bool" where
  "mfp_ok cnf off \<longleftrightarrow> (ac_mfp_opt cnf = MFP_REQUIRED \<or> offer_mfp off = MFP_REQUIRED \<longrightarrow> mfp_both cnf off)
     \<and> (mfp_both cnf off \<longrightarrow> security_type_bip_to_gmcs (ac_dot11wCipher cnf) = offer_gm off)"

text \<open>A station that used open authentication in an SAE cell has a cached key.\<close>

definition pmk_ok :: "ap_conf \<Rightarrow> buf \<Rightarrow> ap_sta \<Rightarrow> sec_offer \<Rightarrow> bool" where
  "pmk_ok cnf addr a off \<longleftrightarrow> (ac_auth_type cnf = MLME_AUTHTYPE_SAE \<and> WLAN_AKM_TYPE_SAE AND offer_akm a off \<noteq> 0 \<and> as_authalg a = 0
     \<longrightarrow> (\<exists>x\<in>set (ac_PMKIDList cnf). fst x \<and> snd x = addr))"

text \<open>A station without an element may only want WPS: then the beacon has no WPS element, or its registrar is selected.\<close>

definition wps_ready :: "ap_conf \<Rightarrow> bool" where
  "wps_ready cnf \<longleftrightarrow> ac_wpa_psk cnf = 0 \<or> (case ac_wps_beacon_ie cnf of
       None \<Rightarrow> True
     | Some w \<Rightarrow> (case rtw_get_wps_attr_content w 0 (length w) 0x1041 True None of
         Some (_, Some (x # _), _) \<Rightarrow> x \<noteq> 0 | _ \<Rightarrow> False))"

definition admissible :: "ap_conf \<Rightarrow> buf \<Rightarrow> ap_sta \<Rightarrow> sec_offer \<Rightarrow> bool" where
  "admissible cnf addr a off \<longleftrightarrow> suites_ok cnf off \<and> mfp_ok cnf off \<and> pmk_ok cnf addr a off \<and> (off = No_offer \<longrightarrow> wps_ready cnf)"

text \<open>What the station object says of an admitted station.\<close>

fun granted :: "ap_conf \<Rightarrow> sec_offer \<Rightarrow> ap_sta \<Rightarrow> bool" where
  "granted cnf Bad_offer a = False"
| "granted cnf No_offer a \<longleftrightarrow> as_wpa_psk a = 0 \<and> as_wpa2_group_cipher a = 0 \<and> as_wpa2_pairwise_cipher a = 0
     \<and> as_wpa_group_cipher a = 0 \<and> as_wpa_pairwise_cipher a = 0"
| "granted cnf (Rsn_offer g pw akm gm mfp) a \<longleftrightarrow> as_wpa_psk a = 2 \<and> as_wpa2_group_cipher a = g AND ac_wpa2_group_cipher cnf
     \<and> as_wpa2_pairwise_cipher a = pw AND ac_wpa2_pairwise_cipher cnf \<and> as_wpa_group_cipher a = 0 \<and> as_wpa_pairwise_cipher a = 0
     \<and> as_akm_suite_type a = akm"
| "granted cnf (Wpa_offer g pw) a \<longleftrightarrow> as_wpa_psk a = 1 \<and> as_wpa_group_cipher a = g AND ac_wpa_group_cipher cnf
     \<and> as_wpa_pairwise_cipher a = pw AND ac_wpa_pairwise_cipher cnf \<and> as_wpa2_group_cipher a = 0 \<and> as_wpa2_pairwise_cipher a = 0"

section \<open>The three stages\<close>

text \<open>After the first stage the station object holds the suites, and the variables what the later stages need.\<close>

definition sec_stage :: "ap_conf \<Rightarrow> ap_sta \<Rightarrow> sec_offer \<Rightarrow> (nat + sec_locals) \<times> ap_sta \<Rightarrow> bool" where
  "sec_stage cnf a off res \<longleftrightarrow> (case res of
       (Inl st, _) \<Rightarrow> st \<noteq> 0 \<and> \<not> suites_ok cnf off
     | (Inr sl, a') \<Rightarrow> suites_ok cnf off \<and> granted cnf off a' \<and> as_authalg a' = as_authalg a \<and> as_akm_suite_type a' = offer_akm a off
         \<and> (sl_wpa_ie sl = None \<longleftrightarrow> off = No_offer) \<and> sl_gmcs sl = offer_gm off \<and> sl_mfp_opt sl = offer_mfp off
         \<and> (off \<noteq> No_offer \<longrightarrow> ac_wpa_psk cnf \<noteq> 0))"

lemma rsn_stage:
  assumes "sta_rsn_ie cnf x b p l = Some res" and "ac_wpa_psk cnf AND 2 \<noteq> 0" and "as_wpa_psk x = 0"
    "as_wpa_group_cipher x = 0" "as_wpa_pairwise_cipher x = 0" "as_authalg x = as_authalg a" "as_akm_suite_type x = as_akm_suite_type a"
  shows "\<exists>off. rsn_offer b p l = Some off \<and> sec_stage cnf a off res"
  using assms by (auto simp: sta_rsn_ie_def rsn_offer_def sec_stage_def Let_def split: bind_splits if_split_asm)

lemma wpa_stage:
  assumes "sta_wpa_ie cnf x b p l = Some res" and "ac_wpa_psk cnf AND 1 \<noteq> 0" and "as_wpa_psk x = 0"
    "as_wpa2_group_cipher x = 0" "as_wpa2_pairwise_cipher x = 0" "as_authalg x = as_authalg a" "as_akm_suite_type x = as_akm_suite_type a"
  shows "\<exists>off. wpa_offer b p l = Some off \<and> sec_stage cnf a off res"
  using assms by (auto simp: sta_wpa_ie_def wpa_offer_def sec_stage_def Let_def split: bind_splits if_split_asm)

lemma sec_ie_stage:
  assumes "sta_sec_ie cnf a b es = Some res"
  shows "\<exists>off. sta_offer cnf b es = Some off \<and> sec_stage cnf a off res"
proof -
  let ?x = "a\<lparr>as_dot8021xalg := 0, as_wpa_psk := 0, as_wpa_group_cipher := 0, as_wpa2_group_cipher := 0,
        as_wpa_pairwise_cipher := 0, as_wpa2_pairwise_cipher := 0, as_wpa_ie := replicate 32 0\<rparr>"
  let ?r = "if ac_wpa_psk cnf AND 2 \<noteq> 0 then es Rsn_ie else None" and ?w = "if ac_wpa_psk cnf AND 1 \<noteq> 0 then es Wpa_ie else None"
  consider (rsn) p l where "?r = Some (p, l)" | (wpa) p l where "?r = None" "?w = Some (p, l)" | (none) "?r = None" "?w = None"
    by (cases ?r; cases ?w) auto
  then show ?thesis
  proof cases
    case rsn
    then have "sta_rsn_ie cnf ?x b p (unat l) = Some res" using assms by (simp only: sta_sec_ie_def Let_def option.case prod.case)
    from rsn_stage [OF this, of a] rsn show ?thesis by (simp add: sta_offer_def split: if_split_asm)
  next
    case wpa
    then have "sta_wpa_ie cnf ?x b p (unat l) = Some res" using assms by (simp only: sta_sec_ie_def Let_def option.case prod.case)
    from wpa_stage [OF this, of a] wpa show ?thesis by (simp add: sta_offer_def split: if_split_asm)
  next
    case none
    then have "res = (Inr \<lparr>sl_wpa_ie = None, sl_gmcs = 0, sl_mfp_opt = MFP_NO, sl_spp_opt = 0\<rparr>, ?x)"
      using assms by (simp only: sta_sec_ie_def Let_def option.case option.inject)
    then show ?thesis using none by (simp add: sta_offer_def sec_stage_def)
  qed
qed

text \<open>The later stages leave the suites alone.\<close>

definition same_suites :: "ap_sta \<Rightarrow> ap_sta \<Rightarrow> bool" where
  "same_suites a a' \<longleftrightarrow> as_wpa_psk a' = as_wpa_psk a \<and> as_wpa2_group_cipher a' = as_wpa2_group_cipher a
     \<and> as_wpa2_pairwise_cipher a' = as_wpa2_pairwise_cipher a \<and> as_wpa_group_cipher a' = as_wpa_group_cipher a
     \<and> as_wpa_pairwise_cipher a' = as_wpa_pairwise_cipher a \<and> as_akm_suite_type a' = as_akm_suite_type a \<and> as_authalg a' = as_authalg a"

lemma granted_same: "same_suites a a' \<Longrightarrow> granted cnf off a \<Longrightarrow> granted cnf off a'"
  by (cases off) (simp_all add: same_suites_def)

lemma mfp_flag_set: "(x OR WLAN_STA_MFP) AND WLAN_STA_MFP \<noteq> 0"
proof -
  have "bit ((x OR WLAN_STA_MFP) AND WLAN_STA_MFP) 10" by (simp add: WLAN_STA_MFP_def bit_simps)
  then show ?thesis by force
qed

lemma cached_pmkid: "rtw_cached_pmkid l addr = -1 \<longleftrightarrow> \<not> (\<exists>x\<in>set l. fst x \<and> snd x = addr)"
proof -
  have "rtw_cached_pmkid l addr = -1 \<longleftrightarrow> find (\<lambda>i. fst (l ! i) \<and> snd (l ! i) = addr) [0..<length l] = None"
    by (simp add: rtw_cached_pmkid_def split: option.split)
  also have "\<dots> \<longleftrightarrow> (\<forall>x\<in>set l. \<not> (fst x \<and> snd x = addr))" by (auto simp: find_None_iff all_set_conv_all_nth)
  finally show ?thesis by blast
qed

lemma mfp_levels: "(x :: u8) < MFP_OPTIONAL \<longleftrightarrow> \<not> MFP_OPTIONAL \<le> x" "MFP_OPTIONAL \<le> MFP_REQUIRED"
  by (simp_all add: MFP_OPTIONAL_def MFP_REQUIRED_def not_le)

lemma mfp_stage:
  assumes "sta_mfp_check cnf addr sl a1 = (st, a2)" and "sl_gmcs sl = offer_gm off" and "sl_mfp_opt sl = offer_mfp off"
    and "as_akm_suite_type a1 = offer_akm a off" and "as_authalg a1 = as_authalg a"
  shows "st = 0 \<longleftrightarrow> mfp_ok cnf off \<and> pmk_ok cnf addr a off" and "same_suites a1 a2"
    and "st = 0 \<Longrightarrow> mfp_both cnf off \<Longrightarrow> as_flags a2 AND WLAN_STA_MFP \<noteq> 0"
proof -
  let ?both = "mfp_both cnf off"
  let ?a = "if ?both then a1\<lparr>as_flags := as_flags a1 OR WLAN_STA_MFP\<rparr> else a1"
  have b: "(ac_mfp_opt cnf \<ge> MFP_OPTIONAL \<and> sl_mfp_opt sl \<ge> MFP_OPTIONAL) = ?both" by (simp add: mfp_both_def assms(3))
  have sels: "as_akm_suite_type ?a = offer_akm a off" "as_authalg ?a = as_authalg a" using assms(4,5) by simp_all
  have fl: "as_flags ?a AND WLAN_STA_MFP \<noteq> 0" if ?both using that mfp_flag_set [of "as_flags a1"] by simp
  have first: "(ac_mfp_opt cnf = MFP_REQUIRED \<and> offer_mfp off < MFP_OPTIONAL) \<or> (offer_mfp off = MFP_REQUIRED \<and> ac_mfp_opt cnf < MFP_OPTIONAL)
      \<longleftrightarrow> \<not> (ac_mfp_opt cnf = MFP_REQUIRED \<or> offer_mfp off = MFP_REQUIRED \<longrightarrow> ?both)"
    using mfp_levels by (auto simp: mfp_both_def)
  have eq: "(st, a2) = (if \<not> (ac_mfp_opt cnf = MFP_REQUIRED \<or> offer_mfp off = MFP_REQUIRED \<longrightarrow> ?both) then (31, a1)
      else if as_flags ?a AND WLAN_STA_MFP \<noteq> 0 \<and> ?both \<and> security_type_bip_to_gmcs (ac_dot11wCipher cnf) \<noteq> offer_gm off then (46, ?a)
      else if ac_auth_type cnf = MLME_AUTHTYPE_SAE \<and> WLAN_AKM_TYPE_SAE AND offer_akm a off \<noteq> 0 \<and> as_authalg a = 0
          \<and> rtw_cached_pmkid (ac_PMKIDList cnf) addr = -1 then (53, ?a)
      else (0, ?a))"
    using assms(1) unfolding sta_mfp_check_def Let_def b sels assms(2) unfolding assms(3) first by simp
  have pmk: "pmk_ok cnf addr a off \<longleftrightarrow> \<not> (ac_auth_type cnf = MLME_AUTHTYPE_SAE \<and> WLAN_AKM_TYPE_SAE AND offer_akm a off \<noteq> 0 \<and> as_authalg a = 0
          \<and> rtw_cached_pmkid (ac_PMKIDList cnf) addr = -1)"
    unfolding pmk_ok_def cached_pmkid by blast
  show "st = 0 \<longleftrightarrow> mfp_ok cnf off \<and> pmk_ok cnf addr a off"
    using eq fl unfolding mfp_ok_def pmk by (auto split: if_split_asm)
  show "same_suites a1 a2" using eq by (auto simp: same_suites_def split: if_split_asm)
  show "as_flags a2 AND WLAN_STA_MFP \<noteq> 0" if "st = 0" "mfp_both cnf off"
    using eq fl that by (auto split: if_split_asm)
qed

lemma wps_flags:
  "(x AND NOT WLAN_STA_WPS AND NOT WLAN_STA_MAYBE_WPS) AND WLAN_STA_MFP = x AND WLAN_STA_MFP"
  "((x AND NOT WLAN_STA_WPS AND NOT WLAN_STA_MAYBE_WPS) OR WLAN_STA_WPS) AND WLAN_STA_MFP = x AND WLAN_STA_MFP"
  "((x AND NOT WLAN_STA_WPS AND NOT WLAN_STA_MAYBE_WPS) OR WLAN_STA_MAYBE_WPS) AND WLAN_STA_MFP = x AND WLAN_STA_MFP"
  "(x OR WLAN_STA_WPS) AND (WLAN_STA_WPS OR WLAN_STA_MAYBE_WPS) \<noteq> 0" "(x OR WLAN_STA_MAYBE_WPS) AND (WLAN_STA_WPS OR WLAN_STA_MAYBE_WPS) \<noteq> 0"
proof -
  have b: "bit WLAN_STA_WPS n \<longleftrightarrow> n = 12" "bit WLAN_STA_MAYBE_WPS n \<longleftrightarrow> n = 13" "bit WLAN_STA_MFP n \<longleftrightarrow> n = 10" for n
    using bit_exp_iff [of 12 n, where 'a = u32] bit_exp_iff [of 13 n, where 'a = u32] bit_exp_iff [of 10 n, where 'a = u32]
    by (auto simp: WLAN_STA_WPS_def WLAN_STA_MAYBE_WPS_def WLAN_STA_MFP_def possible_bit_word)
  show "(x AND NOT WLAN_STA_WPS AND NOT WLAN_STA_MAYBE_WPS) AND WLAN_STA_MFP = x AND WLAN_STA_MFP"
    "((x AND NOT WLAN_STA_WPS AND NOT WLAN_STA_MAYBE_WPS) OR WLAN_STA_WPS) AND WLAN_STA_MFP = x AND WLAN_STA_MFP"
    "((x AND NOT WLAN_STA_WPS AND NOT WLAN_STA_MAYBE_WPS) OR WLAN_STA_MAYBE_WPS) AND WLAN_STA_MFP = x AND WLAN_STA_MFP"
    by (rule bit_word_eqI, auto simp: bit_simps b)+
  have "bit ((x OR WLAN_STA_WPS) AND (WLAN_STA_WPS OR WLAN_STA_MAYBE_WPS)) 12" "bit ((x OR WLAN_STA_MAYBE_WPS) AND (WLAN_STA_WPS OR WLAN_STA_MAYBE_WPS)) 13"
    by (simp_all add: bit_simps b)
  then show "(x OR WLAN_STA_WPS) AND (WLAN_STA_WPS OR WLAN_STA_MAYBE_WPS) \<noteq> 0" "(x OR WLAN_STA_MAYBE_WPS) AND (WLAN_STA_WPS OR WLAN_STA_MAYBE_WPS) \<noteq> 0"
    by force+
qed

text \<open>A station without an element is marked for WPS.\<close>

lemma wps_stage:
  assumes "sta_wps_check cnf b es sl a2 = Some (st, a')" and "sl_wpa_ie sl = None \<longleftrightarrow> off = No_offer"
    and "off \<noteq> No_offer \<Longrightarrow> ac_wpa_psk cnf \<noteq> 0"
  shows "(st = 0 \<longleftrightarrow> (off = No_offer \<longrightarrow> wps_ready cnf)) \<and> same_suites a2 a' \<and> as_flags a' AND WLAN_STA_MFP = as_flags a2 AND WLAN_STA_MFP
    \<and> (off = No_offer \<longrightarrow> as_flags a' AND (WLAN_STA_WPS OR WLAN_STA_MAYBE_WPS) \<noteq> 0)"
proof -
  let ?P = "\<lambda>(st :: nat, a'). (st = 0 \<longleftrightarrow> (off = No_offer \<longrightarrow> wps_ready cnf)) \<and> same_suites a2 a'
    \<and> as_flags a' AND WLAN_STA_MFP = as_flags a2 AND WLAN_STA_MFP
    \<and> (off = No_offer \<longrightarrow> as_flags a' AND (WLAN_STA_WPS OR WLAN_STA_MAYBE_WPS) \<noteq> 0)"
  have "opt_post ?P (sta_wps_check cnf b es sl a2)"
    unfolding sta_wps_check_def Let_def using assms(2,3)
    by (intro opt_posts) (auto simp: same_suites_def wps_flags wps_ready_def word_gt_0 split: list.splits option.splits)
  from opt_postD [OF this assms(1)] show ?thesis by simp
qed

section \<open>Admission\<close>

text \<open>C13: The security check admits a station (status 0) exactly when the cell can serve what the station asks for: the
  ciphers of its RSN or WPA element meet those of the cell, and for RSN the key management too, SAE only
  with frame protection; neither side requires frame protection the other lacks, and where both
  have it the group management ciphers agree; in an SAE cell a station that used open authentication has a cached
  key; and a station with neither element finds WPS ready. The station object of an admitted
  station has the common ciphers, the frame protection mark where both sides have protection, and the mark for
  WPS where there was no element.\<close>

theorem sta_security_admits:
  assumes "rtw_ap_parse_sta_security_ie cnf addr a b es = Some (st, a')"
  shows "\<exists>off. sta_offer cnf b es = Some off \<and> (st = 0 \<longleftrightarrow> admissible cnf addr a off)
    \<and> (st = 0 \<longrightarrow> granted cnf off a' \<and> (mfp_both cnf off \<longrightarrow> as_flags a' AND WLAN_STA_MFP \<noteq> 0)
        \<and> (off = No_offer \<longrightarrow> as_flags a' AND (WLAN_STA_WPS OR WLAN_STA_MAYBE_WPS) \<noteq> 0))"
proof -
  obtain r a1 where 1: "sta_sec_ie cnf a b es = Some (r, a1)" using assms by (auto simp: rtw_ap_parse_sta_security_ie_def bind_eq_Some_conv)
  from sec_ie_stage [OF 1] obtain off where off: "sta_offer cnf b es = Some off" and stage: "sec_stage cnf a off (r, a1)" by blast
  show ?thesis
  proof (cases r)
    case (Inl s)
    then show ?thesis using assms 1 off stage
      by (auto simp: rtw_ap_parse_sta_security_ie_def sec_stage_def admissible_def)
  next
    case (Inr sl)
    then have s: "suites_ok cnf off" "granted cnf off a1" "as_authalg a1 = as_authalg a" "as_akm_suite_type a1 = offer_akm a off"
      "sl_wpa_ie sl = None \<longleftrightarrow> off = No_offer" "sl_gmcs sl = offer_gm off" "sl_mfp_opt sl = offer_mfp off"
      "off \<noteq> No_offer \<Longrightarrow> ac_wpa_psk cnf \<noteq> 0"
      using stage by (simp_all add: sec_stage_def)
    let ?a1 = "sta_amsdu_check cnf sl a1"
    have am: "same_suites a1 ?a1" by (simp add: sta_amsdu_check_def same_suites_def)
    obtain st2 a2 where 2: "sta_mfp_check cnf addr sl ?a1 = (st2, a2)" by fastforce
    note m = mfp_stage [OF 2 s(6,7), of a]
    have akm: "as_akm_suite_type ?a1 = offer_akm a off" "as_authalg ?a1 = as_authalg a" using am s(3,4) by (simp_all add: same_suites_def)
    show ?thesis
    proof (cases "st2 = 0")
      case False
      then have "st = st2" using assms 1 2 Inr by (simp add: rtw_ap_parse_sta_security_ie_def)
      then show ?thesis using off False m(1) [OF akm] by (auto simp: admissible_def)
    next
      case True
      then have "sta_wps_check cnf b es sl a2 = Some (st, a')" using assms 1 2 Inr by (simp add: rtw_ap_parse_sta_security_ie_def)
      note w = wps_stage [OF this s(5,8)]
      have "granted cnf off a'" using granted_same s(2) am m(2) [OF akm] w by (metis same_suites_def)
      then show ?thesis using off True s(1) m(1,3) [OF akm] w by (auto simp: admissible_def)
    qed
  qed
qed

text \<open>A cell that offers WPA2 with CCMP and SHA-256 keys and requires frame protection, and a station that asks for it.\<close>

definition ex_conf :: ap_conf where
  "ex_conf = \<lparr>ac_wpa_psk = 2, ac_wpa_group_cipher = 0, ac_wpa2_group_cipher = 16, ac_wpa_pairwise_cipher = 0, ac_wpa2_pairwise_cipher = 16,
     ac_akmp = 32, ac_mfp_opt = 3, ac_dot11wCipher = 0x20, ac_dot11PrivacyAlgrthm = 4, ac_dot11AuthAlgrthm = 2, ac_auth_type = 0,
     ac_PMKIDList = [], ac_amsdu_mode = 0, ac_wps_beacon_ie = None, ac_qos_option = True, ac_ht_option = True, ac_ssid = [65]\<rparr>"

definition ex_rsn :: buf where
  "ex_rsn = [48, 26, 1, 0, 0, 0x0f, 0xac, 4, 1, 0, 0, 0x0f, 0xac, 4, 1, 0, 0, 0x0f, 0xac, 6, 0xC0, 0, 0, 0, 0, 0x0f, 0xac, 6]"

definition ex_elems :: elems where
  "ex_elems = Map.empty(Rsn_ie \<mapsto> (2, 26))"

theorem sta_security_admits_witness:
  "\<exists>a'. rtw_ap_parse_sta_security_ie ex_conf [2, 0, 0, 0, 0, 7] ap_sta_zero ex_rsn ex_elems = Some (0, a')
    \<and> admissible ex_conf [2, 0, 0, 0, 0, 7] ap_sta_zero (Rsn_offer 16 16 32 256 3)
    \<and> granted ex_conf (Rsn_offer 16 16 32 256 3) a' \<and> as_flags a' AND WLAN_STA_MFP \<noteq> 0"
proof -
  have "map_option fst (rtw_ap_parse_sta_security_ie ex_conf [2, 0, 0, 0, 0, 7] ap_sta_zero ex_rsn ex_elems) = Some 0" by code_simp
  then obtain a' where a': "rtw_ap_parse_sta_security_ie ex_conf [2, 0, 0, 0, 0, 7] ap_sta_zero ex_rsn ex_elems = Some (0, a')" by auto
  have off: "sta_offer ex_conf ex_rsn ex_elems = Some (Rsn_offer 16 16 32 256 3)" by code_simp
  have "mfp_both ex_conf (Rsn_offer 16 16 32 256 3)" by (simp add: mfp_both_def ex_conf_def MFP_OPTIONAL_def)
  then show ?thesis using a' off sta_security_admits [OF a'] by auto
qed

end
