(* ===== verification/Bss_Cap.thy ===== *)
theory Bss_Cap
  imports Ap_Sta_Ie
begin

text \<open>
  What the cell announces about its stations (\<open>core/rtw_ap.c\<close>): the counters of stations without
  short preamble, ERP, short slot time or 802.11n, kept by \<open>bss_cap_update_on_sta_join\<close> and
  \<open>bss_cap_update_on_sta_leave\<close>, and the HT operation mode \<open>rtw_ht_operation_update\<close> derives
  from them. The lemmas show that a counter is always the number of stations with its mark, and
  that the operation mode is the one the counters demand.
\<close>

section \<open>State\<close>

text \<open>\<open>bc_above_11b\<close> is \<open>cur_wireless_mode > WIRELESS_11B\<close>, \<open>bc_ht\<close> the condition of the 802.11n part,
  \<open>bc_ht_option\<close> and \<open>bc_sup_width\<close> are of the cell's own \<open>htpriv\<close>.\<close>

record bss_cnt =
  num_sta_no_short_preamble :: int
  num_sta_non_erp :: int
  num_sta_no_short_slot_time :: int
  num_sta_ht_no_gf :: int
  num_sta_no_ht :: int
  num_sta_ht_20mhz :: int
  num_sta_40mhz_intolerant :: int
  ht_op_mode :: u16
  olbc_ht :: bool
  bc_above_11b :: bool
  bc_ht :: bool
  bc_ht_option :: bool
  bc_sup_width :: bool

section \<open>HT operation mode\<close>

definition NON_GF_PRESENT :: u16 where "NON_GF_PRESENT = 0x4"
definition NON_HT_PRESENT :: u16 where "NON_HT_PRESENT = 0x10"
definition OP_MODE_MASK :: u16 where "OP_MODE_MASK = 0x3"

text \<open>One bit of the mode: the new mode and the number of changes.\<close>

definition op_mode_bit :: "u16 \<Rightarrow> bool \<Rightarrow> u16 \<times> nat \<Rightarrow> u16 \<times> nat" where
  "op_mode_bit m present st = (case st of (mode, changes) \<Rightarrow>
     if mode AND m = 0 \<and> present then (mode OR m, changes + 1)
     else if mode AND m \<noteq> 0 \<and> \<not> present then (mode AND NOT m, changes + 1)
     else (mode, changes))"

definition new_op_mode :: "bss_cnt \<Rightarrow> u16" where
  "new_op_mode c = (if num_sta_no_ht c \<noteq> 0 then 3 else if bc_sup_width c \<and> num_sta_ht_20mhz c \<noteq> 0 then 2
     else if olbc_ht c then 1 else 0)"

definition rtw_ht_operation_update :: "bss_cnt \<Rightarrow> bss_cnt \<times> nat" where
  "rtw_ht_operation_update c =
     (if \<not> bc_ht_option c then (c, 0)
      else
        let st = op_mode_bit NON_GF_PRESENT (num_sta_ht_no_gf c \<noteq> 0) (ht_op_mode c, 0);
            (mode, changes) = op_mode_bit NON_HT_PRESENT (num_sta_no_ht c \<noteq> 0 \<or> olbc_ht c) st;
            (mode, changes) = (if mode AND OP_MODE_MASK \<noteq> new_op_mode c
              then ((mode AND NOT OP_MODE_MASK) OR new_op_mode c, changes + 1) else (mode, changes)) in
        (c\<lparr>ht_op_mode := mode\<rparr>, changes))"

section \<open>Stations join and leave\<close>

text \<open>A mark that follows a property of the station: the mark, the counter, and whether the counter
  has just become one or zero.\<close>

definition cnt_sync :: "bool \<Rightarrow> bool \<Rightarrow> int \<Rightarrow> bool \<times> int \<times> bool" where
  "cnt_sync want mark n =
     (if want \<and> \<not> mark then (True, n + 1, n + 1 = 1)
      else if \<not> want \<and> mark then (False, n - 1, n - 1 = 0)
      else (mark, n, False))"

text \<open>A mark that is only set.\<close>

definition cnt_set :: "bool \<Rightarrow> bool \<Rightarrow> int \<Rightarrow> bool \<times> int" where
  "cnt_set want mark n = (if want \<and> \<not> mark then (True, n + 1) else (mark, n))"

definition join_ht :: "ap_sta \<Rightarrow> bss_cnt \<Rightarrow> ap_sta \<times> bss_cnt" where
  "join_ht s c =
     (if as_flags s AND WLAN_STA_HT \<noteq> 0 then
        let cap = ucast (as_ht_cap s ! 0) OR push_bit 8 (ucast (as_ht_cap s ! 1)) :: u16;
            (s, c) = (if as_no_ht_set s then (s\<lparr>as_no_ht_set := False\<rparr>, c\<lparr>num_sta_no_ht := num_sta_no_ht c - 1\<rparr>) else (s, c));
            (gf, n_gf) = cnt_set (cap AND 0x10 = 0) (as_no_ht_gf_set s) (num_sta_ht_no_gf c);
            (w, n_w) = cnt_set (cap AND 0x2 = 0) (as_ht_20mhz_set s) (num_sta_ht_20mhz c);
            (i, n_i) = cnt_set (cap AND 0x4000 \<noteq> 0) (as_ht_40mhz_intolerant s) (num_sta_40mhz_intolerant c) in
        (s\<lparr>as_no_ht_gf_set := gf, as_ht_20mhz_set := w, as_ht_40mhz_intolerant := i\<rparr>,
         c\<lparr>num_sta_ht_no_gf := n_gf, num_sta_ht_20mhz := n_w, num_sta_40mhz_intolerant := n_i\<rparr>)
      else
        let (m, n) = cnt_set True (as_no_ht_set s) (num_sta_no_ht c) in
        (s\<lparr>as_no_ht_set := m\<rparr>, c\<lparr>num_sta_no_ht := n\<rparr>))"

text \<open>The last result lists the calls of \<open>update_beacon\<close> by element identifier.\<close>

definition bss_cap_update_on_sta_join :: "ap_sta \<Rightarrow> bss_cnt \<Rightarrow> ap_sta \<times> bss_cnt \<times> nat list" where
  "bss_cap_update_on_sta_join s c =
     (let (sp, n_sp, u_sp) = cnt_sync (as_flags s AND WLAN_STA_SHORT_PREAMBLE = 0) (as_no_short_preamble_set s) (num_sta_no_short_preamble c);
          (ne, n_ne, u_ne) = cnt_sync (as_flags s AND WLAN_STA_NONERP \<noteq> 0) (as_nonerp_set s) (num_sta_non_erp c);
          (ss, n_ss, u_ss) = cnt_sync (as_capability s AND 0x400 = 0) (as_no_short_slot_time_set s) (num_sta_no_short_slot_time c);
          s = s\<lparr>as_no_short_preamble_set := sp, as_nonerp_set := ne, as_no_short_slot_time_set := ss\<rparr>;
          c = c\<lparr>num_sta_no_short_preamble := n_sp, num_sta_non_erp := n_ne, num_sta_no_short_slot_time := n_ss\<rparr>;
          (s, c, ht) = (if bc_ht c then (case join_ht s c of (s, c) \<Rightarrow> case rtw_ht_operation_update c of (c, k) \<Rightarrow> (s, c, k > 0))
                        else (s, c, False));
          upd = (u_sp \<and> bc_above_11b c) \<or> u_ne \<or> (u_ss \<and> bc_above_11b c) \<or> ht in
      (s, c, (if u_ne then [42] else []) @ (if ht then [45, 61] else []) @ (if upd then [0xFF] else [])))"

text \<open>A mark that is dropped.\<close>

definition cnt_drop :: "bool \<Rightarrow> int \<Rightarrow> int \<times> bool" where
  "cnt_drop mark n = (if mark then (n - 1, n - 1 = 0) else (n, False))"

definition leave_counters :: "ap_sta \<Rightarrow> bss_cnt \<Rightarrow> bss_cnt" where
  "leave_counters s c =
     c\<lparr>num_sta_no_short_preamble := fst (cnt_drop (as_no_short_preamble_set s) (num_sta_no_short_preamble c)),
       num_sta_non_erp := fst (cnt_drop (as_nonerp_set s) (num_sta_non_erp c)),
       num_sta_no_short_slot_time := fst (cnt_drop (as_no_short_slot_time_set s) (num_sta_no_short_slot_time c)),
       num_sta_ht_no_gf := fst (cnt_drop (as_no_ht_gf_set s) (num_sta_ht_no_gf c)),
       num_sta_no_ht := fst (cnt_drop (as_no_ht_set s) (num_sta_no_ht c)),
       num_sta_ht_20mhz := fst (cnt_drop (as_ht_20mhz_set s) (num_sta_ht_20mhz c)),
       num_sta_40mhz_intolerant := (if as_ht_40mhz_intolerant s \<and> num_sta_40mhz_intolerant c > 0
         then num_sta_40mhz_intolerant c - 1 else num_sta_40mhz_intolerant c)\<rparr>"

definition clear_marks :: "ap_sta \<Rightarrow> ap_sta" where
  "clear_marks s = s\<lparr>as_no_short_preamble_set := False, as_nonerp_set := False, as_no_short_slot_time_set := False,
     as_no_ht_gf_set := False, as_no_ht_set := False, as_ht_20mhz_set := False, as_ht_40mhz_intolerant := False\<rparr>"

definition bss_cap_update_on_sta_leave :: "buf \<Rightarrow> nat \<Rightarrow> ap_sta \<Rightarrow> bss_cnt \<Rightarrow> buf \<times> ap_sta \<times> bss_cnt \<times> nat list" where
  "bss_cap_update_on_sta_leave tim aid s c =
     (let t = rtw_tim_map_is_set tim aid;
          u_sp = snd (cnt_drop (as_no_short_preamble_set s) (num_sta_no_short_preamble c));
          u_ne = snd (cnt_drop (as_nonerp_set s) (num_sta_non_erp c));
          u_ss = snd (cnt_drop (as_no_short_slot_time_set s) (num_sta_no_short_slot_time c));
          (c, k) = rtw_ht_operation_update (leave_counters s c);
          upd = t \<or> (u_sp \<and> bc_above_11b c) \<or> u_ne \<or> (u_ss \<and> bc_above_11b c) in
      (if t then rtw_tim_map_clear tim aid else tim, clear_marks s, c,
       (if t then [5] else []) @ (if u_ne then [42] else []) @ (if k > 0 then [45, 61] else []) @ (if upd then [0xFF] else [])))"

section \<open>A counter counts the marked stations\<close>

definition marks :: "(ap_sta \<Rightarrow> bool) list" where
  "marks = [as_no_short_preamble_set, as_nonerp_set, as_no_short_slot_time_set, as_no_ht_gf_set, as_no_ht_set, as_ht_20mhz_set,
     as_ht_40mhz_intolerant]"

definition counters :: "bss_cnt \<Rightarrow> int list" where
  "counters c = [num_sta_no_short_preamble c, num_sta_non_erp c, num_sta_no_short_slot_time c, num_sta_ht_no_gf c, num_sta_no_ht c,
     num_sta_ht_20mhz c, num_sta_40mhz_intolerant c]"

definition counted :: "ap_sta list \<Rightarrow> bss_cnt \<Rightarrow> bool" where
  "counted ss c \<longleftrightarrow> counters c = map (\<lambda>m. int (length (filter m ss))) marks"

text \<open>The operation mode the counters demand.\<close>

definition op_mode_fits :: "bss_cnt \<Rightarrow> bool" where
  "op_mode_fits c \<longleftrightarrow> (ht_op_mode c AND NON_GF_PRESENT \<noteq> 0 \<longleftrightarrow> num_sta_ht_no_gf c \<noteq> 0)
     \<and> (ht_op_mode c AND NON_HT_PRESENT \<noteq> 0 \<longleftrightarrow> num_sta_no_ht c \<noteq> 0 \<or> olbc_ht c)
     \<and> ht_op_mode c AND OP_MODE_MASK = new_op_mode c"

lemma length_filter_update:
  "i < length xs \<Longrightarrow> int (length (filter P (xs[i := x])))
    = int (length (filter P xs)) + (if P x then 1 else 0) - (if P (xs ! i) then 1 else 0)"
proof (induction xs arbitrary: i)
  case (Cons y ys)
  show ?case
  proof (cases i)
    case 0
    then show ?thesis by simp
  next
    case (Suc k)
    then show ?thesis using Cons.IH [of k] Cons.prems by (auto split: if_splits)
  qed
qed simp

lemma counted_update:
  assumes "counted ss c" and "i < length ss"
    and "\<And>k. k < 7 \<Longrightarrow> counters c' ! k = counters c ! k + (if (marks ! k) s' then 1 else 0) - (if (marks ! k) (ss ! i) then 1 else 0)"
  shows "counted (ss[i := s']) c'"
  using assms(3) [of 0] assms(3) [of 1] assms(3) [of 2] assms(3) [of 3] assms(3) [of 4] assms(3) [of 5] assms(3) [of 6] assms(1,2)
  by (simp add: counted_def counters_def marks_def length_filter_update)

lemma cnt_sync_spec: "cnt_sync want mark n = (want, n + (if want then 1 else 0) - (if mark then 1 else 0), want \<noteq> mark \<and> n + (if want then 1 else 0) - (if mark then 1 else 0) = (if want then 1 else 0))"
  by (auto simp: cnt_sync_def)

lemma cnt_set_spec: "cnt_set want mark n = (want \<or> mark, n + (if want \<or> mark then 1 else 0) - (if mark then 1 else 0))"
  by (auto simp: cnt_set_def)

lemma cnt_drop_spec: "fst (cnt_drop mark n) = n - (if mark then 1 else 0)"
  by (simp add: cnt_drop_def)

lemma ht_operation_counters [simp]: "counters (fst (rtw_ht_operation_update c)) = counters c"
  by (simp add: rtw_ht_operation_update_def counters_def Let_def split: prod.splits)

lemma less_7: "k < 7 \<longleftrightarrow> k \<in> {0, 1, 2, 3, 4, 5, 6 :: nat}"
  by auto

lemmas mark_defs = counters_def marks_def

lemma join_ht_counted:
  assumes "counted ss c" and "i < length ss" and "join_ht (ss ! i) c = (s', c')"
  shows "counted (ss[i := s']) c'"
proof (rule counted_update [OF assms(1,2)])
  fix k :: nat
  let ?goal = "counters c' ! k = counters c ! k + (if (marks ! k) s' then 1 else 0) - (if (marks ! k) (ss ! i) then 1 else 0)"
  assume "k < 7"
  then have k: "k \<in> {0, 1, 2, 3, 4, 5, 6}" unfolding less_7 .
  show ?goal
  proof (cases "as_flags (ss ! i) AND WLAN_STA_HT \<noteq> 0")
    case True
    then show ?thesis
      using assms(3) k by (cases "as_no_ht_set (ss ! i)") (auto simp: join_ht_def Let_def cnt_set_spec mark_defs simp del: if_split)
  next
    case False
    then show ?thesis using assms(3) k by (auto simp: join_ht_def Let_def cnt_set_spec mark_defs)
  qed
qed

definition join_sync :: "ap_sta \<Rightarrow> bss_cnt \<Rightarrow> ap_sta \<times> bss_cnt" where
  "join_sync s c =
     (let (sp, n_sp, u_sp) = cnt_sync (as_flags s AND WLAN_STA_SHORT_PREAMBLE = 0) (as_no_short_preamble_set s) (num_sta_no_short_preamble c);
          (ne, n_ne, u_ne) = cnt_sync (as_flags s AND WLAN_STA_NONERP \<noteq> 0) (as_nonerp_set s) (num_sta_non_erp c);
          (ss, n_ss, u_ss) = cnt_sync (as_capability s AND 0x400 = 0) (as_no_short_slot_time_set s) (num_sta_no_short_slot_time c) in
      (s\<lparr>as_no_short_preamble_set := sp, as_nonerp_set := ne, as_no_short_slot_time_set := ss\<rparr>,
       c\<lparr>num_sta_no_short_preamble := n_sp, num_sta_non_erp := n_ne, num_sta_no_short_slot_time := n_ss\<rparr>))"

lemma join_sync_counted:
  assumes "counted ss c" and "i < length ss" and "join_sync (ss ! i) c = (s', c')"
  shows "counted (ss[i := s']) c'"
proof (rule counted_update [OF assms(1,2)])
  fix k :: nat
  assume "k < 7"
  then have k: "k \<in> {0, 1, 2, 3, 4, 5, 6}" unfolding less_7 .
  then show "counters c' ! k = counters c ! k + (if (marks ! k) s' then 1 else 0) - (if (marks ! k) (ss ! i) then 1 else 0)"
    using assms(3) by (auto simp: join_sync_def Let_def cnt_sync_spec mark_defs simp del: if_split)
qed

lemma join_stages:
  assumes "bss_cap_update_on_sta_join s c = (s', c', upd)"
  obtains s1 c1 where "join_sync s c = (s1, c1)" and "bc_ht c1 = bc_ht c" and "bc_ht_option c1 = bc_ht_option c"
    and "if bc_ht c then \<exists>c2. join_ht s1 c1 = (s', c2) \<and> c' = fst (rtw_ht_operation_update c2) else s' = s1 \<and> c' = c1"
proof -
  obtain s1 c1 where s1: "join_sync s c = (s1, c1)" by fastforce
  have "bc_ht c1 = bc_ht c" "bc_ht_option c1 = bc_ht_option c"
    using s1 by (auto simp: join_sync_def Let_def cnt_sync_spec)
  moreover have "if bc_ht c then \<exists>c2. join_ht s1 c1 = (s', c2) \<and> c' = fst (rtw_ht_operation_update c2) else s' = s1 \<and> c' = c1"
    using assms s1 by (cases "bc_ht c") (auto simp: bss_cap_update_on_sta_join_def join_sync_def Let_def split: prod.splits)
  ultimately show ?thesis using that s1 by blast
qed

lemma join_counted:
  assumes "counted ss c" and "i < length ss" and "bss_cap_update_on_sta_join (ss ! i) c = (s', c', upd)"
  shows "counted (ss[i := s']) c'"
proof -
  from assms(3) obtain s1 c1 where s1: "join_sync (ss ! i) c = (s1, c1)"
    and r: "if bc_ht c then \<exists>c2. join_ht s1 c1 = (s', c2) \<and> c' = fst (rtw_ht_operation_update c2) else s' = s1 \<and> c' = c1"
    by (rule join_stages)
  note a = join_sync_counted [OF assms(1,2) s1]
  then show ?thesis
    using r join_ht_counted [OF a, of i] assms(2) by (cases "bc_ht c") (auto simp: counted_def)
qed

lemma leave_counted:
  assumes "counted ss c" and "i < length ss" and "bss_cap_update_on_sta_leave tim aid (ss ! i) c = (tim', s', c', upd)"
  shows "counted (ss[i := s']) c'"
proof (rule counted_update [OF assms(1,2)])
  fix k :: nat
  assume "k < 7"
  then have k: "k \<in> {0, 1, 2, 3, 4, 5, 6}" by auto
  have pos: "as_ht_40mhz_intolerant (ss ! i) \<Longrightarrow> num_sta_40mhz_intolerant c > 0"
    using assms(1,2) nth_mem [OF assms(2)] by (auto simp: counted_def mark_defs filter_empty_conv)
  have c': "counters c' = counters (leave_counters (ss ! i) c)" and s': "s' = clear_marks (ss ! i)"
    using assms(3) ht_operation_counters [of "leave_counters (ss ! i) c"]
    by (auto simp: bss_cap_update_on_sta_leave_def Let_def simp del: ht_operation_counters split: prod.splits)
  show "counters c' ! k = counters c ! k + (if (marks ! k) s' then 1 else 0) - (if (marks ! k) (ss ! i) then 1 else 0)"
    using k unfolding c' s'
    by (elim insertE emptyE) (simp_all add: clear_marks_def leave_counters_def mark_defs cnt_drop_spec pos)
qed

section \<open>The operation mode follows the counters\<close>

lemma op_mode_masks:
  "(m :: u16) AND NON_GF_PRESENT = 0 \<longleftrightarrow> \<not> bit m 2" "m AND NON_HT_PRESENT = 0 \<longleftrightarrow> \<not> bit m 4"
  using and_exp_eq_0_iff_not_bit [of m 2] and_exp_eq_0_iff_not_bit [of m 4] by (simp_all add: NON_GF_PRESENT_def NON_HT_PRESENT_def)

lemma mask_bits:
  "bit NON_GF_PRESENT n \<longleftrightarrow> n = 2" "bit NON_HT_PRESENT n \<longleftrightarrow> n = 4" "bit OP_MODE_MASK n \<longleftrightarrow> n < 2"
  using bit_exp_iff [of 2 n, where 'a = u16] bit_exp_iff [of 4 n, where 'a = u16] bit_mask_iff [of 2 n, where 'a = u16]
  by (auto simp: NON_GF_PRESENT_def NON_HT_PRESENT_def OP_MODE_MASK_def possible_bit_word mask_eq_exp_minus_1)

lemma new_op_mode_bits: "2 \<le> n \<Longrightarrow> \<not> bit (new_op_mode c) n"
proof -
  assume n: "2 \<le> n"
  have "take_bit 2 (new_op_mode c) = new_op_mode c" by (auto simp: new_op_mode_def take_bit_eq_mod)
  then show ?thesis using n by (metis bit_take_bit_iff not_less)
qed

lemma mode_field:
  "((m AND NOT OP_MODE_MASK) OR new_op_mode c) AND OP_MODE_MASK = new_op_mode c"
  "2 \<le> n \<Longrightarrow> bit ((m AND NOT OP_MODE_MASK) OR new_op_mode c) n \<longleftrightarrow> bit m n \<and> n < 16"
  using new_op_mode_bits [of n c] new_op_mode_bits [of _ c]
  by (auto intro!: bit_word_eqI simp: bit_simps mask_bits not_le) (meson not_le)+

lemma single_bit:
  assumes "\<And>n. bit (m :: u16) n \<longleftrightarrow> n = j" and "j < 16"
  shows "x AND m = 0 \<longleftrightarrow> \<not> bit x j" and "x OR m = x \<longleftrightarrow> bit x j" and "x AND NOT m = x \<longleftrightarrow> \<not> bit x j"
proof -
  show "x AND m = 0 \<longleftrightarrow> \<not> bit x j"
  proof
    assume "x AND m = 0"
    then have "\<not> bit (x AND m) j" by simp
    then show "\<not> bit x j" using assms(1) by (simp add: bit_and_iff)
  qed (use assms(2) in \<open>auto simp: bit_simps assms(1) intro!: bit_word_eqI\<close>)
  show "x OR m = x \<longleftrightarrow> bit x j" "x AND NOT m = x \<longleftrightarrow> \<not> bit x j"
    using assms(2) by (auto simp: bit_simps assms(1) intro!: bit_word_eqI) (metis assms bit_or_iff, metis assms bit_and_iff bit_not_iff)
qed

lemma op_mode_bit_eq:
  assumes "m = NON_GF_PRESENT \<or> m = NON_HT_PRESENT"
  shows "op_mode_bit m p (mode, k) = (let mode' = (if p then mode OR m else mode AND NOT m) in (mode', if mode' = mode then k else Suc k))"
proof -
  from assms obtain j where j: "\<And>n. bit m n \<longleftrightarrow> n = j" "j < 16" by (auto simp: mask_bits)
  show ?thesis
    using single_bit [OF j, of mode] by (cases "bit mode j") (auto simp: op_mode_bit_def Let_def)
qed

text \<open>Whatever the mode was, it fits the counters afterwards, and a change is reported exactly when there
  was one.\<close>

lemma ht_operation_update_fits:
  assumes "bc_ht_option c"
  shows "op_mode_fits (fst (rtw_ht_operation_update c))"
proof -
  obtain m1 k1 where 1: "op_mode_bit NON_GF_PRESENT (num_sta_ht_no_gf c \<noteq> 0) (ht_op_mode c, 0) = (m1, k1)" by fastforce
  obtain m2 k2 where 2: "op_mode_bit NON_HT_PRESENT (num_sta_no_ht c \<noteq> 0 \<or> olbc_ht c) (m1, k1) = (m2, k2)" by fastforce
  let ?m = "if m2 AND OP_MODE_MASK \<noteq> new_op_mode c then (m2 AND NOT OP_MODE_MASK) OR new_op_mode c else m2"
  have m1: "bit m1 2 \<longleftrightarrow> num_sta_ht_no_gf c \<noteq> 0"
    using 1 by (auto simp: op_mode_bit_eq Let_def bit_simps mask_bits)
  have "m2 = (if num_sta_no_ht c \<noteq> 0 \<or> olbc_ht c then m1 OR NON_HT_PRESENT else m1 AND NOT NON_HT_PRESENT)"
    using 2 by (simp add: op_mode_bit_eq Let_def)
  then have m2: "bit m2 4 \<longleftrightarrow> num_sta_no_ht c \<noteq> 0 \<or> olbc_ht c" "bit m2 2 = bit m1 2"
    by (auto simp: bit_simps mask_bits split: if_splits)
  have b: "bit ?m n = bit m2 n" if "2 \<le> n" "n < 16" for n using mode_field(2) [OF that(1), of m2 c] that(2) by simp
  have "?m AND OP_MODE_MASK = new_op_mode c" using mode_field(1) [of m2 c] by simp
  moreover have "fst (rtw_ht_operation_update c) = c\<lparr>ht_op_mode := ?m\<rparr>"
    using assms 1 2 by (simp add: rtw_ht_operation_update_def)
  moreover have "new_op_mode (c\<lparr>ht_op_mode := ?m\<rparr>) = new_op_mode c" by (simp add: new_op_mode_def)
  ultimately show ?thesis
    using m1 m2 b [of 2] b [of 4] by (simp add: op_mode_fits_def op_mode_masks)
qed

lemma ht_operation_update_id: "op_mode_fits c \<Longrightarrow> bc_ht_option c \<Longrightarrow> rtw_ht_operation_update c = (c, 0)"
  by (auto simp: rtw_ht_operation_update_def op_mode_fits_def op_mode_bit_def)

section \<open>Any sequence of joins and leaves\<close>

text \<open>\<open>Change\<close> is anything else that happens to a station: a parsed element or capability field.\<close>

datatype bss_op = Join nat | Leave nat nat | Change nat u32 u16 buf

fun bss_step :: "bss_op \<Rightarrow> buf \<times> ap_sta list \<times> bss_cnt \<Rightarrow> buf \<times> ap_sta list \<times> bss_cnt" where
  "bss_step (Join i) (tim, ss, c) = (case bss_cap_update_on_sta_join (ss ! i) c of (s, c, _) \<Rightarrow> (tim, ss[i := s], c))"
| "bss_step (Leave i aid) (tim, ss, c) = (case bss_cap_update_on_sta_leave tim aid (ss ! i) c of (tim, s, c, _) \<Rightarrow> (tim, ss[i := s], c))"
| "bss_step (Change i flags cap ht) (tim, ss, c) = (tim, ss[i := (ss ! i)\<lparr>as_flags := flags, as_capability := cap, as_ht_cap := ht\<rparr>], c)"

fun bss_op_sta :: "bss_op \<Rightarrow> nat" where
  "bss_op_sta (Join i) = i" | "bss_op_sta (Leave i aid) = i" | "bss_op_sta (Change i flags cap ht) = i"

definition bss_ok :: "buf \<times> ap_sta list \<times> bss_cnt \<Rightarrow> bool" where
  "bss_ok st \<longleftrightarrow> (case st of (tim, ss, c) \<Rightarrow> counted ss c \<and> op_mode_fits c \<and> bc_ht c \<and> bc_ht_option c)"

lemma counted_change: "counted ss c \<Longrightarrow> i < length ss \<Longrightarrow> counted (ss[i := (ss ! i)\<lparr>as_flags := f, as_capability := cap, as_ht_cap := ht\<rparr>]) c"
  by (rule counted_update) (auto simp: less_7 marks_def)

lemma join_ht_conf: "join_ht s c = (s', c') \<Longrightarrow> bc_ht c' = bc_ht c \<and> bc_ht_option c' = bc_ht_option c"
  by (cases "as_flags s AND WLAN_STA_HT = 0"; cases "as_no_ht_set s"; auto simp: join_ht_def cnt_set_spec Let_def)

lemma bss_step_ok:
  assumes "bss_ok st" and "bss_op_sta op < length (fst (snd st))"
  shows "bss_ok (bss_step op st) \<and> length (fst (snd (bss_step op st))) = length (fst (snd st))"
proof -
  obtain tim ss c where st: "st = (tim, ss, c)" by (cases st)
  show ?thesis
  proof (cases op)
    case (Join i)
    obtain s' c' upd where j: "bss_cap_update_on_sta_join (ss ! i) c = (s', c', upd)" by (metis prod_cases3)
    have ok: "counted ss c" "bc_ht c" "bc_ht_option c" "i < length ss" using assms st Join by (simp_all add: bss_ok_def)
    from j obtain s1 c1 where j1: "join_sync (ss ! i) c = (s1, c1)" "bc_ht c1 = bc_ht c" "bc_ht_option c1 = bc_ht_option c"
      and "if bc_ht c then \<exists>c2. join_ht s1 c1 = (s', c2) \<and> c' = fst (rtw_ht_operation_update c2) else s' = s1 \<and> c' = c1"
      by (rule join_stages)
    then obtain c2 where "join_ht s1 c1 = (s', c2)" "c' = fst (rtw_ht_operation_update c2)" using ok(2) by auto
    note j2 = j1(1) this
    have "bc_ht_option c2" "bc_ht c2"
      using join_ht_conf [OF j2(2)] j1 ok by simp_all
    then have "op_mode_fits c'" "bc_ht c'" "bc_ht_option c'"
      using j2(3) ht_operation_update_fits [of c2] by (auto simp: rtw_ht_operation_update_def Let_def split: prod.splits)
    then show ?thesis using join_counted [OF ok(1,4) j] j st Join by (simp add: bss_ok_def)
  next
    case (Leave i aid)
    obtain tim' s' c' upd where j: "bss_cap_update_on_sta_leave tim aid (ss ! i) c = (tim', s', c', upd)" by (metis prod_cases4)
    have ok: "counted ss c" "bc_ht c" "bc_ht_option c" "i < length ss" using assms st Leave by (simp_all add: bss_ok_def)
    let ?c = "leave_counters (ss ! i) c"
    have "c' = fst (rtw_ht_operation_update ?c)" using j by (auto simp: bss_cap_update_on_sta_leave_def Let_def split: prod.splits)
    moreover have "bc_ht ?c" "bc_ht_option ?c" using ok by (simp_all add: leave_counters_def)
    ultimately have "op_mode_fits c'" "bc_ht c'" "bc_ht_option c'"
      using ht_operation_update_fits [of ?c] by (auto simp: rtw_ht_operation_update_def Let_def split: prod.splits)
    then show ?thesis using leave_counted [OF ok(1,4) j] j st Leave by (simp add: bss_ok_def)
  next
    case (Change i flags cap ht)
    then show ?thesis using assms st by (simp add: bss_ok_def counted_change)
  qed
qed

text \<open>C35: Across any sequence of stations joining, changing their capabilities and leaving, every counter is
  the number of stations that have its mark, and the HT operation mode is the one these counters
  demand.\<close>

theorem bss_counters_exact:
  assumes "counted ss c" and "op_mode_fits c" and "bc_ht c" "bc_ht_option c" and "\<forall>op\<in>set ops. bss_op_sta op < length ss"
  shows "case foldl (\<lambda>st op. bss_step op st) (tim, ss, c) ops of (tim', ss', c') \<Rightarrow>
    counters c' = map (\<lambda>m. int (length (filter m ss'))) marks \<and> op_mode_fits c'"
proof -
  have "bss_ok st \<Longrightarrow> \<forall>op\<in>set ops. bss_op_sta op < length (fst (snd st)) \<Longrightarrow> bss_ok (foldl (\<lambda>st op. bss_step op st) st ops)" for st
  proof (induction ops arbitrary: st)
    case (Cons op ops)
    then show ?case using bss_step_ok [of st op] by simp
  qed simp
  from this [of "(tim, ss, c)"] show ?thesis using assms by (auto simp: bss_ok_def counted_def split: prod.splits)
qed

text \<open>An example: of two stations one joins without 802.11n and leaves again.\<close>

definition ex_cnt :: bss_cnt where
  "ex_cnt = \<lparr>num_sta_no_short_preamble = 0, num_sta_non_erp = 0, num_sta_no_short_slot_time = 0, num_sta_ht_no_gf = 0, num_sta_no_ht = 0,
     num_sta_ht_20mhz = 0, num_sta_40mhz_intolerant = 0, ht_op_mode = 0, olbc_ht = False, bc_above_11b = True, bc_ht = True,
     bc_ht_option = True, bc_sup_width = True\<rparr>"

theorem bss_counters_exact_witness:
  "case foldl (\<lambda>st op. bss_step op st) ([0, 0], [ap_sta_zero, ap_sta_zero], ex_cnt) [Join 0, Join 1, Leave 0 1] of (tim', ss', c') \<Rightarrow>
    counters c' = map (\<lambda>m. int (length (filter m ss'))) marks \<and> op_mode_fits c'"
  by (rule bss_counters_exact)
    (simp_all add: counted_def mark_defs ap_sta_zero_def ex_cnt_def op_mode_fits_def new_op_mode_def)

lemma join_ht_marks:
  assumes "join_ht s c = (s', c')"
  shows "as_no_short_preamble_set s' = as_no_short_preamble_set s" and "as_nonerp_set s' = as_nonerp_set s"
    and "as_no_short_slot_time_set s' = as_no_short_slot_time_set s" and "as_no_ht_set s' \<longleftrightarrow> as_flags s AND WLAN_STA_HT = 0"
    and "as_no_ht_gf_set s \<Longrightarrow> as_no_ht_gf_set s'" and "as_ht_20mhz_set s \<Longrightarrow> as_ht_20mhz_set s'"
    and "as_ht_40mhz_intolerant s \<Longrightarrow> as_ht_40mhz_intolerant s'"
  using assms
  by (cases "as_flags s AND WLAN_STA_HT = 0"; cases "as_no_ht_set s"; auto simp: join_ht_def cnt_set_spec Let_def)+

text \<open>The marks after a station has joined. Those for short preamble, ERP and short slot time always follow
  what the station announced last. The marks for greenfield, 20 MHz and 40 MHz intolerance are
  never taken back while the station stays: a station that joins again with other capabilities keeps
  the old marks.\<close>

theorem bss_join_marks:
  assumes "bss_cap_update_on_sta_join s c = (s', c', upd)"
  shows "as_no_short_preamble_set s' \<longleftrightarrow> as_flags s AND WLAN_STA_SHORT_PREAMBLE = 0"
    and "as_nonerp_set s' \<longleftrightarrow> as_flags s AND WLAN_STA_NONERP \<noteq> 0"
    and "as_no_short_slot_time_set s' \<longleftrightarrow> as_capability s AND 0x400 = 0"
    and "bc_ht c \<Longrightarrow> as_no_ht_set s' \<longleftrightarrow> as_flags s AND WLAN_STA_HT = 0"
    and "as_no_ht_gf_set s \<Longrightarrow> as_no_ht_gf_set s'" and "as_ht_20mhz_set s \<Longrightarrow> as_ht_20mhz_set s'"
    and "as_ht_40mhz_intolerant s \<Longrightarrow> as_ht_40mhz_intolerant s'"
proof -
  from assms obtain s1 c1 where 1: "join_sync s c = (s1, c1)"
    and 2: "if bc_ht c then \<exists>c2. join_ht s1 c1 = (s', c2) \<and> c' = fst (rtw_ht_operation_update c2) else s' = s1 \<and> c' = c1"
    by (rule join_stages)
  have s1: "s1 = s\<lparr>as_no_short_preamble_set := as_flags s AND WLAN_STA_SHORT_PREAMBLE = 0,
      as_nonerp_set := as_flags s AND WLAN_STA_NONERP \<noteq> 0, as_no_short_slot_time_set := as_capability s AND 0x400 = 0\<rparr>"
    using 1 by (simp add: join_sync_def cnt_sync_spec)
  note ht = join_ht_marks [of s1 c1 s']
  show "as_no_short_preamble_set s' \<longleftrightarrow> as_flags s AND WLAN_STA_SHORT_PREAMBLE = 0"
    "as_nonerp_set s' \<longleftrightarrow> as_flags s AND WLAN_STA_NONERP \<noteq> 0" "as_no_short_slot_time_set s' \<longleftrightarrow> as_capability s AND 0x400 = 0"
    "bc_ht c \<Longrightarrow> as_no_ht_set s' \<longleftrightarrow> as_flags s AND WLAN_STA_HT = 0"
    "as_no_ht_gf_set s \<Longrightarrow> as_no_ht_gf_set s'" "as_ht_20mhz_set s \<Longrightarrow> as_ht_20mhz_set s'"
    "as_ht_40mhz_intolerant s \<Longrightarrow> as_ht_40mhz_intolerant s'"
    using 2 ht by (auto simp: s1 split: if_splits)
qed

theorem bss_join_marks_witness:
  "case bss_cap_update_on_sta_join (ap_sta_zero\<lparr>as_no_ht_gf_set := True\<rparr>) ex_cnt of (s', c', upd) \<Rightarrow>
     as_no_ht_set s' \<and> as_no_ht_gf_set s'"
proof -
  obtain s' c' upd where j: "bss_cap_update_on_sta_join (ap_sta_zero\<lparr>as_no_ht_gf_set := True\<rparr>) ex_cnt = (s', c', upd)"
    by (metis prod_cases3)
  show ?thesis using bss_join_marks(4,5) [OF j] j by (simp add: ap_sta_zero_def ex_cnt_def)
qed

end
