(* ===== verification/Ap_Auth.thy ===== *)
theory Ap_Auth
  imports Bss_Cap Acl Wep Recv_Data
begin

text \<open>
  Authentication and association of stations with an access point: \<open>OnAuth\<close>, \<open>OnAssocReq\<close>,
  \<open>OnDeAuth\<close> and \<open>OnDisassoc\<close> of \<open>core/rtw_mlme_ext.c\<close>, \<open>ap_free_sta\<close> of \<open>core/rtw_ap.c\<close> and
  the deletion events of \<open>core/rtw_mlme.c\<close>, over the station table of \<open>Sta_Table\<close>, the element parsing of
  \<open>Ap_Sta_Ie\<close> and the counters of \<open>Bss_Cap\<close>. The role is an access point without P2P group, mesh,
  concurrent interface, 802.11ac and 802.11k.
\<close>

section \<open>State\<close>

definition WIFI_FW_AUTH_NULL :: u32 where "WIFI_FW_AUTH_NULL = 0x100"
definition WIFI_FW_AUTH_STATE :: u32 where "WIFI_FW_AUTH_STATE = 0x200"
definition WIFI_FW_AUTH_SUCCESS :: u32 where "WIFI_FW_AUTH_SUCCESS = 0x400"
definition WIFI_FW_ASSOC_STATE :: u32 where "WIFI_FW_ASSOC_STATE = 0x2000"
definition WIFI_FW_ASSOC_SUCCESS :: u32 where "WIFI_FW_ASSOC_SUCCESS = 0x4000"
definition WIFI_FW_LINKING_STATE :: u32 where
  "WIFI_FW_LINKING_STATE = WIFI_FW_AUTH_NULL OR WIFI_FW_AUTH_STATE OR WIFI_FW_AUTH_SUCCESS OR WIFI_FW_ASSOC_STATE"
definition WIFI_UNDER_KEY_HANDSHAKE :: u32 where "WIFI_UNDER_KEY_HANDSHAKE = 0x01000000"

lemmas wifi_fw_defs = WIFI_FW_AUTH_NULL_def WIFI_FW_AUTH_STATE_def WIFI_FW_AUTH_SUCCESS_def WIFI_FW_ASSOC_STATE_def
  WIFI_FW_ASSOC_SUCCESS_def WIFI_FW_LINKING_STATE_def

definition WLAN_AUTH_SAE :: u16 where "WLAN_AUTH_SAE = 3"

text \<open>What the handlers hand to the rest of the driver: frames to send (an authentication frame with
  algorithm, sequence number, status and challenge text), events and commands.\<close>

datatype ap_ev =
    Auth_rsp buf u16 u16 nat "buf option"
  | Assoc_rsp bool nat nat buf
  | Deauth_to buf nat
  | SA_Query buf
  | Rx_mframe buf
  | Sta_added buf
  | Sta_left buf nat
  | Del_sta_event buf nat
  | Clear_key buf
  | Update_beacon nat

text \<open>\<open>ap_fw_ap\<close> is \<open>(pmlmeinfo->state & 0x03) == WIFI_FW_AP_STATE\<close>, \<open>ap_linked\<close> is \<open>MLME_IS_ASOC\<close>,
  \<open>ap_ptime\<close> the static variable of \<open>rtw_defs_attack_chk\<close>. The list of authenticating stations is kept
  in \<open>Sta_Table\<close>; \<open>ap_asoc_list\<close> is the list of associated stations, by slot.\<close>

record ap_state =
  ap_sp :: sta_priv
  ap_as :: "ap_sta list"
  ap_asoc_list :: "nat list"
  ap_asoc_list_cnt :: int
  ap_auth_to :: nat
  ap_assoc_to :: nat
  ap_expire_to :: nat
  ap_cnf :: ap_conf
  ap_sec :: security_priv
  ap_acl :: "wlan_acl_pool list"
  ap_bss :: bss_cnt
  ap_ptime :: u32
  ap_defs_lmt_time :: u32
  ap_defs_lmt_sta :: u32
  ap_force_auth_fail :: nat
  ap_force_asoc_fail :: nat
  ap_fw_ap :: bool
  ap_linked :: bool
  ap_report_auth :: bool
  ap_bssid :: buf
  ap_evs :: "ap_ev list"

definition emit :: "ap_state \<Rightarrow> ap_ev list \<Rightarrow> ap_state" where
  "emit s es = s\<lparr>ap_evs := ap_evs s @ es\<rparr>"

definition upd_si :: "ap_state \<Rightarrow> nat \<Rightarrow> (sta_info \<Rightarrow> sta_info) \<Rightarrow> ap_state" where
  "upd_si s i f = s\<lparr>ap_sp := sta_upd (ap_sp s) i f\<rparr>"

definition upd_as :: "ap_state \<Rightarrow> nat \<Rightarrow> (ap_sta \<Rightarrow> ap_sta) \<Rightarrow> ap_state" where
  "upd_as s i f = s\<lparr>ap_as := (ap_as s)[i := f (ap_as s ! i)]\<rparr>"

abbreviation si_of :: "ap_state \<Rightarrow> nat \<Rightarrow> sta_info" where
  "si_of s i \<equiv> sp_sta (ap_sp s) ! i"

definition sta_of :: "ap_state \<Rightarrow> buf \<Rightarrow> nat option" where
  "sta_of s a = rtw_get_stainfo (ap_sp s) (Some a)"

text \<open>The condition under which a management frame may change the station: frame protection is not in
  use, or the pairwise key is not installed.\<close>

definition mfp_open :: "ap_sta \<Rightarrow> bool" where
  "mfp_open a \<longleftrightarrow> (\<not> as_pairwise_key_installed a \<and> as_flags a AND WLAN_STA_MFP \<noteq> 0) \<or> as_flags a AND WLAN_STA_MFP = 0"

text \<open>The two lists.\<close>

definition asoc_link :: "nat \<Rightarrow> ap_state \<Rightarrow> ap_state" where
  "asoc_link i s =
     (if i \<in> set (ap_asoc_list s) then s
      else upd_si (s\<lparr>ap_asoc_list := ap_asoc_list s @ [i], ap_asoc_list_cnt := ap_asoc_list_cnt s + 1\<rparr>) i
        (\<lambda>x. x\<lparr>sta_expire_to := ap_expire_to s\<rparr>))"

definition asoc_unlink :: "nat \<Rightarrow> ap_state \<Rightarrow> ap_state" where
  "asoc_unlink i s =
     (if i \<in> set (ap_asoc_list s)
      then s\<lparr>ap_asoc_list := remove1 i (ap_asoc_list s), ap_asoc_list_cnt := ap_asoc_list_cnt s - 1\<rparr> else s)"

definition auth_link :: "nat \<Rightarrow> ap_state \<Rightarrow> ap_state" where
  "auth_link i s =
     (if sta_auth_linked (si_of s i) then s
      else s\<lparr>ap_sp := sta_upd (ap_sp s\<lparr>sp_auth_list_cnt := sp_auth_list_cnt (ap_sp s) + 1\<rparr>) i (\<lambda>x. x\<lparr>sta_auth_linked := True\<rparr>)\<rparr>)"

definition auth_unlink :: "nat \<Rightarrow> ap_state \<Rightarrow> ap_state" where
  "auth_unlink i s =
     (if sta_auth_linked (si_of s i)
      then s\<lparr>ap_sp := sta_upd (ap_sp s\<lparr>sp_auth_list_cnt := sp_auth_list_cnt (ap_sp s) - 1\<rparr>) i (\<lambda>x. x\<lparr>sta_auth_linked := False\<rparr>)\<rparr>
      else s)"

section \<open>Authentication\<close>

definition rtw_check_invalid_mac_address :: "buf \<Rightarrow> bool \<Rightarrow> bool" where
  "rtw_check_invalid_mac_address a check_local_bit \<longleftrightarrow>
     a = replicate 6 0 \<or> a = replicate 6 0xff \<or> a ! 0 AND 1 \<noteq> 0 \<or> (check_local_bit \<and> a ! 0 AND 2 \<noteq> 0)"

definition rtw_get_sta_num_by_state :: "sta_priv \<Rightarrow> u32 \<Rightarrow> nat" where
  "rtw_get_sta_num_by_state sp state = length (filter (\<lambda>i. sta_state (sp_sta sp ! i) AND state \<noteq> 0) (concat (sp_hash sp)))"

definition rtw_defs_attack_chk :: "u32 \<Rightarrow> ap_state \<Rightarrow> bool \<times> ap_state" where
  "rtw_defs_attack_chk stime s =
     (ap_ptime s > 0 \<and> stime - ap_ptime s < ap_defs_lmt_time s
        \<and> of_nat (rtw_get_sta_num_by_state (ap_sp s) WIFI_FW_LINKING_STATE) \<ge> ap_defs_lmt_sta s,
      s\<lparr>ap_ptime := stime\<rparr>)"

text \<open>The authentication frame \<open>issue_auth\<close> sends to a station.\<close>

definition issue_auth :: "buf \<Rightarrow> u32 \<Rightarrow> u32 \<Rightarrow> u32 \<Rightarrow> buf \<Rightarrow> nat \<Rightarrow> ap_ev" where
  "issue_auth mac authalg auth_seq state chg_txt status =
     (let alg = (if status \<noteq> 0 then 0 else ucast authalg) in
      Auth_rsp mac alg (ucast auth_seq) status
        (if auth_seq = 2 \<and> state AND WIFI_FW_AUTH_STATE \<noteq> 0 \<and> alg \<noteq> 0 then Some chg_txt else None))"

text \<open>Decryption, and the algorithm and sequence number. \<open>b\<close> holds the frame from \<open>rx_data\<close> on.\<close>

definition auth_fields :: "security_priv \<Rightarrow> buf \<Rightarrow> nat \<Rightarrow> (buf \<times> u16 \<times> u16) option" where
  "auth_fields sec b len = do {
     fc \<leftarrow> RTW_GET_LE16 b 0;
     (b, offset) \<leftarrow> (if fc AND 0x4000 \<noteq> 0 then do {
         iv3 \<leftarrow> rd b (WLAN_HDR_A3_LEN + 3);
         b \<leftarrow> rtw_wep_decrypt sec \<lparr>rx_encrypt = 1, rx_hdrlen = WLAN_HDR_A3_LEN, rx_iv_len = 4,
           rx_key_index = unat (drop_bit 6 iv3 AND 3), rx_ra = [], rx_ta = [], rx_len = len\<rparr> b;
         Some (b, 4) }
       else Some (b, 0));
     algorithm \<leftarrow> RTW_GET_LE16 b (WLAN_HDR_A3_LEN + offset);
     seq \<leftarrow> RTW_GET_LE16 b (WLAN_HDR_A3_LEN + offset + 2);
     Some (b, algorithm, seq) }"

text \<open>The refusals before a station object is looked for: a status, or the authentication mode.\<close>

definition auth_refused :: "u32 \<Rightarrow> buf \<Rightarrow> u16 \<Rightarrow> ap_state \<Rightarrow> (nat + nat) \<times> ap_state" where
  "auth_refused stime sa algorithm s =
     (let (attack, s) = rtw_defs_attack_chk stime s;
          cnf = ap_cnf s;
          auth_mode = (if ac_dot11AuthAlgrthm cnf = 2 \<and> algorithm \<noteq> WLAN_AUTH_SAE \<and> ac_dot11PrivacyAlgrthm cnf \<noteq> 1
              \<and> ac_dot11PrivacyAlgrthm cnf \<noteq> 5 then 0 else ac_dot11AuthAlgrthm cnf) in
      (if attack \<and> (case sta_of s sa of None \<Rightarrow> True | Some i \<Rightarrow> sta_state (si_of s i) AND WIFI_FW_ASSOC_SUCCESS = 0) then Inl 30
       else if ap_force_auth_fail s \<noteq> 0 then Inl (ap_force_auth_fail s)
       else if (algorithm > 0 \<and> auth_mode = 0) \<or> (algorithm = 0 \<and> auth_mode = 1) then Inl 13
       else if \<not> rtw_access_ctrl (ap_acl s) sa then Inl 17
       else Inr auth_mode, s))"

text \<open>The station object: a new one, or the one of the address, taken off the list of associated stations.
  A new object that is still linked from an earlier use would break that list; the model has no
  result then.\<close>

definition auth_station :: "buf \<Rightarrow> ap_state \<Rightarrow> (nat option \<times> ap_state) option" where
  "auth_station sa s =
     (case sta_of s sa of
        Some i \<Rightarrow> Some (Some i, if mfp_open (ap_as s ! i) then asoc_unlink i s else s)
      | None \<Rightarrow>
          (case rtw_alloc_stainfo (ap_sp s) sa of
             (sp, None) \<Rightarrow> Some (None, s\<lparr>ap_sp := sp\<rparr>)
           | (sp, Some i) \<Rightarrow>
               if i \<in> set (ap_asoc_list s) then None
               else Some (Some i, upd_as (upd_si (s\<lparr>ap_sp := sp\<rparr>) i (\<lambda>x. x\<lparr>sta_state := WIFI_FW_AUTH_NULL\<rparr>)) i (\<lambda>_. ap_sta_zero))))"

definition auth_wait :: "nat \<Rightarrow> ap_state \<Rightarrow> ap_state" where
  "auth_wait i s =
     (let s = (if mfp_open (ap_as s ! i) then auth_link i s else s) in
      if as_auth_seq (ap_as s ! i) = 0 then upd_si s i (\<lambda>x. x\<lparr>sta_expire_to := ap_auth_to s\<rparr>) else s)"

text \<open>The state machine, for open and for shared-key authentication; \<open>0\<close> lets the station proceed.\<close>

definition auth_open :: "u16 \<Rightarrow> u16 \<Rightarrow> nat \<Rightarrow> ap_state \<Rightarrow> nat \<times> ap_state" where
  "auth_open algorithm seq i s =
     (if seq = 1 then
        let s = (if mfp_open (ap_as s ! i) then upd_si s i (\<lambda>x. x\<lparr>sta_state := (sta_state x AND NOT WIFI_FW_AUTH_NULL) OR WIFI_FW_AUTH_SUCCESS,
                   sta_expire_to := ap_assoc_to s\<rparr>) else s) in
        (0, upd_as s i (\<lambda>a. a\<lparr>as_authalg := ucast algorithm\<rparr>))
      else (14, s))"

definition auth_shared :: "buf \<Rightarrow> nat \<Rightarrow> u16 \<Rightarrow> u16 \<Rightarrow> nat \<Rightarrow> ap_state \<Rightarrow> (nat \<times> ap_state) option" where
  "auth_shared b len algorithm seq i s =
     (if seq = 1 then
        let s = upd_as s i (\<lambda>a. a\<lparr>as_chg_txt := replicate 128 78\<rparr>);
            s = (if mfp_open (ap_as s ! i) then upd_si s i (\<lambda>x. x\<lparr>sta_state := (sta_state x AND NOT WIFI_FW_AUTH_NULL) OR WIFI_FW_AUTH_STATE\<rparr>) else s) in
        Some (0, upd_as s i (\<lambda>a. a\<lparr>as_authalg := ucast algorithm, as_auth_seq := 2\<rparr>))
      else if seq = 3 then do {
        (p, ie_len) \<leftarrow> rtw_get_ie b (WLAN_HDR_A3_LEN + 4 + 6) 16 0 (to_s32 (usub32 len (WLAN_HDR_A3_LEN + 6 + 4)));
        (case p of
           None \<Rightarrow> Some (15, s)
         | Some p \<Rightarrow>
             if ie_len \<le> 0 then Some (15, s)
             else do {
               eq \<leftarrow> mem_eq b (p + 2) (as_chg_txt (ap_as s ! i));
               if eq then Some (0, if mfp_open (ap_as s ! i) then upd_si s i (\<lambda>x. x\<lparr>sta_state := (sta_state x AND NOT WIFI_FW_AUTH_STATE) OR WIFI_FW_AUTH_SUCCESS,
                   sta_expire_to := ap_assoc_to s\<rparr>) else s)
               else Some (15, s) }) }
      else Some (14, s))"

definition auth_machine :: "buf \<Rightarrow> nat \<Rightarrow> u16 \<Rightarrow> u16 \<Rightarrow> nat \<Rightarrow> nat \<Rightarrow> ap_state \<Rightarrow> (nat \<times> ap_state) option" where
  "auth_machine b len algorithm seq auth_mode i s =
     (if as_auth_seq (ap_as s ! i) + 1 \<noteq> ucast seq then Some (14, s)
      else if algorithm = 0 \<and> auth_mode \<in> {0, 2, 3} then Some (auth_open algorithm seq i s)
      else auth_shared b len algorithm seq i s)"

definition auth_reply :: "u16 \<Rightarrow> nat \<Rightarrow> ap_state \<Rightarrow> ap_state" where
  "auth_reply seq i s =
     (let s = upd_as s i (\<lambda>a. a\<lparr>as_auth_seq := ucast seq + 1\<rparr>);
          a = ap_as s ! i; x = si_of s i;
          s = emit s [issue_auth (sta_mac x) (as_authalg a) (as_auth_seq a) (sta_state x) (as_chg_txt a) 0] in
      if sta_state x AND WIFI_FW_AUTH_SUCCESS \<noteq> 0 \<or> sta_state x AND WIFI_FW_ASSOC_SUCCESS \<noteq> 0
      then upd_as s i (\<lambda>a. a\<lparr>as_auth_seq := 0\<rparr>) else s)"

text \<open>The label \<open>auth_fail\<close>: the station is freed and the reply comes from a cleared object.\<close>

definition auth_fail :: "buf \<Rightarrow> nat option \<Rightarrow> nat \<Rightarrow> ap_state \<Rightarrow> ap_state" where
  "auth_fail sa pstat status s =
     emit (s\<lparr>ap_sp := rtw_free_stainfo (ap_sp s) pstat\<rparr>) [issue_auth sa 0 2 0 (replicate 128 0) status]"

text \<open>The result is \<open>_SUCCESS\<close> or \<open>_FAIL\<close> and the state.\<close>

definition OnAuth :: "u32 \<Rightarrow> buf \<Rightarrow> nat \<Rightarrow> ap_state \<Rightarrow> (bool \<times> ap_state) option" where
  "OnAuth stime b len s =
     (if \<not> ap_fw_ap s then Some (False, s)
      else if \<not> ap_linked s then Some (True, s)
      else do {
        (b, algorithm, seq) \<leftarrow> auth_fields (ap_sec s) b len;
        sa \<leftarrow> rd_n b 10 6;
        if rtw_check_invalid_mac_address sa False then Some (False, s)
        else (case auth_refused stime sa algorithm s of
            (Inl status, s) \<Rightarrow> Some (False, auth_fail sa None status s)
          | (Inr auth_mode, s) \<Rightarrow> do {
              (pstat, s) \<leftarrow> auth_station sa s;
              (case pstat of
                 None \<Rightarrow> Some (False, auth_fail sa None 17 s)
               | Some i \<Rightarrow>
                   let s = auth_wait i s in
                   if ap_report_auth s \<and> algorithm = WLAN_AUTH_SAE \<and> auth_mode = 2
                   then Some (True, emit (upd_as s i (\<lambda>a. a\<lparr>as_authalg := ucast algorithm\<rparr>)) [Rx_mframe sa])
                   else do {
                     (status, s) \<leftarrow> auth_machine b len algorithm seq auth_mode i s;
                     Some (if status \<noteq> 0 then (False, auth_fail sa (Some i) status s) else (True, auth_reply seq i s)) }) }) })"

section \<open>Association\<close>

text \<open>The elements of the request. Up to the security check every test can refuse the station with a status;
  the parsed elements are for the rest.\<close>

definition assoc_checks :: "ap_conf \<Rightarrow> buf \<Rightarrow> nat \<Rightarrow> nat \<Rightarrow> buf \<Rightarrow> ap_sta \<Rightarrow> (nat \<times> ap_sta \<times> elems) option" where
  "assoc_checks cnf b len ies mac a = do {
     (res, es) \<leftarrow> rtw_ieee802_11_parse_elems b ies (len - ies);
     if res = ParseFailed then Some (1, a, es)
     else do {
       a \<leftarrow> rtw_ap_parse_sta_capability a b WLAN_HDR_A3_LEN;
       listen_interval \<leftarrow> RTW_GET_LE16 b (WLAN_HDR_A3_LEN + 2);
       ssid_ok \<leftarrow> (case es Ssid of
           None \<Rightarrow> Some False
         | Some (p, l) \<Rightarrow> if l = 0 \<or> unat l \<noteq> length (ac_ssid cnf) then Some False else mem_eq b p (ac_ssid cnf));
       if \<not> ssid_ok then Some (1, a, es)
       else do {
         (status, a) \<leftarrow> rtw_ap_parse_sta_supported_rates a b ies (len - ies);
         if status \<noteq> 0 then Some (status, a, es)
         else do {
           (status, a) \<leftarrow> rtw_ap_parse_sta_security_ie cnf mac a b es;
           Some (status, a, es) } } } }"

text \<open>TKIP rules out HT and VHT.\<close>

definition no_ht_with_tkip :: "ap_sta \<Rightarrow> ap_sta" where
  "no_ht_with_tkip a =
     (if (as_flags a AND WLAN_STA_HT \<noteq> 0 \<or> as_flags a AND WLAN_STA_VHT \<noteq> 0)
        \<and> (as_wpa2_pairwise_cipher a AND WPA_CIPHER_TKIP \<noteq> 0 \<or> as_wpa_pairwise_cipher a AND WPA_CIPHER_TKIP \<noteq> 0)
      then a\<lparr>as_flags := as_flags a AND NOT WLAN_STA_HT AND NOT WLAN_STA_VHT\<rparr> else a)"

text \<open>The rest: a status and the station. The options that are not built in are left out, and so are the
  P2P and WFD elements, which count for a group owner only.\<close>

definition assoc_elems :: "ap_conf \<Rightarrow> buf \<Rightarrow> nat \<Rightarrow> nat \<Rightarrow> sta_info \<times> ap_sta \<Rightarrow> (nat \<times> sta_info \<times> ap_sta) option" where
  "assoc_elems cnf b len ies st = (case st of (si, a) \<Rightarrow> do {
     (status, a, es) \<leftarrow> assoc_checks cnf b len ies (sta_mac si) a;
     if status \<noteq> 0 then Some (status, si, a)
     else do {
       (si, a) \<leftarrow> rtw_ap_parse_sta_wmm_ie cnf (si, a) b ies (len - ies);
       a \<leftarrow> rtw_ap_parse_sta_ht_ie cnf a b es;
       Some (0, si, rtw_ap_parse_sta_multi_ap_ie (no_ht_with_tkip (rtw_ap_parse_sta_vht_ie a))) } })"

text \<open>\<open>sta_info_update\<close>, and of \<open>update_sta_info_apmode\<close> the port and the state; what it derives from the HT
  capabilities is left out.\<close>

definition sta_info_update :: "nat \<Rightarrow> ap_state \<Rightarrow> ap_state" where
  "sta_info_update i s =
     upd_as s i (\<lambda>a. a\<lparr>as_qos_option :=
       (let qos = (if as_flags a AND WLAN_STA_WME \<noteq> 0 \<and> ac_qos_option (ap_cnf s) then 1 else 0) in
        if as_flags a AND WLAN_STA_HT \<noteq> 0 then 1 else qos)\<rparr>)"

definition update_sta_info_apmode :: "nat \<Rightarrow> ap_state \<Rightarrow> ap_state" where
  "update_sta_info_apmode i s =
     (let dot1x = ac_dot11AuthAlgrthm (ap_cnf s) = dot11AuthAlgrthm_8021X in
      upd_si (upd_as s i (\<lambda>a. a\<lparr>as_ieee8021x_blocked := dot1x\<rparr>)) i
        (\<lambda>x. x\<lparr>sta_state := (if dot1x then sta_state x OR WIFI_UNDER_KEY_HANDSHAKE else sta_state x) OR WIFI_ASOC_STATE\<rparr>))"

definition assoc_join :: "nat \<Rightarrow> ap_state \<Rightarrow> ap_state" where
  "assoc_join i s =
     (case bss_cap_update_on_sta_join (ap_as s ! i) (ap_bss s) of (a, c, upd) \<Rightarrow>
        update_sta_info_apmode i (sta_info_update i (emit (upd_as (s\<lparr>ap_bss := c\<rparr>) i (\<lambda>_. a)) (map Update_beacon upd))))"

text \<open>The association id: the old one or a new one; \<open>False\<close> when there is none left.\<close>

definition assoc_aid :: "nat \<Rightarrow> ap_state \<Rightarrow> bool \<times> ap_state" where
  "assoc_aid i s =
     (if sta_aid_no (si_of s i) > 0 then (True, s)
      else case rtw_aid_alloc (ap_sp s) i of (sp, aid) \<Rightarrow> (aid > 0, s\<lparr>ap_sp := sp\<rparr>))"

text \<open>The station is taken into the cell. Memory for the copy of the request is available.\<close>

definition assoc_admit :: "bool \<Rightarrow> buf \<Rightarrow> nat \<Rightarrow> ap_state \<Rightarrow> ap_state" where
  "assoc_admit reassoc req i s =
     (let s = upd_si s i (\<lambda>x. x\<lparr>sta_state := (sta_state x AND NOT WIFI_FW_ASSOC_STATE) OR WIFI_FW_ASSOC_SUCCESS\<rparr>);
          unprot = mfp_open (ap_as s ! i);
          s = (if unprot then asoc_link i (auth_unlink i s) else s);
          s = (if unprot then assoc_join i s else s);
          secured = as_pairwise_key_installed (ap_as s ! i) \<and> as_flags (ap_as s ! i) AND WLAN_STA_MFP \<noteq> 0;
          mac = sta_mac (si_of s i);
          s = emit s [Assoc_rsp reassoc (if secured then 30 else 0) (sta_aid_no (si_of s i)) mac];
          s = upd_as s i (\<lambda>a. a\<lparr>as_passoc_req := Some req\<rparr>);
          s = (if mfp_open (ap_as s ! i) then emit s [Sta_added mac] else s) in
      if secured then emit s [SA_Query mac] else s)"

text \<open>The label \<open>OnAssocReqFail\<close>, and the part of \<open>OnAssocReq\<close> behind the change of state.\<close>

definition assoc_refuse :: "bool \<Rightarrow> nat \<Rightarrow> nat \<Rightarrow> ap_state \<Rightarrow> bool \<times> ap_state" where
  "assoc_refuse reassoc i status s = (False, emit s [Assoc_rsp reassoc status (sta_aid_no (si_of s i)) (sta_mac (si_of s i))])"

definition assoc_process :: "buf \<Rightarrow> nat \<Rightarrow> bool \<Rightarrow> nat \<Rightarrow> nat \<Rightarrow> ap_state \<Rightarrow> (bool \<times> ap_state) option" where
  "assoc_process b len reassoc ies i s =
     (if ap_force_asoc_fail s \<noteq> 0 then Some (assoc_refuse reassoc i (ap_force_asoc_fail s) s)
      else do {
        (status, si, a) \<leftarrow> assoc_elems (ap_cnf s) b len ies (si_of s i, ap_as s ! i);
        let s = upd_as (upd_si s i (\<lambda>_. si)) i (\<lambda>_. a);
        if status \<noteq> 0 then Some (assoc_refuse reassoc i status s)
        else (case assoc_aid i s of
            (False, s) \<Rightarrow> Some (assoc_refuse reassoc i 17 s)
          | (True, s) \<Rightarrow> do { req \<leftarrow> rd_n b 0 len; Some (True, assoc_admit reassoc req i s) }) })"

definition OnAssocReq :: "buf \<Rightarrow> nat \<Rightarrow> ap_state \<Rightarrow> (bool \<times> ap_state) option" where
  "OnAssocReq b len s =
     (if \<not> ap_fw_ap s then Some (False, s)
      else do {
        sa \<leftarrow> rd_n b 10 6;
        fc \<leftarrow> RTW_GET_LE16 b 0;
        let reassoc = fc AND 0xfc \<noteq> 0;
        let ies = WLAN_HDR_A3_LEN + (if reassoc then 10 else 4);
        if rtw_check_invalid_mac_address sa False then Some (False, s)
        else if len < ies then Some (False, s)
        else (case sta_of s sa of
            None \<Rightarrow> Some (False, emit s [Deauth_to sa 6])
          | Some i \<Rightarrow>
              let st = sta_state (si_of s i) in
              if as_authalg (ap_as s ! i) = ucast WLAN_AUTH_SAE \<and> st AND WIFI_FW_AUTH_NULL \<noteq> 0 then Some (True, s)
              else if st AND WIFI_FW_AUTH_SUCCESS = 0 \<and> st AND WIFI_FW_ASSOC_SUCCESS = 0 then Some (False, emit s [Deauth_to sa 6])
              else
                let done = (if st AND WIFI_FW_AUTH_SUCCESS = 0 then WIFI_FW_ASSOC_SUCCESS else WIFI_FW_AUTH_SUCCESS) in
                assoc_process b len reassoc ies i
                  (upd_si s i (\<lambda>x. x\<lparr>sta_state := (sta_state x AND NOT done) OR WIFI_FW_ASSOC_STATE\<rparr>))) })"

section \<open>Leaving\<close>

text \<open>The station leaves the counters of the cell and the traffic indication map.\<close>

definition cell_leave :: "nat \<Rightarrow> ap_state \<Rightarrow> ap_state" where
  "cell_leave i s =
     (case bss_cap_update_on_sta_leave (sp_tim_bitmap (ap_sp s)) (sta_aid_no (si_of s i)) (ap_as s ! i) (ap_bss s) of
        (tim, a, c, upd) \<Rightarrow> emit (upd_as (s\<lparr>ap_sp := ap_sp s\<lparr>sp_tim_bitmap := tim\<rparr>, ap_bss := c\<rparr>) i (\<lambda>_. a)) (map Update_beacon upd))"

text \<open>\<open>ap_free_sta\<close> with the deletion enqueued; the tear-down of block acknowledgement is left out.\<close>

definition ap_free_sta :: "nat \<Rightarrow> bool \<Rightarrow> nat \<Rightarrow> ap_state \<Rightarrow> ap_state" where
  "ap_free_sta i active reason s =
     (let mac = sta_mac (si_of s i);
          s = (if active then emit s [Deauth_to mac reason] else s);
          s = upd_si s i (\<lambda>x. x\<lparr>sta_state := sta_state x AND NOT (WIFI_ASOC_STATE OR WIFI_UNDER_KEY_HANDSHAKE)\<rparr>);
          s = emit (upd_as s i (\<lambda>a. a\<lparr>as_passoc_req := None\<rparr>)) [Sta_left mac reason] in
      emit (cell_leave i s) [Del_sta_event mac reason, Clear_key mac])"

definition ap_release_sta :: "bool \<Rightarrow> nat \<Rightarrow> buf \<Rightarrow> ap_state \<Rightarrow> ap_state" where
  "ap_release_sta active reason a s =
     (case sta_of s a of
        None \<Rightarrow> s
      | Some i \<Rightarrow> if i \<in> set (ap_asoc_list s) then ap_free_sta i active reason (asoc_unlink i s) else s)"

definition ap_on_leave :: "buf \<Rightarrow> ap_state \<Rightarrow> (bool \<times> ap_state) option" where
  "ap_on_leave b s = do {
     a3 \<leftarrow> rd_n b 16 6;
     if a3 \<noteq> ap_bssid s then Some (True, s)
     else do {
       reason \<leftarrow> RTW_GET_LE16 b WLAN_HDR_A3_LEN;
       sa \<leftarrow> rd_n b 10 6;
       Some (True, ap_release_sta False (unat reason) sa s) } }"

definition OnDeAuth :: "buf \<Rightarrow> ap_state \<Rightarrow> (bool \<times> ap_state) option" where
  "OnDeAuth b s = ap_on_leave b s"

definition OnDisassoc :: "buf \<Rightarrow> ap_state \<Rightarrow> (bool \<times> ap_state) option" where
  "OnDisassoc b s = ap_on_leave b s"

definition rtw_sta_timeout_event_callback :: "buf \<Rightarrow> ap_state \<Rightarrow> ap_state" where
  "rtw_sta_timeout_event_callback macaddr s = ap_release_sta True 2 macaddr s"

text \<open>The deletion event, when the command thread comes to it.\<close>

definition rtw_stadel_event_callback :: "buf \<Rightarrow> ap_state \<Rightarrow> ap_state" where
  "rtw_stadel_event_callback macaddr s = s\<lparr>ap_sp := rtw_free_stainfo (ap_sp s) (sta_of s macaddr)\<rparr>"

end
