(* ===== verification/Ap_Lists.thy ===== *)
theory Ap_Lists
  imports Ap_Auth
begin

text \<open>
  The lists of authenticating and of associated stations as invariants of \<open>Ap_Auth\<close>: what every frame,
  event and key installation keeps, and the frames and events that break them.
\<close>

section \<open>Lists and association ids over the station table\<close>

text \<open>\<open>asoc\<close> is the list of associated stations; the stations that authenticate are marked in the table.\<close>

definition lists_ok :: "sta_priv \<Rightarrow> nat list \<Rightarrow> nat list \<Rightarrow> nat list \<Rightarrow> bool" where
  "lists_ok sp asoc used free \<longleftrightarrow> sta_rel sp used free \<and> distinct asoc \<and> set asoc \<subseteq> set used
     \<and> (\<forall>i\<in>set free. \<not> sta_auth_linked (sp_sta sp ! i))
     \<and> (\<forall>i\<in>set asoc. \<not> sta_auth_linked (sp_sta sp ! i) \<and> 0 < sta_aid_no (sp_sta sp ! i))
     \<and> sp_auth_list_cnt sp = int (card {i \<in> set used. sta_auth_linked (sp_sta sp ! i)})
     \<and> (\<forall>i\<in>set used. 0 < sta_aid_no (sp_sta sp ! i) \<longrightarrow>
          sta_aid_no (sp_sta sp ! i) \<le> sp_max_aid sp \<and> sp_sta_aid sp ! (sta_aid_no (sp_sta sp ! i) - 1) = Some i)
     \<and> length (sp_sta_aid sp) = sp_max_aid sp \<and> 0 < sp_max_aid sp \<and> 0 < sp_max_num_sta sp"

text \<open>What the predicate depends on.\<close>

definition sp_view where
  "sp_view sp = (map (\<lambda>x. (sta_mac x, sta_auth_linked x, sta_aid_no x)) (sp_sta sp), sp_free_q sp, sp_hash sp, sp_asoc_sta_count sp,
     sp_auth_list_cnt sp, sp_sta_aid sp, sp_max_aid sp, sp_max_num_sta sp)"

lemma lists_used: "lists_ok sp asoc used free \<Longrightarrow> i \<in> set used \<Longrightarrow> i < length (sp_sta sp)"
  by (auto simp: lists_ok_def sta_rel_def)

lemma lists_in_table: "lists_ok sp asoc used free \<Longrightarrow> i \<in> set used \<or> i \<in> set free \<longleftrightarrow> i < length (sp_sta sp)"
  by (auto simp: lists_ok_def sta_rel_def)

lemma map_triple_nth:
  assumes "map (\<lambda>x. (f x, g x, h x)) xs = map (\<lambda>x. (f x, g x, h x)) ys" and "i < length xs"
  shows "f (xs ! i) = f (ys ! i)" and "g (xs ! i) = g (ys ! i)" and "h (xs ! i) = h (ys ! i)"
  using arg_cong [OF assms(1), of "\<lambda>l. l ! i"] assms(2) map_eq_imp_length_eq [OF assms(1)] by simp_all

lemma lists_same:
  assumes "sp_view sp' = sp_view sp" and "lists_ok sp asoc used free"
  shows "lists_ok sp' asoc used free"
proof -
  have v: "map (\<lambda>x. (sta_mac x, sta_auth_linked x, sta_aid_no x)) (sp_sta sp') = map (\<lambda>x. (sta_mac x, sta_auth_linked x, sta_aid_no x)) (sp_sta sp)"
    and t: "sp_free_q sp' = sp_free_q sp" "sp_hash sp' = sp_hash sp" "sp_asoc_sta_count sp' = sp_asoc_sta_count sp"
    "sp_auth_list_cnt sp' = sp_auth_list_cnt sp" "sp_sta_aid sp' = sp_sta_aid sp" "sp_max_aid sp' = sp_max_aid sp"
    "sp_max_num_sta sp' = sp_max_num_sta sp"
    using assms(1) unfolding sp_view_def prod.inject by blast+
  have len: "length (sp_sta sp') = length (sp_sta sp)" using map_eq_imp_length_eq [OF v] .
  note nth = map_triple_nth [OF v]
  have "map sta_mac (sp_sta sp') = map sta_mac (sp_sta sp)" using nth(1) len by (intro nth_equalityI) simp_all
  then have "same_table sp sp'" using t by (simp add: same_table_def)
  then have "sta_rel sp' used free" using assms(2) same_table_rel(1) by (auto simp: lists_ok_def)
  moreover have eq: "sta_auth_linked (sp_sta sp' ! i) = sta_auth_linked (sp_sta sp ! i)" "sta_aid_no (sp_sta sp' ! i) = sta_aid_no (sp_sta sp ! i)"
    if "i \<in> set used \<or> i \<in> set free" for i
    using nth(2,3) that lists_in_table [OF assms(2), of i] len by simp_all
  moreover have "{i \<in> set used. sta_auth_linked (sp_sta sp' ! i)} = {i \<in> set used. sta_auth_linked (sp_sta sp ! i)}"
    using eq(1) by auto
  ultimately show ?thesis using assms(2) t by (auto simp: lists_ok_def subset_iff)
qed

lemma sp_view_upd:
  assumes "\<And>x. sta_mac (f x) = sta_mac x \<and> sta_auth_linked (f x) = sta_auth_linked x \<and> sta_aid_no (f x) = sta_aid_no x"
  shows "sp_view (sta_upd sp i f) = sp_view sp"
  using assms by (cases "i < length (sp_sta sp)") (simp_all add: sp_view_def sta_upd_def map_update list_update_beyond,
    simp add: list_update_same_conv)

lemma lists_alloc:
  assumes "lists_ok sp asoc used free" and "rtw_alloc_stainfo sp a = (sp', Some i)"
  shows "lists_ok sp' asoc (used @ [i]) (tl free)" and "i \<in> set free"
    and "sta_aid_no (sp_sta sp' ! i) = 0" and "\<not> sta_auth_linked (sp_sta sp' ! i)"
proof -
  have r: "sta_rel sp used free" using assms(1) by (simp add: lists_ok_def)
  then have "free \<noteq> []" using assms(2) by (auto simp: rtw_alloc_stainfo_def sta_rel_def)
  moreover have "hd free = i"
    using assms(2) r \<open>free \<noteq> []\<close> by (cases free) (auto simp: rtw_alloc_stainfo_def sta_rel_def Let_def split: if_splits prod.splits)
  ultimately obtain rest where free: "free = i # rest" by (cases free) auto
  obtain sp2 where 2: "rtw_alloc_stainfo sp a = (sp2, Some i)" "sta_rel sp2 (used @ [i]) rest"
    "\<And>j. j \<noteq> i \<Longrightarrow> sp_sta sp2 ! j = sp_sta sp ! j"
    using sta_rel_alloc [OF r [unfolded free], of a] by metis
  then have sp2: "sp2 = sp'" using assms(2) by simp
  have i: "i < length (sp_sta sp)" "i \<notin> set used" "i \<notin> set rest" using r free by (auto simp: sta_rel_def)
  obtain m d mid where mid: "rtw_alloc_macid (sp_iface sp) (sp_macid sp) (sp_cam sp) a i = (m, d, mid)" by (metis prod_cases3)
  have "sp_free_q sp = i # rest" using r free by (simp add: sta_rel_def)
  then show new: "sta_aid_no (sp_sta sp' ! i) = 0" "\<not> sta_auth_linked (sp_sta sp' ! i)" and "i \<in> set free"
    using assms(2) free i(1) mid wifi_mac_hash_less [of a]
    by (auto simp: rtw_alloc_stainfo_def rtw_init_stainfo_def Let_def)
  have rest: "sp_auth_list_cnt sp' = sp_auth_list_cnt sp" "sp_sta_aid sp' = sp_sta_aid sp" "sp_max_aid sp' = sp_max_aid sp"
    "sp_max_num_sta sp' = sp_max_num_sta sp"
    using assms(2) by (auto simp: rtw_alloc_stainfo_def Let_def split: list.splits if_splits prod.splits)
  have eq: "sp_sta sp' ! j = sp_sta sp ! j" if "j \<in> set used \<or> j \<in> set rest" for j using 2(3) sp2 i that by metis
  then have "{j \<in> set (used @ [i]). sta_auth_linked (sp_sta sp' ! j)} = {j \<in> set used. sta_auth_linked (sp_sta sp ! j)}"
    using new by auto
  then show "lists_ok sp' asoc (used @ [i]) (tl free)"
    using assms(1) 2(2) rest eq new free unfolding sp2 lists_ok_def by (auto simp: subset_iff)
qed

lemma lists_alloc_none:
  assumes "lists_ok sp asoc used free" and "rtw_alloc_stainfo sp a = (sp', None)"
  shows "sp' = sp"
  using assms wifi_mac_hash_less [of a]
  by (auto simp: lists_ok_def rtw_alloc_stainfo_def sta_rel_def Let_def split: list.splits if_splits prod.splits)

text \<open>What the parts of \<open>rtw_free_stainfo\<close> before \<open>free_sta_ap\<close> keep.\<close>

definition keeps_lists :: "sta_priv \<Rightarrow> sta_priv \<Rightarrow> nat \<Rightarrow> bool" where
  "keeps_lists sp sp' i \<longleftrightarrow> length (sp_sta sp') = length (sp_sta sp) \<and> (\<forall>j. j \<noteq> i \<longrightarrow> sp_sta sp' ! j = sp_sta sp ! j)
     \<and> (i < length (sp_sta sp) \<longrightarrow> sta_auth_linked (sp_sta sp' ! i) = sta_auth_linked (sp_sta sp ! i)
          \<and> sta_aid_no (sp_sta sp' ! i) = sta_aid_no (sp_sta sp ! i))
     \<and> sp_auth_list_cnt sp' = sp_auth_list_cnt sp \<and> sp_sta_aid sp' = sp_sta_aid sp \<and> sp_max_aid sp' = sp_max_aid sp
     \<and> sp_max_num_sta sp' = sp_max_num_sta sp"

lemma keeps_lists_trans: "keeps_lists a b i \<Longrightarrow> keeps_lists b c i \<Longrightarrow> keeps_lists a c i"
  by (simp add: keeps_lists_def)

lemma keeps_lists_parts:
  "keeps_lists sp (free_sta_unlink sp i) i" "keeps_lists sp (free_sta_xmit sp i) i" "keeps_lists sp (free_sta_recv sp i) i"
  "keeps_lists sp (free_sta_macid sp i) i"
  by (simp_all add: keeps_lists_def free_sta_unlink_def free_sta_xmit_def free_sta_recv_def free_sta_macid_def sta_upd_def Let_def
      split: prod.splits)

lemma keeps_lists_before: "keeps_lists sp (free_sta_macid (free_sta_recv (free_sta_xmit (free_sta_unlink sp i) i) i) i) i"
  by (meson keeps_lists_parts keeps_lists_trans)

lemma free_sta_ap_lists:
  fixes sp i
  defines "aid \<equiv> sta_aid_no (sp_sta sp ! i)"
  shows "length (sp_sta (free_sta_ap sp i)) = length (sp_sta sp)" and "j \<noteq> i \<Longrightarrow> sp_sta (free_sta_ap sp i) ! j = sp_sta sp ! j"
    and "i < length (sp_sta sp) \<Longrightarrow> \<not> sta_auth_linked (sp_sta (free_sta_ap sp i) ! i)"
    and "sp_auth_list_cnt (free_sta_ap sp i) = sp_auth_list_cnt sp - (if sta_auth_linked (sp_sta sp ! i) then 1 else 0)"
    and "sp_sta_aid (free_sta_ap sp i)
      = (if sp_hw_ap sp \<and> aid > 0 \<and> sp_sta_aid sp ! (aid - 1) = Some i then (sp_sta_aid sp)[aid - 1 := None] else sp_sta_aid sp)"
    and "sp_max_aid (free_sta_ap sp i) = sp_max_aid sp" and "sp_max_num_sta (free_sta_ap sp i) = sp_max_num_sta sp"
  by (simp_all add: free_sta_ap_def aid_def sta_upd_def Let_def)

lemma freed_lists:
  fixes sp i
  assumes "i < length (sp_sta sp)"
  defines "sp' \<equiv> rtw_free_stainfo sp (Some i)" and "aid \<equiv> sta_aid_no (sp_sta sp ! i)"
  shows "length (sp_sta sp') = length (sp_sta sp)" and "j \<noteq> i \<Longrightarrow> sp_sta sp' ! j = sp_sta sp ! j" and "\<not> sta_auth_linked (sp_sta sp' ! i)"
    and "sp_auth_list_cnt sp' = sp_auth_list_cnt sp - (if sta_auth_linked (sp_sta sp ! i) then 1 else 0)"
    and "sp_sta_aid sp' = sp_sta_aid sp \<or> aid > 0 \<and> sp_sta_aid sp ! (aid - 1) = Some i \<and> sp_sta_aid sp' = (sp_sta_aid sp)[aid - 1 := None]"
    and "sp_max_aid sp' = sp_max_aid sp" and "sp_max_num_sta sp' = sp_max_num_sta sp"
proof -
  let ?b = "free_sta_macid (free_sta_recv (free_sta_xmit (free_sta_unlink sp i) i) i) i"
  have k: "keeps_lists sp ?b i" by (rule keeps_lists_before)
  have eq: "sp' = (free_sta_ap ?b i)\<lparr>sp_free_q := sp_free_q (free_sta_ap ?b i) @ [i]\<rparr>" by (simp add: sp'_def rtw_free_stainfo_def Let_def)
  note f = free_sta_ap_lists [where sp = ?b and i = i]
  show "length (sp_sta sp') = length (sp_sta sp)" "j \<noteq> i \<Longrightarrow> sp_sta sp' ! j = sp_sta sp ! j" "\<not> sta_auth_linked (sp_sta sp' ! i)"
    "sp_auth_list_cnt sp' = sp_auth_list_cnt sp - (if sta_auth_linked (sp_sta sp ! i) then 1 else 0)"
    "sp_max_aid sp' = sp_max_aid sp" "sp_max_num_sta sp' = sp_max_num_sta sp"
    using k f(1) f(2) [of j] f(3,4,6,7) assms(1) by (simp_all add: eq keeps_lists_def)
  show "sp_sta_aid sp' = sp_sta_aid sp \<or> aid > 0 \<and> sp_sta_aid sp ! (aid - 1) = Some i \<and> sp_sta_aid sp' = (sp_sta_aid sp)[aid - 1 := None]"
    using k f(5) assms(1) by (simp add: eq keeps_lists_def aid_def)
qed

lemma lists_free:
  assumes "lists_ok sp asoc used free" and "i \<in> set used" and "i \<notin> set asoc"
  shows "lists_ok (rtw_free_stainfo sp (Some i)) asoc (remove1 i used) (free @ [i])"
proof -
  let ?sp = "rtw_free_stainfo sp (Some i)" and ?aid = "sta_aid_no (sp_sta sp ! i)"
  have r: "sta_rel sp used free" using assms(1) by (simp add: lists_ok_def)
  have used: "distinct used" "set (remove1 i used) = set used - {i}" using r by (simp_all add: sta_rel_def)
  have free: "i \<notin> set free" using r assms(2) by (auto simp: sta_rel_def)
  note f = freed_lists [OF lists_used [OF assms(1,2)]]
  have eq: "sp_sta ?sp ! j = sp_sta sp ! j" if "j \<in> set used - {i} \<or> j \<in> set free \<or> j \<in> set asoc" for j
    using f(2) [of j] that free assms(3) by fastforce
  have aid: "sp_sta_aid ?sp ! (sta_aid_no (sp_sta sp ! j) - 1) = Some j"
    if j: "j \<in> set used - {i}" and pos: "0 < sta_aid_no (sp_sta sp ! j)" for j
  proof -
    have tbl: "sp_sta_aid sp ! (sta_aid_no (sp_sta sp ! j) - 1) = Some j" using assms(1) j pos by (auto simp: lists_ok_def)
    show ?thesis
    proof (cases "sp_sta_aid ?sp = sp_sta_aid sp")
      case False
      then have "sp_sta_aid sp ! (?aid - 1) = Some i" and new: "sp_sta_aid ?sp = (sp_sta_aid sp)[?aid - 1 := None]" using f(5) by auto
      then have "?aid - 1 \<noteq> sta_aid_no (sp_sta sp ! j) - 1" using tbl j by auto
      then show ?thesis using tbl by (simp only: new) simp
    qed (use tbl in simp)
  qed
  let ?L = "{j \<in> set used. sta_auth_linked (sp_sta sp ! j)}"
  have "{j \<in> set (remove1 i used). sta_auth_linked (sp_sta ?sp ! j)} = ?L - {i}" using eq used(2) by auto
  moreover have "int (card (?L - {i})) = int (card ?L) - (if sta_auth_linked (sp_sta sp ! i) then 1 else 0)"
  proof (cases "i \<in> ?L")
    case True
    then show ?thesis using card_Suc_Diff1 [of ?L i] by simp
  qed (use assms(2) in simp)
  ultimately have cnt: "sp_auth_list_cnt ?sp = int (card {j \<in> set (remove1 i used). sta_auth_linked (sp_sta ?sp ! j)})"
    using assms(1) f(4) by (simp add: lists_ok_def)
  have len: "length (sp_sta_aid ?sp) = length (sp_sta_aid sp)" using f(5) by auto
  have others: "\<forall>j\<in>set (free @ [i]). \<not> sta_auth_linked (sp_sta ?sp ! j)"
    "\<forall>j\<in>set asoc. \<not> sta_auth_linked (sp_sta ?sp ! j) \<and> 0 < sta_aid_no (sp_sta ?sp ! j)"
    using assms(1) eq f(3) by (auto simp: lists_ok_def)
  have ids: "\<forall>j\<in>set (remove1 i used). 0 < sta_aid_no (sp_sta ?sp ! j) \<longrightarrow>
      sta_aid_no (sp_sta ?sp ! j) \<le> sp_max_aid ?sp \<and> sp_sta_aid ?sp ! (sta_aid_no (sp_sta ?sp ! j) - 1) = Some j"
    using assms(1) eq aid f(6) used(2) by (simp add: lists_ok_def)
  have "set asoc \<subseteq> set (remove1 i used)" "distinct asoc" using assms(1,3) used(2) by (auto simp: lists_ok_def)
  then show ?thesis
    using sta_rel_free [OF r assms(2)] others cnt ids len f(6,7) assms(1) unfolding lists_ok_def by simp
qed

lemma lists_auth_link:
  assumes "lists_ok sp asoc used free" and "i \<in> set used" and "i \<notin> set asoc" and "\<not> sta_auth_linked (sp_sta sp ! i)"
  shows "lists_ok (sta_upd (sp\<lparr>sp_auth_list_cnt := sp_auth_list_cnt sp + 1\<rparr>) i (\<lambda>x. x\<lparr>sta_auth_linked := True\<rparr>)) asoc used free"
    (is "lists_ok ?sp asoc used free")
proof -
  have i: "i < length (sp_sta sp)" using assms(1,2) by (rule lists_used)
  have "same_table sp ?sp" by (rule same_table_upd) simp_all
  then have "sta_rel ?sp used free" using same_table_rel(1) assms(1) by (auto simp: lists_ok_def)
  moreover have "{j \<in> set used. sta_auth_linked (sp_sta ?sp ! j)} = insert i {j \<in> set used. sta_auth_linked (sp_sta sp ! j)}"
    using i assms(2) by (auto simp: nth_list_update)
  moreover have "i \<notin> set free" using assms(1,2) by (auto simp: lists_ok_def sta_rel_def)
  ultimately show ?thesis
    using assms(1,3,4) i by (auto simp: lists_ok_def nth_list_update sta_upd_def)
qed

lemma lists_auth_unlink:
  assumes "lists_ok sp asoc used free" and "i \<in> set used" and "sta_auth_linked (sp_sta sp ! i)"
  shows "lists_ok (sta_upd (sp\<lparr>sp_auth_list_cnt := sp_auth_list_cnt sp - 1\<rparr>) i (\<lambda>x. x\<lparr>sta_auth_linked := False\<rparr>)) asoc used free"
    (is "lists_ok ?sp asoc used free")
proof -
  have i: "i < length (sp_sta sp)" using assms(1,2) by (rule lists_used)
  have "same_table sp ?sp" by (rule same_table_upd) simp_all
  then have "sta_rel ?sp used free" using same_table_rel(1) assms(1) by (auto simp: lists_ok_def)
  moreover have "{j \<in> set used. sta_auth_linked (sp_sta ?sp ! j)} = {j \<in> set used. sta_auth_linked (sp_sta sp ! j)} - {i}"
    using i assms(2) by (auto simp: nth_list_update)
  moreover have "card ({j \<in> set used. sta_auth_linked (sp_sta sp ! j)} - {i}) = card {j \<in> set used. sta_auth_linked (sp_sta sp ! j)} - 1"
    "card {j \<in> set used. sta_auth_linked (sp_sta sp ! j)} \<ge> 1"
    using assms(2,3) by (auto simp: Suc_le_eq card_gt_0_iff)
  ultimately show ?thesis
    using assms(1) i by (auto simp: lists_ok_def nth_list_update sta_upd_def of_nat_diff)
qed

lemma lists_asoc_link:
  "lists_ok sp asoc used free \<Longrightarrow> i \<in> set used \<Longrightarrow> i \<notin> set asoc \<Longrightarrow> \<not> sta_auth_linked (sp_sta sp ! i) \<Longrightarrow> 0 < sta_aid_no (sp_sta sp ! i)
    \<Longrightarrow> lists_ok sp (asoc @ [i]) used free"
  by (auto simp: lists_ok_def)

lemma lists_asoc_unlink: "lists_ok sp asoc used free \<Longrightarrow> lists_ok sp (remove1 i asoc) used free"
  using set_remove1_subset [of i asoc] by (auto simp: lists_ok_def distinct_remove1)

lemma lists_aid:
  assumes "lists_ok sp asoc used free" and "i \<in> set used" and "sta_aid_no (sp_sta sp ! i) = 0" and "rtw_aid_alloc sp i = (sp', aid)"
  shows "lists_ok sp' asoc used free" and "sta_aid_no (sp_sta sp' ! i) = aid"
    and "sta_auth_linked (sp_sta sp' ! i) = sta_auth_linked (sp_sta sp ! i)"
proof -
  have i: "i < length (sp_sta sp)" using assms(1,2) by (rule lists_used)
  have pos: "0 < sp_max_aid sp" "0 < sp_max_num_sta sp" "length (sp_sta_aid sp) = sp_max_aid sp" using assms(1) by (simp_all add: lists_ok_def)
  have aid: "aid = 0 \<and> sp_sta_aid sp' = sp_sta_aid sp
      \<or> 0 < aid \<and> aid \<le> sp_max_aid sp \<and> sp_sta_aid sp ! (aid - 1) = None \<and> sp_sta_aid sp' = (sp_sta_aid sp)[aid - 1 := Some i]"
    using rtw_aid_alloc_first_free [OF pos, of i] assms(4) by (auto simp: aid_taken_def split: if_splits)
  have sp': "sp_sta sp' = (sp_sta sp)[i := (sp_sta sp ! i)\<lparr>sta_aid_no := aid\<rparr>]" "sp_hash sp' = sp_hash sp" "sp_free_q sp' = sp_free_q sp"
    "sp_asoc_sta_count sp' = sp_asoc_sta_count sp" "sp_auth_list_cnt sp' = sp_auth_list_cnt sp" "sp_max_aid sp' = sp_max_aid sp"
    "sp_max_num_sta sp' = sp_max_num_sta sp"
    using assms(4) by (auto simp: rtw_aid_alloc_def sta_upd_def Let_def split: prod.splits if_splits)
  then show new: "sta_aid_no (sp_sta sp' ! i) = aid" "sta_auth_linked (sp_sta sp' ! i) = sta_auth_linked (sp_sta sp ! i)"
    using i by simp_all
  have others: "sp_sta sp' ! j = sp_sta sp ! j" if "j \<noteq> i" for j using that sp'(1) by simp
  have "map sta_mac (sp_sta sp') = map sta_mac (sp_sta sp)" using sp'(1) i by (simp add: map_update list_update_same_conv)
  then have "same_table sp sp'" using sp' by (simp add: same_table_def)
  then have "sta_rel sp' used free" using same_table_rel(1) assms(1) by (auto simp: lists_ok_def)
  moreover have linked: "sta_auth_linked (sp_sta sp' ! j) = sta_auth_linked (sp_sta sp ! j)" for j using others new by (cases "j = i") simp_all
  moreover have "0 < sta_aid_no (sp_sta sp' ! j)" if "j \<in> set asoc" for j
    using assms(1,3) that others [of j] by (cases "j = i") (auto simp: lists_ok_def)
  moreover have "sta_aid_no (sp_sta sp' ! j) \<le> sp_max_aid sp' \<and> sp_sta_aid sp' ! (sta_aid_no (sp_sta sp' ! j) - 1) = Some j"
    if "j \<in> set used" "0 < sta_aid_no (sp_sta sp' ! j)" for j
  proof (cases "j = i")
    case True
    then show ?thesis using that aid new(1) pos sp'(6) by auto
  next
    case False
    then have "sta_aid_no (sp_sta sp ! j) \<le> sp_max_aid sp" "sp_sta_aid sp ! (sta_aid_no (sp_sta sp ! j) - 1) = Some j"
      using assms(1) that others [OF False] by (auto simp: lists_ok_def)
    moreover from this have "sp_sta_aid sp' ! (sta_aid_no (sp_sta sp ! j) - 1) = Some j" if "sp_sta_aid sp ! (aid - 1) = None"
      using aid that by (cases "aid - 1 = sta_aid_no (sp_sta sp ! j) - 1") auto
    ultimately show ?thesis using aid others [OF False] sp'(6) by auto
  qed
  moreover have "length (sp_sta_aid sp') = sp_max_aid sp'" using aid sp'(6) pos(3) by auto
  ultimately show "lists_ok sp' asoc used free" using assms(1) sp' unfolding lists_ok_def by auto
qed

section \<open>The access point\<close>

definition ap_ok :: "ap_state \<Rightarrow> nat list \<Rightarrow> nat list \<Rightarrow> bool" where
  "ap_ok s used free \<longleftrightarrow> lists_ok (ap_sp s) (ap_asoc_list s) used free \<and> ap_asoc_list_cnt s = int (length (ap_asoc_list s))
     \<and> length (ap_as s) = NUM_STA"

definition ap_inv :: "ap_state \<Rightarrow> bool" where
  "ap_inv s \<longleftrightarrow> (\<exists>used free. ap_ok s used free)"

lemma ap_okI [intro]: "ap_ok s used free \<Longrightarrow> ap_inv s"
  by (auto simp: ap_inv_def)

definition ap_same :: "ap_state \<Rightarrow> ap_state \<Rightarrow> bool" where
  "ap_same s s' \<longleftrightarrow> sp_view (ap_sp s') = sp_view (ap_sp s) \<and> ap_asoc_list s' = ap_asoc_list s \<and> ap_asoc_list_cnt s' = ap_asoc_list_cnt s
     \<and> length (ap_as s') = length (ap_as s)"

named_theorems ap_sames

lemma ap_same_ok: "ap_same s s' \<Longrightarrow> ap_ok s used free \<Longrightarrow> ap_ok s' used free"
  using lists_same [of "ap_sp s'" "ap_sp s"] by (simp add: ap_same_def ap_ok_def)

lemma ap_same_refl [ap_sames]: "ap_same s s"
  by (simp add: ap_same_def)

lemma ap_same_emit [ap_sames]: "ap_same s s' \<Longrightarrow> ap_same s (emit s' es)"
  by (simp add: ap_same_def emit_def)

lemma ap_same_upd_as [ap_sames]: "ap_same s s' \<Longrightarrow> ap_same s (upd_as s' i f)"
  by (simp add: ap_same_def upd_as_def)

lemma ap_same_upd_si [ap_sames]:
  "ap_same s s' \<Longrightarrow> (\<And>x. sta_mac (f x) = sta_mac x \<and> sta_auth_linked (f x) = sta_auth_linked x \<and> sta_aid_no (f x) = sta_aid_no x)
    \<Longrightarrow> ap_same s (upd_si s' i f)"
  by (simp add: ap_same_def upd_si_def sp_view_upd)

lemma ap_same_bss [ap_sames]: "ap_same s s' \<Longrightarrow> ap_same s (s'\<lparr>ap_bss := c\<rparr>)"
  by (simp add: ap_same_def)

lemma upd_sels [simp]:
  "ap_sp (emit s es) = ap_sp s" "ap_as (emit s es) = ap_as s" "ap_asoc_list (emit s es) = ap_asoc_list s"
  "ap_asoc_list_cnt (emit s es) = ap_asoc_list_cnt s" "ap_sp (upd_as s i f) = ap_sp s" "ap_asoc_list (upd_as s i f) = ap_asoc_list s"
  "ap_asoc_list_cnt (upd_as s i f) = ap_asoc_list_cnt s" "ap_as (upd_si s i g) = ap_as s" "ap_asoc_list (upd_si s i g) = ap_asoc_list s"
  "ap_asoc_list_cnt (upd_si s i g) = ap_asoc_list_cnt s" "ap_cnf (emit s es) = ap_cnf s" "ap_cnf (upd_as s i f) = ap_cnf s"
  "ap_cnf (upd_si s i g) = ap_cnf s" "ap_sp (upd_si s i g) = sta_upd (ap_sp s) i g"
  "ap_as (upd_as s i f) = (ap_as s)[i := f (ap_as s ! i)]" "ap_ptime (emit s es) = ap_ptime s" "ap_ptime (upd_as s i f) = ap_ptime s"
  "ap_ptime (upd_si s i g) = ap_ptime s"
  by (simp_all add: emit_def upd_as_def upd_si_def)

lemma sta_of_used:
  assumes "ap_ok s used free" and "sta_of s a = Some i"
  shows "i \<in> set used" and "i < length (sp_sta (ap_sp s))" and "i < length (ap_as s)"
proof -
  have r: "sta_rel (ap_sp s) used free" using assms(1) by (simp add: ap_ok_def lists_ok_def)
  show "i \<in> set used" using assms(2) unfolding sta_of_def sta_rel_get [OF r] by (auto simp: find_Some_iff in_set_conv_nth)
  then show "i < length (sp_sta (ap_sp s))" "i < length (ap_as s)" using assms(1) r by (auto simp: ap_ok_def sta_rel_def)
qed

lemma asoc_unlink_ok: "ap_ok s used free \<Longrightarrow> ap_ok (asoc_unlink i s) used free"
  using lists_asoc_unlink [of "ap_sp s" "ap_asoc_list s" used free i] length_pos_if_in_set [of i "ap_asoc_list s"]
  by (auto simp: ap_ok_def asoc_unlink_def length_remove1 of_nat_diff Suc_le_eq)

lemma asoc_unlink_notin: "ap_ok s used free \<Longrightarrow> i \<notin> set (ap_asoc_list (asoc_unlink i s))"
  by (auto simp: ap_ok_def lists_ok_def asoc_unlink_def)

lemma asoc_link_ok:
  assumes "ap_ok s used free" and "i \<in> set used" and "\<not> sta_auth_linked (si_of s i)" and "0 < sta_aid_no (si_of s i)"
  shows "ap_ok (asoc_link i s) used free"
proof (cases "i \<in> set (ap_asoc_list s)")
  case False
  then have "ap_ok (s\<lparr>ap_asoc_list := ap_asoc_list s @ [i], ap_asoc_list_cnt := ap_asoc_list_cnt s + 1\<rparr>) used free"
    using assms lists_asoc_link [of "ap_sp s" "ap_asoc_list s" used free i] by (simp add: ap_ok_def)
  then have "ap_ok (upd_si (s\<lparr>ap_asoc_list := ap_asoc_list s @ [i], ap_asoc_list_cnt := ap_asoc_list_cnt s + 1\<rparr>) i
      (\<lambda>x. x\<lparr>sta_expire_to := ap_expire_to s\<rparr>)) used free"
    by (rule ap_same_ok [rotated]) (auto intro!: ap_sames)
  then show ?thesis using False by (simp add: asoc_link_def)
qed (use assms(1) in \<open>simp add: asoc_link_def\<close>)

lemma auth_link_ok:
  "ap_ok s used free \<Longrightarrow> i \<in> set used \<Longrightarrow> i \<notin> set (ap_asoc_list s) \<Longrightarrow> ap_ok (auth_link i s) used free"
  using lists_auth_link [of "ap_sp s" "ap_asoc_list s" used free i] by (simp add: ap_ok_def auth_link_def)

lemma auth_unlink_ok: "ap_ok s used free \<Longrightarrow> i \<in> set used \<Longrightarrow> ap_ok (auth_unlink i s) used free"
  using lists_auth_unlink [of "ap_sp s" "ap_asoc_list s" used free i] by (simp add: ap_ok_def auth_unlink_def)

section \<open>Authentication frames\<close>

lemma auth_refused_same: "auth_refused stime sa algorithm s = (r, s') \<Longrightarrow> s' = s\<lparr>ap_ptime := stime\<rparr>"
  by (simp add: auth_refused_def rtw_defs_attack_chk_def Let_def)

lemma ap_ok_ptime [simp]: "ap_ok (s\<lparr>ap_ptime := t\<rparr>) used free \<longleftrightarrow> ap_ok s used free"
  by (simp add: ap_ok_def)

lemma auth_station_ok:
  assumes "ap_ok s used free" and "auth_station sa s = Some (pstat, s')"
    and "\<And>i. sta_of s sa = Some i \<Longrightarrow> i \<in> set (ap_asoc_list s) \<Longrightarrow> mfp_open (ap_as s ! i)"
  obtains used' free' where "ap_ok s' used' free'" and "\<And>i. pstat = Some i \<Longrightarrow> i \<in> set used' \<and> i \<notin> set (ap_asoc_list s')"
proof (cases "sta_of s sa")
  case None
  show ?thesis
  proof (cases "rtw_alloc_stainfo (ap_sp s) sa")
    case (Pair sp r)
    show ?thesis
    proof (cases r)
      case None
      then have "sp = ap_sp s" using lists_alloc_none Pair assms(1) by (auto simp: ap_ok_def)
      then have "s' = s" "pstat = None" using assms(2) \<open>sta_of s sa = None\<close> Pair None by (simp_all add: auth_station_def)
      then show ?thesis using that assms(1) by simp
    next
      case (Some i)
      then have alloc: "rtw_alloc_stainfo (ap_sp s) sa = (sp, Some i)" using Pair by simp
      have res: "i \<notin> set (ap_asoc_list s)" "pstat = Some i"
        "s' = upd_as (upd_si (s\<lparr>ap_sp := sp\<rparr>) i (\<lambda>x. x\<lparr>sta_state := WIFI_FW_AUTH_NULL\<rparr>)) i (\<lambda>_. ap_sta_zero)"
        using assms(2) \<open>sta_of s sa = None\<close> alloc by (simp_all add: auth_station_def split: if_splits)
      have "ap_ok (s\<lparr>ap_sp := sp\<rparr>) (used @ [i]) (tl free)" using lists_alloc(1) [OF _ alloc] assms(1) by (simp add: ap_ok_def)
      then have "ap_ok s' (used @ [i]) (tl free)" unfolding res(3) by (rule ap_same_ok [rotated]) (auto intro!: ap_sames)
      then show ?thesis using that [of "used @ [i]" "tl free"] res by simp
    qed
  qed
next
  case (Some i)
  then have res: "pstat = Some i" "s' = (if mfp_open (ap_as s ! i) then asoc_unlink i s else s)"
    using assms(2) by (simp_all add: auth_station_def)
  moreover have "i \<notin> set (ap_asoc_list s')" using res(2) assms(3) [OF Some] asoc_unlink_notin [OF assms(1)] by auto
  ultimately show ?thesis using that [of used free] sta_of_used(1) [OF assms(1) Some] asoc_unlink_ok [OF assms(1)] assms(1) by auto
qed

lemma auth_wait_ok:
  assumes "ap_ok s used free" and "i \<in> set used" and "i \<notin> set (ap_asoc_list s)"
  shows "ap_ok (auth_wait i s) used free" and "ap_asoc_list (auth_wait i s) = ap_asoc_list s"
proof -
  have "ap_ok (if mfp_open (ap_as s ! i) then auth_link i s else s) used free" using assms auth_link_ok by simp
  then show "ap_ok (auth_wait i s) used free"
    unfolding auth_wait_def Let_def by (rule ap_same_ok [rotated]) (auto intro!: ap_sames)
  show "ap_asoc_list (auth_wait i s) = ap_asoc_list s" by (simp add: auth_wait_def auth_link_def Let_def)
qed

lemma auth_machine_same: "auth_machine b len algorithm seq auth_mode i s = Some (status, s') \<Longrightarrow> ap_same s s'"
  by (auto simp: auth_machine_def auth_open_def auth_shared_def Let_def bind_eq_Some_conv intro!: ap_sames split: if_splits option.splits)

lemma auth_reply_same: "ap_same s (auth_reply seq i s)"
  by (auto simp: auth_reply_def Let_def intro!: ap_sames)

lemma auth_fail_ok:
  assumes "ap_ok s used free" and "\<And>i. pstat = Some i \<Longrightarrow> i \<in> set used \<and> i \<notin> set (ap_asoc_list s)"
  shows "ap_inv (auth_fail sa pstat status s)"
proof (cases pstat)
  case None
  then have "ap_same s (auth_fail sa pstat status s)" by (auto simp: auth_fail_def rtw_free_stainfo_def intro!: ap_sames)
  then show ?thesis using assms(1) ap_same_ok by blast
next
  case (Some i)
  have "ap_ok (s\<lparr>ap_sp := rtw_free_stainfo (ap_sp s) pstat\<rparr>) (remove1 i used) (free @ [i])"
    using lists_free [of "ap_sp s" "ap_asoc_list s" used free i] assms Some by (simp add: ap_ok_def)
  then have "ap_ok (auth_fail sa pstat status s) (remove1 i used) (free @ [i])"
    unfolding auth_fail_def by (rule ap_same_ok [rotated]) (auto intro!: ap_sames)
  then show ?thesis by blast
qed

text \<open>An authentication frame is safe for the lists unless it comes in the name of an associated station
  whose management frames are protected.\<close>

definition auth_safe :: "buf \<Rightarrow> nat \<Rightarrow> ap_state \<Rightarrow> bool" where
  "auth_safe b len s \<longleftrightarrow>
     (case auth_fields (ap_sec s) b len of None \<Rightarrow> True
      | Some (b, _) \<Rightarrow> (case rd_n b 10 6 of None \<Rightarrow> True
          | Some sa \<Rightarrow> (case sta_of s sa of None \<Rightarrow> True
              | Some i \<Rightarrow> i \<in> set (ap_asoc_list s) \<longrightarrow> mfp_open (ap_as s ! i))))"

lemma OnAuth_ok:
  assumes "ap_ok s used free" and "auth_safe b len s" and "OnAuth stime b len s = Some (r, s')"
  shows "ap_inv s'"
proof (cases "ap_fw_ap s \<and> ap_linked s")
  case True
  obtain b' algorithm seq sa where f: "auth_fields (ap_sec s) b len = Some (b', algorithm, seq)" and sa: "rd_n b' 10 6 = Some sa"
    using assms(3) True by (auto simp: OnAuth_def bind_eq_Some_conv)
  obtain m s1 where ref: "auth_refused stime sa algorithm s = (m, s1)" by fastforce
  note s1 = auth_refused_same [OF ref]
  have ok1: "ap_ok s1 used free" using assms(1) s1 by simp
  show ?thesis
  proof (cases "rtw_check_invalid_mac_address sa False")
    case True
    then show ?thesis using assms f sa \<open>ap_fw_ap s \<and> ap_linked s\<close> by (auto simp: OnAuth_def)
  next
    case valid: False
    show ?thesis
    proof (cases m)
      case (Inl status)
      then show ?thesis using assms(3) True f sa ref valid auth_fail_ok [OF ok1, of None] by (auto simp: OnAuth_def)
    next
      case (Inr auth_mode)
      then obtain pstat s2 where st: "auth_station sa s1 = Some (pstat, s2)"
        using assms(3) True f sa ref valid by (auto simp: OnAuth_def bind_eq_Some_conv)
      have safe: "mfp_open (ap_as s1 ! i)" if "sta_of s1 sa = Some i" "i \<in> set (ap_asoc_list s1)" for i
        using assms(2) f sa s1 that by (simp add: auth_safe_def sta_of_def)
      obtain used' free' where ok2: "ap_ok s2 used' free'" and mem: "\<And>i. pstat = Some i \<Longrightarrow> i \<in> set used' \<and> i \<notin> set (ap_asoc_list s2)"
        using auth_station_ok [OF ok1 st safe] by blast
      show ?thesis
      proof (cases pstat)
        case None
        then show ?thesis using assms(3) True f sa ref valid Inr st auth_fail_ok [OF ok2, of None] by (auto simp: OnAuth_def)
      next
        case (Some i)
        note w = auth_wait_ok [OF ok2] mem [OF Some]
        have ok3: "ap_ok (auth_wait i s2) used' free'" "i \<notin> set (ap_asoc_list (auth_wait i s2))" using w by auto
        have "ap_ok s4 used' free' \<and> i \<notin> set (ap_asoc_list s4)"
          if "auth_machine b' len algorithm seq auth_mode i (auth_wait i s2) = Some (status, s4)" for status s4
          using auth_machine_same [OF that] ap_same_ok [OF auth_machine_same [OF that] ok3(1)] ok3(2) by (simp add: ap_same_def)
        then have fin: "ap_inv (auth_fail sa (Some i) status s4) \<and> ap_inv (auth_reply seq i s4)"
          if "auth_machine b' len algorithm seq auth_mode i (auth_wait i s2) = Some (status, s4)" for status s4
          using auth_fail_ok [of s4 used' free' "Some i"] ap_same_ok [OF auth_reply_same] w(3) that by blast
        have rx: "ap_inv (emit (upd_as (auth_wait i s2) i (\<lambda>a. a\<lparr>as_authalg := ucast algorithm\<rparr>)) [Rx_mframe sa])"
          by (rule ap_okI, rule ap_same_ok [OF _ ok3(1)]) (intro ap_sames)
        show ?thesis
          using assms(3) True f sa ref valid Inr st Some fin rx
          by (auto simp: OnAuth_def bind_eq_Some_conv Let_def split: if_splits)
      qed
    qed
  qed
qed (use assms in \<open>auto simp: OnAuth_def split: if_splits\<close>)

section \<open>Association requests\<close>

lemma wmm_keeps:
  assumes "rtw_ap_parse_sta_wmm_ie cnf (si, a) b ies n = Some (si', a')"
  shows "sta_mac si' = sta_mac si \<and> sta_auth_linked si' = sta_auth_linked si \<and> sta_aid_no si' = sta_aid_no si
    \<and> as_pairwise_key_installed a' = as_pairwise_key_installed a"
proof -
  have "opt_post (\<lambda>(si', a'). sta_mac si' = sta_mac si \<and> sta_auth_linked si' = sta_auth_linked si \<and> sta_aid_no si' = sta_aid_no si
      \<and> as_pairwise_key_installed a' = as_pairwise_key_installed a) (rtw_ap_parse_sta_wmm_ie cnf (si, a) b ies n)"
    unfolding rtw_ap_parse_sta_wmm_ie_def Let_def prod.case by (intro opt_posts) simp_all
  from opt_postD [OF this assms] show ?thesis by simp
qed

lemma assoc_elems_keeps:
  assumes "assoc_elems cnf b len ies (si, a) = Some (status, si', a')"
  shows "sta_mac si' = sta_mac si \<and> sta_auth_linked si' = sta_auth_linked si \<and> sta_aid_no si' = sta_aid_no si"
proof -
  obtain st a0 es where c: "assoc_checks cnf b len ies (sta_mac si) a = Some (st, a0, es)"
    using assms by (auto simp: assoc_elems_def bind_eq_Some_conv)
  show ?thesis
  proof (cases "st = 0")
    case True
    then obtain a1 where "rtw_ap_parse_sta_wmm_ie cnf (si, a0) b ies (len - ies) = Some (si', a1)"
      using assms c by (auto simp: assoc_elems_def bind_eq_Some_conv)
    then show ?thesis using wmm_keeps by blast
  qed (use assms c in \<open>simp add: assoc_elems_def\<close>)
qed

lemma assoc_join_same: "ap_same s (assoc_join i s)"
proof -
  obtain a c upd where j: "bss_cap_update_on_sta_join (ap_as s ! i) (ap_bss s) = (a, c, upd)" by (metis prod_cases3)
  show ?thesis
    unfolding assoc_join_def j prod.case update_sta_info_apmode_def sta_info_update_def Let_def by (intro ap_sames) auto
qed

lemma auth_unlink_sels:
  "i < length (sp_sta (ap_sp s)) \<Longrightarrow> \<not> sta_auth_linked (si_of (auth_unlink i s) i)"
  "i < length (sp_sta (ap_sp s)) \<Longrightarrow> sta_aid_no (si_of (auth_unlink i s) i) = sta_aid_no (si_of s i)"
  by (simp_all add: auth_unlink_def sta_upd_def)

lemma assoc_admit_ok:
  assumes "ap_ok s used free" and "i \<in> set used" and "0 < sta_aid_no (si_of s i)"
  shows "ap_ok (assoc_admit reassoc req i s) used free"
proof -
  let ?s1 = "upd_si s i (\<lambda>x. x\<lparr>sta_state := (sta_state x AND NOT WIFI_FW_ASSOC_STATE) OR WIFI_FW_ASSOC_SUCCESS\<rparr>)"
  have i: "i < length (sp_sta (ap_sp s))" using assms(1,2) lists_used by (auto simp: ap_ok_def)
  have 1: "ap_ok ?s1 used free" by (rule ap_same_ok [OF _ assms(1)]) (auto intro!: ap_sames)
  have un: "\<not> sta_auth_linked (si_of (auth_unlink i ?s1) i)" "0 < sta_aid_no (si_of (auth_unlink i ?s1) i)"
    using auth_unlink_sels [of i ?s1] i assms(3) by (simp_all add: nth_list_update)
  have "ap_ok (asoc_link i (auth_unlink i ?s1)) used free"
    by (rule asoc_link_ok [OF auth_unlink_ok [OF 1 assms(2)] assms(2) un])
  then have "ap_ok (assoc_join i (asoc_link i (auth_unlink i ?s1))) used free" by (rule ap_same_ok [OF assoc_join_same])
  then have "ap_ok (if mfp_open (ap_as ?s1 ! i) then assoc_join i (asoc_link i (auth_unlink i ?s1)) else ?s1) used free"
    using 1 by simp
  then show ?thesis
    by (rule ap_same_ok [rotated]) (auto simp: assoc_admit_def Let_def intro!: ap_sames)
qed

lemma assoc_aid_ok:
  assumes "ap_ok s used free" and "i \<in> set used" and "assoc_aid i s = (ok, s')"
  shows "ap_ok s' used free" and "ok \<Longrightarrow> 0 < sta_aid_no (si_of s' i)"
proof -
  have "ap_ok s' used free \<and> (ok \<longrightarrow> 0 < sta_aid_no (si_of s' i))"
  proof (cases "sta_aid_no (si_of s i) > 0")
    case True
    then show ?thesis using assms by (auto simp: assoc_aid_def)
  next
    case False
    obtain sp aid where al: "rtw_aid_alloc (ap_sp s) i = (sp, aid)" by fastforce
    then have "s' = s\<lparr>ap_sp := sp\<rparr>" "ok \<longleftrightarrow> aid > 0" using assms(3) False by (auto simp: assoc_aid_def)
    then show ?thesis using lists_aid(1,2) [OF _ assms(2) _ al, of "ap_asoc_list s" free] assms(1) False by (simp add: ap_ok_def)
  qed
  then show "ap_ok s' used free" "ok \<Longrightarrow> 0 < sta_aid_no (si_of s' i)" by simp_all
qed

lemma assoc_refuse_same: "assoc_refuse reassoc i status s = (r, s') \<Longrightarrow> ap_same s s'"
  by (auto simp: assoc_refuse_def intro!: ap_sames)

lemma upd_si_read_same:
  "sta_mac si = sta_mac (si_of s i) \<and> sta_auth_linked si = sta_auth_linked (si_of s i) \<and> sta_aid_no si = sta_aid_no (si_of s i)
    \<Longrightarrow> ap_same s (upd_si s i (\<lambda>_. si))"
  by (cases "i < length (sp_sta (ap_sp s))") (simp_all add: ap_same_def sp_view_def sta_upd_def map_update list_update_beyond,
    metis (no_types, lifting) list_update_id nth_map)

lemma assoc_process_ok:
  assumes "ap_ok s used free" and "i \<in> set used" and "assoc_process b len reassoc ies i s = Some (r, s')"
  shows "ap_ok s' used free"
proof (cases "ap_force_asoc_fail s \<noteq> 0")
  case True
  then show ?thesis using assms(3) ap_same_ok [OF assoc_refuse_same assms(1)] by (simp add: assoc_process_def)
next
  case False
  obtain status si a where el: "assoc_elems (ap_cnf s) b len ies (si_of s i, ap_as s ! i) = Some (status, si, a)"
    using assms(3) False by (auto simp: assoc_process_def bind_eq_Some_conv)
  let ?s = "upd_as (upd_si s i (\<lambda>_. si)) i (\<lambda>_. a)"
  have "ap_same s ?s" by (rule ap_same_upd_as [OF upd_si_read_same [OF assoc_elems_keeps [OF el]]])
  then have ok: "ap_ok ?s used free" using assms(1) by (rule ap_same_ok)
  obtain got s2 where aid: "assoc_aid i ?s = (got, s2)" by fastforce
  note ok2 = assoc_aid_ok [OF ok assms(2) aid]
  show ?thesis
  proof (cases "status = 0 \<and> got")
    case True
    then show ?thesis using assms(3) False el aid assoc_admit_ok [OF ok2(1) assms(2)] ok2(2)
      by (auto simp: assoc_process_def bind_eq_Some_conv)
  next
    case refused: False
    then show ?thesis
      using assms(3) False el aid ap_same_ok [OF assoc_refuse_same ok] ap_same_ok [OF assoc_refuse_same ok2(1)]
      by (cases "status = 0") (auto simp: assoc_process_def Let_def)
  qed
qed

lemma OnAssocReq_ok:
  assumes "ap_ok s used free" and "OnAssocReq b len s = Some (r, s')"
  shows "ap_ok s' used free"
proof (cases "ap_same s s'")
  case True
  then show ?thesis using assms(1) by (rule ap_same_ok)
next
  case False
  have em: "ap_same s (emit s es)" for es by (intro ap_sames)
  obtain sa fc where sa: "rd_n b 10 6 = Some sa" "RTW_GET_LE16 b 0 = Some fc"
    using assms(2) False ap_same_refl [of s] by (cases "ap_fw_ap s") (auto simp: OnAssocReq_def bind_eq_Some_conv)
  obtain i where i: "sta_of s sa = Some i"
    using assms(2) False em [of "[Deauth_to sa 6]"] ap_same_refl [of s] sa
    by (cases "sta_of s sa") (auto simp: OnAssocReq_def Let_def split: if_split_asm)
  let ?st = "sta_state (si_of s i)" and ?ies = "WLAN_HDR_A3_LEN + (if fc AND 0xfc \<noteq> 0 then 10 else 4)"
  let ?done = "if ?st AND WIFI_FW_AUTH_SUCCESS = 0 then WIFI_FW_ASSOC_SUCCESS else WIFI_FW_AUTH_SUCCESS"
  let ?s = "upd_si s i (\<lambda>x. x\<lparr>sta_state := (sta_state x AND NOT ?done) OR WIFI_FW_ASSOC_STATE\<rparr>)"
  have p: "assoc_process b len (fc AND 0xfc \<noteq> 0) ?ies i ?s = Some (r, s')"
    using assms(2) False em [of "[Deauth_to sa 6]"] ap_same_refl [of s]
    by (simp add: OnAssocReq_def sa i Let_def split: if_split_asm)
  have "ap_ok ?s used free" by (rule ap_same_ok [OF _ assms(1)]) (auto intro!: ap_sames)
  then show ?thesis using sta_of_used(1) [OF assms(1) i] p by (rule assoc_process_ok)
qed

section \<open>Leaving\<close>

lemma cell_leave_same [ap_sames]: "ap_same s s' \<Longrightarrow> ap_same s (cell_leave i s')"
  by (simp add: cell_leave_def ap_same_def sp_view_def upd_as_def emit_def split: prod.splits)

lemma ap_free_sta_same: "ap_same s (ap_free_sta i active reason s)"
proof -
  have "ap_same s (if active then emit s [Deauth_to (sta_mac (si_of s i)) reason] else s)" by (cases active) (simp_all add: ap_same_emit ap_same_refl)
  then show ?thesis unfolding ap_free_sta_def Let_def by (intro ap_sames) auto
qed

lemma ap_release_ok: "ap_ok s used free \<Longrightarrow> ap_ok (ap_release_sta active reason a s) used free"
  by (auto simp: ap_release_sta_def intro: ap_same_ok [OF ap_free_sta_same] asoc_unlink_ok split: option.splits)

lemma ap_on_leave_ok: "ap_ok s used free \<Longrightarrow> ap_on_leave b s = Some (r, s') \<Longrightarrow> ap_ok s' used free"
  by (auto simp: ap_on_leave_def bind_eq_Some_conv ap_release_ok split: if_splits)

lemma stadel_ok:
  assumes "ap_ok s used free" and "\<And>i. sta_of s a = Some i \<Longrightarrow> i \<notin> set (ap_asoc_list s)"
  shows "ap_inv (rtw_stadel_event_callback a s)"
proof (cases "sta_of s a")
  case None
  then show ?thesis using assms(1) by (auto simp: rtw_stadel_event_callback_def rtw_free_stainfo_def)
next
  case (Some i)
  then have "ap_ok (rtw_stadel_event_callback a s) (remove1 i used) (free @ [i])"
    using lists_free [of "ap_sp s" "ap_asoc_list s" used free i] sta_of_used(1) [OF assms(1)] assms
    by (simp add: ap_ok_def rtw_stadel_event_callback_def)
  then show ?thesis by blast
qed

section \<open>Every run\<close>

text \<open>What happens to the access point: frames, timeouts, deletion events and the installation of pairwise
  keys, in any order.\<close>

datatype ap_op =
    Rx_auth u32 buf nat
  | Rx_assoc buf nat
  | Rx_deauth buf
  | Rx_disassoc buf
  | Sta_timeout buf
  | Sta_deleted buf
  | Key_installed nat

fun ap_exec :: "ap_op \<Rightarrow> ap_state \<Rightarrow> ap_state option" where
  "ap_exec (Rx_auth stime b len) s = map_option snd (OnAuth stime b len s)"
| "ap_exec (Rx_assoc b len) s = map_option snd (OnAssocReq b len s)"
| "ap_exec (Rx_deauth b) s = map_option snd (OnDeAuth b s)"
| "ap_exec (Rx_disassoc b) s = map_option snd (OnDisassoc b s)"
| "ap_exec (Sta_timeout a) s = Some (rtw_sta_timeout_event_callback a s)"
| "ap_exec (Sta_deleted a) s = Some (rtw_stadel_event_callback a s)"
| "ap_exec (Key_installed i) s = Some (upd_as s i (\<lambda>x. x\<lparr>as_pairwise_key_installed := True\<rparr>))"

fun ap_safe :: "ap_op \<Rightarrow> ap_state \<Rightarrow> bool" where
  "ap_safe (Rx_auth stime b len) s \<longleftrightarrow> auth_safe b len s"
| "ap_safe (Sta_deleted a) s \<longleftrightarrow> (case sta_of s a of None \<Rightarrow> True | Some i \<Rightarrow> i \<notin> set (ap_asoc_list s))"
| "ap_safe _ s \<longleftrightarrow> True"

inductive ap_reach :: "ap_state \<Rightarrow> ap_state \<Rightarrow> bool" for s0 where
  start: "ap_reach s0 s0"
| step: "ap_reach s0 s \<Longrightarrow> ap_safe op s \<Longrightarrow> ap_exec op s = Some s' \<Longrightarrow> ap_reach s0 s'"

lemma ap_exec_ok:
  assumes "ap_inv s" and "ap_safe op s" and "ap_exec op s = Some s'"
  shows "ap_inv s'"
proof -
  from assms(1) obtain used free where ok: "ap_ok s used free" by (auto simp: ap_inv_def)
  show ?thesis
  proof (cases op)
    case (Sta_timeout a)
    then show ?thesis using assms(3) ap_release_ok [OF ok] by (auto simp: rtw_sta_timeout_event_callback_def)
  next
    case (Sta_deleted a)
    then show ?thesis using assms(2,3) stadel_ok [OF ok, of a] by (cases "sta_of s a") auto
  next
    case (Key_installed i)
    have "ap_same s (upd_as s i (\<lambda>x. x\<lparr>as_pairwise_key_installed := True\<rparr>))" by (intro ap_sames)
    then show ?thesis using Key_installed assms(3) ap_same_ok [OF _ ok] by auto
  qed (use assms(2,3) ok in \<open>auto simp: OnDeAuth_def OnDisassoc_def intro: OnAuth_ok OnAssocReq_ok ap_on_leave_ok\<close>)
qed

lemma ap_reach_ok: "ap_reach s0 s \<Longrightarrow> ap_inv s0 \<Longrightarrow> ap_inv s"
  by (induction rule: ap_reach.induct) (auto intro: ap_exec_ok)

end
