(* ===== verification/Ap_Join.thy ===== *)
theory Ap_Join
  imports Ap_Lists
begin

text \<open>
  Runs of \<open>Ap_Auth\<close>: a new station that authenticates and associates gets into the cell; a forged
  authentication frame frees an associated station in spite of frame protection; shared-key
  authentication succeeds without the key.
\<close>

section \<open>Frames and configuration\<close>

text \<open>An authentication frame that is not encrypted.\<close>

definition plain_auth :: "buf \<Rightarrow> buf \<Rightarrow> u16 \<Rightarrow> u16 \<Rightarrow> bool" where
  "plain_auth b sa algorithm seq \<longleftrightarrow> (case RTW_GET_LE16 b 0 of None \<Rightarrow> False | Some fc \<Rightarrow> fc AND 0x4000 = 0) \<and> rd_n b 10 6 = Some sa
     \<and> RTW_GET_LE16 b 24 = Some algorithm \<and> RTW_GET_LE16 b 26 = Some seq"

lemma auth_fields_plain: "plain_auth b sa algorithm seq \<Longrightarrow> auth_fields sec b len = Some (b, algorithm, seq)"
  by (auto simp: plain_auth_def auth_fields_def WLAN_HDR_A3_LEN_def split: option.splits)

text \<open>The parts of the state that the handlers only read.\<close>

definition ap_config where
  "ap_config s = (ap_cnf s, ap_sec s, ap_acl s, ap_defs_lmt_time s, ap_defs_lmt_sta s, ap_force_auth_fail s, ap_force_asoc_fail s,
     ap_fw_ap s, ap_linked s, ap_report_auth s, ap_bssid s)"

lemma ap_config_simps [simp]:
  "ap_config (emit s es) = ap_config s" "ap_config (upd_as s i f) = ap_config s" "ap_config (upd_si s i g) = ap_config s"
  "ap_config (asoc_unlink i s) = ap_config s" "ap_config (asoc_link i s) = ap_config s" "ap_config (auth_link i s) = ap_config s"
  "ap_config (auth_unlink i s) = ap_config s" "ap_config (s\<lparr>ap_sp := sp\<rparr>) = ap_config s" "ap_config (s\<lparr>ap_ptime := t\<rparr>) = ap_config s"
  "ap_config (auth_wait i s) = ap_config s" "ap_config (auth_reply seq i s) = ap_config s"
  by (simp_all add: ap_config_def emit_def upd_as_def upd_si_def asoc_unlink_def asoc_link_def auth_link_def auth_unlink_def auth_wait_def
      auth_reply_def Let_def)

text \<open>No attack is suspected and no test fails the frame, and the station is permitted.\<close>

definition auth_lets :: "u32 \<Rightarrow> buf \<Rightarrow> ap_state \<Rightarrow> bool" where
  "auth_lets stime sa s \<longleftrightarrow> ap_fw_ap s \<and> ap_linked s \<and> \<not> rtw_check_invalid_mac_address sa False \<and> \<not> fst (rtw_defs_attack_chk stime s)
     \<and> ap_force_auth_fail s = 0 \<and> rtw_access_ctrl (ap_acl s) sa"

definition open_mode :: "ap_conf \<Rightarrow> nat" where
  "open_mode cnf = (if ac_dot11AuthAlgrthm cnf = 2 \<and> ac_dot11PrivacyAlgrthm cnf \<noteq> 1 \<and> ac_dot11PrivacyAlgrthm cnf \<noteq> 5 then 0
     else ac_dot11AuthAlgrthm cnf)"

lemma OnAuth_stages:
  assumes "auth_lets stime sa s" and "plain_auth b sa algorithm seq" and "algorithm \<noteq> WLAN_AUTH_SAE"
    and "algorithm \<noteq> 0 \<longleftrightarrow> open_mode (ap_cnf s) = 1"
    and "auth_station sa (s\<lparr>ap_ptime := stime\<rparr>) = Some (Some i, s1)"
    and "auth_machine b len algorithm seq (open_mode (ap_cnf s)) i (auth_wait i s1) = Some (status, s2)"
  shows "OnAuth stime b len s = Some (if status \<noteq> 0 then (False, auth_fail sa (Some i) status s2) else (True, auth_reply seq i s2))"
proof -
  have f: "auth_fields (ap_sec s) b len = Some (b, algorithm, seq)" and sa: "rd_n b 10 6 = Some sa"
    using assms(2) auth_fields_plain by (auto simp: plain_auth_def)
  have "auth_refused stime sa algorithm s = (Inr (open_mode (ap_cnf s)), s\<lparr>ap_ptime := stime\<rparr>)"
    using assms(1,3,4) by (auto simp: auth_refused_def auth_lets_def open_mode_def rtw_defs_attack_chk_def Let_def word_gt_0)
  then show ?thesis
    using assms(1,3,5,6) f sa by (simp add: OnAuth_def auth_lets_def Let_def)
qed

section \<open>A new station\<close>

lemma valid_not_mcast: "\<not> rtw_check_invalid_mac_address sa l \<Longrightarrow> \<not> is_mcast_addr sa"
  by (simp add: rtw_check_invalid_mac_address_def is_mcast_addr_def)

lemma sta_of_same:
  assumes "ap_same s s'" and "ap_ok s used free"
  shows "sta_of s' a = sta_of s a"
proof -
  have r: "sta_rel (ap_sp s) used free" "sta_rel (ap_sp s') used free"
    using assms ap_same_ok [OF assms] by (simp_all add: ap_ok_def lists_ok_def)
  have v: "map (\<lambda>x. (sta_mac x, sta_auth_linked x, sta_aid_no x)) (sp_sta (ap_sp s')) = map (\<lambda>x. (sta_mac x, sta_auth_linked x, sta_aid_no x)) (sp_sta (ap_sp s))"
    using assms(1) unfolding ap_same_def sp_view_def prod.inject by blast
  have "\<And>i. i \<in> set used \<Longrightarrow> sta_mac (si_of s' i) = sta_mac (si_of s i)"
    using map_triple_nth(1) [OF v] r(2) by (auto simp: sta_rel_def)
  then show ?thesis unfolding sta_of_def sta_rel_get [OF r(1)] sta_rel_get [OF r(2)] by (intro find_cong) auto
qed

lemma sta_of_SomeI:
  assumes "ap_ok s used free" and "used = xs @ [i]" and "sta_mac (si_of s i) = a" and "\<not> is_mcast_addr a"
    and "\<And>j. j \<in> set xs \<Longrightarrow> sta_mac (si_of s j) \<noteq> a"
  shows "sta_of s a = Some i"
proof -
  have r: "sta_rel (ap_sp s) used free" using assms(1) by (simp add: ap_ok_def lists_ok_def)
  have "find (\<lambda>j. sta_mac (si_of s j) = a) (ys @ [i]) = Some i" if "\<And>j. j \<in> set ys \<Longrightarrow> sta_mac (si_of s j) \<noteq> a" for ys
    using that assms(3) by (induction ys) auto
  then show ?thesis unfolding sta_of_def sta_rel_get [OF r] using assms(2,4,5) by simp
qed

text \<open>What the choice of an association id depends on.\<close>

definition aid_view where
  "aid_view sp = (sp_sta_aid sp, sp_max_aid sp, sp_started_aid sp, sp_max_num_sta sp)"

definition aid_free :: "sta_priv \<Rightarrow> bool" where
  "aid_free sp \<longleftrightarrow> (\<exists>n<aid_limit sp. \<not> aid_taken sp (aid_cand sp n))"

lemma aid_free_view: "aid_view sp' = aid_view sp \<Longrightarrow> aid_free sp' = aid_free sp"
  by (simp add: aid_view_def aid_free_def aid_limit_def aid_taken_def aid_cand_def)

lemma alloc_aid_view: "rtw_alloc_stainfo sp a = (sp', r) \<Longrightarrow> aid_view sp' = aid_view sp"
  by (auto simp: aid_view_def rtw_alloc_stainfo_def Let_def split: list.splits if_splits prod.splits)

lemma auth_station_new:
  assumes "ap_ok s used (i # free)" and "sta_of s sa = None" and "\<not> is_mcast_addr sa"
  obtains s1 where "auth_station sa s = Some (Some i, s1)" and "ap_ok s1 (used @ [i]) free" and "sta_of s1 sa = Some i"
    and "ap_as s1 ! i = ap_sta_zero" and "sta_state (si_of s1 i) = WIFI_FW_AUTH_NULL" and "sta_mac (si_of s1 i) = sa"
    and "sta_aid_no (si_of s1 i) = 0" and "i \<notin> set (ap_asoc_list s1)" and "ap_config s1 = ap_config s"
    and "ap_ptime s1 = ap_ptime s" and "aid_view (ap_sp s1) = aid_view (ap_sp s)"
proof -
  have l: "lists_ok (ap_sp s) (ap_asoc_list s) used (i # free)" and r: "sta_rel (ap_sp s) used (i # free)"
    using assms(1) by (simp_all add: ap_ok_def lists_ok_def)
  obtain sp where al: "rtw_alloc_stainfo (ap_sp s) sa = (sp, Some i)" and mac: "sta_mac (sp_sta sp ! i) = sa"
    and others: "\<And>j. j \<noteq> i \<Longrightarrow> sp_sta sp ! j = si_of s j"
    using sta_rel_alloc [OF r, of sa] by metis
  have i: "i \<notin> set used" "i < length (sp_sta sp)" using r lists_alloc(1) [OF l al] lists_used by (auto simp: sta_rel_def)
  have asoc: "i \<notin> set (ap_asoc_list s)" using l i(1) by (auto simp: lists_ok_def)
  have ai: "i < length (ap_as s)" using assms(1) i lists_alloc(1) [OF l al] by (auto simp: ap_ok_def lists_ok_def sta_rel_def)
  let ?s1 = "upd_as (upd_si (s\<lparr>ap_sp := sp\<rparr>) i (\<lambda>x. x\<lparr>sta_state := WIFI_FW_AUTH_NULL\<rparr>)) i (\<lambda>_. ap_sta_zero)"
  have st: "auth_station sa s = Some (Some i, ?s1)" using assms(2) al asoc by (simp add: auth_station_def)
  have ok: "ap_ok ?s1 (used @ [i]) free"
  proof (rule ap_same_ok)
    show "ap_ok (s\<lparr>ap_sp := sp\<rparr>) (used @ [i]) free" using lists_alloc(1) [OF l al] assms(1) by (simp add: ap_ok_def)
  qed (auto intro!: ap_sames)
  have "sta_mac (si_of s j) \<noteq> sa" if "j \<in> set used" for j
    using assms(2,3) that unfolding sta_of_def sta_rel_get [OF r] by (auto simp: find_None_iff)
  then have "sta_mac (si_of ?s1 j) \<noteq> sa" if "j \<in> set used" for j using others [of j] that i by (cases "j = i") auto
  then have "sta_of ?s1 sa = Some i" using sta_of_SomeI [OF ok] mac i(2) assms(3) by simp
  moreover have "aid_view sp = aid_view (ap_sp s)" by (rule alloc_aid_view [OF al])
  ultimately show ?thesis
    using that [OF st ok] mac i(2) ai asoc lists_alloc(3) [OF l al]
    by (simp add: upd_as_def upd_si_def sta_upd_def ap_config_def aid_view_def)
qed

lemma mfp_open_zero [simp]: "mfp_open ap_sta_zero"
  by (simp add: mfp_open_def ap_sta_zero_def)

text \<open>What waiting for the station keeps of it.\<close>

definition same_sta :: "nat \<Rightarrow> ap_state \<Rightarrow> ap_state \<Rightarrow> bool" where
  "same_sta i s s' \<longleftrightarrow> ap_as s' = ap_as s \<and> length (sp_sta (ap_sp s')) = length (sp_sta (ap_sp s))
     \<and> (\<forall>j. sta_mac (si_of s' j) = sta_mac (si_of s j))
     \<and> (i < length (sp_sta (ap_sp s)) \<longrightarrow> sta_state (si_of s' i) = sta_state (si_of s i) \<and> sta_aid_no (si_of s' i) = sta_aid_no (si_of s i))
     \<and> ap_ptime s' = ap_ptime s \<and> aid_view (ap_sp s') = aid_view (ap_sp s)"

lemma same_sta_upd:
  assumes "\<And>x. sta_mac (f x) = sta_mac x \<and> sta_state (f x) = sta_state x \<and> sta_aid_no (f x) = sta_aid_no x"
  shows "same_sta i s (s\<lparr>ap_sp := sta_upd (ap_sp s\<lparr>sp_auth_list_cnt := n\<rparr>) i f\<rparr>)" and "same_sta i s (upd_si s i f)"
proof -
  have "sta_mac ((sp_sta (ap_sp s))[i := f (si_of s i)] ! j) = sta_mac (si_of s j)" for j
    using assms by (cases "j = i"; cases "i < length (sp_sta (ap_sp s))") (simp_all add: list_update_beyond)
  then show "same_sta i s (s\<lparr>ap_sp := sta_upd (ap_sp s\<lparr>sp_auth_list_cnt := n\<rparr>) i f\<rparr>)" "same_sta i s (upd_si s i f)"
    using assms by (simp_all add: same_sta_def sta_upd_def upd_si_def aid_view_def)
qed

lemma same_sta_trans: "same_sta i s s' \<Longrightarrow> same_sta i s' s'' \<Longrightarrow> same_sta i s s''"
  by (simp add: same_sta_def)

lemma same_sta_refl: "same_sta i s s"
  by (simp add: same_sta_def)

lemma auth_wait_same: "same_sta i s (auth_wait i s)"
proof -
  have "same_sta i s (auth_link i s)" unfolding auth_link_def using same_sta_upd(1) [of "sta_auth_linked_update (\<lambda>_. True)" i s] same_sta_refl by simp
  then have 1: "same_sta i s (if mfp_open (ap_as s ! i) then auth_link i s else s)" using same_sta_refl by simp
  have "same_sta i t (if q then upd_si t i (\<lambda>x. x\<lparr>sta_expire_to := e\<rparr>) else t)" for t q e
    using same_sta_upd(2) [of "sta_expire_to_update (\<lambda>_. e)" i t] same_sta_refl by simp
  then show ?thesis unfolding auth_wait_def Let_def by (rule same_sta_trans [OF 1])
qed

lemma auth_wait_sta_of:
  assumes "ap_ok s used free" and "i \<in> set used" and "i \<notin> set (ap_asoc_list s)"
  shows "sta_of (auth_wait i s) a = sta_of s a"
proof -
  have ok: "ap_ok (auth_wait i s) used free" by (rule auth_wait_ok [OF assms])
  have r: "sta_rel (ap_sp s) used free" "sta_rel (ap_sp (auth_wait i s)) used free" using assms(1) ok by (simp_all add: ap_ok_def lists_ok_def)
  have "\<And>j. sta_mac (si_of (auth_wait i s) j) = sta_mac (si_of s j)" using auth_wait_same by (simp add: same_sta_def)
  then show ?thesis unfolding sta_of_def sta_rel_get [OF r(1)] sta_rel_get [OF r(2)] by (intro find_cong) auto
qed

text \<open>Parsing the elements does not install a key.\<close>

lemma sta_sec_ie_key:
  assumes "sta_sec_ie cnf a b es = Some (r, a')"
  shows "as_pairwise_key_installed a' = as_pairwise_key_installed a"
proof -
  have rsn: "opt_post (\<lambda>(r, a'). as_pairwise_key_installed a' = k) (sta_rsn_ie cnf x b p n)" if "as_pairwise_key_installed x = k" for x p n k
    using that unfolding sta_rsn_ie_def Let_def by (intro opt_posts) simp_all
  have wpa: "opt_post (\<lambda>(r, a'). as_pairwise_key_installed a' = k) (sta_wpa_ie cnf x b p n)" if "as_pairwise_key_installed x = k" for x p n k
    using that unfolding sta_wpa_ie_def Let_def by (intro opt_posts) simp_all
  have "opt_post (\<lambda>(r, a'). as_pairwise_key_installed a' = as_pairwise_key_installed a) (sta_sec_ie cnf a b es)"
    unfolding sta_sec_ie_def Let_def by (intro opt_posts rsn wpa) simp_all
  from opt_postD [OF this assms] show ?thesis by simp
qed

lemma sta_mfp_check_key: "as_pairwise_key_installed (snd (sta_mfp_check cnf addr sl a)) = as_pairwise_key_installed a"
  by (simp add: sta_mfp_check_def Let_def)

lemma security_key:
  assumes "rtw_ap_parse_sta_security_ie cnf addr a b es = Some (st, a')"
  shows "as_pairwise_key_installed a' = as_pairwise_key_installed a"
proof -
  obtain r a1 where 1: "sta_sec_ie cnf a b es = Some (r, a1)" using assms by (auto simp: rtw_ap_parse_sta_security_ie_def bind_eq_Some_conv)
  have wps: "opt_post (\<lambda>(st, a'). as_pairwise_key_installed a' = as_pairwise_key_installed x) (sta_wps_check cnf b es sl x)" for sl x
    unfolding sta_wps_check_def Let_def by (intro opt_posts) simp_all
  show ?thesis
  proof (cases r)
    case (Inr sl)
    let ?a = "sta_amsdu_check cnf sl a1"
    obtain st2 a2 where 2: "sta_mfp_check cnf addr sl ?a = (st2, a2)" by fastforce
    have "as_pairwise_key_installed ?a = as_pairwise_key_installed a1" by (simp add: sta_amsdu_check_def)
    then show ?thesis using assms 1 2 Inr sta_sec_ie_key [OF 1] sta_mfp_check_key [of cnf addr sl ?a] opt_postD [OF wps, of sl a2 "(st, a')"]
      by (auto simp: rtw_ap_parse_sta_security_ie_def split: if_split_asm)
  qed (use assms 1 sta_sec_ie_key [OF 1] in \<open>auto simp: rtw_ap_parse_sta_security_ie_def\<close>)
qed

lemma assoc_checks_key:
  assumes "assoc_checks cnf b len ies mac a = Some (st, a', es)"
  shows "as_pairwise_key_installed a' = as_pairwise_key_installed a"
proof -
  have cap: "as_pairwise_key_installed x' = as_pairwise_key_installed x" if "rtw_ap_parse_sta_capability x b n = Some x'" for x x' n
    using that by (auto simp: rtw_ap_parse_sta_capability_def bind_eq_Some_conv)
  have rates: "opt_post (\<lambda>(st, x'). as_pairwise_key_installed x' = as_pairwise_key_installed x) (rtw_ap_parse_sta_supported_rates x b p n)" for x p n
    unfolding rtw_ap_parse_sta_supported_rates_def Let_def by (intro opt_posts) simp_all
  have "opt_post (\<lambda>(st, a', es). as_pairwise_key_installed a' = as_pairwise_key_installed a) (assoc_checks cnf b len ies mac a)"
    unfolding assoc_checks_def by (intro opt_posts) (auto dest: cap opt_postD [OF rates] security_key)
  from opt_postD [OF this assms] show ?thesis by simp
qed

lemma assoc_elems_key:
  assumes "assoc_elems cnf b len ies (si, a) = Some (st, si', a')"
  shows "as_pairwise_key_installed a' = as_pairwise_key_installed a"
proof -
  have ht: "opt_post (\<lambda>x'. as_pairwise_key_installed x' = as_pairwise_key_installed x) (rtw_ap_parse_sta_ht_ie cnf x b es)" for x es
    unfolding rtw_ap_parse_sta_ht_ie_def Let_def by (intro opt_posts) simp_all
  have last: "as_pairwise_key_installed (rtw_ap_parse_sta_multi_ap_ie (no_ht_with_tkip (rtw_ap_parse_sta_vht_ie x))) = as_pairwise_key_installed x" for x
    by (simp add: rtw_ap_parse_sta_multi_ap_ie_def no_ht_with_tkip_def rtw_ap_parse_sta_vht_ie_def)
  have "opt_post (\<lambda>(st, si', a'). as_pairwise_key_installed a' = as_pairwise_key_installed a) (assoc_elems cnf b len ies (si, a))"
    unfolding assoc_elems_def prod.case
    by (intro opt_posts) (auto simp: last dest: assoc_checks_key wmm_keeps opt_postD [OF ht])
  from opt_postD [OF this assms] show ?thesis by simp
qed

section \<open>A new station gets in\<close>

text \<open>The state of a station between the two frames.\<close>

lemma bits_apart:
  "(WIFI_FW_AUTH_NULL AND NOT WIFI_FW_AUTH_NULL) OR WIFI_FW_AUTH_SUCCESS = WIFI_FW_AUTH_SUCCESS"
  "(WIFI_FW_AUTH_NULL AND NOT WIFI_FW_AUTH_NULL) OR WIFI_FW_AUTH_STATE = WIFI_FW_AUTH_STATE"
  "WIFI_FW_AUTH_SUCCESS \<noteq> 0" "WIFI_FW_AUTH_SUCCESS AND WIFI_FW_AUTH_NULL = 0"
  "WIFI_FW_AUTH_STATE AND WIFI_FW_AUTH_SUCCESS = 0" "WIFI_FW_AUTH_STATE AND WIFI_FW_ASSOC_SUCCESS = 0"
  by (simp_all add: wifi_fw_defs)

lemma assoc_success_bit: "x AND WIFI_FW_ASSOC_SUCCESS = 0 \<longleftrightarrow> \<not> bit x 14"
  using and_exp_eq_0_iff_not_bit [of x 14] by (simp add: WIFI_FW_ASSOC_SUCCESS_def)

lemma join_keeps:
  assumes "bss_cap_update_on_sta_join a c = (a', c', upd)"
  shows "as_pairwise_key_installed a' = as_pairwise_key_installed a" and "as_flags a' = as_flags a"
proof -
  from assms obtain a1 c1 where 1: "join_sync a c = (a1, c1)"
    and 2: "if bc_ht c then \<exists>c2. join_ht a1 c1 = (a', c2) \<and> c' = fst (rtw_ht_operation_update c2) else a' = a1 \<and> c' = c1"
    by (rule join_stages)
  have "as_pairwise_key_installed a1 = as_pairwise_key_installed a" "as_flags a1 = as_flags a" using 1 by (auto simp: join_sync_def Let_def split: prod.splits)
  moreover have "as_pairwise_key_installed y = as_pairwise_key_installed x \<and> as_flags y = as_flags x" if "join_ht x d = (y, d')" for x y d d'
    using that by (cases "as_flags x AND WLAN_STA_HT = 0"; cases "as_no_ht_set x") (auto simp: join_ht_def cnt_set_spec Let_def)
  ultimately show "as_pairwise_key_installed a' = as_pairwise_key_installed a" "as_flags a' = as_flags a"
    using 2 by (auto split: if_split_asm)
qed

definition joined :: "nat \<Rightarrow> ap_state \<Rightarrow> ap_state \<Rightarrow> bool" where
  "joined i s s' \<longleftrightarrow> ap_asoc_list s' = ap_asoc_list s \<and> bit (sta_state (si_of s' i)) 14 = bit (sta_state (si_of s i)) 14
     \<and> sta_mac (si_of s' i) = sta_mac (si_of s i) \<and> sta_aid_no (si_of s' i) = sta_aid_no (si_of s i)
     \<and> as_pairwise_key_installed (ap_as s' ! i) = as_pairwise_key_installed (ap_as s ! i) \<and> as_flags (ap_as s' ! i) = as_flags (ap_as s ! i)"

lemma assoc_join_joined:
  assumes "i < length (sp_sta (ap_sp s))" and "i < length (ap_as s)"
  shows "joined i s (assoc_join i s)"
proof -
  obtain a c upd where j: "bss_cap_update_on_sta_join (ap_as s ! i) (ap_bss s) = (a, c, upd)" by (metis prod_cases3)
  have "\<not> bit WIFI_UNDER_KEY_HANDSHAKE 14" "\<not> bit WIFI_ASOC_STATE 14" by (simp_all add: WIFI_UNDER_KEY_HANDSHAKE_def WIFI_ASOC_STATE_def)
  then show ?thesis
    using assms join_keeps [OF j]
    by (simp add: joined_def assoc_join_def j update_sta_info_apmode_def sta_info_update_def Let_def upd_as_def upd_si_def sta_upd_def
        emit_def bit_or_iff)
qed

lemma assoc_admit_admits:
  fixes reassoc req
  assumes "i < length (sp_sta (ap_sp s))" and "i < length (ap_as s)" and "\<not> as_pairwise_key_installed (ap_as s ! i)"
  defines "s' \<equiv> assoc_admit reassoc req i s"
  shows "i \<in> set (ap_asoc_list s')" and "bit (sta_state (si_of s' i)) 14" and "sta_mac (si_of s' i) = sta_mac (si_of s i)"
    and "sta_aid_no (si_of s' i) = sta_aid_no (si_of s i)"
    and "Assoc_rsp reassoc 0 (sta_aid_no (si_of s i)) (sta_mac (si_of s i)) \<in> set (ap_evs s')"
    and "Sta_added (sta_mac (si_of s i)) \<in> set (ap_evs s')"
proof -
  let ?s1 = "upd_si s i (\<lambda>x. x\<lparr>sta_state := (sta_state x AND NOT WIFI_FW_ASSOC_STATE) OR WIFI_FW_ASSOC_SUCCESS\<rparr>)"
  let ?s2 = "asoc_link i (auth_unlink i ?s1)"
  have open1: "mfp_open (ap_as ?s1 ! i)" using assms(3) by (auto simp: mfp_open_def)
  have b: "bit WIFI_FW_ASSOC_SUCCESS 14" by (simp add: WIFI_FW_ASSOC_SUCCESS_def)
  have 2: "i \<in> set (ap_asoc_list ?s2)" "bit (sta_state (si_of ?s2 i)) 14" "sta_mac (si_of ?s2 i) = sta_mac (si_of s i)"
    "sta_aid_no (si_of ?s2 i) = sta_aid_no (si_of s i)" "ap_as ?s2 = ap_as s" "length (sp_sta (ap_sp ?s2)) = length (sp_sta (ap_sp s))"
    using assms(1) b by (simp_all add: asoc_link_def auth_unlink_def upd_si_def sta_upd_def bit_or_iff)
  have "joined i ?s2 (assoc_join i ?s2)" using assoc_join_joined [of i ?s2] 2 assms(1,2) by simp
  then have 3: "i \<in> set (ap_asoc_list (assoc_join i ?s2))" "bit (sta_state (si_of (assoc_join i ?s2) i)) 14"
    "sta_mac (si_of (assoc_join i ?s2) i) = sta_mac (si_of s i)" "sta_aid_no (si_of (assoc_join i ?s2) i) = sta_aid_no (si_of s i)"
    "\<not> as_pairwise_key_installed (ap_as (assoc_join i ?s2) ! i)"
    using 2 assms(3) by (simp_all add: joined_def)
  have len: "length (ap_as (assoc_join i ?s2)) = length (ap_as s)" using assoc_join_same [of ?s2 i] 2(5) by (simp add: ap_same_def)
  then have "mfp_open ((ap_as (assoc_join i ?s2))[i := (ap_as (assoc_join i ?s2) ! i)\<lparr>as_passoc_req := Some req\<rparr>] ! i)"
    using 3(5) assms(2) by (auto simp: mfp_open_def)
  then have "s' = emit (upd_as (emit (assoc_join i ?s2) [Assoc_rsp reassoc 0 (sta_aid_no (si_of s i)) (sta_mac (si_of s i))]) i
      (\<lambda>a. a\<lparr>as_passoc_req := Some req\<rparr>)) [Sta_added (sta_mac (si_of s i))]"
    using open1 3 unfolding s'_def assoc_admit_def Let_def by simp
  then show "i \<in> set (ap_asoc_list s')" "bit (sta_state (si_of s' i)) 14" "sta_mac (si_of s' i) = sta_mac (si_of s i)"
    "sta_aid_no (si_of s' i) = sta_aid_no (si_of s i)"
    "Assoc_rsp reassoc 0 (sta_aid_no (si_of s i)) (sta_mac (si_of s i)) \<in> set (ap_evs s')" "Sta_added (sta_mac (si_of s i)) \<in> set (ap_evs s')"
    using 3 by (simp_all add: emit_def upd_as_def)
qed

lemma zero_sels [simp]:
  "as_auth_seq ap_sta_zero = 0" "as_authalg ap_sta_zero = 0" "as_flags ap_sta_zero = 0" "as_pairwise_key_installed ap_sta_zero = False"
  "ap_sta_zero\<lparr>as_authalg := 0\<rparr> = ap_sta_zero" "ap_sta_zero\<lparr>as_auth_seq := 0\<rparr> = ap_sta_zero"
  "ap_sta_zero\<lparr>as_authalg := 0, as_auth_seq := 0\<rparr> = ap_sta_zero"
  by (simp_all add: ap_sta_zero_def)

lemma auth_reply_sels:
  assumes "i < length (ap_as s)"
  shows "ap_sp (auth_reply seq i s) = ap_sp s" and "ap_asoc_list (auth_reply seq i s) = ap_asoc_list s"
    and "sta_state (si_of s i) AND WIFI_FW_AUTH_SUCCESS \<noteq> 0 \<Longrightarrow> ap_as (auth_reply seq i s) ! i = (ap_as s ! i)\<lparr>as_auth_seq := 0\<rparr>"
    and "sta_state (si_of s i) AND WIFI_FW_AUTH_SUCCESS = 0 \<Longrightarrow> sta_state (si_of s i) AND WIFI_FW_ASSOC_SUCCESS = 0
      \<Longrightarrow> ap_as (auth_reply seq i s) ! i = (ap_as s ! i)\<lparr>as_auth_seq := ucast seq + 1\<rparr>"
    and "ap_ptime (auth_reply seq i s) = ap_ptime s"
  using assms by (simp_all add: auth_reply_def upd_as_def emit_def Let_def)

lemma auth_new:
  assumes "ap_ok s used (i # free)" and "sta_of s sa = None" and "auth_lets stime sa s" and "plain_auth b sa algorithm 1"
    and "algorithm = 0 \<and> open_mode (ap_cnf s) \<in> {0, 2, 3} \<and> st = WIFI_FW_AUTH_SUCCESS \<and> a = ap_sta_zero
      \<or> algorithm = 1 \<and> open_mode (ap_cnf s) = 1 \<and> st = WIFI_FW_AUTH_STATE
        \<and> a = ap_sta_zero\<lparr>as_chg_txt := replicate 128 78, as_authalg := 1, as_auth_seq := 2\<rparr>"
  obtains s' where "OnAuth stime b len s = Some (True, s')" and "ap_ok s' (used @ [i]) free" and "sta_of s' sa = Some i"
    and "ap_as s' ! i = a" and "sta_state (si_of s' i) = st" and "sta_mac (si_of s' i) = sa" and "sta_aid_no (si_of s' i) = 0"
    and "i \<notin> set (ap_asoc_list s')" and "ap_config s' = ap_config s" and "ap_ptime s' = stime" and "aid_view (ap_sp s') = aid_view (ap_sp s)"
proof -
  let ?s0 = "s\<lparr>ap_ptime := stime\<rparr>"
  have ok0: "ap_ok ?s0 used (i # free)" "sta_of ?s0 sa = None" using assms(1,2) by (simp_all add: sta_of_def)
  have mc: "\<not> is_mcast_addr sa" using assms(3) valid_not_mcast by (auto simp: auth_lets_def)
  obtain s1 where 1: "auth_station sa ?s0 = Some (Some i, s1)" "ap_ok s1 (used @ [i]) free" "sta_of s1 sa = Some i" "ap_as s1 ! i = ap_sta_zero"
    "sta_state (si_of s1 i) = WIFI_FW_AUTH_NULL" "sta_mac (si_of s1 i) = sa" "sta_aid_no (si_of s1 i) = 0" "i \<notin> set (ap_asoc_list s1)"
    "ap_config s1 = ap_config s" "ap_ptime s1 = stime" "aid_view (ap_sp s1) = aid_view (ap_sp s)"
    using auth_station_new [OF ok0 mc] by auto
  let ?w = "auth_wait i s1"
  have iu: "i \<in> set (used @ [i])" by simp
  have w: "ap_ok ?w (used @ [i]) free" "ap_asoc_list ?w = ap_asoc_list s1" "sta_of ?w sa = Some i"
    using auth_wait_ok [OF 1(2) iu 1(8)] auth_wait_sta_of [OF 1(2) iu 1(8)] 1(3) by simp_all
  have len: "i < length (sp_sta (ap_sp ?w))" "i < length (ap_as ?w)" using sta_of_used(2,3) [OF w(1,3)] .
  have ws: "ap_as ?w ! i = ap_sta_zero" "sta_state (si_of ?w i) = WIFI_FW_AUTH_NULL" "sta_mac (si_of ?w i) = sa" "sta_aid_no (si_of ?w i) = 0"
    "ap_ptime ?w = stime" "aid_view (ap_sp ?w) = aid_view (ap_sp s)"
    using auth_wait_same [of i s1] 1 len by (simp_all add: same_sta_def)
  let ?a = "a\<lparr>as_auth_seq := (if algorithm = 0 then 0 else 2)\<rparr>"
  obtain s2 where 2: "auth_machine b len algorithm 1 (open_mode (ap_cnf s)) i ?w = Some (0, s2)" "ap_as s2 ! i = ?a" "sta_state (si_of s2 i) = st"
    "sta_mac (si_of s2 i) = sa" "sta_aid_no (si_of s2 i) = 0" "ap_asoc_list s2 = ap_asoc_list ?w" "ap_config s2 = ap_config ?w"
    "ap_ptime s2 = stime" "aid_view (ap_sp s2) = aid_view (ap_sp s)"
  proof (cases "algorithm = 0")
    case True
    let ?s2 = "upd_as (upd_si ?w i (\<lambda>x. x\<lparr>sta_state := (sta_state x AND NOT WIFI_FW_AUTH_NULL) OR WIFI_FW_AUTH_SUCCESS,
                   sta_expire_to := ap_assoc_to ?w\<rparr>)) i (\<lambda>a. a\<lparr>as_authalg := ucast algorithm\<rparr>)"
    have "auth_machine b len algorithm 1 (open_mode (ap_cnf s)) i ?w = Some (0, ?s2)"
      using True assms(5) ws(1) by (auto simp: auth_machine_def auth_open_def Let_def)
    then show thesis using True assms(5) ws len by (intro that [of ?s2]) (auto simp: bits_apart sta_upd_def aid_view_def)
  next
    case False
    let ?s1 = "upd_as ?w i (\<lambda>a. a\<lparr>as_chg_txt := replicate 128 78\<rparr>)"
    let ?s2 = "upd_as (upd_si ?s1 i (\<lambda>x. x\<lparr>sta_state := (sta_state x AND NOT WIFI_FW_AUTH_NULL) OR WIFI_FW_AUTH_STATE\<rparr>)) i
      (\<lambda>a. a\<lparr>as_authalg := ucast algorithm, as_auth_seq := 2\<rparr>)"
    have "mfp_open (ap_as ?s1 ! i)" using ws(1) len by (simp add: mfp_open_def)
    then have "auth_machine b len algorithm 1 (open_mode (ap_cnf s)) i ?w = Some (0, ?s2)"
      using False ws(1) by (simp add: auth_machine_def auth_shared_def Let_def)
    then show thesis using False assms(5) ws len by (intro that [of ?s2]) (auto simp: bits_apart sta_upd_def aid_view_def)
  qed
  have ok2: "ap_ok s2 (used @ [i]) free" "sta_of s2 sa = Some i" "i < length (ap_as s2)"
    using ap_same_ok [OF auth_machine_same [OF 2(1)] w(1)] sta_of_same [OF auth_machine_same [OF 2(1)] w(1)] w(3) len(2)
      auth_machine_same [OF 2(1)] by (simp_all add: ap_same_def)
  have fin: "OnAuth stime b len s = Some (True, auth_reply 1 i s2)"
  proof -
    have "algorithm \<noteq> WLAN_AUTH_SAE" "algorithm \<noteq> 0 \<longleftrightarrow> open_mode (ap_cnf s) = 1" using assms(5) by (auto simp: WLAN_AUTH_SAE_def)
    from OnAuth_stages [OF assms(3,4) this 1(1) 2(1)] show ?thesis by simp
  qed
  note r = auth_reply_sels [OF ok2(3)]
  have "ap_as (auth_reply 1 i s2) ! i = a"
  proof (cases "algorithm = 0")
    case True
    then show ?thesis using r(3) [of 1] 2(2,3) assms(5) by (auto simp: bits_apart)
  next
    case False
    then show ?thesis using r(4) [of 1] 2(2,3) assms(5) by (auto simp: bits_apart)
  qed
  then show ?thesis
    using that [OF fin] ap_same_ok [OF auth_reply_same ok2(1)] sta_of_same [OF auth_reply_same ok2(1)] ok2(2) r(1,2,5) 2 1(8,9) w(2) by simp
qed

lemma ap_ok_free: "ap_inv s \<Longrightarrow> sp_free_q (ap_sp s) = i # free \<Longrightarrow> \<exists>used. ap_ok s used (i # free)"
  by (auto simp: ap_inv_def ap_ok_def lists_ok_def sta_rel_def)

lemma rtw_aid_alloc_free:
  assumes "lists_ok sp asoc used free" and "aid_free sp"
  shows "0 < snd (rtw_aid_alloc sp i)"
proof -
  have "0 < sp_max_aid sp" "0 < sp_max_num_sta sp" "length (sp_sta_aid sp) = sp_max_aid sp" using assms(1) by (simp_all add: lists_ok_def)
  from rtw_aid_alloc_first_free [OF this, of i] assms(2) show ?thesis by (auto simp: aid_free_def split: prod.splits if_split_asm)
qed

lemma assoc_new:
  assumes "ap_ok s used free" and "sta_of s sa = Some i" and "ap_as s ! i = ap_sta_zero" and "sta_state (si_of s i) = WIFI_FW_AUTH_SUCCESS"
    and "sta_mac (si_of s i) = sa" and "sta_aid_no (si_of s i) = 0" and "aid_free (ap_sp s)"
    and "ap_fw_ap s" and "\<not> rtw_check_invalid_mac_address sa False" and "ap_force_asoc_fail s = 0"
    and "RTW_GET_LE16 g 0 = Some fc" and "fc AND 0xfc = 0" and "rd_n g 10 6 = Some sa" and "28 \<le> len" and "len \<le> length g"
    and "\<And>si. sta_mac si = sa \<Longrightarrow> \<exists>si' a. assoc_elems (ap_cnf s) g len 28 (si, ap_sta_zero) = Some (0, si', a)"
  shows "\<exists>s' aid. OnAssocReq g len s = Some (True, s') \<and> i \<in> set (ap_asoc_list s') \<and> bit (sta_state (si_of s' i)) 14
    \<and> sta_mac (si_of s' i) = sa \<and> sta_aid_no (si_of s' i) = aid \<and> 0 < aid \<and> Assoc_rsp False 0 aid sa \<in> set (ap_evs s')"
proof -
  note used = sta_of_used [OF assms(1,2)]
  let ?s1 = "upd_si s i (\<lambda>x. x\<lparr>sta_state := (sta_state x AND NOT WIFI_FW_AUTH_SUCCESS) OR WIFI_FW_ASSOC_STATE\<rparr>)"
  have 1: "ap_ok ?s1 used free" by (rule ap_same_ok [OF _ assms(1)]) (auto intro!: ap_sames)
  have si1: "sta_mac (si_of ?s1 i) = sa" "sta_aid_no (si_of ?s1 i) = 0" using used assms(5,6) by (simp_all add: sta_upd_def)
  obtain si a where el: "assoc_elems (ap_cnf ?s1) g len 28 (si_of ?s1 i, ap_as ?s1 ! i) = Some (0, si, a)"
    using assms(16) [OF si1(1)] assms(3) by auto
  note keep = assoc_elems_keeps [OF el] assoc_elems_key [OF el]
  let ?s2 = "upd_as (upd_si ?s1 i (\<lambda>_. si)) i (\<lambda>_. a)"
  have "ap_same ?s1 ?s2" by (rule ap_same_upd_as [OF upd_si_read_same [OF keep(1)]])
  then have 2: "ap_ok ?s2 used free" using 1 by (rule ap_same_ok)
  have si2: "sta_mac (si_of ?s2 i) = sa" "sta_aid_no (si_of ?s2 i) = 0" using used keep(1) si1 by (simp_all add: sta_upd_def)
  obtain sp aid where al: "rtw_aid_alloc (ap_sp ?s2) i = (sp, aid)" by fastforce
  have "aid_free (ap_sp ?s2)" using assms(7) by (simp add: aid_free_def aid_limit_def aid_taken_def aid_cand_def sta_upd_def)
  then have pos: "0 < aid" using rtw_aid_alloc_free [of "ap_sp ?s2" _ used free i] 2 al by (auto simp: ap_ok_def)
  let ?s3 = "?s2\<lparr>ap_sp := sp\<rparr>"
  have aid: "assoc_aid i ?s2 = (True, ?s3)" unfolding assoc_aid_def using si2(2) al pos by simp
  have ok3: "ap_ok ?s3 used free" by (rule assoc_aid_ok(1) [OF 2 used(1) aid])
  have "lists_ok (ap_sp ?s2) (ap_asoc_list ?s2) used free" using 2 by (simp add: ap_ok_def)
  note aidf = lists_aid [OF this used(1) si2(2) al]
  have mac3: "sta_mac (si_of ?s3 i) = sa"
    using al si2(1) used(2) by (auto simp: rtw_aid_alloc_def sta_upd_def Let_def split: prod.splits if_split_asm)
  have key: "\<not> as_pairwise_key_installed (ap_as ?s3 ! i)" using keep(2) used(3) assms(3) by simp
  have len3: "i < length (sp_sta (ap_sp ?s3))" "i < length (ap_as ?s3)"
    using ok3 used(1) lists_used by (auto simp: ap_ok_def lists_ok_def sta_rel_def)
  obtain req where req: "rd_n g 0 len = Some req" using assms(15) by (simp add: rd_n_Some)
  have "assoc_process g len False 28 i ?s1 = Some (True, assoc_admit False req i ?s3)"
    unfolding assoc_process_def using el aid req assms(10) by (simp add: upd_si_def)
  then have "OnAssocReq g len s = Some (True, assoc_admit False req i ?s3)"
    using assms(3,4,8,9,11-14) by (simp add: OnAssocReq_def assms(2) bits_apart WLAN_HDR_A3_LEN_def)
  then show ?thesis
    using assoc_admit_admits [OF len3 key, of False req] mac3 aidf(2) pos by (intro exI conjI) simp_all
qed

text \<open>C12: A station that is not known yet gets into the cell with two frames: with open authentication, a
  free station object and a free association id, an authentication frame with sequence number 1 and an
  association request whose elements pass the checks end with the station on the list of associated
  stations, in the associated state, with an association id that the positive response names.\<close>

theorem open_station_joins:
  assumes "ap_inv s" and "sp_free_q (ap_sp s) \<noteq> []" and "aid_free (ap_sp s)" and "sta_of s sa = None"
    and "auth_lets stime sa s" and "open_mode (ap_cnf s) \<in> {0, 2, 3}" and "plain_auth f sa 0 1" and "ap_force_asoc_fail s = 0"
    and "RTW_GET_LE16 g 0 = Some fc" and "fc AND 0xfc = 0" and "rd_n g 10 6 = Some sa" and "28 \<le> len" and "len \<le> length g"
    and "\<And>si. sta_mac si = sa \<Longrightarrow> \<exists>si' a. assoc_elems (ap_cnf s) g len 28 (si, ap_sta_zero) = Some (0, si', a)"
  shows "\<exists>s1 s2 i aid. OnAuth stime f flen s = Some (True, s1) \<and> OnAssocReq g len s1 = Some (True, s2)
    \<and> i \<in> set (ap_asoc_list s2) \<and> bit (sta_state (si_of s2 i)) 14 \<and> sta_mac (si_of s2 i) = sa
    \<and> sta_aid_no (si_of s2 i) = aid \<and> 0 < aid \<and> Assoc_rsp False 0 aid sa \<in> set (ap_evs s2)"
proof -
  obtain i free used where ok: "ap_ok s used (i # free)"
    using ap_ok_free [OF assms(1)] assms(2) by (cases "sp_free_q (ap_sp s)") auto
  have "0 = (0 :: u16) \<and> open_mode (ap_cnf s) \<in> {0, 2, 3} \<and> WIFI_FW_AUTH_SUCCESS = WIFI_FW_AUTH_SUCCESS \<and> ap_sta_zero = ap_sta_zero \<or> Q" for Q
    using assms(6) by simp
  from auth_new [OF ok assms(4,5,7) this] obtain s1 where 1: "OnAuth stime f flen s = Some (True, s1)" "ap_ok s1 (used @ [i]) free"
    "sta_of s1 sa = Some i" "ap_as s1 ! i = ap_sta_zero" "sta_state (si_of s1 i) = WIFI_FW_AUTH_SUCCESS" "sta_mac (si_of s1 i) = sa"
    "sta_aid_no (si_of s1 i) = 0" "ap_config s1 = ap_config s" "aid_view (ap_sp s1) = aid_view (ap_sp s)" by metis
  have "aid_free (ap_sp s1)" using aid_free_view [OF 1(9)] assms(3) by simp
  moreover have "ap_fw_ap s1" "ap_force_asoc_fail s1 = 0" "ap_cnf s1 = ap_cnf s" using 1(8) assms(5,8) by (simp_all add: ap_config_def auth_lets_def)
  moreover have "\<not> rtw_check_invalid_mac_address sa False" using assms(5) by (simp add: auth_lets_def)
  ultimately show ?thesis
    using assoc_new [OF 1(2-7), of g fc len] 1(1) assms(9-14) by metis
qed

section \<open>Shared-key authentication without the key\<close>

lemma sta_known_station: "sta_of s sa = Some i \<Longrightarrow> mfp_open (ap_as s ! i) \<Longrightarrow> i \<notin> set (ap_asoc_list s) \<Longrightarrow> auth_station sa s = Some (Some i, s)"
  by (simp add: auth_station_def asoc_unlink_def)

lemma challenge_found:
  assumes "rd_n g 34 130 = Some ([16, 128] @ replicate 128 78)" and "164 \<le> len" and "len < 2 ^ 31"
  shows "rtw_get_ie g 34 16 0 (to_s32 (usub32 len 34)) = Some (Some 34, 128)" and "mem_eq g 36 (replicate 128 78) = Some True"
proof -
  have l: "34 + 130 \<le> length g" using assms(1) by (auto simp: rd_n_def split: if_split_asm)
  then have "take 130 (drop 34 g) = [16, 128] @ replicate 128 78" using assms(1) by (simp add: rd_n_Some)
  then obtain ys where g: "drop 34 g = [16, 128] @ replicate 128 78 @ ys" by (metis append_take_drop_id append.assoc)
  then have "g ! 34 = 16" "g ! 35 = 128" "drop 36 g = replicate 128 78 @ ys"
    using l nth_drop [of 34 g 0] nth_drop [of 34 g 1] drop_drop [of 2 34 g] by simp_all
  then show "rtw_get_ie g 34 16 0 (to_s32 (usub32 len 34)) = Some (Some 34, 128)" "mem_eq g 36 (replicate 128 78) = Some True"
    using assms(2,3) l
    by (simp_all add: rtw_get_ie_def rtw_get_ie_loop.simps rd_def mem_eq_Some usub32_le to_s32_small)
qed

text \<open>C14: In a cell with shared-key authentication a station gets authenticated without the key: two frames
  that are not encrypted, the second with the constant challenge text four bytes behind the place of the
  elements, take an unknown station to the authenticated state, whatever the keys of the cell are.\<close>

theorem shared_key_not_needed:
  assumes "ap_inv s" and "sp_free_q (ap_sp s) \<noteq> []" and "sta_of s sa = None" and "auth_lets t1 sa s"
    and "t2 - t1 \<ge> ap_defs_lmt_time s" and "open_mode (ap_cnf s) = 1"
    and "plain_auth f sa 1 1" and "plain_auth g sa 1 3" and "rd_n g 34 130 = Some ([16, 128] @ replicate 128 78)"
    and "164 \<le> len" and "len < 2 ^ 31"
  shows "\<exists>s1 s2 i. OnAuth t1 f flen s = Some (True, s1) \<and> OnAuth t2 g len s1 = Some (True, s2)
    \<and> sta_of s2 sa = Some i \<and> sta_state (si_of s2 i) AND WIFI_FW_AUTH_SUCCESS \<noteq> 0"
proof -
  obtain i free used where ok: "ap_ok s used (i # free)"
    using ap_ok_free [OF assms(1)] assms(2) by (cases "sp_free_q (ap_sp s)") auto
  let ?a = "ap_sta_zero\<lparr>as_chg_txt := replicate 128 78, as_authalg := 1, as_auth_seq := 2\<rparr>"
  have "Q \<or> 1 = (1 :: u16) \<and> open_mode (ap_cnf s) = 1 \<and> WIFI_FW_AUTH_STATE = WIFI_FW_AUTH_STATE \<and> ?a = ?a" for Q using assms(6) by simp
  from auth_new [OF ok assms(3,4,7) this] obtain s1 where 1: "OnAuth t1 f flen s = Some (True, s1)" "ap_ok s1 (used @ [i]) free"
    "sta_of s1 sa = Some i" "ap_as s1 ! i = ?a" "sta_state (si_of s1 i) = WIFI_FW_AUTH_STATE" "i \<notin> set (ap_asoc_list s1)"
    "ap_config s1 = ap_config s" "ap_ptime s1 = t1" by metis
  have lets: "auth_lets t2 sa s1"
    using 1(7,8) assms(4,5) by (auto simp: auth_lets_def ap_config_def rtw_defs_attack_chk_def)
  have mode: "open_mode (ap_cnf s1) = 1" using 1(7) assms(6) by (simp add: ap_config_def)
  let ?s = "s1\<lparr>ap_ptime := t2\<rparr>"
  have ok': "ap_ok ?s (used @ [i]) free" "sta_of ?s sa = Some i" using 1(2,3) by (simp_all add: sta_of_def)
  have st: "auth_station sa ?s = Some (Some i, ?s)" by (rule sta_known_station) (use ok' 1 in \<open>simp_all add: mfp_open_def\<close>)
  let ?w = "auth_wait i ?s"
  have iu: "i \<in> set (used @ [i])" "i \<notin> set (ap_asoc_list ?s)" using 1(6) by simp_all
  have w: "ap_ok ?w (used @ [i]) free" "sta_of ?w sa = Some i" using auth_wait_ok(1) [OF ok'(1) iu] auth_wait_sta_of [OF ok'(1) iu] ok'(2) by simp_all
  have len: "i < length (sp_sta (ap_sp ?w))" "i < length (ap_as ?w)" using sta_of_used(2,3) [OF w] .
  have ws: "ap_as ?w ! i = ?a" using auth_wait_same [of i ?s] 1(4) by (simp add: same_sta_def)
  let ?s2 = "upd_si ?w i (\<lambda>x. x\<lparr>sta_state := (sta_state x AND NOT WIFI_FW_AUTH_STATE) OR WIFI_FW_AUTH_SUCCESS, sta_expire_to := ap_assoc_to ?w\<rparr>)"
  have m: "auth_machine g len 1 3 (open_mode (ap_cnf s1)) i ?w = Some (0, ?s2)"
    using ws challenge_found [OF assms(9-11)] by (simp add: auth_machine_def auth_shared_def WLAN_HDR_A3_LEN_def mfp_open_def)
  have "OnAuth t2 g len s1 = Some (True, auth_reply 3 i ?s2)"
    using OnAuth_stages [OF lets assms(8) _ _ st m] mode by (simp add: WLAN_AUTH_SAE_def)
  moreover have "sta_of (auth_reply 3 i ?s2) sa = Some i"
    using sta_of_same [OF auth_reply_same ap_same_ok [OF auth_machine_same [OF m] w(1)]] sta_of_same [OF auth_machine_same [OF m] w(1)] w(2) by simp
  moreover have "sta_state (si_of (auth_reply 3 i ?s2) i) AND WIFI_FW_AUTH_SUCCESS \<noteq> 0"
    using auth_reply_sels(1) [of i ?s2 3] len and_exp_eq_0_iff_not_bit [of "_ :: u32" 10]
    by (simp add: sta_upd_def WIFI_FW_AUTH_SUCCESS_def bit_or_iff)
  ultimately show ?thesis using 1(1) by blast
qed

section \<open>A forged frame frees a protected station\<close>

text \<open>C10: Frame protection does not protect the station object: when an authentication frame with open algorithm
  and a sequence number other than 1 comes in the name of an associated station that has a pairwise key
  and negotiated frame protection, the station is freed although the frame is not authenticated. Its
  slot goes to the free queue and stays on the list of associated stations, whose count is
  unchanged, so the lists are broken.\<close>

theorem forged_auth_frees_protected:
  assumes "ap_inv s" and "sta_of s sa = Some i" and "i \<in> set (ap_asoc_list s)" and "as_pairwise_key_installed (ap_as s ! i)"
    and "as_flags (ap_as s ! i) AND WLAN_STA_MFP \<noteq> 0" and "as_auth_seq (ap_as s ! i) = 0"
    and "auth_lets stime sa s" and "open_mode (ap_cnf s) \<in> {0, 2, 3}" and "plain_auth b sa 0 seq" and "seq \<noteq> 1"
  shows "\<exists>s'. OnAuth stime b len s = Some (False, s') \<and> i \<in> set (sp_free_q (ap_sp s')) \<and> i \<in> set (ap_asoc_list s')
    \<and> ap_asoc_list_cnt s' = ap_asoc_list_cnt s \<and> \<not> ap_inv s'"
proof -
  let ?s0 = "s\<lparr>ap_ptime := stime\<rparr>"
  have "\<not> mfp_open (ap_as s ! i)" using assms(4,5) by (simp add: mfp_open_def)
  then have st: "auth_station sa ?s0 = Some (Some i, ?s0)" and
    w: "ap_asoc_list (auth_wait i ?s0) = ap_asoc_list s" "ap_asoc_list_cnt (auth_wait i ?s0) = ap_asoc_list_cnt s" "ap_as (auth_wait i ?s0) = ap_as s"
    using assms(2) by (simp_all add: auth_station_def sta_of_def auth_wait_def Let_def)
  have "ucast seq \<noteq> (1 :: u32)"
  proof
    assume "ucast seq = (1 :: u32)"
    moreover have "unat seq < 2 ^ 16" using unsigned_less [of seq] by simp
    then have "unat (ucast seq :: u32) = unat seq" by (simp add: unsigned_ucast_eq take_bit_nat_eq_self)
    ultimately have "seq = 1" by (simp add: word_unat_eq_iff)
    then show False using assms(10) by simp
  qed
  then have "auth_machine b len 0 seq (open_mode (ap_cnf s)) i (auth_wait i ?s0) = Some (14, auth_wait i ?s0)"
    using assms(6) w(3) by (simp add: auth_machine_def)
  moreover have "(0 :: u16) \<noteq> WLAN_AUTH_SAE" "(0 :: u16) \<noteq> 0 \<longleftrightarrow> open_mode (ap_cnf s) = 1" using assms(8) by (auto simp: WLAN_AUTH_SAE_def)
  ultimately have r: "OnAuth stime b len s = Some (False, auth_fail sa (Some i) 14 (auth_wait i ?s0))"
    using OnAuth_stages [OF assms(7,9) _ _ st] by simp
  let ?s' = "auth_fail sa (Some i) 14 (auth_wait i ?s0)"
  have free: "i \<in> set (sp_free_q (ap_sp ?s'))" by (simp add: auth_fail_def free_table(2))
  have asoc: "ap_asoc_list ?s' = ap_asoc_list s" "ap_asoc_list_cnt ?s' = ap_asoc_list_cnt s" using w by (simp_all add: auth_fail_def)
  have "\<not> ap_inv ?s'" using free asoc(1) assms(3) by (auto simp: ap_inv_def ap_ok_def lists_ok_def sta_rel_def)
  then show ?thesis using r free asoc assms(3) by simp
qed

section \<open>Every run keeps the lists\<close>

text \<open>C11: From a state in order every run keeps the two lists of stations in order, as long as no authentication
  frame comes in the name of an associated station with frame protection and no deletion event
  meets a station that has associated again: the list of associated stations has no station
  twice and its count is exact, its stations are in use and not on the list of authenticating
  ones, each has an association id of the allowed range, no two have the same, and the count of
  authenticating stations is exact.\<close>

theorem ap_lists_kept:
  assumes "ap_inv s0" and "ap_reach s0 s"
  shows "distinct (ap_asoc_list s) \<and> ap_asoc_list_cnt s = int (length (ap_asoc_list s))
    \<and> (\<forall>i\<in>set (ap_asoc_list s). i \<notin> set (sp_free_q (ap_sp s)) \<and> \<not> sta_auth_linked (si_of s i)
        \<and> 1 \<le> sta_aid_no (si_of s i) \<and> sta_aid_no (si_of s i) \<le> sp_max_aid (ap_sp s))
    \<and> inj_on (\<lambda>i. sta_aid_no (si_of s i)) (set (ap_asoc_list s))
    \<and> sp_auth_list_cnt (ap_sp s) = int (card {i. i < NUM_STA \<and> sta_auth_linked (si_of s i)})"
proof -
  obtain used free where ok: "ap_ok s used free" using ap_reach_ok [OF assms(2,1)] by (auto simp: ap_inv_def)
  then have l: "lists_ok (ap_sp s) (ap_asoc_list s) used free" by (simp add: ap_ok_def)
  have "{i \<in> set used. sta_auth_linked (si_of s i)} = {i. i < NUM_STA \<and> sta_auth_linked (si_of s i)}"
    using l by (auto simp: lists_ok_def sta_rel_def)
  moreover have "inj_on (\<lambda>i. sta_aid_no (si_of s i)) (set (ap_asoc_list s))"
  proof (rule inj_onI)
    fix i j
    assume "i \<in> set (ap_asoc_list s)" "j \<in> set (ap_asoc_list s)" and eq: "sta_aid_no (si_of s i) = sta_aid_no (si_of s j)"
    then have "i \<in> set used" "j \<in> set used" "0 < sta_aid_no (si_of s i)" "0 < sta_aid_no (si_of s j)"
      using l by (auto simp: lists_ok_def)
    then have "sp_sta_aid (ap_sp s) ! (sta_aid_no (si_of s i) - 1) = Some i" "sp_sta_aid (ap_sp s) ! (sta_aid_no (si_of s j) - 1) = Some j"
      using l by (simp_all add: lists_ok_def)
    then show "i = j" using eq by simp
  qed
  ultimately show ?thesis using ok l by (auto simp: ap_ok_def lists_ok_def sta_rel_def Suc_le_eq)
qed

section \<open>Examples\<close>

text \<open>An access point that has just started, a station and its frames: open authentication, and an
  association request with the SSID and four rates.\<close>

definition ex_ap :: ap_state where
  "ex_ap = \<lparr>ap_sp = sp0, ap_as = replicate 32 ap_sta_zero, ap_asoc_list = [], ap_asoc_list_cnt = 0, ap_auth_to = 10, ap_assoc_to = 10,
     ap_expire_to = 60,
     ap_cnf = \<lparr>ac_wpa_psk = 0, ac_wpa_group_cipher = 0, ac_wpa2_group_cipher = 0, ac_wpa_pairwise_cipher = 0, ac_wpa2_pairwise_cipher = 0,
       ac_akmp = 0, ac_mfp_opt = 0, ac_dot11wCipher = 0, ac_dot11PrivacyAlgrthm = 0, ac_dot11AuthAlgrthm = 0, ac_auth_type = 0,
       ac_PMKIDList = [], ac_amsdu_mode = 0, ac_wps_beacon_ie = None, ac_qos_option = False, ac_ht_option = False, ac_ssid = [65, 66]\<rparr>,
     ap_sec = \<lparr>dot11PrivacyKeyIndex = 0, dot11DefKey = [], dot11DefKeylen = [], dot118021XGrpKeyid = 0, dot118021XGrpKey = [],
       binstallGrpkey = False\<rparr>,
     ap_acl = [\<lparr>acl_mode = 0, acl_num = 0, aclnode = [], acl_node_q = []\<rparr>, \<lparr>acl_mode = 0, acl_num = 0, aclnode = [], acl_node_q = []\<rparr>],
     ap_bss = ex_cnt, ap_ptime = 0, ap_defs_lmt_time = 5, ap_defs_lmt_sta = 2, ap_force_auth_fail = 0, ap_force_asoc_fail = 0,
     ap_fw_ap = True, ap_linked = True, ap_report_auth = False, ap_bssid = [2, 0, 0, 0, 0, 1], ap_evs = []\<rparr>"

definition ex_sa :: buf where "ex_sa = [2, 0, 0, 0, 0, 7]"

definition ex_hdr :: "u8 \<Rightarrow> buf" where
  "ex_hdr t = [t, 0, 0, 0, 2, 0, 0, 0, 0, 1, 2, 0, 0, 0, 0, 7, 2, 0, 0, 0, 0, 1, 0, 0]"

definition ex_auth :: "u8 \<Rightarrow> u8 \<Rightarrow> buf" where
  "ex_auth algorithm seq = ex_hdr 0xB0 @ [algorithm, 0, seq, 0, 0, 0]"

definition ex_assoc :: buf where
  "ex_assoc = ex_hdr 0 @ [1, 0, 10, 0, 0, 2, 65, 66, 1, 4, 0x82, 0x84, 0x8b, 0x96]"

lemma ex_ap_ok: "ap_ok ex_ap [] [0..<NUM_STA]"
proof -
  have "sta_rel sp0 [] [0..<NUM_STA]" unfolding sp0_def by (rule sta_rel_init)
  moreover have "\<forall>i<NUM_STA. \<not> sta_auth_linked (sp_sta sp0 ! i)" "sp_auth_list_cnt sp0 = 0" "length (sp_sta_aid sp0) = sp_max_aid sp0"
    "0 < sp_max_aid sp0" "0 < sp_max_num_sta sp0"
    by (simp_all add: sp0_def rtw_init_sta_priv_def Let_def rtw_init_stainfo_def macid_ctl0_def rtw_macid_ctl_init_def NUM_STA_def)
  ultimately show ?thesis by (simp add: ap_ok_def lists_ok_def ex_ap_def NUM_STA_def)
qed

lemma ex_ap_unknown: "sta_of ex_ap a = None"
proof -
  have "sta_rel (ap_sp ex_ap) [] [0..<NUM_STA]" using ex_ap_ok by (simp add: ap_ok_def lists_ok_def)
  then show ?thesis by (simp add: sta_of_def sta_rel_get)
qed

lemma ex_ap_facts:
  "sp_free_q (ap_sp ex_ap) = 0 # [1..<32]" "aid_free (ap_sp ex_ap)" "auth_lets 1 ex_sa ex_ap" "open_mode (ap_cnf ex_ap) = 0"
proof -
  show "sp_free_q (ap_sp ex_ap) = 0 # [1..<32]" using ex_ap_ok by (simp add: ap_ok_def lists_ok_def sta_rel_def NUM_STA_def upt_conv_Cons)
  have "0 < aid_limit sp0 \<and> \<not> aid_taken sp0 (aid_cand sp0 0)"
    by (simp add: sp0_def rtw_init_sta_priv_def Let_def macid_ctl0_def rtw_macid_ctl_init_def NUM_STA_def aid_limit_def aid_taken_def aid_cand_def)
  then show "aid_free (ap_sp ex_ap)" unfolding aid_free_def by (simp add: ex_ap_def) blast
  have "\<not> rtw_check_invalid_mac_address ex_sa False" by code_simp
  moreover have "rtw_access_ctrl (ap_acl ex_ap) ex_sa" unfolding ex_ap_def ap_state.simps by code_simp
  ultimately show "auth_lets 1 ex_sa ex_ap" by (simp add: auth_lets_def rtw_defs_attack_chk_def) (simp add: ex_ap_def)
  show "open_mode (ap_cnf ex_ap) = 0" by (simp add: open_mode_def ex_ap_def)
qed

lemma ex_auth_plain: "plain_auth (ex_auth a q) ex_sa (ucast a) (ucast q)"
  by (simp add: plain_auth_def ex_auth_def ex_hdr_def ex_sa_def rd_n_def rd_def RTW_GET_LE16_def)

lemma ex_assoc_passes:
  assumes "sta_mac si = ex_sa"
  shows "\<exists>si' a. assoc_elems (ap_cnf ex_ap) ex_assoc 38 28 (si, ap_sta_zero) = Some (0, si', a)"
proof -
  have "map_option fst (assoc_checks (ap_cnf ex_ap) ex_assoc 38 28 ex_sa ap_sta_zero) = Some 0"
    unfolding ex_ap_def ap_state.simps by code_simp
  then obtain a es where c: "assoc_checks (ap_cnf ex_ap) ex_assoc 38 28 ex_sa ap_sta_zero = Some (0, a, es)" by auto
  have "rtw_ap_parse_sta_wmm_ie (ap_cnf ex_ap) (si, a) ex_assoc 28 10
      = Some (si\<lparr>sta_qos_info := 0, sta_has_legacy_ac := 1, sta_uapsd := replicate 4 0\<rparr>,
          a\<lparr>as_flags := as_flags a AND NOT WLAN_STA_WME, as_qos_option := 0\<rparr>)"
    by (simp add: rtw_ap_parse_sta_wmm_ie_def ex_ap_def)
  moreover have "rtw_ap_parse_sta_ht_ie (ap_cnf ex_ap) x ex_assoc es = Some (x\<lparr>as_flags := as_flags x AND NOT WLAN_STA_HT\<rparr>)" for x
    by (simp add: rtw_ap_parse_sta_ht_ie_def ex_ap_def)
  ultimately show ?thesis using c assms by (auto simp: assoc_elems_def)
qed

lemma ex_assoc_frame:
  "RTW_GET_LE16 ex_assoc 0 = Some 0" "rd_n ex_assoc 10 6 = Some ex_sa" "length ex_assoc = 38"
  by (simp_all add: ex_assoc_def ex_hdr_def ex_sa_def RTW_GET_LE16_def rd_def rd_n_def)

theorem open_station_joins_witness:
  "\<exists>s1 s2 i aid. OnAuth 1 (ex_auth 0 1) 30 ex_ap = Some (True, s1) \<and> OnAssocReq ex_assoc 38 s1 = Some (True, s2)
    \<and> i \<in> set (ap_asoc_list s2) \<and> bit (sta_state (si_of s2 i)) 14 \<and> sta_mac (si_of s2 i) = ex_sa
    \<and> sta_aid_no (si_of s2 i) = aid \<and> 0 < aid \<and> Assoc_rsp False 0 aid ex_sa \<in> set (ap_evs s2)"
proof (rule open_station_joins [where fc = 0])
  show "ap_inv ex_ap" using ex_ap_ok by blast
  show "plain_auth (ex_auth 0 1) ex_sa 0 1" using ex_auth_plain [of 0 1] by simp
  show "ap_force_asoc_fail ex_ap = 0" by (simp add: ex_ap_def)
qed (use ex_ap_facts ex_ap_unknown ex_assoc_frame ex_assoc_passes in simp_all)

text \<open>The same cell with shared keys, and the frame with the challenge.\<close>

definition ex_ap_wep :: ap_state where
  "ex_ap_wep = ex_ap\<lparr>ap_cnf := (ap_cnf ex_ap)\<lparr>ac_dot11AuthAlgrthm := 1, ac_dot11PrivacyAlgrthm := 1\<rparr>,
     ap_sec := (ap_sec ex_ap)\<lparr>dot11DefKey := [[1, 2, 3, 4, 5]], dot11DefKeylen := [5]\<rparr>\<rparr>"

definition ex_challenge :: buf where
  "ex_challenge = ex_auth 1 3 @ [0, 0, 0, 0, 16, 128] @ replicate 128 78"

theorem shared_key_not_needed_witness:
  "\<exists>s1 s2 i. OnAuth 1 (ex_auth 1 1) 30 ex_ap_wep = Some (True, s1) \<and> OnAuth 9 ex_challenge 164 s1 = Some (True, s2)
    \<and> sta_of s2 ex_sa = Some i \<and> sta_state (si_of s2 i) AND WIFI_FW_AUTH_SUCCESS \<noteq> 0"
proof (rule shared_key_not_needed)
  have same: "ap_sp ex_ap_wep = ap_sp ex_ap" "ap_asoc_list ex_ap_wep = ap_asoc_list ex_ap" "ap_asoc_list_cnt ex_ap_wep = ap_asoc_list_cnt ex_ap"
    "ap_as ex_ap_wep = ap_as ex_ap" by (simp_all add: ex_ap_wep_def)
  then show "ap_inv ex_ap_wep" "sp_free_q (ap_sp ex_ap_wep) \<noteq> []" "sta_of ex_ap_wep ex_sa = None"
    using ex_ap_ok ex_ap_facts(1) ex_ap_unknown by (auto simp: ap_inv_def ap_ok_def sta_of_def)
  show "auth_lets 1 ex_sa ex_ap_wep" using ex_ap_facts(3) by (simp add: auth_lets_def rtw_defs_attack_chk_def ex_ap_wep_def)
  show "9 - 1 \<ge> ap_defs_lmt_time ex_ap_wep" by (simp add: ex_ap_wep_def ex_ap_def)
  show "open_mode (ap_cnf ex_ap_wep) = 1" by (simp add: open_mode_def ex_ap_wep_def)
  show "plain_auth (ex_auth 1 1) ex_sa 1 1" using ex_auth_plain [of 1 1] by simp
  show "plain_auth ex_challenge ex_sa 1 3"
    by (simp add: plain_auth_def ex_challenge_def ex_auth_def ex_hdr_def ex_sa_def rd_n_def rd_def RTW_GET_LE16_def)
  show "rd_n ex_challenge 34 130 = Some ([16, 128] @ replicate 128 78)"
    by (simp add: ex_challenge_def ex_auth_def ex_hdr_def rd_n_def)
qed simp_all

text \<open>An associated station with frame protection.\<close>

definition ex_protected :: ap_state where
  "ex_protected = ex_ap\<lparr>ap_sp := fst (rtw_aid_alloc (fst (rtw_alloc_stainfo sp0 ex_sa)) 0),
     ap_as := (ap_as ex_ap)[0 := ap_sta_zero\<lparr>as_flags := WLAN_STA_MFP, as_pairwise_key_installed := True\<rparr>],
     ap_asoc_list := [0], ap_asoc_list_cnt := 1\<rparr>"

lemma ex_protected_facts: "ap_inv ex_protected" "sta_of ex_protected ex_sa = Some 0"
proof -
  have l: "lists_ok sp0 [] [] (0 # [1..<32])" using ex_ap_ok by (simp add: ap_ok_def ex_ap_def NUM_STA_def upt_conv_Cons)
  then have "sta_rel sp0 [] (0 # [1..<32])" by (simp add: lists_ok_def)
  then obtain sp where al: "rtw_alloc_stainfo sp0 ex_sa = (sp, Some 0)" and mac: "sta_mac (sp_sta sp ! 0) = ex_sa"
    using sta_rel_alloc by metis
  note a = lists_alloc [OF l al]
  have "aid_free sp0" using ex_ap_facts(2) by (simp add: ex_ap_def)
  then have "aid_free sp" using aid_free_view [OF alloc_aid_view [OF al]] by simp
  then have "0 < snd (rtw_aid_alloc sp 0)" by (rule rtw_aid_alloc_free [OF a(1)])
  moreover obtain sp2 aid where al2: "rtw_aid_alloc sp 0 = (sp2, aid)" by fastforce
  moreover have "(0 :: nat) \<in> set ([] @ [0])" by simp
  note a2 = lists_aid [OF a(1) this a(3) al2]
  ultimately have "lists_ok sp2 ([] @ [0]) ([] @ [0]) (tl (0 # [1..<32]))"
    using a(4) by (intro lists_asoc_link) simp_all
  then have ok: "ap_ok ex_protected [0] [1..<32]"
    using al al2 by (simp add: ap_ok_def ex_protected_def ex_ap_def NUM_STA_def)
  then show "ap_inv ex_protected" by blast
  have "sta_mac (sp_sta sp2 ! 0) = ex_sa"
    using al2 mac lists_used [OF a(1)] by (auto simp: rtw_aid_alloc_def sta_upd_def Let_def split: prod.splits if_split_asm)
  then have "sta_mac (si_of ex_protected 0) = ex_sa" using al al2 by (simp add: ex_protected_def)
  then show "sta_of ex_protected ex_sa = Some 0"
    using sta_of_SomeI [OF ok, of "[]" 0 ex_sa] by (simp add: ex_sa_def is_mcast_addr_def)
qed

theorem forged_auth_frees_protected_witness:
  "\<exists>s'. OnAuth 1 (ex_auth 0 2) 30 ex_protected = Some (False, s') \<and> 0 \<in> set (sp_free_q (ap_sp s')) \<and> 0 \<in> set (ap_asoc_list s')
    \<and> ap_asoc_list_cnt s' = ap_asoc_list_cnt ex_protected \<and> \<not> ap_inv s'"
proof (rule forged_auth_frees_protected)
  show "auth_lets 1 ex_sa ex_protected" using ex_ap_facts(3) by (simp add: auth_lets_def rtw_defs_attack_chk_def ex_protected_def) (simp add: ex_ap_def)
  show "plain_auth (ex_auth 0 2) ex_sa 0 2" using ex_auth_plain [of 0 2] by simp
qed (use ex_protected_facts ex_ap_facts(4) in \<open>simp_all add: ex_protected_def ex_ap_def WLAN_STA_MFP_def\<close>)

theorem ap_lists_kept_witness:
  "\<exists>s. ap_reach ex_ap s \<and> OnAuth 1 (ex_auth 0 1) 30 ex_ap = Some (True, s) \<and> distinct (ap_asoc_list s)
    \<and> ap_asoc_list_cnt s = int (length (ap_asoc_list s))
    \<and> (\<forall>i\<in>set (ap_asoc_list s). i \<notin> set (sp_free_q (ap_sp s)) \<and> \<not> sta_auth_linked (si_of s i)
        \<and> 1 \<le> sta_aid_no (si_of s i) \<and> sta_aid_no (si_of s i) \<le> sp_max_aid (ap_sp s))
    \<and> inj_on (\<lambda>i. sta_aid_no (si_of s i)) (set (ap_asoc_list s))
    \<and> sp_auth_list_cnt (ap_sp s) = int (card {i. i < NUM_STA \<and> sta_auth_linked (si_of s i)})"
proof -
  have "ap_ok ex_ap [] (0 # [1..<32])" using ex_ap_ok by (simp add: NUM_STA_def upt_conv_Cons)
  moreover have "plain_auth (ex_auth 0 1) ex_sa 0 1" using ex_auth_plain [of 0 1] by simp
  ultimately obtain s where s: "OnAuth 1 (ex_auth 0 1) 30 ex_ap = Some (True, s)"
    using auth_new [OF _ ex_ap_unknown ex_ap_facts(3), of "[]" 0 "[1..<32]" "ex_auth 0 1" 0 WIFI_FW_AUTH_SUCCESS ap_sta_zero] ex_ap_facts(4)
    by (metis insertI1)
  have "ap_safe (Rx_auth 1 (ex_auth 0 1) 30) ex_ap" by (simp add: auth_safe_def ex_ap_unknown split: option.splits)
  then have r: "ap_reach ex_ap s" by (rule ap_reach.step [OF ap_reach.start]) (simp add: s)
  have "ap_inv ex_ap" using ex_ap_ok by blast
  from ap_lists_kept [OF this r] r s show ?thesis by blast
qed

end
