(* ===== verification/Spec2Isabelle.thy ===== *)
theory Spec2Isabelle
  imports Prelude Tlv Ie Bits Sec_Ie Elems Serial Recv_Reorder Vendor_Attr Rc4 Wep Michael Tkip Recv_Decache
    Bitmaps Tim Acl Sec_Cam Macid Sta_Table Defrag Recv_Msdu Recv_Data Recv_Func
    Ap_Sta_Ie Ap_Sec Bss_Cap Ap_Auth Ap_Lists Ap_Join
begin

text \<open>
  A verification of the Linux driver for the RTL8723DU wireless chip (\<open>src/WIFI\<close>), in the
  configuration of its Makefile and \<open>autoconf.h\<close>: USB, access point and P2P on; TDLS, WAPI and mesh
  off. A received data frame passes, in this order, the address checks, the duplicate and replay filters,
  decryption, reassembly, the 802.1X port and the reordering window of \<open>core/rtw_recv.c\<close>, and is then
  turned into Ethernet packets, which go to the network stack or back to the transmit side; management frames are
  taken apart by the element code of \<open>core/rtw_ieee80211.c\<close>; stations live in the table of
  \<open>core/rtw_sta_mgt.c\<close>, which hands out MAC ids, security CAM entries and association ids from the
  maps of \<open>core/rtw_wlan_util.c\<close>; the access point of \<open>core/rtw_ap.c\<close> announces buffered traffic in the
  TIM element and filters stations by address. A station joins and leaves it through the frame handlers of
  \<open>core/rtw_mlme_ext.c\<close>, which bring these parts together: the address filter, the station table, the
  element code, WEP for shared-key authentication and the TIM.

  \<^bold>\<open>Conventions.\<close> A machine integer is a word of its width (\<open>u8\<close> to \<open>u64\<close>), or a number with the
  wrap-around written out (\<open>usub32\<close>, \<open>uadd32\<close>, \<open>mod 2 ^ 16\<close>) where the code uses it as a length. An
  object in memory is a list of bytes, a pointer into it an offset. Loads and stores go through
  \<open>rd\<close>, \<open>rd_n\<close>, \<open>wr_n\<close> of \<open>Prelude\<close>, and a modelled function has the value \<^term>\<open>None\<close> exactly when the C
  code would leave the object; so a theorem that says a function is \<open>Some\<close> is a memory-safety
  theorem. Results of the code (\<open>_FAIL\<close>, \<open>NULL\<close>) are values inside that \<open>Some\<close>. Locks, log output and
  statistics counters are left out.

  \<^bold>\<open>Theories.\<close>
  \<^item> \<open>Prelude\<close>: types, memory access, byte order (\<open>include/osdep_service.h\<close>), collections of simplification rules.
  \<^item> \<open>Bits\<close>: the bit-field macros of \<open>include/basic_types.h\<close>; locale \<open>le_word\<close>, interpreted for 1, 2 and 4 bytes.
  \<^item> \<open>Tlv\<close>: locale \<open>tlv_scan\<close>, the contract of a search loop over tag-length-value items. Interpreted in
    \<open>Ie\<close>, \<open>Sec_Ie\<close> and \<open>Vendor_Attr\<close> (there also through \<open>attr3_format\<close> and a \<open>sublocale\<close>) for each loop of the code.
  \<^item> \<open>Ie\<close>: writers, search, insertion and removal of information elements. The lemmas relate each to an
    operation on the list of elements a well-formed buffer encodes.
  \<^item> \<open>Sec_Ie\<close>: WPA, RSN and WAPI elements and the A-MSDU protection mode; safety for all inputs, round
    trip on encoded elements cut off after any field.
  \<^item> \<open>Elems\<close>: \<open>rtw_ieee802_11_parse_elems\<close>; safety, the exact failure condition, what is recorded.
  \<^item> \<open>Vendor_Attr\<close>: WPS, P2P and WFD elements and attributes, including the two wrap-arounds of the 16-bit
    attribute length.
  \<^item> \<open>Serial\<close>: locale \<open>serial_numbers\<close>, comparison of counters that wrap around; interpreted for 12-bit
    sequence numbers (\<open>SN_LESS\<close>) and 48-bit packet numbers (\<open>PN_LESS_CHK\<close>).
  \<^item> \<open>Recv_Reorder\<close>: the block-ack window with its queue and timer, as a step relation; refinement of a
    buffer over unbounded numbers, order of delivery, the timer is armed while frames wait.
  \<^item> \<open>Recv_Decache\<close>: \<open>recv_decache\<close>, the packet-number checks and \<open>portctrl\<close>. Group frames under CCMP are protected
    from replay on a station, per key; an access point and the other ciphers check nothing.
  \<^item> \<open>Defrag\<close>: buffer operations of a received frame (locale \<open>frame_window\<close>), \<open>recvframe_defrag\<close>,
    \<open>recvframe_chkmic\<close>, \<open>recvframe_chk_defrag\<close>; exact acceptance of fragments under any ciphers, no frame is lost.
  \<^item> \<open>Recv_Data\<close>: \<open>validate_recv_frame\<close> for data frames: the addresses in each mode and direction, the
    filters of \<open>Recv_Decache\<close> on the station of \<open>Sta_Table\<close>, the cipher, the rejection of unprotected frames.
    It lets nothing unprotected pass that it should not. The code compares nothing with the length of the frame:
    62 readable bytes are enough for it to stay inside the buffer, and fewer than 24 never are.
  \<^item> \<open>Recv_Msdu\<close>: header conversion and A-MSDU unpacking; safety for every frame, exact results on encoded
    ones for a station and an access point, refused addresses and missing buffers included.
  \<^item> \<open>Recv_Func\<close>: \<open>decryptor\<close> and \<open>recv_func_posthandle\<close>, which join the stages; the exact account of frames,
    with the error path that frees a fragment twice as its one exception.
  \<^item> \<open>Rc4\<close>, \<open>Wep\<close>, \<open>Michael\<close>, \<open>Tkip\<close>: the software ciphers of \<open>core/rtw_security.c\<close>; locale \<open>rc4_mode\<close> for the
    fragment loop shared by WEP and TKIP; permutation invariant, CRC-32 and Michael against their
    reference definitions, round trips, no reuse of RC4 keys.
  \<^item> \<open>Bitmaps\<close>: the three identifier maps; locale \<open>id_set\<close>, interpreted for each.
  \<^item> \<open>Tim\<close>: the TIM element and the beacon update. \<open>Acl\<close>: the access lists; locale \<open>bounded_set\<close>.
  \<^item> \<open>Sec_Cam\<close>, \<open>Macid\<close>: key table entries and MAC ids, allocation, release and exchange, each for every table
    and every kind of station, 256-bit keys included.
  \<^item> \<open>Sta_Table\<close>: the station table; refinement of the hash lists by a list of stations under any
    sequence of operations (\<open>sta_run\<close>), release of everything a station holds.
  \<^item> \<open>Ap_Sta_Ie\<close>: the elements of an association request (\<open>rtw_ap_parse_sta_*\<close>). \<open>Ap_Sec\<close>: the
    security check admits a station exactly when the cell can serve what it asks for (\<open>admissible\<close>).
  \<^item> \<open>Bss_Cap\<close>: the counters of stations with limited capabilities and the HT operation mode; they are exact
    after any sequence of joins and leaves.
  \<^item> \<open>Ap_Auth\<close>: \<open>OnAuth\<close>, \<open>OnAssocReq\<close>, \<open>OnDeAuth\<close>, \<open>OnDisassoc\<close> and the deletion events, as functions on one state
    of the access point; frames to send and calls of other parts are a list of events. \<open>Ap_Lists\<close>: the lists of
    authenticating and associated stations as an invariant of the step relation \<open>ap_reach\<close>. \<open>Ap_Join\<close>: a station that
    sends the right frames gets in; two frames that should not have an effect do.

  \<^bold>\<open>Loops.\<close> Loops over lists are structural recursion; loops over a buffer are \<open>function\<close>s whose measure
  is the distance to the end, so they are total. The attribute loops of \<open>Vendor_Attr\<close> can make no
  progress; they are \<open>partial_function (option)\<close>s, and there is a theorem for when they do not return.
  No definition takes fuel.

  \<^bold>\<open>Not modelled.\<close> Beacon, probe, action and control frames, the station side of the management
  frames, and the queue of frames that wait for a key in \<open>recv_func\<close>. Of joining an access point: a P2P group
  owner, mesh, 802.11k, and the rates and HT parameters \<open>update_sta_info_apmode\<close> derives. The transmit path, scan
  tables, the command thread, power saving and the remaining access point code. \<open>core/crypto\<close> is
  code of another project. \<open>hal\<close>, \<open>phydm\<close>, \<open>btc\<close> and \<open>platform\<close> are register sequences and tables for the
  chip, \<open>os_dep\<close> is glue to the kernel, \<open>BT\<close> is a separate firmware loader. Mesh, TDLS and WAPI are not
  part of the build.
\<close>

end
